(* ===== verification/Prelude.thy ===== *)
theory Prelude
  imports Main "HOL-Library.Word" "HOL-Library.AList" "HOL-Library.Multiset"
begin

text \<open>
  Shared vocabulary of the development: the widths of the machine integers the C++ code uses,
  failures as values (\<open>cpp_error\<close>, \<open>result\<close>, \<open>res_bind\<close>), the theorem collections the
  component theories feed, and generic facts on lists, association lists and signed words.
\<close>

section \<open>Machine integers\<close>

text \<open>
  The build targets are 64-bit Linux: \<open>int\<close> has 32 bits, \<open>long\<close> and \<open>size_t\<close> have 64.
  Signed values are read with \<open>sint\<close>, unsigned ones with \<open>unat\<close>; arithmetic wraps around.
\<close>

type_synonym cint = "32 word"
type_synonym clong = "64 word"
type_synonym csize = "64 word"

section \<open>Failures\<close>

text \<open>
  \<open>Std_invalid_argument\<close>, \<open>Std_out_of_range\<close> and \<open>Runtime_error\<close> are the C++ exceptions the
  code or its standard library raises. \<open>Out_of_bounds\<close>, \<open>Null_dereference\<close>,
  \<open>Indeterminate_read\<close> and \<open>Overlapping_copy\<close> (of \<open>memcpy\<close>) stand for undefined behaviour the code can run into.
  \<open>Division_by_zero\<close> and \<open>Assertion_failed\<close> end the process (no build of the program disables
  \<open>assert\<close>).
  \<open>Spinning\<close> is the state of a thread that retries \<open>tryPush\<close> on a full ring buffer.
\<close>

datatype cpp_error =
    Std_invalid_argument
  | Std_out_of_range
  | Std_bad_alloc
  | Std_bad_function_call
  | Std_length_error
  | Runtime_error string
  | Out_of_bounds
  | Null_dereference
  | Indeterminate_read
  | Overlapping_copy
  | Division_by_zero
  | Assertion_failed
  | Spinning
  | Not_terminating

text \<open>The failures that a \<open>catch (...)\<close> handler sees.\<close>

fun is_exception :: "cpp_error \<Rightarrow> bool" where
  "is_exception Std_invalid_argument = True"
| "is_exception Std_out_of_range = True"
| "is_exception Std_bad_alloc = True"
| "is_exception Std_bad_function_call = True"
| "is_exception Std_length_error = True"
| "is_exception (Runtime_error _) = True"
| "is_exception _ = False"

type_synonym 'a result = "cpp_error + 'a"

definition res_bind :: "'a result \<Rightarrow> ('a \<Rightarrow> 'b result) \<Rightarrow> 'b result" where
  "res_bind r f = (case r of Inl e \<Rightarrow> Inl e | Inr x \<Rightarrow> f x)"

lemma res_bind_simps [simp]:
  "res_bind (Inl e) f = Inl e"
  "res_bind (Inr x) f = f x"
  by (simp_all add: res_bind_def)

lemma res_bind_Inr_iff [simp]:
  "res_bind r f = Inr y \<longleftrightarrow> (\<exists>x. r = Inr x \<and> f x = Inr y)"
  by (cases r) auto

lemma res_bind_cong [fundef_cong]:
  "r = r' \<Longrightarrow> (\<And>x. r' = Inr x \<Longrightarrow> f x = g x) \<Longrightarrow> res_bind r f = res_bind r' g"
  by (cases r') auto

text \<open>A loop over the elements of a container that stops at the first failure.\<close>

fun res_fold :: "('x \<Rightarrow> 's \<Rightarrow> 's result) \<Rightarrow> 'x list \<Rightarrow> 's \<Rightarrow> 's result" where
  "res_fold f [] s = Inr s"
| "res_fold f (x # xs) s = res_bind (f x s) (res_fold f xs)"

lemma res_fold_append [simp]:
  "res_fold f (xs @ ys) s = res_bind (res_fold f xs s) (res_fold f ys)"
  by (induction xs arbitrary: s) (simp_all add: res_bind_def split: sum.splits)

lemma res_fold_invariant:
  assumes "res_fold f xs s = Inr s'" "I s"
    and "\<And>x s s'. x \<in> set xs \<Longrightarrow> f x s = Inr s' \<Longrightarrow> I s \<Longrightarrow> I s'"
  shows "I s'"
  using assms by (induction xs arbitrary: s) auto

text \<open>Access by index to a \<open>std::vector\<close> or a static table: undefined out of range.\<close>

definition vec_at :: "'a list \<Rightarrow> nat \<Rightarrow> 'a result" where
  "vec_at xs i = (if i < length xs then Inr (xs ! i) else Inl Out_of_bounds)"

lemma vec_at_Inr [simp]: "i < length xs \<Longrightarrow> vec_at xs i = Inr (xs ! i)"
  by (simp add: vec_at_def)

lemma vec_at_Inl [simp]: "length xs \<le> i \<Longrightarrow> vec_at xs i = Inl Out_of_bounds"
  by (simp add: vec_at_def)

section \<open>Theorem collections\<close>

named_theorems string_simps \<open>standard string library on characters and literals\<close>
named_theorems book_simps \<open>unfolding of the order and order book operations\<close>
named_theorems fix_simps \<open>unfolding of the FIX message operations\<close>
named_theorems slot_simps \<open>unfolding of the slot tables of the TCP and FIX servers\<close>

section \<open>Lists\<close>

text \<open>The first index whose element satisfies a test: the shape of the code's search loops.\<close>

fun find_index :: "('a \<Rightarrow> bool) \<Rightarrow> 'a list \<Rightarrow> nat option" where
  "find_index P [] = None"
| "find_index P (x # xs) = (if P x then Some 0 else map_option Suc (find_index P xs))"

lemma find_index_None_iff: "find_index P xs = None \<longleftrightarrow> (\<forall>x \<in> set xs. \<not> P x)"
  by (induction xs) auto

lemma find_index_SomeD:
  "find_index P xs = Some i \<Longrightarrow> i < length xs \<and> P (xs ! i) \<and> (\<forall>j < i. \<not> P (xs ! j))"
  by (induction xs arbitrary: i) (auto split: if_splits simp: less_Suc_eq_0_disj)

lemma find_index_cong_length:
  "length xs = length ys \<Longrightarrow> (\<And>i. i < length xs \<Longrightarrow> P (xs ! i) = Q (ys ! i)) \<Longrightarrow>
   find_index P xs = find_index Q ys"
proof (induction xs ys rule: list_induct2)
  case (Cons x xs y ys)
  from Cons.prems[of 0] have "P x = Q y" by simp
  moreover have "find_index P xs = find_index Q ys"
  proof (rule Cons.IH)
    fix i assume "i < length xs"
    then show "P (xs ! i) = Q (ys ! i)" using Cons.prems[of "Suc i"] by simp
  qed
  ultimately show ?case by simp
qed simp

text \<open>Removing the first element that satisfies a test.\<close>

fun remove_first :: "('a \<Rightarrow> bool) \<Rightarrow> 'a list \<Rightarrow> 'a list" where
  "remove_first P [] = []"
| "remove_first P (x # xs) = (if P x then xs else x # remove_first P xs)"

lemma remove_first_id [simp]: "(\<And>x. x \<in> set xs \<Longrightarrow> \<not> P x) \<Longrightarrow> remove_first P xs = xs"
  by (induction xs) auto

lemma set_remove_first_subset: "set (remove_first P xs) \<subseteq> set xs"
  by (induction xs) auto

lemma mset_remove_first:
  "List.find P xs = Some x \<Longrightarrow> mset xs = add_mset x (mset (remove_first P xs))"
  by (induction xs) (auto split: if_splits)

lemma sorted_wrt_remove_first: "sorted_wrt R xs \<Longrightarrow> sorted_wrt R (remove_first P xs)"
  by (induction xs) (auto dest: set_remove_first_subset[THEN subsetD])

lemma takeWhile_append_stop [simp]:
  "(\<And>x. x \<in> set xs \<Longrightarrow> P x) \<Longrightarrow> \<not> P y \<Longrightarrow> takeWhile P (xs @ y # ys) = xs"
  by (induction xs) auto

lemma dropWhile_append_stop [simp]:
  "(\<And>x. x \<in> set xs \<Longrightarrow> P x) \<Longrightarrow> \<not> P y \<Longrightarrow> dropWhile P (xs @ y # ys) = y # ys"
  by (induction xs) auto

section \<open>Association lists\<close>

lemma map_of_delete_key [simp]:
  "map_of (AList.delete k xs) k' = (if k' = k then None else map_of xs k')"
  by (simp add: delete_conv')

lemma map_of_update_key [simp]:
  "map_of (AList.update k v xs) k' = (if k' = k then Some v else map_of xs k')"
  by (simp add: update_conv')

lemma alist_update_cases: "e \<in> set (AList.update k v xs) \<Longrightarrow> e = (k, v) \<or> e \<in> set xs"
  by (induction xs) (auto split: if_splits)

section \<open>Signed words\<close>

lemma sint_range_64: "- (2 ^ 63) \<le> sint (w :: 64 word)" "sint (w :: 64 word) < 2 ^ 63"
  using sint_ge[of w] sint_lt[of w] by simp_all

lemma sint_range_32: "- (2 ^ 31) \<le> sint (w :: 32 word)" "sint (w :: 32 word) < 2 ^ 31"
  using sint_ge[of w] sint_lt[of w] by simp_all

lemma sint_word_of_int_64:
  "- (2 ^ 63) \<le> i \<Longrightarrow> i < 2 ^ 63 \<Longrightarrow> sint (word_of_int i :: 64 word) = i"
  by (simp add: sint_sbintrunc' signed_take_bit_int_eq_self)

lemma sint_word_of_int_32:
  "- (2 ^ 31) \<le> i \<Longrightarrow> i < 2 ^ 31 \<Longrightarrow> sint (word_of_int i :: 32 word) = i"
  by (simp add: sint_sbintrunc' signed_take_bit_int_eq_self)

lemma sint_diff_64:
  "- (2 ^ 63) \<le> sint a - sint b \<Longrightarrow> sint a - sint b < 2 ^ 63 \<Longrightarrow>
   sint (a - b :: 64 word) = sint a - sint b"
  by (simp add: sint_word_diff signed_take_bit_int_eq_self)

lemma sint_add_64:
  "- (2 ^ 63) \<le> sint a + sint b \<Longrightarrow> sint a + sint b < 2 ^ 63 \<Longrightarrow>
   sint (a + b :: 64 word) = sint a + sint b"
  by (simp add: sint_word_add signed_take_bit_int_eq_self)

end
