(* ===== verification/Cpp_String.thy ===== *)
theory Cpp_String
  imports Prelude
begin

text \<open>
  The part of the C++ standard string library the exchange uses (decimal conversion both ways,
  character classes of the C locale) and \<open>source/core/string_utility.h\<close>. Strings are lists of
  bytes; the functions that work on \<open>c_str()\<close> stop at the first NUL byte.
\<close>

section \<open>Character classes\<close>

abbreviation NUL :: char where "NUL \<equiv> CHR 0x00"

definition is_space :: "char \<Rightarrow> bool" where
  "is_space c = (c = CHR '' '' \<or> c = CHR 0x09 \<or> c = CHR 0x0A \<or> c = CHR 0x0B \<or> c = CHR 0x0C \<or> c = CHR 0x0D)"

definition is_digit :: "char \<Rightarrow> bool" where
  "is_digit c = (c \<in> set ''0123456789'')"

definition digit_char :: "nat \<Rightarrow> char" where
  "digit_char d = ''0123456789'' ! d"

definition digit_val :: "char \<Rightarrow> nat" where
  "digit_val c = of_char c - 48"

lemma digit_char_cases:
  assumes "d < 10"
  shows "digit_char d \<in> set ''0123456789'' \<and> digit_val (digit_char d) = d"
proof -
  from assms have "d = 0 \<or> d = 1 \<or> d = 2 \<or> d = 3 \<or> d = 4 \<or> d = 5 \<or> d = 6 \<or> d = 7 \<or> d = 8 \<or> d = 9"
    by arith
  then show ?thesis by (elim disjE) (simp_all add: digit_char_def digit_val_def)
qed

lemma is_digit_digit_char [simp]: "d < 10 \<Longrightarrow> is_digit (digit_char d)"
  using digit_char_cases[of d] by (simp only: is_digit_def)

lemma digit_val_digit_char [simp]: "d < 10 \<Longrightarrow> digit_val (digit_char d) = d"
  using digit_char_cases[of d] by blast

section \<open>Decimal output: \<open>std::to_string\<close>\<close>

fun show_nat :: "nat \<Rightarrow> string" where
  "show_nat n = (if n < 10 then [digit_char n] else show_nat (n div 10) @ [digit_char (n mod 10)])"

declare show_nat.simps [simp del]

definition to_string :: "int \<Rightarrow> string" where
  "to_string i = (if i < 0 then CHR ''-'' # show_nat (nat (- i)) else show_nat (nat i))"

lemma show_nat_not_Nil [simp]: "show_nat n \<noteq> []"
  by (subst show_nat.simps) simp

lemma show_nat_digits: "c \<in> set (show_nat n) \<Longrightarrow> is_digit c"
proof (induction n rule: show_nat.induct)
  case (1 n)
  show ?case
  proof (cases "n < 10")
    case True
    with "1.prems" show ?thesis by (simp add: show_nat.simps[of n])
  next
    case False
    with "1.prems" consider "c \<in> set (show_nat (n div 10))" | "c = digit_char (n mod 10)"
      by (auto simp: show_nat.simps[of n])
    then show ?thesis by cases (use False "1.IH" in simp_all)
  qed
qed

section \<open>Decimal input: \<open>std::stoi\<close> and \<open>std::stol\<close>\<close>

definition digits_value :: "string \<Rightarrow> nat" where
  "digits_value ds = foldl (\<lambda>acc c. acc * 10 + digit_val c) 0 ds"

definition strtol10 :: "string \<Rightarrow> int option" where
  "strtol10 s =
     (let s1 = dropWhile is_space s;
          neg = (case s1 of c # _ \<Rightarrow> c = CHR ''-'' | [] \<Rightarrow> False);
          s2 = (case s1 of c # t \<Rightarrow> if c = CHR ''-'' \<or> c = CHR ''+'' then t else s1 | [] \<Rightarrow> []);
          ds = takeWhile is_digit s2
      in if ds = [] then None
         else Some (if neg then - int (digits_value ds) else int (digits_value ds)))"

definition stoi :: "string \<Rightarrow> int result" where
  "stoi s = (case strtol10 s of
       None \<Rightarrow> Inl Std_invalid_argument
     | Some v \<Rightarrow> if - (2 ^ 31) \<le> v \<and> v < 2 ^ 31 then Inr v else Inl Std_out_of_range)"

definition stol :: "string \<Rightarrow> int result" where
  "stol s = (case strtol10 s of
       None \<Rightarrow> Inl Std_invalid_argument
     | Some v \<Rightarrow> if - (2 ^ 63) \<le> v \<and> v < 2 ^ 63 then Inr v else Inl Std_out_of_range)"

lemma digits_value_show_nat [simp]: "digits_value (show_nat n) = n"
proof (induction n rule: show_nat.induct)
  case (1 n)
  show ?case
    by (cases "n < 10")
      (use 1 in \<open>simp_all add: show_nat.simps[of n] digits_value_def\<close>)
qed

lemma is_digit_not:
  "is_digit c \<Longrightarrow> \<not> is_space c" "is_digit c \<Longrightarrow> c \<noteq> CHR ''-''" "is_digit c \<Longrightarrow> c \<noteq> CHR ''+''"
  "is_digit c \<Longrightarrow> c \<noteq> CHR ''=''" "is_digit c \<Longrightarrow> c \<noteq> CHR 0x01" "is_digit c \<Longrightarrow> c \<noteq> CHR '',''"
  by (auto simp: is_digit_def is_space_def)

lemma takeWhile_digits_stop:
  "(\<And>c. c \<in> set ds \<Longrightarrow> is_digit c) \<Longrightarrow> (case rest of [] \<Rightarrow> True | c # _ \<Rightarrow> \<not> is_digit c) \<Longrightarrow>
   takeWhile is_digit (ds @ rest) = ds"
  by (cases rest) (auto simp: takeWhile_eq_all_conv)

lemma strtol10_to_string_append:
  assumes "case rest of [] \<Rightarrow> True | c # _ \<Rightarrow> \<not> is_digit c"
  shows "strtol10 (to_string i @ rest) = Some i"
proof (cases "i < 0")
  case True
  have "takeWhile is_digit (show_nat (nat (- i)) @ rest) = show_nat (nat (- i))"
    by (rule takeWhile_digits_stop) (use assms in \<open>auto dest: show_nat_digits\<close>)
  moreover have "\<not> is_space (CHR ''-'')" by (simp add: is_space_def)
  ultimately show ?thesis using True by (simp add: strtol10_def to_string_def Let_def)
next
  case False
  obtain c cs where c: "show_nat (nat i) = c # cs" by (cases "show_nat (nat i)") auto
  then have dig: "is_digit c" using show_nat_digits[of c "nat i"] by simp
  have "takeWhile is_digit (show_nat (nat i) @ rest) = show_nat (nat i)"
    by (rule takeWhile_digits_stop) (use assms in \<open>auto dest: show_nat_digits\<close>)
  moreover have "dropWhile is_space (show_nat (nat i) @ rest) = show_nat (nat i) @ rest"
    using is_digit_not(1)[OF dig] by (simp add: c)
  moreover have "digits_value (c # cs) = nat i" using digits_value_show_nat[of "nat i"] by (simp add: c)
  ultimately show ?thesis
    using False is_digit_not(2,3)[OF dig] by (simp add: strtol10_def to_string_def Let_def c)
qed

lemma stoi_to_string_append:
  "- (2 ^ 31) \<le> i \<Longrightarrow> i < 2 ^ 31 \<Longrightarrow> (case rest of [] \<Rightarrow> True | c # _ \<Rightarrow> \<not> is_digit c) \<Longrightarrow>
   stoi (to_string i @ rest) = Inr i"
  by (simp add: stoi_def strtol10_to_string_append)

lemma stoi_to_string: "- (2 ^ 31) \<le> i \<Longrightarrow> i < 2 ^ 31 \<Longrightarrow> stoi (to_string i) = Inr i"
  using stoi_to_string_append[of i "[]"] by simp

lemma stol_to_string: "- (2 ^ 63) \<le> i \<Longrightarrow> i < 2 ^ 63 \<Longrightarrow> stol (to_string i) = Inr i"
  using strtol10_to_string_append[of "[]" i] by (simp add: stol_def)

lemma stoi_range: "stoi s = Inr v \<Longrightarrow> - (2 ^ 31) \<le> v \<and> v < 2 ^ 31"
  by (auto simp: stoi_def split: option.splits if_splits)

lemma stol_range: "stol s = Inr v \<Longrightarrow> - (2 ^ 63) \<le> v \<and> v < 2 ^ 63"
  by (auto simp: stol_def split: option.splits if_splits)

lemma set_to_string: "set (to_string i) \<subseteq> insert (CHR ''-'') {c. is_digit c}"
  by (auto simp: to_string_def dest: show_nat_digits)

lemma to_string_no_sep [simp]:
  "CHR ''='' \<notin> set (to_string i)" "CHR 0x01 \<notin> set (to_string i)" "CHR '','' \<notin> set (to_string i)"
  using set_to_string[of i] by (auto simp: is_digit_def)

lemma to_string_not_Nil [simp]: "to_string i \<noteq> []"
  by (simp add: to_string_def)

section \<open>\<open>source/core/string_utility.h\<close>\<close>

text \<open>\<open>std::string::find\<close> on a substring: the first position where it starts.\<close>

fun string_find :: "string \<Rightarrow> string \<Rightarrow> nat option" where
  "string_find [] needle = (if needle = [] then Some 0 else None)"
| "string_find (c # cs) needle =
     (if take (length needle) (c # cs) = needle then Some 0
      else map_option Suc (string_find cs needle))"

definition replaceInString :: "string \<Rightarrow> string \<Rightarrow> string \<Rightarrow> bool \<times> string" where
  "replaceInString target frm to = (case string_find target frm of
       None \<Rightarrow> (False, target)
     | Some p \<Rightarrow> (True, take p target @ to @ drop (p + length frm) target))"

definition replaceCharacterInString :: "string \<Rightarrow> char \<Rightarrow> char \<Rightarrow> string" where
  "replaceCharacterInString target oldChar newChar =
     map (\<lambda>c. if c = oldChar then newChar else c) target"

definition contains :: "string \<Rightarrow> string \<Rightarrow> bool" where
  "contains haystack needle = (string_find haystack needle \<noteq> None)"

text \<open>
  \<open>split\<close> reads tokens with \<open>std::getline\<close>: a separator ends a token, the end of the input ends
  the last one, and nothing is read once the input is used up. A trailing separator therefore
  yields no empty last token.
\<close>

function split :: "string \<Rightarrow> char \<Rightarrow> string list" where
  "split input sep = (if input = [] then [] else
     takeWhile (\<lambda>c. c \<noteq> sep) input #
       (case dropWhile (\<lambda>c. c \<noteq> sep) input of [] \<Rightarrow> [] | _ # rest \<Rightarrow> split rest sep))"
  by pat_completeness auto
termination
proof (relation "measure (\<lambda>(input, sep). length input)")
  fix input sep x rest
  assume ne: "input \<noteq> ([] :: string)" and dw: "dropWhile (\<lambda>c. c \<noteq> sep) input = x # rest"
  have "length (dropWhile (\<lambda>c. c \<noteq> sep) input) \<le> length input" by (rule length_dropWhile_le)
  then show "((rest, sep), (input, sep)) \<in> measure (\<lambda>(input, sep). length input)" by (simp add: dw)
qed simp

declare split.simps [simp del]

lemma split_Nil [simp]: "split [] sep = []"
  by (simp add: split.simps)

lemma split_token [simp]: "sep \<notin> set tok \<Longrightarrow> split (tok @ sep # rest) sep = tok # split rest sep"
proof -
  assume "sep \<notin> set tok"
  then have "\<And>c. c \<in> set tok \<Longrightarrow> c \<noteq> sep" by auto
  then show ?thesis by (subst split.simps) simp
qed

lemma split_last [simp]:
  assumes "sep \<notin> set tok" "tok \<noteq> []"
  shows "split tok sep = [tok]"
proof -
  from assms have all: "\<forall>c \<in> set tok. c \<noteq> sep" by auto
  then have tw: "takeWhile (\<lambda>c. c \<noteq> sep) tok = tok" by (simp only: takeWhile_eq_all_conv)
  from all have dw: "dropWhile (\<lambda>c. c \<noteq> sep) tok = []" by (simp only: dropWhile_eq_Nil_conv)
  show ?thesis using assms by (subst split.simps) (simp only: tw dw if_False list.case)
qed

definition padLeft :: "string \<Rightarrow> nat \<Rightarrow> char \<Rightarrow> string" where
  "padLeft input number padChar =
     (if number > length input then replicate (number - length input) padChar @ input else input)"

lemma length_padLeft [simp]: "length (padLeft s n c) = max n (length s)"
  by (simp add: padLeft_def)

text \<open>\<open>::tolower\<close> and \<open>::toupper\<close> of the C locale change the 26 ASCII letters only.\<close>

definition tolower :: "char \<Rightarrow> char" where
  "tolower c = (case map_of (zip ''ABCDEFGHIJKLMNOPQRSTUVWXYZ'' ''abcdefghijklmnopqrstuvwxyz'') c of
     None \<Rightarrow> c | Some d \<Rightarrow> d)"

definition toupper :: "char \<Rightarrow> char" where
  "toupper c = (case map_of (zip ''abcdefghijklmnopqrstuvwxyz'' ''ABCDEFGHIJKLMNOPQRSTUVWXYZ'') c of
     None \<Rightarrow> c | Some d \<Rightarrow> d)"

definition toLower :: "string \<Rightarrow> string" where
  "toLower input = map tolower input"

definition toUpper :: "string \<Rightarrow> string" where
  "toUpper input = map toupper input"

definition c_str :: "string \<Rightarrow> string" where
  "c_str s = takeWhile (\<lambda>c. c \<noteq> NUL) s"

definition compare :: "string \<Rightarrow> string \<Rightarrow> bool" where
  "compare first second = (c_str (toLower first) = c_str (toLower second))"

definition startsWith :: "string \<Rightarrow> char \<Rightarrow> bool" where
  "startsWith inputString c = (case inputString of [] \<Rightarrow> False | d # _ \<Rightarrow> d = c)"

definition trimLeft :: "string \<Rightarrow> string" where
  "trimLeft inputString = dropWhile is_space inputString"

definition trimRight :: "string \<Rightarrow> string" where
  "trimRight inputString = rev (dropWhile is_space (rev inputString))"

definition trim :: "string \<Rightarrow> string" where
  "trim inputString = trimRight (trimLeft inputString)"

text \<open>
  Wide strings are lists of code units. A wide stream widens the characters of a C string with the
  function of its locale (\<open>widen\<close>), which leaves ASCII as it is; on the way back the units are
  converted to \<open>char\<close>.
\<close>

definition toWideString :: "(char \<Rightarrow> nat) \<Rightarrow> string \<Rightarrow> nat list" where
  "toWideString widen source = map widen (c_str source)"

definition toNarrowString :: "nat list \<Rightarrow> string" where
  "toNarrowString source = map (\<lambda>w. char_of (w mod 256)) source"

text \<open>
  \<open>core::format\<close>: \<open>snprintf\<close> writes at most \<open>MAX_BUFFER_SIZE - 1\<close> bytes of the formatted text and
  a NUL, and returns the length of the whole text. The guard of \<open>formatImplementation\<close> tests that
  unsigned length against 0 first. The formatted text itself is the argument \<open>text\<close>.
\<close>

definition MAX_BUFFER_SIZE :: nat where
  "MAX_BUFFER_SIZE = 2048"

definition formatImplementation :: "nat \<Rightarrow> string \<Rightarrow> string result" where
  "formatImplementation bufferSize text =
     (let len = (of_nat (length text) :: csize)
      in if len < 0 \<and> of_nat bufferSize \<le> len
         then Inl (Runtime_error ''String formatter , not enough buffer size'')
         else Inr (take (bufferSize - 1) text))"

definition format :: "string \<Rightarrow> string result" where
  "format text = res_bind (formatImplementation MAX_BUFFER_SIZE text) (\<lambda>chars. Inr (c_str chars))"

lemma compare_refl [simp]: "compare s s"
  by (simp add: compare_def)

lemma compare_sym: "compare s t = compare t s"
  by (auto simp: compare_def)

text \<open>Dropping and taking: trimming leaves no blank at either end.\<close>

lemma dropWhile_hd: "dropWhile P xs = y # ys \<Longrightarrow> \<not> P y"
  by (metis hd_dropWhile list.distinct(1) list.sel(1))

lemma trimRight_last: "trimRight s \<noteq> [] \<Longrightarrow> \<not> is_space (last (trimRight s))"
  unfolding trimRight_def
  by (metis hd_dropWhile last_rev rev_is_Nil_conv)

lemma trimRight_prefix: "\<exists>u. s = trimRight s @ u \<and> (\<forall>c \<in> set u. is_space c)"
proof (intro exI conjI)
  have "rev s = takeWhile is_space (rev s) @ dropWhile is_space (rev s)" by simp
  then have "rev (rev s) = rev (dropWhile is_space (rev s)) @ rev (takeWhile is_space (rev s))"
    by (metis rev_append)
  then show "s = trimRight s @ rev (takeWhile is_space (rev s))" by (simp add: trimRight_def)
  show "\<forall>c \<in> set (rev (takeWhile is_space (rev s))). is_space c"
    by (auto dest: set_takeWhileD)
qed

lemma trim_ends:
  assumes "trim s \<noteq> []"
  shows "\<not> is_space (hd (trim s)) \<and> \<not> is_space (last (trim s))"
proof -
  obtain u where u: "trimLeft s = trim s @ u"
    using trimRight_prefix[of "trimLeft s"] by (auto simp: trim_def)
  then have "hd (trimLeft s) = hd (trim s)" "trimLeft s \<noteq> []" using assms by simp_all
  moreover have "trimLeft s \<noteq> [] \<Longrightarrow> \<not> is_space (hd (trimLeft s))"
    by (simp add: trimLeft_def hd_dropWhile)
  ultimately show ?thesis using trimRight_last[of "trimLeft s"] assms by (simp add: trim_def)
qed

lemma c_str_append: "NUL \<notin> set s \<Longrightarrow> c_str (s @ t) = s @ c_str t"
  by (induction s) (auto simp: c_str_def)

lemma string_find_SomeD:
  "string_find s needle = Some p \<Longrightarrow> take (length needle) (drop p s) = needle \<and> p + length needle \<le> length s"
proof (induction s needle arbitrary: p rule: string_find.induct)
  case (2 c cs needle)
  show ?case
  proof (cases "take (length needle) (c # cs) = needle")
    case True
    then have "length needle \<le> length (c # cs)"
      by (metis length_take min.cobounded1 min_def)
    with True "2.prems" show ?thesis by simp
  next
    case False
    with "2.prems" obtain q where "string_find cs needle = Some q" "p = Suc q" by auto
    with False "2.IH" show ?thesis by simp
  qed
qed (simp split: if_splits)

text \<open>ASCII text without a NUL survives the way through a wide string.\<close>

lemma wide_narrow:
  assumes "\<And>c. of_char c < (128 :: nat) \<Longrightarrow> widen c = of_char c" "\<forall>c \<in> set s. c \<noteq> NUL \<and> of_char c < (128 :: nat)"
  shows "toNarrowString (toWideString widen s) = s"
proof -
  have "c_str s = s" using assms(2) by (auto simp: c_str_def takeWhile_eq_all_conv)
  moreover have "char_of (widen c mod 256) = c" if "c \<in> set s" for c
    using assms that by simp
  ultimately show ?thesis by (auto simp: toNarrowString_def toWideString_def intro: map_idI)
qed

end
