(* ===== verification/Unordered_Map.thy ===== *)
theory Unordered_Map
  imports Prelude
begin

text \<open>
  \<open>std::unordered_map\<close> as the exchange uses it: an association list with distinct keys. \<open>insert\<close>
  leaves an existing key alone, \<open>at\<close> throws on a missing one, \<open>operator[]\<close> inserts it. The order in
  which an iteration visits the entries is the hash table's and is never fixed by the model.
\<close>

definition umap_insert :: "'k \<Rightarrow> 'v \<Rightarrow> ('k \<times> 'v) list \<Rightarrow> ('k \<times> 'v) list" where
  "umap_insert k v m = (if map_of m k = None then m @ [(k, v)] else m)"

definition umap_at :: "('k \<times> 'v) list \<Rightarrow> 'k \<Rightarrow> 'v result" where
  "umap_at m k = (case map_of m k of None \<Rightarrow> Inl Std_out_of_range | Some v \<Rightarrow> Inr v)"

lemma map_of_umap_insert:
  "map_of (umap_insert k v m) k' =
     (if k' = k then (case map_of m k of None \<Rightarrow> Some v | Some w \<Rightarrow> Some w) else map_of m k')"
  by (auto simp: umap_insert_def map_of_append map_add_def split: option.splits)

lemma keys_umap_insert: "set (map fst (umap_insert k v m)) = insert k (set (map fst m))"
  by (auto simp: umap_insert_def map_of_eq_None_iff)

lemma umap_at_Inr_iff: "umap_at m k = Inr v \<longleftrightarrow> map_of m k = Some v"
  by (simp add: umap_at_def split: option.splits)

text \<open>\<open>operator[]\<close> of \<open>std::unordered_map\<close>: a missing key is inserted with the default value.\<close>

definition umap_index :: "'v \<Rightarrow> 'k \<Rightarrow> ('k \<times> 'v) list \<Rightarrow> 'v \<times> ('k \<times> 'v) list" where
  "umap_index d k m = (case map_of m k of Some v \<Rightarrow> (v, m) | None \<Rightarrow> (d, m @ [(k, d)]))"

lemma umap_index_hit [simp]: "map_of m k = Some v \<Longrightarrow> umap_index d k m = (v, m)"
  by (simp add: umap_index_def)

lemma umap_index_miss [simp]: "map_of m k = None \<Longrightarrow> umap_index d k m = (d, m @ [(k, d)])"
  by (simp add: umap_index_def)

lemma distinct_umap_index: "distinct (map fst m) \<Longrightarrow> distinct (map fst (snd (umap_index d k m)))"
  by (auto simp: umap_index_def map_of_eq_None_iff split: option.split)

text \<open>An iteration order: every entry exactly once.\<close>

definition is_iteration :: "('e list \<Rightarrow> 'e list) \<Rightarrow> bool" where
  "is_iteration it \<longleftrightarrow> (\<forall>es. mset (it es) = mset es)"

lemma is_iteration_id: "is_iteration (\<lambda>es. es)"
  by (simp add: is_iteration_def)

lemma is_iteration_set: "is_iteration it \<Longrightarrow> set (it es) = set es"
  by (metis is_iteration_def set_mset_mset)

lemma is_iteration_map_of:
  assumes "is_iteration it" "distinct (map fst es)"
  shows "distinct (map fst (it es))" and "map_of (it es) = map_of es"
proof -
  have m: "mset (it es) = mset es" using assms(1) by (simp add: is_iteration_def)
  show d: "distinct (map fst (it es))"
    using assms(2) m by (metis mset_eq_imp_distinct_iff mset_map)
  show "map_of (it es) = map_of es"
    using is_iteration_set[OF assms(1)] d assms(2) by (intro map_of_inject_set[THEN iffD2]) auto
qed

end
