(* ===== verification/Security_Manager.thy ===== *)
theory Security_Manager
  imports Cpp_String Unordered_Map
begin

text \<open>
  \<open>order_matcher::SecurityManager\<close> (\<open>source/order_matcher/security_manager.cpp\<close>): the two hash
  tables between symbols and numeric security ids.
\<close>

section \<open>The manager\<close>

record SecurityManager =
  m_securitiesById :: "(nat \<times> string) list"
  m_securitiesBySymbol :: "(string \<times> nat) list"

definition SecurityManager_init :: SecurityManager where
  "SecurityManager_init = \<lparr>m_securitiesById = [], m_securitiesBySymbol = []\<rparr>"

definition addSecurity :: "string \<Rightarrow> SecurityManager \<Rightarrow> nat \<times> SecurityManager" where
  "addSecurity symbol sm =
     (let keyCount = length (m_securitiesById sm)
      in (keyCount,
          sm\<lparr>m_securitiesById := umap_insert keyCount symbol (m_securitiesById sm),
             m_securitiesBySymbol := umap_insert symbol keyCount (m_securitiesBySymbol sm)\<rparr>))"

definition getSecurityId :: "SecurityManager \<Rightarrow> string \<Rightarrow> nat result" where
  "getSecurityId sm symbol = umap_at (m_securitiesBySymbol sm) symbol"

definition getSecurityName :: "SecurityManager \<Rightarrow> nat \<Rightarrow> string result" where
  "getSecurityName sm securityId = umap_at (m_securitiesById sm) securityId"

definition isSecuritySupported_symbol :: "SecurityManager \<Rightarrow> string \<Rightarrow> bool" where
  "isSecuritySupported_symbol sm symbol = (map_of (m_securitiesBySymbol sm) symbol \<noteq> None)"

definition isSecuritySupported_id :: "SecurityManager \<Rightarrow> nat \<Rightarrow> bool" where
  "isSecuritySupported_id sm securityId = (0 \<le> securityId \<and> securityId < length (m_securitiesById sm))"

section \<open>Invariant\<close>

text \<open>
  Ids are dense, every symbol of the reverse table has its own id in the forward table, and every
  registered name is found in the reverse table.
\<close>

definition sm_inv :: "SecurityManager \<Rightarrow> bool" where
  "sm_inv sm \<longleftrightarrow>
     map fst (m_securitiesById sm) = [0..<length (m_securitiesById sm)] \<and>
     (\<forall>s i. map_of (m_securitiesBySymbol sm) s = Some i \<longrightarrow> map_of (m_securitiesById sm) i = Some s) \<and>
     (\<forall>i s. map_of (m_securitiesById sm) i = Some s \<longrightarrow>
        (\<exists>j \<le> i. map_of (m_securitiesBySymbol sm) s = Some j))"

lemma sm_inv_init: "sm_inv SecurityManager_init"
  by (simp add: sm_inv_def SecurityManager_init_def)

lemma sm_inv_fresh:
  assumes "sm_inv sm" "length (m_securitiesById sm) \<le> i"
  shows "map_of (m_securitiesById sm) i = None"
proof -
  have "set (map fst (m_securitiesById sm)) = {0..<length (m_securitiesById sm)}"
    using assms(1) by (simp add: sm_inv_def del: set_map)
  then show ?thesis using assms(2) by (simp add: map_of_eq_None_iff)
qed

lemma isSecuritySupported_id_iff:
  assumes "sm_inv sm"
  shows "isSecuritySupported_id sm i \<longleftrightarrow> map_of (m_securitiesById sm) i \<noteq> None"
proof -
  have "set (map fst (m_securitiesById sm)) = {0..<length (m_securitiesById sm)}"
    using assms by (simp add: sm_inv_def del: set_map)
  then show ?thesis by (auto simp: isSecuritySupported_id_def map_of_eq_None_iff)
qed

lemma sm_inv_addSecurity:
  assumes inv: "sm_inv sm"
  shows "sm_inv (snd (addSecurity symbol sm))"
proof -
  let ?n = "length (m_securitiesById sm)"
  have fresh: "map_of (m_securitiesById sm) ?n = None" by (rule sm_inv_fresh[OF inv]) simp
  have ids: "map fst (m_securitiesById sm) = [0..<?n]" using inv by (simp add: sm_inv_def)
  have byid: "map_of (m_securitiesById (snd (addSecurity symbol sm))) i =
      (if i = ?n then Some symbol else map_of (m_securitiesById sm) i)" for i
    by (simp add: addSecurity_def Let_def map_of_umap_insert fresh)
  have bysym: "map_of (m_securitiesBySymbol (snd (addSecurity symbol sm))) s =
      (if s = symbol \<and> map_of (m_securitiesBySymbol sm) s = None then Some ?n
       else map_of (m_securitiesBySymbol sm) s)" for s
    by (auto simp: addSecurity_def Let_def map_of_umap_insert split: option.splits)
  have old: "map_of (m_securitiesBySymbol sm) s = Some i \<Longrightarrow> map_of (m_securitiesById sm) i = Some s" for s i
    using inv by (simp add: sm_inv_def)
  have rev: "map_of (m_securitiesById sm) i = Some s \<Longrightarrow>
      \<exists>j \<le> i. map_of (m_securitiesBySymbol sm) s = Some j" for s i
    using inv by (simp add: sm_inv_def)
  have lt: "map_of (m_securitiesById sm) i = Some s \<Longrightarrow> i < ?n" for i s
    using sm_inv_fresh[OF inv, of i] by fastforce
  show ?thesis
    unfolding sm_inv_def
  proof (intro conjI allI impI)
    show "map fst (m_securitiesById (snd (addSecurity symbol sm))) =
        [0..<length (m_securitiesById (snd (addSecurity symbol sm)))]"
      by (simp add: addSecurity_def Let_def umap_insert_def fresh ids)
  next
    fix s i
    assume "map_of (m_securitiesBySymbol (snd (addSecurity symbol sm))) s = Some i"
    then show "map_of (m_securitiesById (snd (addSecurity symbol sm))) i = Some s"
      using old[of s i] lt[of i s] by (auto simp: bysym byid split: if_splits)
  next
    fix i s
    assume "map_of (m_securitiesById (snd (addSecurity symbol sm))) i = Some s"
    then consider "i = ?n" "s = symbol" | "i \<noteq> ?n" "map_of (m_securitiesById sm) i = Some s"
      by (auto simp: byid split: if_splits)
    then show "\<exists>j \<le> i. map_of (m_securitiesBySymbol (snd (addSecurity symbol sm))) s = Some j"
    proof cases
      case 1
      then show ?thesis
        using old[of symbol] lt by (cases "map_of (m_securitiesBySymbol sm) symbol") (fastforce simp: bysym)+
    next
      case 2
      then show ?thesis using rev[of i s] by (auto simp: bysym)
    qed
  qed
qed

section \<open>The interface its clients use\<close>

text \<open>
  The converter, the outgoing message processor and the order printer rely on the manager only
  through ids and names: a name registered is found under its id, and ids never change.
\<close>

locale symbol_directory =
  fixes add :: "string \<Rightarrow> 'm \<Rightarrow> nat \<times> 'm"
    and id_of :: "'m \<Rightarrow> string \<Rightarrow> nat result"
    and name_of :: "'m \<Rightarrow> nat \<Rightarrow> string result"
    and invar :: "'m \<Rightarrow> bool"
  assumes invar_add: "invar m \<Longrightarrow> invar (snd (add s m))"
    and name_add: "invar m \<Longrightarrow> name_of (snd (add s m)) (fst (add s m)) = Inr s"
    and name_stable: "invar m \<Longrightarrow> name_of m i = Inr t \<Longrightarrow> name_of (snd (add s m)) i = Inr t"
    and name_of_id: "invar m \<Longrightarrow> id_of m s = Inr i \<Longrightarrow> name_of m i = Inr s"
    and id_add: "invar m \<Longrightarrow> \<exists>i. id_of (snd (add s m)) s = Inr i"
    and id_stable: "invar m \<Longrightarrow> id_of m t = Inr i \<Longrightarrow> id_of (snd (add s m)) t = Inr i"
begin

text \<open>Registering a list of symbols, as the start-up code does.\<close>

lemma invar_fold: "invar m \<Longrightarrow> invar (fold (\<lambda>s m. snd (add s m)) ss m)"
  by (induction ss arbitrary: m) (auto intro: invar_add)

lemma id_stable_fold:
  "invar m \<Longrightarrow> id_of m t = Inr i \<Longrightarrow> id_of (fold (\<lambda>s m. snd (add s m)) ss m) t = Inr i"
  by (induction ss arbitrary: m) (auto intro: invar_add id_stable)

lemma registered_roundtrip:
  assumes "invar m" "s \<in> set ss"
  shows "\<exists>i. id_of (fold (\<lambda>s m. snd (add s m)) ss m) s = Inr i \<and>
             name_of (fold (\<lambda>s m. snd (add s m)) ss m) i = Inr s"
  using assms
proof (induction ss arbitrary: m)
  case (Cons t ss)
  show ?case
  proof (cases "s = t")
    case True
    obtain i where i: "id_of (snd (add t m)) t = Inr i" using id_add[OF Cons.prems(1)] by blast
    have inv: "invar (snd (add t m))" by (rule invar_add[OF Cons.prems(1)])
    have "id_of (fold (\<lambda>s m. snd (add s m)) ss (snd (add t m))) t = Inr i"
      by (rule id_stable_fold[OF inv i])
    with name_of_id[OF invar_fold[OF inv]] True show ?thesis by auto
  next
    case False
    with Cons show ?thesis by (simp add: invar_add)
  qed
qed simp

end

interpretation security_directory: symbol_directory addSecurity getSecurityId getSecurityName sm_inv
proof
  fix m :: SecurityManager and s
  assume inv: "sm_inv m"
  have fresh: "map_of (m_securitiesById m) (length (m_securitiesById m)) = None"
    by (rule sm_inv_fresh[OF inv]) simp
  show "sm_inv (snd (addSecurity s m))" by (rule sm_inv_addSecurity[OF inv])
  show "getSecurityName (snd (addSecurity s m)) (fst (addSecurity s m)) = Inr s"
    by (simp add: getSecurityName_def umap_at_Inr_iff addSecurity_def Let_def map_of_umap_insert fresh)
  show "getSecurityName m i = Inr t \<Longrightarrow> getSecurityName (snd (addSecurity s m)) i = Inr t" for i t
    using fresh by (auto simp: getSecurityName_def umap_at_Inr_iff addSecurity_def Let_def map_of_umap_insert)
  show "getSecurityId m s = Inr i \<Longrightarrow> getSecurityName m i = Inr s" for i
    using inv by (simp add: getSecurityId_def getSecurityName_def umap_at_Inr_iff sm_inv_def)
  show "\<exists>i. getSecurityId (snd (addSecurity s m)) s = Inr i"
    by (auto simp: getSecurityId_def umap_at_Inr_iff addSecurity_def Let_def map_of_umap_insert split: option.split)
  show "getSecurityId m t = Inr i \<Longrightarrow> getSecurityId (snd (addSecurity s m)) t = Inr i" for i t
    by (auto simp: getSecurityId_def umap_at_Inr_iff addSecurity_def Let_def map_of_umap_insert)
qed

end
