(* ===== verification/Ieee_Double.thy ===== *)
theory Ieee_Double
  imports Prelude "HOL-Library.Log_Nat"
begin

text \<open>
  The C++ type \<open>double\<close> as IEEE 754 binary64: finite values are rationals with at most 53
  significant bits, every operation computes the exact result and rounds it to nearest, ties to
  even. The two zeros, the infinities and NaN are values of their own. Prices and average prices
  of the matching engine have this type.
\<close>

datatype double = Fin rat | NegZero | Inf bool | NaN

section \<open>Rounding\<close>

definition pow2 :: "int \<Rightarrow> rat" where
  "pow2 k = (if 0 \<le> k then 2 ^ nat k else 1 / 2 ^ nat (- k))"

definition round_half_even :: "rat \<Rightarrow> int" where
  "round_half_even x =
     (let f = \<lfloor>x\<rfloor>; r = x - of_int f
      in if r < 1 / 2 then f else if 1 / 2 < r then f + 1 else if even f then f else f + 1)"

definition exponent2 :: "rat \<Rightarrow> int" where
  "exponent2 x =
     (let (p, q) = quotient_of x; k = bitlen p - bitlen q in if pow2 k \<le> x then k else k - 1)"

definition round53 :: "rat \<Rightarrow> rat" where
  "round53 x = (let e = max (exponent2 x - 52) (- 1074) in of_int (round_half_even (x / pow2 e)) * pow2 e)"

definition mk_double :: "bool \<Rightarrow> rat \<Rightarrow> double" where
  "mk_double neg x =
     (if x = 0 then (if neg then NegZero else Fin 0)
      else let m = round53 \<bar>x\<bar>
           in if m = 0 then (if x < 0 then NegZero else Fin 0)
              else if 2 ^ 1024 \<le> m then Inf (x < 0)
              else Fin (if x < 0 then - m else m))"

section \<open>Operations\<close>

definition double_of_long :: "clong \<Rightarrow> double" where
  "double_of_long w = mk_double False (of_int (sint w))"

fun double_neg :: "double \<Rightarrow> bool" where
  "double_neg (Fin x) = (x < 0)"
| "double_neg NegZero = True"
| "double_neg (Inf s) = s"
| "double_neg NaN = False"

fun double_val :: "double \<Rightarrow> rat option" where
  "double_val (Fin x) = Some x"
| "double_val NegZero = Some 0"
| "double_val (Inf _) = None"
| "double_val NaN = None"

definition double_mult :: "double \<Rightarrow> double \<Rightarrow> double" where
  "double_mult a b =
     (let s = (double_neg a \<noteq> double_neg b)
      in case (double_val a, double_val b) of
           (Some x, Some y) \<Rightarrow> mk_double s (x * y)
         | (Some x, None) \<Rightarrow> if b = NaN \<or> x = 0 then NaN else Inf s
         | (None, Some y) \<Rightarrow> if a = NaN \<or> y = 0 then NaN else Inf s
         | (None, None) \<Rightarrow> if a = NaN \<or> b = NaN then NaN else Inf s)"

definition double_add :: "double \<Rightarrow> double \<Rightarrow> double" where
  "double_add a b =
     (case (double_val a, double_val b) of
        (Some x, Some y) \<Rightarrow> mk_double (double_neg a \<and> double_neg b) (x + y)
      | (Some x, None) \<Rightarrow> b
      | (None, Some y) \<Rightarrow> a
      | (None, None) \<Rightarrow> if a = b then a else NaN)"

definition double_div :: "double \<Rightarrow> double \<Rightarrow> double" where
  "double_div a b =
     (let s = (double_neg a \<noteq> double_neg b)
      in case (double_val a, double_val b) of
           (Some x, Some y) \<Rightarrow>
             if y = 0 then (if x = 0 then NaN else Inf s) else mk_double s (x / y)
         | (Some x, None) \<Rightarrow> if b = NaN then NaN else mk_double s 0
         | (None, Some y) \<Rightarrow> if a = NaN then NaN else Inf s
         | (None, None) \<Rightarrow> NaN)"

fun double_less :: "double \<Rightarrow> double \<Rightarrow> bool" where
  "double_less NaN b = False"
| "double_less a NaN = False"
| "double_less (Inf s) (Inf t) = (s \<and> \<not> t)"
| "double_less (Inf s) b = s"
| "double_less a (Inf t) = (\<not> t)"
| "double_less a b = (the (double_val a) < the (double_val b))"

definition double_ge :: "double \<Rightarrow> double \<Rightarrow> bool" where
  "double_ge a b = (a \<noteq> NaN \<and> b \<noteq> NaN \<and> \<not> double_less a b)"

lemma double_less_Fin [simp]: "double_less (Fin x) (Fin y) = (x < y)"
  by simp

lemma double_ge_Fin [simp]: "double_ge (Fin x) (Fin y) = (y \<le> x)"
  by (auto simp: double_ge_def)

section \<open>Integers below 2^53 are exact\<close>

lemma pow2_pos [simp]: "0 < pow2 k"
  by (simp add: pow2_def)

lemma pow2_neq_0 [simp]: "pow2 k \<noteq> 0"
  using pow2_pos[of k] by linarith

lemma pow2_nat [simp]: "pow2 (int n) = 2 ^ n"
  by (simp add: pow2_def)

lemma pow2_add: "pow2 (a + b) = pow2 a * pow2 b"
proof -
  have eq: "pow2 k = 2 powi k" for k
    by (simp add: pow2_def power_int_def field_simps)
  show ?thesis by (simp add: eq power_int_add)
qed

lemma pow2_mono: "a \<le> b \<Longrightarrow> pow2 a \<le> pow2 b"
proof -
  assume "a \<le> b"
  then obtain n where "b = a + int n" using zle_iff_zadd by auto
  then have "pow2 b = pow2 a * 2 ^ n" by (simp add: pow2_add)
  moreover have "pow2 a * 1 \<le> pow2 a * 2 ^ n"
    by (rule mult_left_mono) (simp_all add: less_imp_le)
  ultimately show ?thesis by simp
qed

lemma bitlen_int_bounds: "0 < p \<Longrightarrow> pow2 (bitlen p - 1) \<le> of_int p \<and> of_int p < pow2 (bitlen p)"
proof -
  assume p: "0 < p"
  from bitlen_bounds[OF p] have b: "2 ^ nat (bitlen p - 1) \<le> p" "p < 2 ^ nat (bitlen p)" by auto
  have pos: "0 < bitlen p" using p by (auto simp: bitlen_alt_def)
  have "(2 :: rat) ^ nat (bitlen p - 1) = of_int (2 ^ nat (bitlen p - 1))" by simp
  with b(1) have 1: "(2 :: rat) ^ nat (bitlen p - 1) \<le> of_int p" by (metis of_int_le_iff)
  have "(2 :: rat) ^ nat (bitlen p) = of_int (2 ^ nat (bitlen p))" by simp
  with b(2) have "(of_int p :: rat) < 2 ^ nat (bitlen p)" by (metis of_int_less_iff)
  with 1 pos show ?thesis by (simp add: pow2_def)
qed

lemma exponent2_le: "0 < x \<Longrightarrow> pow2 (exponent2 x) \<le> x"
proof -
  assume x: "0 < x"
  obtain p q where pq: "quotient_of x = (p, q)" by (cases "quotient_of x") auto
  then have q: "0 < q" and xe: "x = of_int p / of_int q"
    by (simp_all add: quotient_of_denom_pos quotient_of_div)
  with x have p: "0 < p" by (simp add: zero_less_divide_iff)
  have "pow2 (bitlen p - bitlen q - 1) = pow2 (bitlen p - 1) / pow2 (bitlen q)"
    using pow2_add[of "bitlen p - bitlen q - 1" "bitlen q"] pow2_pos[of "bitlen q"]
    by (simp add: field_simps)
  also have "\<dots> \<le> of_int p / of_int q"
    using bitlen_int_bounds[OF p] bitlen_int_bounds[OF q] q p
    by (intro frac_le) (auto simp: less_imp_le)
  finally show ?thesis by (simp add: exponent2_def pq xe[symmetric] Let_def)
qed

lemma round_half_even_int [simp]: "round_half_even (of_int n) = n"
  by (simp add: round_half_even_def)

lemma round53_int:
  assumes "0 < n" "n < 2 ^ 53"
  shows "round53 (of_int n) = of_int n"
proof -
  let ?x = "of_int n :: rat"
  define e where "e = max (exponent2 ?x - 52) (- 1074)"
  have "pow2 (exponent2 ?x) \<le> ?x" using assms by (intro exponent2_le) simp
  also have "?x < pow2 53"
  proof -
    have "?x < of_int (2 ^ 53)" using assms(2) by (simp only: of_int_less_iff)
    then show ?thesis by (simp add: pow2_def)
  qed
  finally have "exponent2 ?x < 53" using pow2_mono[of 53 "exponent2 ?x"] by linarith
  then have e: "e \<le> 0" by (simp add: e_def)
  then have p: "pow2 (- e) = of_int (2 ^ nat (- e))" by (simp add: pow2_def)
  have "pow2 e * pow2 (- e) = 1" using pow2_add[of e "- e"] by (simp add: pow2_def)
  then have "?x / pow2 e = ?x * (pow2 e * pow2 (- e)) / pow2 e" by simp
  then have "?x / pow2 e = ?x * pow2 (- e)" by simp
  then have "?x / pow2 e = of_int (n * 2 ^ nat (- e))" by (simp add: p)
  then have "round_half_even (?x / pow2 e) = n * 2 ^ nat (- e)" by (simp only: round_half_even_int)
  then have "of_int (round_half_even (?x / pow2 e)) * pow2 e = ?x * (pow2 (- e) * pow2 e)"
    by (simp add: p)
  also have "\<dots> = ?x" using \<open>pow2 e * pow2 (- e) = 1\<close> by (simp add: mult.commute)
  finally show ?thesis by (simp add: round53_def Let_def e_def)
qed

lemma mk_double_int:
  assumes "\<bar>n\<bar> < 2 ^ 53" "n \<noteq> 0"
  shows "mk_double s (of_int n) = Fin (of_int n)"
proof -
  have "round53 \<bar>of_int n\<bar> = of_int \<bar>n\<bar>"
    using round53_int[of "\<bar>n\<bar>"] assms by simp
  moreover have "of_int \<bar>n\<bar> < (2 ^ 1024 :: rat)"
  proof -
    have "\<bar>n\<bar> < 2 ^ 1024" using assms(1) by (rule less_le_trans) simp
    then have "(of_int \<bar>n\<bar> :: rat) < of_int (2 ^ 1024)" by (simp only: of_int_less_iff)
    then show ?thesis by simp
  qed
  ultimately show ?thesis using assms(2) by (auto simp: mk_double_def Let_def)
qed

lemma mk_double_zero [simp]: "mk_double False 0 = Fin 0" "mk_double True 0 = NegZero"
  by (simp_all add: mk_double_def)

lemma double_of_long_exact: "\<bar>sint w\<bar> < 2 ^ 53 \<Longrightarrow> double_of_long w = Fin (of_int (sint w))"
  unfolding double_of_long_def
  by (cases "sint w = 0") (simp_all only: of_int_0 mk_double_zero mk_double_int not_False_eq_True)

lemma round53_range:
  assumes "1 \<le> x"
  shows "0 < round53 x" "round53 x \<le> 2 * x"
proof -
  define e where "e = max (exponent2 x - 52) (- 1074)"
  have "pow2 (exponent2 x) \<le> x" using assms by (intro exponent2_le) simp
  moreover have "pow2 (exponent2 x - 52) \<le> pow2 (exponent2 x)" by (rule pow2_mono) simp
  moreover have "pow2 (- 1074) \<le> 1" using pow2_mono[of "- 1074" 0] by (simp add: pow2_def)
  ultimately have le: "pow2 e \<le> x" using assms by (auto simp: e_def max_def)
  let ?y = "x / pow2 e"
  have y: "1 \<le> ?y" using le pow2_pos[of e] by simp
  then have "1 \<le> \<lfloor>?y\<rfloor>" by linarith
  moreover have "\<lfloor>?y\<rfloor> \<le> round_half_even ?y" "round_half_even ?y \<le> \<lfloor>?y\<rfloor> + 1"
    by (simp_all add: round_half_even_def Let_def)
  ultimately have r: "1 \<le> round_half_even ?y" "of_int (round_half_even ?y) \<le> ?y + 1" by linarith+
  have m: "round53 x = of_int (round_half_even ?y) * pow2 e" by (simp add: round53_def Let_def e_def)
  show "0 < round53 x" using r(1) pow2_pos[of e] by (simp add: m)
  have "round53 x \<le> (?y + 1) * pow2 e"
    unfolding m using r(2) pow2_pos[of e, THEN less_imp_le] by (rule mult_right_mono)
  also have "\<dots> = x + pow2 e" using pow2_pos[of e] by (simp add: distrib_right)
  finally show "round53 x \<le> 2 * x" using le by simp
qed

text \<open>No \<open>long\<close> is out of the range of a \<open>double\<close>: the result of the conversion is a finite number.\<close>

lemma double_of_long_finite: "\<exists>x. double_of_long w = Fin x"
proof (cases "sint w = 0")
  case False
  let ?x = "\<bar>of_int (sint w) :: rat\<bar>"
  have "1 \<le> \<bar>sint w\<bar>" using False by simp
  then have ge: "1 \<le> ?x" by (metis of_int_1_le_iff of_int_abs)
  have "\<bar>sint w\<bar> \<le> 2 ^ 63" using sint_range_64[of w] by (simp add: abs_le_iff)
  then have "of_int \<bar>sint w\<bar> \<le> (of_int (2 ^ 63) :: rat)" by (simp only: of_int_le_iff)
  then have "?x \<le> 2 ^ 63" by simp
  then have "round53 ?x \<le> 2 * 2 ^ 63" using round53_range(2)[OF ge] by linarith
  then have "round53 ?x \<le> 2 ^ 64" by simp
  also have "(2 :: rat) ^ 64 < 2 ^ 1024" by (rule power_strict_increasing) simp_all
  finally show ?thesis
    using round53_range(1)[OF ge] False unfolding double_of_long_def by (auto simp: mk_double_def Let_def)
qed (simp add: double_of_long_def)

end
