(* ===== verification/Orders.thy ===== *)
theory Orders
  imports Security_Manager Ieee_Double
begin

text \<open>
  \<open>order_matcher::Order\<close> (\<open>source/order_matcher/order.h\<close>, \<open>order.cpp\<close>) and the messages that
  carry orders in and out of the central order book (\<open>base_message.h\<close>, \<open>incoming_message.h\<close>,
  \<open>outgoing_message.h\<close>).
\<close>

section \<open>Enumerations\<close>

datatype OrderSide = SIDE_NON_SUPPORTED | BUY | SELL
datatype OrderType = TYPE_NON_SUPPORTED | LIMIT
datatype OrderStatus = ACCEPTED | PARTIALLY_FILLED | FILLED | DONE_FOR_DAY | CANCELED | REPLACED
  | PENDING_CANCEL | STOPPED | REJECTED

text \<open>The underlying integer of an \<open>OrderStatus\<close> (the enumerators are numbered from 0).\<close>

primrec OrderStatus_value :: "OrderStatus \<Rightarrow> int" where
  "OrderStatus_value ACCEPTED = 0"
| "OrderStatus_value PARTIALLY_FILLED = 1"
| "OrderStatus_value FILLED = 2"
| "OrderStatus_value DONE_FOR_DAY = 3"
| "OrderStatus_value CANCELED = 4"
| "OrderStatus_value REPLACED = 5"
| "OrderStatus_value PENDING_CANCEL = 6"
| "OrderStatus_value STOPPED = 7"
| "OrderStatus_value REJECTED = 8"

section \<open>The order\<close>

record Order =
  m_orderID :: csize
  m_clientOrderID :: string
  m_securityId :: nat
  m_sessionId :: nat
  m_side :: OrderSide
  m_orderType :: OrderType
  m_price :: double
  m_quantity :: clong
  m_openQuantity :: clong
  m_executedQuantity :: clong
  m_cancelled :: bool
  m_averageExecutedPrice :: double
  m_lastExecutedPrice :: double
  m_lastExecutedQuantity :: clong
  m_orderStatus :: OrderStatus
  m_lastExecution :: OrderStatus

text \<open>
  \<open>Order::Order()\<close> leaves the id, security, session, side, type and cancel flag unset: they keep
  what the storage \<open>mem\<close> held. (A side with any other bit pattern behaves as
  \<open>SIDE_NON_SUPPORTED\<close>: the code only compares it with \<open>BUY\<close> and \<open>SELL\<close>.) The client order id
  is a \<open>std::string\<close> and starts empty.
\<close>

definition Order_default :: "Order \<Rightarrow> Order" where
  "Order_default mem = mem\<lparr>m_clientOrderID := [], m_price := Fin 0, m_quantity := 0,
     m_openQuantity := 0, m_executedQuantity := 0, m_averageExecutedPrice := Fin 0,
     m_lastExecutedPrice := Fin 0, m_lastExecutedQuantity := 0,
     m_orderStatus := ACCEPTED, m_lastExecution := ACCEPTED\<rparr>"

definition Order_new :: "csize \<Rightarrow> string \<Rightarrow> nat \<Rightarrow> nat \<Rightarrow> OrderSide \<Rightarrow> OrderType \<Rightarrow> double \<Rightarrow> clong \<Rightarrow> Order" where
  "Order_new orderId clientOrderID securityId sessionId side type price quantity =
     \<lparr>m_orderID = orderId, m_clientOrderID = clientOrderID, m_securityId = securityId,
      m_sessionId = sessionId, m_side = side, m_orderType = type, m_price = price,
      m_quantity = quantity, m_openQuantity = quantity, m_executedQuantity = 0,
      m_cancelled = False, m_averageExecutedPrice = Fin 0, m_lastExecutedPrice = Fin 0,
      m_lastExecutedQuantity = 0, m_orderStatus = ACCEPTED, m_lastExecution = ACCEPTED\<rparr>"

definition execute :: "double \<Rightarrow> clong \<Rightarrow> Order \<Rightarrow> Order" where
  "execute price quantity ord =
     (let avg1 = double_mult (m_averageExecutedPrice ord) (double_of_long (m_executedQuantity ord));
          avg2 = double_add avg1 (double_mult price (double_of_long quantity));
          avg3 = double_div avg2 (double_of_long (quantity + m_executedQuantity ord))
      in ord\<lparr>m_averageExecutedPrice := avg3,
             m_openQuantity := m_openQuantity ord - quantity,
             m_executedQuantity := m_executedQuantity ord + quantity,
             m_lastExecutedPrice := price,
             m_lastExecutedQuantity := quantity\<rparr>)"

definition cancel :: "Order \<Rightarrow> Order" where
  "cancel ord = ord\<lparr>m_cancelled := True\<rparr>"

definition isFilled :: "Order \<Rightarrow> bool" where
  "isFilled ord = (m_executedQuantity ord = m_quantity ord)"

definition isPartiallyFilled :: "Order \<Rightarrow> bool" where
  "isPartiallyFilled ord =
     (0 < sint (m_executedQuantity ord) \<and> sint (m_executedQuantity ord) < sint (m_quantity ord))"

definition setQuantity :: "clong \<Rightarrow> Order \<Rightarrow> Order" where
  "setQuantity quantity ord = ord\<lparr>m_quantity := quantity, m_openQuantity := quantity\<rparr>"

definition setPrice :: "double \<Rightarrow> Order \<Rightarrow> Order" where
  "setPrice price ord = ord\<lparr>m_price := price\<rparr>"

text \<open>
  \<open>Order::toString\<close>: the printf conversion \<open>%d\<close> reads the low 32 bits of the session id as an
  \<open>int\<close>, \<open>%s\<close> the C strings.
\<close>

definition Order_toString :: "SecurityManager \<Rightarrow> Order \<Rightarrow> string result" where
  "Order_toString sm ord =
     (let side = (if m_side ord = BUY then ''BUY'' else ''SELL'')
      in res_bind (getSecurityName sm (m_securityId ord)) (\<lambda>name.
         format (''Client session id: '' @ to_string (sint (of_nat (m_sessionId ord) :: cint)) @
                 '', Client ID: '' @ c_str (m_clientOrderID ord) @ '', Symbol: '' @ c_str name @
                 '', Side: '' @ side)))"

section \<open>Messages\<close>

datatype IncomingMessageType = IN_NEW_ORDER | IN_CANCEL_ORDER

record IncomingMessage =
  in_order :: Order
  m_originalOrderID :: string
  m_type :: IncomingMessageType

definition IncomingMessage_new :: "Order \<Rightarrow> IncomingMessageType \<Rightarrow> string \<Rightarrow> IncomingMessage" where
  "IncomingMessage_new ord type origClientOrderID =
     \<lparr>in_order = ord, m_originalOrderID = origClientOrderID, m_type = type\<rparr>"

primrec IncomingMessageType_toString :: "IncomingMessageType \<Rightarrow> string" where
  "IncomingMessageType_toString IN_NEW_ORDER = ''NEW_ORDER''"
| "IncomingMessageType_toString IN_CANCEL_ORDER = ''CANCEL_ORDER''"

record OutgoingMessage =
  out_order :: Order
  m_message :: string

definition OutgoingMessage_new :: "Order \<Rightarrow> OrderStatus \<Rightarrow> string \<Rightarrow> OutgoingMessage" where
  "OutgoingMessage_new ord executionType message =
     \<lparr>out_order = ord\<lparr>m_orderStatus := executionType, m_lastExecution := executionType\<rparr>,
      m_message = message\<rparr>"

definition OutgoingMessage_toString :: "OutgoingMessage \<Rightarrow> string result" where
  "OutgoingMessage_toString msg = (case m_lastExecution (out_order msg) of
       ACCEPTED \<Rightarrow> Inr ''ACCEPTED''
     | FILLED \<Rightarrow> Inr ''FILLED''
     | PARTIALLY_FILLED \<Rightarrow> Inr ''PARTIALLY_FIELD''
     | CANCELED \<Rightarrow> Inr ''CANCELED''
     | REJECTED \<Rightarrow> Inr ''REJECTED''
     | _ \<Rightarrow> Inl Std_invalid_argument)"

definition hasMessage :: "OutgoingMessage \<Rightarrow> bool" where
  "hasMessage msg = (length (m_message msg) \<noteq> 0)"

section \<open>The accounting invariant of an order\<close>

text \<open>
  What is open and what is executed always add up to the order's quantity. The sum is a sum of
  64-bit words, so the invariant needs no bound on the quantities.
\<close>

definition order_balanced :: "Order \<Rightarrow> bool" where
  "order_balanced ord \<longleftrightarrow> m_openQuantity ord + m_executedQuantity ord = m_quantity ord"

text \<open>A live order of positive size that has not been overfilled.\<close>

definition order_open :: "Order \<Rightarrow> bool" where
  "order_open ord \<longleftrightarrow> order_balanced ord \<and> 0 < sint (m_openQuantity ord) \<and>
     0 \<le> sint (m_executedQuantity ord) \<and>
     sint (m_openQuantity ord) + sint (m_executedQuantity ord) < 2 ^ 63"

lemma execute_sels [simp]:
  "m_openQuantity (execute p q ord) = m_openQuantity ord - q"
  "m_executedQuantity (execute p q ord) = m_executedQuantity ord + q"
  "m_lastExecutedPrice (execute p q ord) = p"
  "m_lastExecutedQuantity (execute p q ord) = q"
  "m_quantity (execute p q ord) = m_quantity ord"
  "m_price (execute p q ord) = m_price ord"
  "m_orderID (execute p q ord) = m_orderID ord"
  "m_side (execute p q ord) = m_side ord"
  "m_sessionId (execute p q ord) = m_sessionId ord"
  "m_clientOrderID (execute p q ord) = m_clientOrderID ord"
  "m_securityId (execute p q ord) = m_securityId ord"
  by (simp_all add: execute_def Let_def)

lemma order_balanced_execute [simp]: "order_balanced (execute p q ord) = order_balanced ord"
  by (simp add: order_balanced_def)

lemma order_balanced_new [simp]: "order_balanced (Order_new i c s n sd t p q)"
  by (simp add: order_balanced_def Order_new_def)

lemma isFilled_iff_open: "order_balanced ord \<Longrightarrow> isFilled ord \<longleftrightarrow> m_openQuantity ord = 0"
  by (auto simp: isFilled_def order_balanced_def)

lemma sint_quantity: "order_open ord \<Longrightarrow>
   sint (m_quantity ord) = sint (m_openQuantity ord) + sint (m_executedQuantity ord)"
  using sint_add_64[of "m_openQuantity ord" "m_executedQuantity ord"]
  by (simp add: order_open_def order_balanced_def)

lemma order_open_execute:
  assumes op: "order_open ord" and q: "0 \<le> sint q" "sint q < sint (m_openQuantity ord)"
  shows "order_open (execute p q ord)"
proof -
  have "sint (m_openQuantity ord - q) = sint (m_openQuantity ord) - sint q"
    using q sint_range_64[of "m_openQuantity ord"] by (intro sint_diff_64) linarith+
  moreover have "sint (m_executedQuantity ord + q) = sint (m_executedQuantity ord) + sint q"
    using op q by (intro sint_add_64) (auto simp: order_open_def)
  ultimately show ?thesis using op q by (auto simp: order_open_def)
qed

end
