(* ===== verification/Order_Book.thy ===== *)
theory Order_Book
  imports Orders
begin

text \<open>
  \<open>order_matcher::OrderBook\<close> (\<open>source/order_matcher/order_book.h\<close>, \<open>order_book.cpp\<close>): the two
  price ladders of one security and the matching loop. The invariants and the properties of
  matching are at the end.
\<close>

section \<open>\<open>std::multimap\<close>\<close>

text \<open>
  A \<open>std::multimap\<close> is its sequence of entries in iteration order. \<open>insert\<close> places a new entry at
  the upper bound of its key: before the first entry whose key comes strictly after it.
\<close>

fun multimap_insert :: "('k \<Rightarrow> 'k \<Rightarrow> bool) \<Rightarrow> 'k \<Rightarrow> 'v \<Rightarrow> ('k \<times> 'v) list \<Rightarrow> ('k \<times> 'v) list" where
  "multimap_insert before k v [] = [(k, v)]"
| "multimap_insert before k v (e # es) =
     (if before k (fst e) then (k, v) # e # es else e # multimap_insert before k v es)"

lemma mset_multimap_insert [simp]: "mset (multimap_insert before k v es) = add_mset (k, v) (mset es)"
  by (induction es) auto

lemma set_multimap_insert [simp]: "set (multimap_insert before k v es) = insert (k, v) (set es)"
  by (induction es) auto

section \<open>The book\<close>

record OrderBook =
  m_bidOrders :: "(double \<times> Order) list"
  m_askOrders :: "(double \<times> Order) list"

definition greater_double :: "double \<Rightarrow> double \<Rightarrow> bool" where
  "greater_double a b = double_less b a"

definition OrderBook_empty :: OrderBook where
  "OrderBook_empty = \<lparr>m_bidOrders = [], m_askOrders = []\<rparr>"

definition OrderBook_accept :: "(Order \<Rightarrow> 'v \<Rightarrow> 'v result) \<Rightarrow> OrderBook \<Rightarrow> 'v \<Rightarrow> 'v result" where
  "OrderBook_accept visit book v =
     (let visit_all = (\<lambda>es v. fold (\<lambda>e r. res_bind r (visit (snd e))) es (Inr v))
      in res_bind (visit_all (m_bidOrders book) v) (\<lambda>v'. visit_all (m_askOrders book) v'))"

definition OrderBook_insert :: "Order \<Rightarrow> OrderBook \<Rightarrow> OrderBook" where
  "OrderBook_insert ord book =
     (if m_side ord = BUY
      then book\<lparr>m_bidOrders := multimap_insert greater_double (m_price ord) ord (m_bidOrders book)\<rparr>
      else book\<lparr>m_askOrders := multimap_insert double_less (m_price ord) ord (m_askOrders book)\<rparr>)"

definition is_order :: "string \<Rightarrow> nat \<Rightarrow> double \<times> Order \<Rightarrow> bool" where
  "is_order clientID sessionId e =
     (m_sessionId (snd e) = sessionId \<and> m_clientOrderID (snd e) = clientID)"

text \<open>
  \<open>find\<close> returns a pointer into one of the maps; the model returns the position of the entry in
  the ladder of the side that was asked for.
\<close>

definition OrderBook_find :: "OrderBook \<Rightarrow> string \<Rightarrow> nat \<Rightarrow> OrderSide \<Rightarrow> nat option" where
  "OrderBook_find book clientID sessionId side =
     (if side = BUY then find_index (is_order clientID sessionId) (m_bidOrders book)
      else if side = SELL then find_index (is_order clientID sessionId) (m_askOrders book)
      else None)"

definition OrderBook_erase :: "Order \<Rightarrow> OrderBook \<Rightarrow> OrderBook" where
  "OrderBook_erase ord book =
     (if m_side ord = BUY
      then book\<lparr>m_bidOrders := remove_first (is_order (m_clientOrderID ord) (m_sessionId ord)) (m_bidOrders book)\<rparr>
      else if m_side ord = SELL
      then book\<lparr>m_askOrders := remove_first (is_order (m_clientOrderID ord) (m_sessionId ord)) (m_askOrders book)\<rparr>
      else book)"

definition OrderBook_isEmpty :: "OrderBook \<Rightarrow> bool" where
  "OrderBook_isEmpty book = (length (m_bidOrders book) = 0 \<and> length (m_askOrders book) = 0)"

definition matchTwoOrders :: "Order \<Rightarrow> Order \<Rightarrow> Order \<times> Order" where
  "matchTwoOrders bid ask =
     (let price = m_price ask;
          quantity = (if sint (m_openQuantity ask) < sint (m_openQuantity bid)
                      then m_openQuantity ask else m_openQuantity bid)
      in (execute price quantity bid, execute price quantity ask))"

text \<open>
  One turn of the loop of \<open>processMatching\<close>: \<open>None\<close> when the loop returns, otherwise the book
  after the turn and the two orders it pushes to the queue of processed orders.
\<close>

definition match_step :: "OrderBook \<Rightarrow> (OrderBook \<times> Order \<times> Order) option" where
  "match_step book =
     (case (m_bidOrders book, m_askOrders book) of
        ((kb, bid) # bids, (ka, ask) # asks) \<Rightarrow>
          if double_ge (m_price bid) (m_price ask)
          then let (bid', ask') = matchTwoOrders bid ask
               in Some (book\<lparr>m_bidOrders := (if isFilled bid' then bids else (kb, bid') # bids),
                             m_askOrders := (if isFilled ask' then asks else (ka, ask') # asks)\<rparr>,
                        bid', ask')
          else None
      | _ \<Rightarrow> None)"

partial_function (option) processMatching ::
  "OrderBook \<Rightarrow> Order list \<Rightarrow> (bool \<times> OrderBook \<times> Order list) option" where
  "processMatching book processedOrders =
     (case match_step book of
        None \<Rightarrow> Some (processedOrders \<noteq> [], book, processedOrders)
      | Some (book', bid, ask) \<Rightarrow> processMatching book' (processedOrders @ [bid, ask]))"

section \<open>Price and time priority\<close>

text \<open>
  A ladder is ordered by a comparison that is a strict weak order on the prices that occur.
  Entries of one price stay in the order of their stamps.
\<close>

locale price_ladder =
  fixes before :: "'k \<Rightarrow> 'k \<Rightarrow> bool"
    and proper :: "'k \<Rightarrow> bool"
    and stamp :: "'v \<Rightarrow> nat"
  assumes before_irrefl: "proper a \<Longrightarrow> \<not> before a a"
    and before_trans: "before a b \<Longrightarrow> before b c \<Longrightarrow> proper a \<Longrightarrow> proper b \<Longrightarrow> proper c \<Longrightarrow> before a c"
    and before_weak: "\<not> before a b \<Longrightarrow> \<not> before b c \<Longrightarrow> proper a \<Longrightarrow> proper b \<Longrightarrow> proper c \<Longrightarrow> \<not> before a c"
begin

definition prior :: "'k \<times> 'v \<Rightarrow> 'k \<times> 'v \<Rightarrow> bool" where
  "prior x y \<longleftrightarrow> before (fst x) (fst y) \<or> (\<not> before (fst y) (fst x) \<and> stamp (snd x) < stamp (snd y))"

definition ladder :: "('k \<times> 'v) list \<Rightarrow> bool" where
  "ladder es \<longleftrightarrow> sorted_wrt prior es \<and> (\<forall>e \<in> set es. proper (fst e))"

lemma before_prior:
  assumes k: "before k (fst e)" and p: "prior e y" and "proper k" "proper (fst e)" "proper (fst y)"
  shows "before k (fst y)"
proof (cases "before (fst e) (fst y)")
  case True
  then show ?thesis using before_trans[OF k] assms by blast
next
  case False
  with p have "\<not> before (fst y) (fst e)" by (simp add: prior_def)
  then show ?thesis using before_weak[of k "fst y" "fst e"] assms by blast
qed

lemma ladder_insert:
  assumes "ladder es" "proper k" "\<And>e. e \<in> set es \<Longrightarrow> stamp (snd e) < stamp v"
  shows "ladder (multimap_insert before k v es)"
  using assms
proof (induction es)
  case (Cons e es)
  show ?case
  proof (cases "before k (fst e)")
    case True
    have "prior (k, v) y" if y: "y \<in> set (e # es)" for y
    proof (cases "y = e")
      case False
      with y Cons.prems have "prior e y" "proper (fst e)" "proper (fst y)" by (auto simp: ladder_def)
      then show ?thesis using before_prior[OF True] Cons.prems(2) by (simp add: prior_def)
    qed (simp add: True prior_def)
    then show ?thesis using True Cons.prems by (auto simp: ladder_def)
  next
    case False
    with Cons.prems(3)[of e] have "prior e (k, v)" by (simp add: prior_def)
    moreover have "ladder (multimap_insert before k v es)"
      using Cons by (simp add: ladder_def)
    ultimately show ?thesis using False Cons.prems by (auto simp: ladder_def)
  qed
qed (simp add: ladder_def)

lemma ladder_tl: "ladder (e # es) \<Longrightarrow> ladder es"
  by (simp add: ladder_def)

lemma ladder_remove: "ladder es \<Longrightarrow> ladder (remove_first P es)"
  by (auto simp: ladder_def sorted_wrt_remove_first dest: set_remove_first_subset[THEN subsetD])

lemma ladder_same_stamp:
  assumes "ladder ((k, v) # es)" "stamp w = stamp v"
  shows "ladder ((k, w) # es)"
  using assms by (auto simp: ladder_def prior_def)

text \<open>A ladder is unaffected by changes of an order that keep its key and stamp.\<close>

lemma ladder_cong:
  assumes "map (\<lambda>e. (fst e, stamp (snd e))) es = map (\<lambda>e. (fst e, stamp (snd e))) es'"
  shows "ladder es = ladder es'"
proof -
  let ?f = "\<lambda>e. (fst e, stamp (snd e))"
  let ?R = "\<lambda>x y. before (fst x) (fst y) \<or> (\<not> before (fst y) (fst x) \<and> snd x < (snd y :: nat))"
  have "ladder xs \<longleftrightarrow> sorted_wrt ?R (map ?f xs) \<and> (\<forall>k \<in> set (map ?f xs). proper (fst k))" for xs
    by (simp add: ladder_def sorted_wrt_map prior_def[abs_def])
  then show ?thesis by (simp only: assms)
qed

lemma ladder_best:
  assumes "ladder (e # es)" "y \<in> set es"
  shows "\<not> before (fst y) (fst e) \<and> (\<not> before (fst e) (fst y) \<longrightarrow> stamp (snd e) < stamp (snd y))"
proof -
  have p: "prior e y" "proper (fst e)" "proper (fst y)" using assms by (auto simp: ladder_def)
  then show ?thesis using before_trans before_irrefl by (auto simp: prior_def)
qed

end

definition finite_price :: "double \<Rightarrow> bool" where
  "finite_price d = (case d of Fin x \<Rightarrow> True | _ \<Rightarrow> False)"

lemma finite_price_cases: "finite_price d \<Longrightarrow> \<exists>x. d = Fin x"
  by (cases d) (auto simp: finite_price_def)

interpretation bid_ladder: price_ladder greater_double finite_price "\<lambda>ord. unat (m_orderID ord)"
  by unfold_locales (auto simp: greater_double_def dest!: finite_price_cases)

interpretation ask_ladder: price_ladder double_less finite_price "\<lambda>ord. unat (m_orderID ord)"
  by unfold_locales (auto dest!: finite_price_cases)

section \<open>The book invariant\<close>

definition entry_ok :: "(OrderSide \<Rightarrow> bool) \<Rightarrow> double \<times> Order \<Rightarrow> bool" where
  "entry_ok side_ok e \<longleftrightarrow> fst e = m_price (snd e) \<and> order_balanced (snd e) \<and> side_ok (m_side (snd e))"

definition book_inv :: "OrderBook \<Rightarrow> bool" where
  "book_inv book \<longleftrightarrow>
     bid_ladder.ladder (m_bidOrders book) \<and> ask_ladder.ladder (m_askOrders book) \<and>
     (\<forall>e \<in> set (m_bidOrders book). entry_ok (\<lambda>s. s = BUY) e) \<and>
     (\<forall>e \<in> set (m_askOrders book). entry_ok (\<lambda>s. s \<noteq> BUY) e)"

lemma book_inv_empty: "book_inv OrderBook_empty"
  by (simp add: book_inv_def OrderBook_empty_def bid_ladder.ladder_def ask_ladder.ladder_def)

lemma book_inv_insert:
  assumes "book_inv book" "finite_price (m_price ord)" "order_balanced ord"
    and "\<And>e. e \<in> set (m_bidOrders book) \<union> set (m_askOrders book) \<Longrightarrow>
           unat (m_orderID (snd e)) < unat (m_orderID ord)"
  shows "book_inv (OrderBook_insert ord book)"
  using assms
  by (auto simp: book_inv_def OrderBook_insert_def entry_ok_def
      intro!: bid_ladder.ladder_insert ask_ladder.ladder_insert)

lemma book_inv_erase: "book_inv book \<Longrightarrow> book_inv (OrderBook_erase ord book)"
  by (auto simp: book_inv_def OrderBook_erase_def bid_ladder.ladder_remove ask_ladder.ladder_remove
      dest: set_remove_first_subset[THEN subsetD])

section \<open>One turn of the matching loop\<close>

lemma match_step_Some:
  assumes "match_step book = Some (book', bid', ask')"
  obtains kb bid bids ka ask asks q where
    "m_bidOrders book = (kb, bid) # bids" "m_askOrders book = (ka, ask) # asks"
    "double_ge (m_price bid) (m_price ask)"
    "q = (if sint (m_openQuantity ask) < sint (m_openQuantity bid)
          then m_openQuantity ask else m_openQuantity bid)"
    "bid' = execute (m_price ask) q bid" "ask' = execute (m_price ask) q ask"
    "m_bidOrders book' = (if isFilled bid' then bids else (kb, bid') # bids)"
    "m_askOrders book' = (if isFilled ask' then asks else (ka, ask') # asks)"
  using assms
  by (auto simp: match_step_def matchTwoOrders_def Let_def split: list.splits prod.splits if_splits)

definition book_balanced :: "OrderBook \<Rightarrow> bool" where
  "book_balanced book \<longleftrightarrow>
     (\<forall>e \<in> set (m_bidOrders book) \<union> set (m_askOrders book). order_balanced (snd e))"

definition book_size :: "OrderBook \<Rightarrow> nat" where
  "book_size book = length (m_bidOrders book) + length (m_askOrders book)"

lemma book_inv_balanced: "book_inv book \<Longrightarrow> book_balanced book"
  by (auto simp: book_inv_def book_balanced_def entry_ok_def)

lemma match_step_one_filled:
  assumes "match_step book = Some (book', bid', ask')" "book_balanced book"
  shows "isFilled bid' \<or> isFilled ask'"
proof -
  from assms(1) obtain kb bid bids ka ask asks q where st:
    "m_bidOrders book = (kb, bid) # bids" "m_askOrders book = (ka, ask) # asks"
    "q = (if sint (m_openQuantity ask) < sint (m_openQuantity bid)
          then m_openQuantity ask else m_openQuantity bid)"
    "bid' = execute (m_price ask) q bid" "ask' = execute (m_price ask) q ask"
    by (rule match_step_Some)
  then have "order_balanced bid" "order_balanced ask" using assms(2) by (auto simp: book_balanced_def)
  then show ?thesis using st by (auto simp: isFilled_iff_open)
qed

lemma match_step_shrinks:
  assumes "match_step book = Some (book', bid', ask')" "book_balanced book"
  shows "book_size book' < book_size book"
  using match_step_one_filled[OF assms] assms(1)
  by (auto elim!: match_step_Some simp: book_size_def split: if_splits)

lemma match_step_balanced:
  assumes "match_step book = Some (book', bid', ask')" "book_balanced book"
  shows "book_balanced book'"
proof -
  from assms(1) obtain kb bid bids ka ask asks q where
    "m_bidOrders book = (kb, bid) # bids" "m_askOrders book = (ka, ask) # asks"
    "bid' = execute (m_price ask) q bid" "ask' = execute (m_price ask) q ask"
    "m_bidOrders book' = (if isFilled bid' then bids else (kb, bid') # bids)"
    "m_askOrders book' = (if isFilled ask' then asks else (ka, ask') # asks)"
    by (rule match_step_Some)
  then show ?thesis using assms(2) by (auto simp: book_balanced_def split: if_splits)
qed

lemma match_step_inv:
  assumes st: "match_step book = Some (book', bid', ask')" and inv: "book_inv book"
  shows "book_inv book'"
proof -
  from st obtain kb bid bids ka ask asks q where st:
    "m_bidOrders book = (kb, bid) # bids" "m_askOrders book = (ka, ask) # asks"
    "bid' = execute (m_price ask) q bid" "ask' = execute (m_price ask) q ask"
    "m_bidOrders book' = (if isFilled bid' then bids else (kb, bid') # bids)"
    "m_askOrders book' = (if isFilled ask' then asks else (ka, ask') # asks)"
    by (rule match_step_Some)
  have bl: "bid_ladder.ladder ((kb, bid) # bids)" and al: "ask_ladder.ladder ((ka, ask) # asks)"
    using inv st by (simp_all add: book_inv_def)
  have "bid_ladder.ladder ((kb, bid') # bids)" by (rule bid_ladder.ladder_same_stamp[OF bl]) (simp add: st)
  moreover have "ask_ladder.ladder ((ka, ask') # asks)" by (rule ask_ladder.ladder_same_stamp[OF al]) (simp add: st)
  ultimately show ?thesis
    using inv st bid_ladder.ladder_tl[OF bl] ask_ladder.ladder_tl[OF al]
    by (auto simp: book_inv_def entry_ok_def)
qed

section \<open>The whole loop\<close>

text \<open>
  Induction over a run of the loop: under an invariant that implies balanced accounts, the loop
  returns, and what holds of an immediate return and is carried back over a turn holds of the run.
\<close>

lemma processMatching_run:
  assumes "I book" and bal: "\<And>b. I b \<Longrightarrow> book_balanced b"
    and keep: "\<And>b b' x y. I b \<Longrightarrow> match_step b = Some (b', x, y) \<Longrightarrow> I b'"
    and stop: "\<And>b. I b \<Longrightarrow> match_step b = None \<Longrightarrow> P b [] b"
    and turn: "\<And>b b' x y ps b''. I b \<Longrightarrow> match_step b = Some (b', x, y) \<Longrightarrow> P b' ps b'' \<Longrightarrow> P b (x # y # ps) b''"
  shows "\<exists>ps book'. (\<forall>ts. processMatching book ts = Some (ts @ ps \<noteq> [], book', ts @ ps)) \<and>
           match_step book' = None \<and> I book' \<and> P book ps book'"
  using \<open>I book\<close>
proof (induction "book_size book" arbitrary: book rule: less_induct)
  case less
  show ?case
  proof (cases "match_step book")
    case None
    then have "\<forall>ts. processMatching book ts = Some (ts @ [] \<noteq> [], book, ts @ [])"
      by (simp add: processMatching.simps[of book])
    with None less.prems stop show ?thesis by blast
  next
    case (Some t)
    obtain b' x y where t: "t = (b', x, y)" by (cases t) auto
    have ms: "match_step book = Some (b', x, y)" using Some t by simp
    have "book_size b' < book_size book" by (rule match_step_shrinks[OF ms bal[OF less.prems]])
    moreover have "I b'" by (rule keep[OF less.prems ms])
    ultimately obtain ps book' where IH:
      "\<forall>ts. processMatching b' ts = Some (ts @ ps \<noteq> [], book', ts @ ps)"
      "match_step book' = None" "I book'" "P b' ps book'"
      using less.hyps by blast
    then have "\<forall>ts. processMatching book ts = Some (ts @ (x # y # ps) \<noteq> [], book', ts @ (x # y # ps))"
      by (simp add: processMatching.simps[of book] ms)
    with IH turn[OF less.prems ms] show ?thesis by blast
  qed
qed

text \<open>The loop ends with a book whose best prices do not cross.\<close>

definition uncrossed :: "OrderBook \<Rightarrow> bool" where
  "uncrossed book \<longleftrightarrow>
     (\<forall>b \<in> set (m_bidOrders book). \<forall>a \<in> set (m_askOrders book).
        double_less (m_price (snd b)) (m_price (snd a)))"

lemma match_step_None_uncrossed:
  assumes none: "match_step book = None" and inv: "book_inv book"
  shows "uncrossed book"
proof (cases "m_bidOrders book = [] \<or> m_askOrders book = []")
  case True
  then show ?thesis by (auto simp: uncrossed_def)
next
  case False
  then obtain b bids a asks where ne: "m_bidOrders book = b # bids" "m_askOrders book = a # asks"
    by (auto simp: neq_Nil_conv)
  have keys: "fst e = m_price (snd e)" "finite_price (fst e)"
    if "e \<in> set (m_bidOrders book) \<union> set (m_askOrders book)" for e
    using that inv by (auto simp: book_inv_def entry_ok_def bid_ladder.ladder_def ask_ladder.ladder_def)
  have head: "double_less (fst b) (fst a)"
  proof -
    have "\<not> double_ge (fst b) (fst a)"
      using none ne keys(1)[of a] keys(1)[of b] by (cases a, cases b) (auto simp: match_step_def Let_def split: prod.splits if_splits)
    then show ?thesis using keys(2)[of a] keys(2)[of b] ne by (auto dest!: finite_price_cases)
  qed
  show ?thesis
    unfolding uncrossed_def
  proof (intro ballI)
    fix x y assume x: "x \<in> set (m_bidOrders book)" and y: "y \<in> set (m_askOrders book)"
    have bl: "bid_ladder.ladder (b # bids)" and al: "ask_ladder.ladder (a # asks)"
      using inv ne by (simp_all add: book_inv_def)
    have "x = b \<or> \<not> greater_double (fst x) (fst b)" "y = a \<or> \<not> double_less (fst y) (fst a)"
      using x y ne bid_ladder.ladder_best[OF bl, of x] ask_ladder.ladder_best[OF al, of y] by auto
    then show "double_less (m_price (snd x)) (m_price (snd y))"
      using head keys[of x] keys[of y] keys(2)[of a] keys(2)[of b] ne x y
      by (auto simp: greater_double_def dest!: finite_price_cases)
  qed
qed

text \<open>
  The processed orders come in pairs, one per trade: a bid and an ask that executed the same
  quantity at the ask's limit, which the bid's limit reaches, and one of them is done.
\<close>

fun trade_pairs :: "Order list \<Rightarrow> bool" where
  "trade_pairs [] = True"
| "trade_pairs [_] = False"
| "trade_pairs (x # y # ps) =
     (m_side x = BUY \<and> m_side y \<noteq> BUY \<and>
      m_lastExecutedPrice x = m_price y \<and> m_lastExecutedPrice y = m_price y \<and>
      double_ge (m_price x) (m_price y) \<and>
      m_lastExecutedQuantity x = m_lastExecutedQuantity y \<and>
      (isFilled x \<or> isFilled y) \<and> trade_pairs ps)"

lemma match_step_trade:
  assumes "match_step book = Some (book', x, y)" "book_inv book"
  shows "trade_pairs ps \<Longrightarrow> trade_pairs (x # y # ps)"
  using match_step_one_filled[OF assms(1) book_inv_balanced[OF assms(2)]] assms
  by (auto elim!: match_step_Some simp: book_inv_def entry_ok_def)

text \<open>Open volume of a ladder, and the volume traded by the bids of a list of trades.\<close>

definition ladder_volume :: "(double \<times> Order) list \<Rightarrow> clong" where
  "ladder_volume es = sum_list (map (\<lambda>e. m_openQuantity (snd e)) es)"

fun traded_volume :: "Order list \<Rightarrow> clong" where
  "traded_volume (x # y # ps) = m_lastExecutedQuantity x + traded_volume ps"
| "traded_volume _ = 0"

lemma match_step_volume:
  assumes st: "match_step book = Some (book', x, y)" and bal: "book_balanced book"
  shows "ladder_volume (m_bidOrders book) = m_lastExecutedQuantity x + ladder_volume (m_bidOrders book')"
    and "ladder_volume (m_askOrders book) = m_lastExecutedQuantity x + ladder_volume (m_askOrders book')"
proof -
  from st obtain kb bid bids ka ask asks q where st:
    "m_bidOrders book = (kb, bid) # bids" "m_askOrders book = (ka, ask) # asks"
    "x = execute (m_price ask) q bid" "y = execute (m_price ask) q ask"
    "m_bidOrders book' = (if isFilled x then bids else (kb, x) # bids)"
    "m_askOrders book' = (if isFilled y then asks else (ka, y) # asks)"
    by (rule match_step_Some)
  then have "order_balanced x" "order_balanced y" using bal by (auto simp: book_balanced_def)
  then have "isFilled x \<Longrightarrow> m_openQuantity bid = q" "isFilled y \<Longrightarrow> m_openQuantity ask = q"
    using st by (auto simp: isFilled_iff_open)
  then show "ladder_volume (m_bidOrders book) = m_lastExecutedQuantity x + ladder_volume (m_bidOrders book')"
    and "ladder_volume (m_askOrders book) = m_lastExecutedQuantity x + ladder_volume (m_askOrders book')"
    using st by (auto simp: ladder_volume_def)
qed

text \<open>With positive open quantities no order is overfilled and every trade has positive size.\<close>

definition book_open :: "OrderBook \<Rightarrow> bool" where
  "book_open book \<longleftrightarrow>
     (\<forall>e \<in> set (m_bidOrders book) \<union> set (m_askOrders book). order_open (snd e))"

definition fill_ok :: "Order \<Rightarrow> bool" where
  "fill_ok ord \<longleftrightarrow> 0 < sint (m_lastExecutedQuantity ord) \<and>
     sint (m_lastExecutedQuantity ord) \<le> sint (m_executedQuantity ord) \<and>
     sint (m_executedQuantity ord) \<le> sint (m_quantity ord) \<and> 0 \<le> sint (m_openQuantity ord) \<and>
     sint (m_openQuantity ord) + sint (m_executedQuantity ord) = sint (m_quantity ord)"

lemma book_open_balanced: "book_open book \<Longrightarrow> book_balanced book"
  by (auto simp: book_open_def book_balanced_def order_open_def)

lemma fill_ok_execute:
  assumes op: "order_open ord" and q: "0 < sint q" "sint q \<le> sint (m_openQuantity ord)"
  shows "fill_ok (execute p q ord)"
proof -
  have o: "sint (m_openQuantity ord - q) = sint (m_openQuantity ord) - sint q"
    using q sint_range_64[of "m_openQuantity ord"] by (intro sint_diff_64) linarith+
  have e: "sint (m_executedQuantity ord + q) = sint (m_executedQuantity ord) + sint q"
    using op q by (intro sint_add_64) (auto simp: order_open_def)
  show ?thesis using op q o e sint_quantity[OF op] by (simp add: fill_ok_def order_open_def)
qed

lemma order_open_after:
  assumes op: "order_open ord" and q: "0 < sint q" "sint q \<le> sint (m_openQuantity ord)"
    and nf: "\<not> isFilled (execute p q ord)"
  shows "order_open (execute p q ord)"
proof -
  have "q \<noteq> m_openQuantity ord"
    using nf op by (auto simp: isFilled_iff_open order_open_def)
  then have "sint q < sint (m_openQuantity ord)" using q(2) by (metis order_less_le signed_word_eqI)
  then show ?thesis using op q by (intro order_open_execute) auto
qed

lemma match_step_open:
  assumes st: "match_step book = Some (book', x, y)" and op: "book_open book"
  shows "book_open book'" and "fill_ok x" and "fill_ok y"
proof -
  from st obtain kb bid bids ka ask asks q where st:
    "m_bidOrders book = (kb, bid) # bids" "m_askOrders book = (ka, ask) # asks"
    "q = (if sint (m_openQuantity ask) < sint (m_openQuantity bid)
          then m_openQuantity ask else m_openQuantity bid)"
    "x = execute (m_price ask) q bid" "y = execute (m_price ask) q ask"
    "m_bidOrders book' = (if isFilled x then bids else (kb, x) # bids)"
    "m_askOrders book' = (if isFilled y then asks else (ka, y) # asks)"
    by (rule match_step_Some)
  have o: "order_open bid" "order_open ask" using op st by (auto simp: book_open_def)
  then have q: "0 < sint q" "sint q \<le> sint (m_openQuantity bid)" "sint q \<le> sint (m_openQuantity ask)"
    using st(3) by (auto simp: order_open_def)
  show "fill_ok x" "fill_ok y" using o q st by (auto intro: fill_ok_execute)
  have "\<not> isFilled x \<Longrightarrow> order_open x" "\<not> isFilled y \<Longrightarrow> order_open y"
    using o q st by (auto intro: order_open_after)
  then show "book_open book'" using op st by (auto simp: book_open_def)
qed

text \<open>All order ids of a book are bounded by a number.\<close>

definition ids_upto :: "nat \<Rightarrow> OrderBook \<Rightarrow> bool" where
  "ids_upto n book \<longleftrightarrow>
     (\<forall>e \<in> set (m_bidOrders book) \<union> set (m_askOrders book). unat (m_orderID (snd e)) \<le> n)"

lemma match_step_ids:
  assumes "match_step book = Some (book', x, y)" "ids_upto n book"
  shows "ids_upto n book'"
proof -
  from assms(1) obtain kb bid bids ka ask asks q where
    "m_bidOrders book = (kb, bid) # bids" "m_askOrders book = (ka, ask) # asks"
    "x = execute (m_price ask) q bid" "y = execute (m_price ask) q ask"
    "m_bidOrders book' = (if isFilled x then bids else (kb, x) # bids)"
    "m_askOrders book' = (if isFilled y then asks else (ka, y) # asks)"
    by (rule match_step_Some)
  then show ?thesis using assms(2) by (auto simp: ids_upto_def split: if_splits)
qed

text \<open>All of it at once, for the clients of the book.\<close>

lemma processMatching_total:
  assumes "book_inv book"
  shows "\<exists>ps book'. processMatching book ts = Some (ts @ ps \<noteq> [], book', ts @ ps) \<and>
           book_inv book' \<and> uncrossed book' \<and> trade_pairs ps \<and>
           length ps + 2 * book_size book' \<le> 2 * book_size book \<and>
           (\<forall>n. ids_upto n book \<longrightarrow> ids_upto n book')"
proof -
  let ?P = "\<lambda>b ps b'. trade_pairs ps \<and> length ps + 2 * book_size b' \<le> 2 * book_size b \<and>
      (\<forall>n. ids_upto n b \<longrightarrow> ids_upto n b')"
  have "\<exists>ps book'. (\<forall>ts. processMatching book ts = Some (ts @ ps \<noteq> [], book', ts @ ps)) \<and>
      match_step book' = None \<and> book_inv book' \<and> ?P book ps book'"
  proof (rule processMatching_run[where I = book_inv and P = ?P])
    fix b b' x y ps b''
    assume inv: "book_inv b" and st: "match_step b = Some (b', x, y)"
    show "book_inv b'" by (rule match_step_inv[OF st inv])
    assume P: "?P b' ps b''"
    show "?P b (x # y # ps) b''"
      using P match_step_ids[OF st] match_step_trade[OF st inv, of ps] match_step_shrinks[OF st book_inv_balanced[OF inv]]
      by auto
  qed (use assms book_inv_balanced in auto)
  then show ?thesis using match_step_None_uncrossed by blast
qed

section \<open>Finding and erasing\<close>

definition ladder_of :: "OrderSide \<Rightarrow> OrderBook \<Rightarrow> (double \<times> Order) list" where
  "ladder_of side book = (if side = BUY then m_bidOrders book else m_askOrders book)"

lemma remove_first_found:
  "find_index P xs = Some i \<Longrightarrow> remove_first P xs = take i xs @ drop (Suc i) xs"
  by (induction xs arbitrary: i) (auto split: if_splits)

lemma OrderBook_find_Some:
  "OrderBook_find book c s side = Some i \<Longrightarrow>
   side \<in> {BUY, SELL} \<and> find_index (is_order c s) (ladder_of side book) = Some i"
  by (auto simp: OrderBook_find_def ladder_of_def split: if_splits)

text \<open>
  \<open>Order::cancel\<close> on an entry of a ladder, through the pointer that \<open>find\<close> returned.
\<close>

definition cancel_entry :: "OrderSide \<Rightarrow> nat \<Rightarrow> OrderBook \<Rightarrow> Order \<times> OrderBook" where
  "cancel_entry side i book =
     (let es = ladder_of side book; ord = cancel (snd (es ! i)); es' = es[i := (fst (es ! i), ord)]
      in (ord, if side = BUY then book\<lparr>m_bidOrders := es'\<rparr> else book\<lparr>m_askOrders := es'\<rparr>))"

lemma cancel_sels [simp]:
  "m_price (cancel ord) = m_price ord" "m_side (cancel ord) = m_side ord"
  "m_orderID (cancel ord) = m_orderID ord" "order_balanced (cancel ord) = order_balanced ord"
  "m_clientOrderID (cancel ord) = m_clientOrderID ord" "m_sessionId (cancel ord) = m_sessionId ord"
  by (simp_all add: cancel_def order_balanced_def)

text \<open>What the clients rely on of a resting book, up to a bound on its order ids.\<close>

definition book_good :: "nat \<Rightarrow> OrderBook \<Rightarrow> bool" where
  "book_good n book \<longleftrightarrow> book_inv book \<and> uncrossed book \<and> ids_upto n book"

lemma book_good_empty: "book_good n OrderBook_empty"
  using book_inv_empty by (simp add: book_good_def uncrossed_def ids_upto_def OrderBook_empty_def)

lemma ids_upto_mono: "ids_upto m book \<Longrightarrow> m \<le> n \<Longrightarrow> ids_upto n book"
  unfolding ids_upto_def by (meson order.trans)

lemma book_good_mono: "book_good m book \<Longrightarrow> m \<le> n \<Longrightarrow> book_good n book"
  using ids_upto_mono by (auto simp: book_good_def)

text \<open>
  A book is as good as another one when its ladders are in order and every entry has a counterpart
  there that agrees on what the invariants look at.
\<close>

definition same_entry :: "double \<times> Order \<Rightarrow> double \<times> Order \<Rightarrow> bool" where
  "same_entry e e' \<longleftrightarrow> fst e = fst e' \<and> m_price (snd e) = m_price (snd e') \<and> m_side (snd e) = m_side (snd e') \<and>
     m_orderID (snd e) = m_orderID (snd e') \<and> order_balanced (snd e) = order_balanced (snd e')"

lemma same_entry_refl [simp]: "same_entry e e"
  by (simp add: same_entry_def)

lemma same_entry_ok: "same_entry e e' \<Longrightarrow> entry_ok P e = entry_ok P e'"
  by (simp add: same_entry_def entry_ok_def)

lemma book_good_like:
  assumes good: "book_good n book"
    and lad: "bid_ladder.ladder (m_bidOrders book')" "ask_ladder.ladder (m_askOrders book')"
    and bids: "\<And>e. e \<in> set (m_bidOrders book') \<Longrightarrow> \<exists>e' \<in> set (m_bidOrders book). same_entry e e'"
    and asks: "\<And>e. e \<in> set (m_askOrders book') \<Longrightarrow> \<exists>e' \<in> set (m_askOrders book). same_entry e e'"
  shows "book_good n book'"
proof -
  have "book_inv book'"
    unfolding book_inv_def
  proof (intro conjI lad ballI)
    fix e assume "e \<in> set (m_bidOrders book')"
    then obtain e' where "e' \<in> set (m_bidOrders book)" "same_entry e e'" using bids by blast
    then show "entry_ok (\<lambda>s. s = BUY) e" using good same_entry_ok by (simp add: book_good_def book_inv_def)
  next
    fix e assume "e \<in> set (m_askOrders book')"
    then obtain e' where "e' \<in> set (m_askOrders book)" "same_entry e e'" using asks by blast
    then show "entry_ok (\<lambda>s. s \<noteq> BUY) e" using good same_entry_ok by (simp add: book_good_def book_inv_def)
  qed
  moreover have "uncrossed book'"
    unfolding uncrossed_def
  proof (intro ballI)
    fix b a assume "b \<in> set (m_bidOrders book')" "a \<in> set (m_askOrders book')"
    then obtain b' a' where "b' \<in> set (m_bidOrders book)" "same_entry b b'"
      "a' \<in> set (m_askOrders book)" "same_entry a a'" using bids asks by blast
    then show "double_less (m_price (snd b)) (m_price (snd a))"
      using good by (simp add: book_good_def uncrossed_def same_entry_def)
  qed
  moreover have "ids_upto n book'"
    unfolding ids_upto_def
  proof
    fix e assume "e \<in> set (m_bidOrders book') \<union> set (m_askOrders book')"
    then obtain e' where "e' \<in> set (m_bidOrders book) \<union> set (m_askOrders book)" "same_entry e e'"
      using bids asks by blast
    then show "unat (m_orderID (snd e)) \<le> n"
      using good by (simp add: book_good_def ids_upto_def same_entry_def)
  qed
  ultimately show ?thesis by (simp add: book_good_def)
qed

lemma book_good_cancel_entry:
  assumes good: "book_good n book" and i: "i < length (ladder_of side book)"
  shows "book_good n (snd (cancel_entry side i book))"
proof -
  let ?es = "ladder_of side book"
  let ?es' = "?es[i := (fst (?es ! i), cancel (snd (?es ! i)))]"
  have keys: "map (\<lambda>e. (fst e, unat (m_orderID (snd e)))) ?es' = map (\<lambda>e. (fst e, unat (m_orderID (snd e)))) ?es"
    using i by (simp add: map_update list_update_same_conv)
  have sets: "\<exists>e' \<in> set ?es. same_entry e e'" if "e \<in> set ?es'" for e
  proof -
    from that have "e \<in> insert (fst (?es ! i), cancel (snd (?es ! i))) (set ?es)"
      using set_update_subset_insert[of ?es i] by blast
    moreover have "same_entry (fst (?es ! i), cancel (snd (?es ! i))) (?es ! i)" by (simp add: same_entry_def)
    ultimately show ?thesis using nth_mem[OF i] same_entry_refl by blast
  qed
  have lad: "bid_ladder.ladder (m_bidOrders book)" "ask_ladder.ladder (m_askOrders book)"
    using good by (simp_all add: book_good_def book_inv_def)
  show ?thesis
  proof (cases "side = BUY")
    case True
    have "bid_ladder.ladder ?es' = bid_ladder.ladder ?es" by (rule bid_ladder.ladder_cong[OF keys])
    then show ?thesis using lad sets True
      by (intro book_good_like[OF good]) (auto simp: cancel_entry_def Let_def ladder_of_def intro: same_entry_refl)
  next
    case False
    have "ask_ladder.ladder ?es' = ask_ladder.ladder ?es" by (rule ask_ladder.ladder_cong[OF keys])
    then show ?thesis using lad sets False
      by (intro book_good_like[OF good]) (auto simp: cancel_entry_def Let_def ladder_of_def intro: same_entry_refl)
  qed
qed

lemma cancel_entry_fst [simp]: "fst (cancel_entry side i book) = cancel (snd (ladder_of side book ! i))"
  by (simp add: cancel_entry_def Let_def)

text \<open>
  The two calls of a cancel on the entry that \<open>find\<close> returned. An entry of the side asked for leaves its
  ladder, which keeps the order of the others; an ask of neither side, which \<open>erase\<close> does not look for,
  stays with the flag set. The other ladder is not touched.
\<close>

lemma cancel_and_erase:
  fixes b c sid side i
  defines "L \<equiv> ladder_of side b"
  defines "canceled \<equiv> cancel (snd (L ! i))"
  defines "b' \<equiv> OrderBook_erase canceled (snd (cancel_entry side i b))"
  assumes inv: "book_inv b" and found: "OrderBook_find b c sid side = Some i"
  shows "i < length L" "m_clientOrderID canceled = c" "m_sessionId canceled = sid"
    "ladder_of side b' = (if m_side canceled = side then take i L @ drop (Suc i) L else L[i := (fst (L ! i), canceled)])"
    "\<forall>other. (other = BUY) \<noteq> (side = BUY) \<longrightarrow> ladder_of other b' = ladder_of other b"
proof -
  let ?L' = "L[i := (fst (L ! i), canceled)]"
  have side: "side \<in> {BUY, SELL}" and fi: "find_index (is_order c sid) L = Some i"
    using OrderBook_find_Some[OF found] by (auto simp: L_def)
  note fd = find_index_SomeD[OF fi]
  then show i: "i < length L" and ids: "m_clientOrderID canceled = c" "m_sessionId canceled = sid"
    by (simp_all add: canceled_def is_order_def)
  have "find_index (is_order c sid) ?L' = find_index (is_order c sid) L"
    using fd i ids by (intro find_index_cong_length) (auto simp: nth_list_update is_order_def)
  then have rem: "remove_first (is_order c sid) ?L' = take i L @ drop (Suc i) L"
    using remove_first_found[of "is_order c sid" ?L' i] fi i by simp
  have ent: "snd (cancel_entry side i b) = (if side = BUY then b\<lparr>m_bidOrders := ?L'\<rparr> else b\<lparr>m_askOrders := ?L'\<rparr>)"
    by (simp add: cancel_entry_def L_def canceled_def Let_def)
  have "L ! i \<in> set L" using i by simp
  then have sides: "(m_side canceled = BUY) = (side = BUY)"
    using inv by (auto simp: canceled_def L_def book_inv_def entry_ok_def ladder_of_def split: if_splits)
  then show "ladder_of side b' = (if m_side canceled = side then take i L @ drop (Suc i) L else ?L')"
    using side ids rem ent by (auto simp: b'_def OrderBook_erase_def ladder_of_def)
  show "\<forall>other. (other = BUY) \<noteq> (side = BUY) \<longrightarrow> ladder_of other b' = ladder_of other b"
    using side sides ent by (auto simp: b'_def OrderBook_erase_def ladder_of_def)
qed

lemma book_good_erase:
  assumes good: "book_good n book"
  shows "book_good n (OrderBook_erase ord book)"
proof (rule book_good_like[OF good])
  let ?book' = "OrderBook_erase ord book"
  have "book_inv ?book'" using good book_inv_erase by (simp add: book_good_def)
  then show "bid_ladder.ladder (m_bidOrders ?book')" "ask_ladder.ladder (m_askOrders ?book')"
    by (simp_all add: book_inv_def)
  have "set (m_bidOrders ?book') \<subseteq> set (m_bidOrders book)" "set (m_askOrders ?book') \<subseteq> set (m_askOrders book)"
    by (simp_all add: OrderBook_erase_def set_remove_first_subset)
  then show "e \<in> set (m_bidOrders ?book') \<Longrightarrow> \<exists>e' \<in> set (m_bidOrders book). same_entry e e'"
    "e \<in> set (m_askOrders ?book') \<Longrightarrow> \<exists>e' \<in> set (m_askOrders book). same_entry e e'" for e
    using same_entry_refl by blast+
qed

lemma book_good_new_order:
  assumes good: "book_good n book" and ord: "finite_price (m_price ord)" "order_balanced ord"
    and id: "n < unat (m_orderID ord)"
  shows "\<exists>ps book'. processMatching (OrderBook_insert ord book) [] = Some (ps \<noteq> [], book', ps) \<and>
           book_good (unat (m_orderID ord)) book' \<and> trade_pairs ps \<and> length ps \<le> 2 * Suc (book_size book)"
proof -
  have "unat (m_orderID (snd e)) < unat (m_orderID ord)"
    if "e \<in> set (m_bidOrders book) \<union> set (m_askOrders book)" for e
    using good id that unfolding book_good_def ids_upto_def by (meson order.strict_trans1)
  then have "book_inv (OrderBook_insert ord book)"
    using book_inv_insert[of book ord] good ord by (simp add: book_good_def)
  moreover have "ids_upto (unat (m_orderID ord)) (OrderBook_insert ord book)"
    using ids_upto_mono[of n book "unat (m_orderID ord)"] good id
    by (auto simp: book_good_def ids_upto_def OrderBook_insert_def)
  moreover have "book_size (OrderBook_insert ord book) = Suc (book_size book)"
  proof -
    have "length (multimap_insert f k v es) = Suc (length es)" for f k v and es :: "(double \<times> Order) list"
      by (induction es) auto
    then show ?thesis by (simp add: book_size_def OrderBook_insert_def)
  qed
  ultimately show ?thesis
    using processMatching_total[of "OrderBook_insert ord book" "[]"] by (fastforce simp: book_good_def)
qed

section \<open>A sample book\<close>

text \<open>A buy order of 100 at 10 and a sell order of 40 at 9.\<close>

definition sample_bid :: Order where
  "sample_bid = Order_new 1 ''B1'' 0 3 BUY LIMIT (Fin 10) 100"

definition sample_ask :: Order where
  "sample_ask = Order_new 2 ''S1'' 0 4 SELL LIMIT (Fin 9) 40"

definition sample_book :: OrderBook where
  "sample_book = \<lparr>m_bidOrders = [(Fin 10, sample_bid)], m_askOrders = [(Fin 9, sample_ask)]\<rparr>"

lemma sample_book_ok: "book_inv sample_book" "book_balanced sample_book" "book_open sample_book"
  by (simp_all add: sample_book_def sample_bid_def sample_ask_def book_inv_def book_balanced_def book_open_def
      bid_ladder.ladder_def ask_ladder.ladder_def entry_ok_def finite_price_def Order_new_def order_balanced_def order_open_def)

section \<open>Properties\<close>

text \<open>C3: The matching loop returns. For every book whose orders are balanced (what is open and
  what is executed add up to the quantity as 64-bit words; no bound or sign is assumed), the loop
  of \<open>processMatching\<close> ends, appends at most two reports per resting order to the queue it was
  given, and its boolean says whether that queue is non-empty.\<close>

theorem processMatching_returns:
  assumes "book_balanced book"
  shows "\<exists>ps book'. processMatching book ts = Some (ts @ ps \<noteq> [], book', ts @ ps) \<and>
           length ps + 2 * book_size book' \<le> 2 * book_size book"
proof -
  have "\<exists>ps book'. (\<forall>ts. processMatching book ts = Some (ts @ ps \<noteq> [], book', ts @ ps)) \<and>
      match_step book' = None \<and> book_balanced book' \<and>
      length ps + 2 * book_size book' \<le> 2 * book_size book"
    by (rule processMatching_run[where P = "\<lambda>b ps b'. length ps + 2 * book_size b' \<le> 2 * book_size b"])
      (use assms in \<open>auto dest: match_step_balanced match_step_shrinks\<close>)
  then show ?thesis by blast
qed

theorem processMatching_returns_witness:
  "book_balanced sample_book \<and> (\<exists>ps book'. processMatching sample_book [] = Some (ps \<noteq> [], book', ps) \<and>
     length ps + 2 * book_size book' \<le> 4)"
  using processMatching_returns[of sample_book "[]"] sample_book_ok(2) by (simp add: book_size_def sample_book_def)

text \<open>C1: Matching leaves an uncrossed book in price and time priority. From a book that satisfies
  the book invariant, \<open>processMatching\<close> returns a book that satisfies it again and in which every
  resting bid is priced strictly below every resting ask.\<close>

theorem processMatching_uncrosses:
  assumes "book_inv book"
  shows "\<exists>ps book'. processMatching book ts = Some (ts @ ps \<noteq> [], book', ts @ ps) \<and>
           book_inv book' \<and> uncrossed book'"
proof -
  have "\<exists>ps book'. (\<forall>ts. processMatching book ts = Some (ts @ ps \<noteq> [], book', ts @ ps)) \<and>
      match_step book' = None \<and> book_inv book' \<and> True"
    by (rule processMatching_run[where P = "\<lambda>b ps b'. True"])
      (use assms in \<open>auto dest: match_step_inv book_inv_balanced\<close>)
  then show ?thesis using match_step_None_uncrossed by blast
qed

theorem processMatching_uncrosses_witness:
  "book_inv sample_book \<and> \<not> uncrossed sample_book \<and>
   (\<exists>ps book'. processMatching sample_book [] = Some (ps \<noteq> [], book', ps) \<and> book_inv book' \<and> uncrossed book')"
  using processMatching_uncrosses[of sample_book "[]"] sample_book_ok(1)
  by (simp add: uncrossed_def sample_book_def sample_bid_def sample_ask_def Order_new_def)

text \<open>C4: Every trade is fair to both limits. The orders \<open>processMatching\<close> reports come in pairs, a
  buy and a non-buy order that executed the same quantity at the resting ask's own price, a price
  the bid's limit reaches, and at least one of the two is completely filled.\<close>

theorem processMatching_trades:
  assumes "book_inv book"
  shows "\<exists>ps book'. processMatching book [] = Some (ps \<noteq> [], book', ps) \<and> trade_pairs ps"
proof -
  have "\<exists>ps book'. (\<forall>ts. processMatching book ts = Some (ts @ ps \<noteq> [], book', ts @ ps)) \<and>
      match_step book' = None \<and> book_inv book' \<and> trade_pairs ps"
    by (rule processMatching_run[where P = "\<lambda>b ps b'. trade_pairs ps"])
      (use assms match_step_inv book_inv_balanced match_step_trade trade_pairs.simps(1) in blast)+
  then show ?thesis by (metis append_Nil)
qed

theorem processMatching_trades_witness:
  "book_inv sample_book \<and> (\<exists>ps book'. processMatching sample_book [] = Some (ps \<noteq> [], book', ps) \<and> trade_pairs ps)"
  using processMatching_trades[of sample_book] sample_book_ok(1) by blast

text \<open>C5: Volume is conserved. The open volume that leaves the bid ladder equals the open volume
  that leaves the ask ladder, and both equal the volume of the reported trades (64-bit sums).\<close>

theorem processMatching_conserves_volume:
  assumes "book_balanced book"
  shows "\<exists>ps book'. processMatching book [] = Some (ps \<noteq> [], book', ps) \<and>
           ladder_volume (m_bidOrders book) = traded_volume ps + ladder_volume (m_bidOrders book') \<and>
           ladder_volume (m_askOrders book) = traded_volume ps + ladder_volume (m_askOrders book')"
proof -
  have "\<exists>ps book'. (\<forall>ts. processMatching book ts = Some (ts @ ps \<noteq> [], book', ts @ ps)) \<and>
      match_step book' = None \<and> book_balanced book' \<and>
      (ladder_volume (m_bidOrders book) = traded_volume ps + ladder_volume (m_bidOrders book') \<and>
       ladder_volume (m_askOrders book) = traded_volume ps + ladder_volume (m_askOrders book'))"
  proof (rule processMatching_run[where I = book_balanced and P = "\<lambda>b ps b'.
          ladder_volume (m_bidOrders b) = traded_volume ps + ladder_volume (m_bidOrders b') \<and>
          ladder_volume (m_askOrders b) = traded_volume ps + ladder_volume (m_askOrders b')"])
    fix b b' x y ps b''
    assume bal: "book_balanced b" and st: "match_step b = Some (b', x, y)"
    show "book_balanced b'" by (rule match_step_balanced[OF st bal])
    assume "ladder_volume (m_bidOrders b') = traded_volume ps + ladder_volume (m_bidOrders b'') \<and>
      ladder_volume (m_askOrders b') = traded_volume ps + ladder_volume (m_askOrders b'')"
    then show "ladder_volume (m_bidOrders b) = traded_volume (x # y # ps) + ladder_volume (m_bidOrders b'') \<and>
      ladder_volume (m_askOrders b) = traded_volume (x # y # ps) + ladder_volume (m_askOrders b'')"
      by (simp add: match_step_volume[OF st bal] add.assoc)
  qed (use assms in auto)
  then show ?thesis by (metis append_Nil)
qed

theorem processMatching_conserves_volume_witness:
  "book_balanced sample_book \<and> (\<exists>ps book'. processMatching sample_book [] = Some (ps \<noteq> [], book', ps) \<and>
     100 = traded_volume ps + ladder_volume (m_bidOrders book') \<and> 40 = traded_volume ps + ladder_volume (m_askOrders book'))"
proof -
  have "ladder_volume (m_bidOrders sample_book) = 100" "ladder_volume (m_askOrders sample_book) = 40"
    by (simp_all add: ladder_volume_def sample_book_def sample_bid_def sample_ask_def Order_new_def)
  then show ?thesis using processMatching_conserves_volume[of sample_book] sample_book_ok(2) by simp
qed

text \<open>C6: No overfill. If every resting order is open with a positive quantity below 2^63, then
  every reported execution has positive size, never executes more than the order's quantity, keeps
  open plus executed equal to the quantity as integers, and the orders left in the book are open.\<close>

theorem processMatching_no_overfill:
  assumes "book_open book"
  shows "\<exists>ps book'. processMatching book [] = Some (ps \<noteq> [], book', ps) \<and>
           (\<forall>ord \<in> set ps. fill_ok ord) \<and> book_open book'"
proof -
  have "\<exists>ps book'. (\<forall>ts. processMatching book ts = Some (ts @ ps \<noteq> [], book', ts @ ps)) \<and>
      match_step book' = None \<and> book_open book' \<and> (\<forall>ord \<in> set ps. fill_ok ord)"
    by (rule processMatching_run[where P = "\<lambda>b ps b'. \<forall>ord \<in> set ps. fill_ok ord"])
      (use assms in \<open>auto dest: match_step_open book_open_balanced\<close>)
  then show ?thesis by (metis append_Nil)
qed

theorem processMatching_no_overfill_witness:
  "book_open sample_book \<and> (\<exists>ps book'. processMatching sample_book [] = Some (ps \<noteq> [], book', ps) \<and>
     (\<forall>ord \<in> set ps. fill_ok ord) \<and> book_open book')"
  using processMatching_no_overfill[of sample_book] sample_book_ok(3) by blast

text \<open>C7: Price and time priority on insertion. Inserting an order whose id is larger than all ids
  in the book keeps the invariant: bids stay sorted by falling price and asks by rising price, with
  equal prices in order of arrival, and the entries of the other ladder are untouched.\<close>

theorem OrderBook_insert_priority:
  assumes "book_inv book" and "finite_price (m_price ord)" and "order_balanced ord"
    and "\<forall>e \<in> set (m_bidOrders book) \<union> set (m_askOrders book).
           unat (m_orderID (snd e)) < unat (m_orderID ord)"
  shows "book_inv (OrderBook_insert ord book) \<and>
     mset (ladder_of (m_side ord) (OrderBook_insert ord book)) =
       add_mset (m_price ord, ord) (mset (ladder_of (m_side ord) book)) \<and>
     (m_side ord = BUY \<longrightarrow> m_askOrders (OrderBook_insert ord book) = m_askOrders book) \<and>
     (m_side ord \<noteq> BUY \<longrightarrow> m_bidOrders (OrderBook_insert ord book) = m_bidOrders book)"
  using assms book_inv_insert[of book ord] by (auto simp: OrderBook_insert_def ladder_of_def)

theorem OrderBook_insert_priority_witness:
  "book_inv sample_book \<and> book_inv (OrderBook_insert (Order_new 3 ''B2'' 0 3 BUY LIMIT (Fin 10) 5) sample_book) \<and>
   m_askOrders (OrderBook_insert (Order_new 3 ''B2'' 0 3 BUY LIMIT (Fin 10) 5) sample_book) = m_askOrders sample_book"
proof -
  have "finite_price (m_price (Order_new 3 ''B2'' 0 3 BUY LIMIT (Fin 10) 5))"
    "\<forall>e \<in> set (m_bidOrders sample_book) \<union> set (m_askOrders sample_book).
       unat (m_orderID (snd e)) < unat (m_orderID (Order_new 3 ''B2'' 0 3 BUY LIMIT (Fin 10) 5))"
    "m_side (Order_new 3 ''B2'' 0 3 BUY LIMIT (Fin 10) 5) = BUY"
    by (simp_all add: finite_price_def sample_book_def sample_bid_def sample_ask_def Order_new_def)
  then show ?thesis
    using OrderBook_insert_priority[of sample_book "Order_new 3 ''B2'' 0 3 BUY LIMIT (Fin 10) 5"] sample_book_ok(1) by simp
qed

text \<open>A cancel removes the order it found and nothing else. When \<open>find\<close> returns an entry, the
  entry has the client and session asked for, and \<open>erase\<close> on that order drops exactly this position
  of its ladder and leaves the other ladder as it was (for orders of a supported side).\<close>

theorem OrderBook_erase_found:
  assumes "OrderBook_find book clientID sessionId side = Some i"
    and "m_side (snd (ladder_of side book ! i)) = side"
  shows "is_order clientID sessionId (ladder_of side book ! i) \<and>
     ladder_of side (OrderBook_erase (snd (ladder_of side book ! i)) book) =
       take i (ladder_of side book) @ drop (Suc i) (ladder_of side book) \<and>
     (side = BUY \<longrightarrow> m_askOrders (OrderBook_erase (snd (ladder_of side book ! i)) book) = m_askOrders book) \<and>
     (side = SELL \<longrightarrow> m_bidOrders (OrderBook_erase (snd (ladder_of side book ! i)) book) = m_bidOrders book)"
proof -
  have side: "side \<in> {BUY, SELL}" and fi: "find_index (is_order clientID sessionId) (ladder_of side book) = Some i"
    using OrderBook_find_Some[OF assms(1)] by blast+
  have "is_order clientID sessionId (ladder_of side book ! i)" using find_index_SomeD[OF fi] by blast
  moreover from this have "m_clientOrderID (snd (ladder_of side book ! i)) = clientID"
    "m_sessionId (snd (ladder_of side book ! i)) = sessionId" by (simp_all add: is_order_def)
  ultimately show ?thesis
    using side remove_first_found[OF fi] assms(2) by (auto simp: OrderBook_erase_def ladder_of_def)
qed

theorem OrderBook_erase_found_witness:
  "OrderBook_find sample_book ''B1'' 3 BUY = Some 0 \<and>
   m_bidOrders (OrderBook_erase sample_bid sample_book) = [] \<and> m_askOrders (OrderBook_erase sample_bid sample_book) = m_askOrders sample_book"
proof -
  have "OrderBook_find sample_book ''B1'' 3 BUY = Some 0"
    by (simp add: OrderBook_find_def is_order_def sample_book_def sample_bid_def Order_new_def)
  moreover have "ladder_of BUY sample_book = [(Fin 10, sample_bid)]" "m_side sample_bid = BUY"
    by (simp_all add: ladder_of_def sample_book_def sample_bid_def Order_new_def)
  ultimately show ?thesis using OrderBook_erase_found[of sample_book "''B1''" 3 BUY 0] by (simp add: ladder_of_def)
qed

end
