(* ===== verification/Ring_Buffer.thy ===== *)
theory Ring_Buffer
  imports Prelude
begin

text \<open>
  \<open>core::RingBufferSPSCLockFree\<close> (\<open>source/core/concurrency/ring_buffer_spsc_lockfree.hpp\<close>): the
  bounded queue between the FIX thread, the matching threads and the outgoing message processor.
  The counters are 32-bit \<open>int\<close>s that only ever grow and wrap around; the code converts them to
  \<open>size_t\<close> (sign extension) before it compares them and takes them modulo the capacity. The C++
  standard leaves the overflow of \<open>n + 1\<close> undefined; the model gives it the two's complement
  wrap-around of the target machines.
\<close>

section \<open>The interface: a bounded queue\<close>

locale bounded_queue =
  fixes try_push :: "'a \<Rightarrow> 'q \<Rightarrow> bool \<times> 'q"
    and try_pop :: "'q \<Rightarrow> 'a option \<times> 'q"
    and contents :: "'q \<Rightarrow> 'a list"
    and capacity :: "'q \<Rightarrow> nat"
    and invar :: "'q \<Rightarrow> bool"
  assumes bounded: "invar q \<Longrightarrow> length (contents q) \<le> capacity q"
    and push_full: "invar q \<Longrightarrow> length (contents q) = capacity q \<Longrightarrow> try_push x q = (False, q)"
    and push_room: "invar q \<Longrightarrow> length (contents q) < capacity q \<Longrightarrow>
          fst (try_push x q) \<and> invar (snd (try_push x q)) \<and>
          contents (snd (try_push x q)) = contents q @ [x] \<and> capacity (snd (try_push x q)) = capacity q"
    and pop_empty: "invar q \<Longrightarrow> contents q = [] \<Longrightarrow> try_pop q = (None, q)"
    and pop_some: "invar q \<Longrightarrow> contents q = x # xs \<Longrightarrow>
          fst (try_pop q) = Some x \<and> invar (snd (try_pop q)) \<and>
          contents (snd (try_pop q)) = xs \<and> capacity (snd (try_pop q)) = capacity q"
begin

text \<open>A push that succeeds: the queue had room.\<close>

lemma push_True:
  assumes "invar q" "try_push x q = (True, q')"
  shows "invar q' \<and> contents q' = contents q @ [x] \<and> capacity q' = capacity q \<and>
         length (contents q) < capacity q"
proof -
  have "length (contents q) \<noteq> capacity q" using assms push_full[of q x] by auto
  then have "length (contents q) < capacity q" using bounded[OF assms(1)] by simp
  then show ?thesis using push_room[OF assms(1), of x] assms(2) by auto
qed

fun pop_n :: "nat \<Rightarrow> 'q \<Rightarrow> 'a list \<times> 'q" where
  "pop_n 0 q = ([], q)"
| "pop_n (Suc n) q = (case try_pop q of
      (None, q') \<Rightarrow> ([], q')
    | (Some x, q') \<Rightarrow> (case pop_n n q' of (xs, q'') \<Rightarrow> (x # xs, q'')))"

lemma pop_n_contents:
  "invar q \<Longrightarrow> fst (pop_n n q) = take n (contents q) \<and> invar (snd (pop_n n q)) \<and>
     contents (snd (pop_n n q)) = drop n (contents q)"
proof (induction n arbitrary: q)
  case (Suc n)
  show ?case
  proof (cases "contents q")
    case Nil
    then show ?thesis using Suc.prems pop_empty by simp
  next
    case (Cons x xs)
    obtain r q' where r: "try_pop q = (r, q')" by (cases "try_pop q") auto
    have "r = Some x" "invar q'" "contents q' = xs" using pop_some[OF Suc.prems Cons] r by auto
    then show ?thesis using Suc.IH[of q'] Cons r by (auto split: prod.splits)
  qed
qed simp

end

section \<open>The ring buffer\<close>

record 'a RingBuffer =
  m_write :: cint
  m_read :: cint
  m_capacity :: nat
  m_buffer :: "'a list"

definition RingBuffer_new :: "'a \<Rightarrow> nat \<Rightarrow> 'a RingBuffer" where
  "RingBuffer_new d capacity =
     \<lparr>m_write = 0, m_read = 0, m_capacity = capacity, m_buffer = replicate capacity d\<rparr>"

text \<open>
  The constructor: it asserts a positive capacity and allocates the slots; a capacity that is a
  converted negative \<open>int\<close> cannot be allocated.
\<close>

definition RingBuffer_construct :: "'a \<Rightarrow> csize \<Rightarrow> 'a RingBuffer result" where
  "RingBuffer_construct d capacity =
     (if \<not> 0 < capacity then Inl Assertion_failed
      else if 2 ^ 63 \<le> unat capacity then Inl Std_bad_alloc
      else Inr (RingBuffer_new d (unat capacity)))"

definition increment :: "cint \<Rightarrow> cint" where
  "increment n = n + 1"

text \<open>The conversion \<open>int\<close> to \<open>size_t\<close> and the slot a counter selects.\<close>

definition slot :: "'a RingBuffer \<Rightarrow> cint \<Rightarrow> nat" where
  "slot rb n = unat (scast n :: csize) mod m_capacity rb"

definition tryPush :: "'a \<Rightarrow> 'a RingBuffer \<Rightarrow> bool \<times> 'a RingBuffer" where
  "tryPush val rb =
     (let current_tail = m_write rb; next_tail = increment current_tail
      in if (scast (current_tail - m_read rb) :: csize) \<le> of_nat (m_capacity rb) - 1
         then (True, rb\<lparr>m_buffer := (m_buffer rb)[slot rb current_tail := val], m_write := next_tail\<rparr>)
         else (False, rb))"

definition tryPop :: "'a RingBuffer \<Rightarrow> 'a option \<times> 'a RingBuffer" where
  "tryPop rb =
     (let currentHead = m_read rb
      in if currentHead \<noteq> m_write rb
         then (Some (m_buffer rb ! slot rb currentHead), rb\<lparr>m_read := increment currentHead\<rparr>)
         else (None, rb))"

text \<open>\<open>push\<close> retries until \<open>tryPush\<close> succeeds; with a full buffer it spins until a consumer pops.\<close>

definition push :: "'a \<Rightarrow> 'a RingBuffer \<Rightarrow> 'a RingBuffer result" where
  "push val rb = (case tryPush val rb of (True, rb') \<Rightarrow> Inr rb' | (False, _) \<Rightarrow> Inl Spinning)"

section \<open>Abstraction to a list\<close>

definition rb_list :: "'a RingBuffer \<Rightarrow> 'a list" where
  "rb_list rb = map (\<lambda>k. m_buffer rb ! slot rb (m_read rb + of_nat k)) [0..<unat (m_write rb - m_read rb)]"

definition rb_inv :: "'a RingBuffer \<Rightarrow> bool" where
  "rb_inv rb \<longleftrightarrow> 0 < m_capacity rb \<and> m_capacity rb \<le> 2 ^ 30 \<and> m_capacity rb dvd 2 ^ 32 \<and>
     length (m_buffer rb) = m_capacity rb \<and> unat (m_write rb - m_read rb) \<le> m_capacity rb"

lemma uint_scast_32_64: "uint (scast (n :: cint) :: csize) = sint n mod 2 ^ 64"
proof -
  have "uint (scast n :: csize) = uint (word_of_int (sint n) :: csize)" by (simp only: scast_eq)
  then show ?thesis by (simp only: uint_word_of_int) simp
qed

lemma sint_cint_mod: "m dvd 2 ^ 32 \<Longrightarrow> sint (n :: cint) mod int m = uint n mod int m"
proof -
  assume "m dvd 2 ^ 32"
  then have d: "int m dvd 2 ^ 32" by (metis of_nat_dvd_iff of_nat_numeral of_nat_power)
  have "sint n mod 2 ^ 32 = uint n" using uint_sint[of n] by (simp add: take_bit_eq_mod)
  then show ?thesis by (metis d mod_mod_cancel)
qed

lemma slot_int: "slot rb n = nat (sint n mod 2 ^ 64 mod int (m_capacity rb))"
proof -
  have "int (slot rb n) = uint (scast n :: csize) mod int (m_capacity rb)"
    by (simp add: slot_def zmod_int)
  then show ?thesis by (simp only: uint_scast_32_64)
qed

text \<open>With a capacity that divides \<open>2 ^ 32\<close> the slot sequence is unbroken where a counter wraps.\<close>

lemma slot_eq:
  assumes "m_capacity rb dvd 2 ^ 32"
  shows "slot rb n = unat n mod m_capacity rb"
proof -
  let ?c = "int (m_capacity rb)"
  have "?c dvd 2 ^ 32" using assms by (metis of_nat_dvd_iff of_nat_numeral of_nat_power)
  then have d: "?c dvd 2 ^ 64" by (rule dvd_trans) (simp add: le_imp_power_dvd)
  have "int (slot rb n) = uint (scast n :: csize) mod ?c"
    by (simp add: slot_def zmod_int)
  also have "\<dots> = sint n mod ?c" using d by (simp only: uint_scast_32_64 mod_mod_cancel)
  also have "\<dots> = int (unat n mod m_capacity rb)"
    using sint_cint_mod[OF assms] by (simp add: zmod_int)
  finally show ?thesis by simp
qed

lemma slot_add:
  assumes "m_capacity rb dvd 2 ^ 32"
  shows "slot rb (n + of_nat k) = (unat n + k) mod m_capacity rb"
proof -
  have "unat (n + of_nat k :: cint) = (unat n + k) mod 2 ^ 32"
    by (simp add: unat_word_ariths unat_of_nat mod_add_right_eq)
  then show ?thesis using assms by (simp add: slot_eq mod_mod_cancel)
qed

lemma mod_offset_neq:
  assumes "k < n" "n - k < (c :: nat)"
  shows "(r + k) mod c \<noteq> (r + n) mod c"
proof
  assume "(r + k) mod c = (r + n) mod c"
  then have "(r + n) mod c = (r + k) mod c" by simp
  then have "c dvd (r + n) - (r + k)" using assms(1) mod_eq_dvd_iff_nat[of "r + k" "r + n" c] by linarith
  then show False using assms by (auto dest: dvd_imp_le)
qed

lemma rb_inv_new: "0 < n \<Longrightarrow> n \<le> 2 ^ 30 \<Longrightarrow> n dvd 2 ^ 32 \<Longrightarrow> rb_inv (RingBuffer_new d n)"
  by (simp add: rb_inv_def RingBuffer_new_def)

lemma rb_list_new [simp]: "rb_list (RingBuffer_new d n) = []"
  by (simp add: rb_list_def RingBuffer_new_def)

lemma length_rb_list: "length (rb_list rb) = unat (m_write rb - m_read rb)"
  by (simp add: rb_list_def)

text \<open>The test of \<open>tryPush\<close> compares the number of stored elements with the capacity.\<close>

lemma tryPush_test:
  assumes inv: "rb_inv rb"
  shows "(scast (m_write rb - m_read rb) :: csize) \<le> of_nat (m_capacity rb) - 1 \<longleftrightarrow>
         length (rb_list rb) < m_capacity rb"
proof -
  let ?d = "m_write rb - m_read rb"
  have cap: "0 < m_capacity rb" "m_capacity rb \<le> 2 ^ 30" and d: "unat ?d \<le> m_capacity rb"
    using inv by (simp_all add: rb_inv_def)
  then have "unat ?d < 2 ^ 31" by simp
  then have "uint ?d < 2 ^ 31" by (metis nat_int_comparison(2) of_nat_numeral of_nat_power uint_nat)
  moreover have "0 \<le> uint ?d" by simp
  ultimately have "sint ?d = uint ?d"
    unfolding sint_uint by (intro signed_take_bit_int_eq_self) (simp_all add: order_trans[of _ 0])
  then have "uint (scast ?d :: csize) = uint ?d"
    using \<open>uint ?d < 2 ^ 31\<close> by (simp add: uint_scast_32_64)
  then have 1: "unat (scast ?d :: csize) = unat ?d" by (metis unat_eq_nat_uint)
  have e: "(of_nat (m_capacity rb) :: csize) - 1 = of_nat (m_capacity rb - 1)"
    using cap by (simp add: of_nat_diff)
  have 2: "unat ((of_nat (m_capacity rb) :: csize) - 1) = m_capacity rb - 1"
    unfolding e using cap by (subst unat_of_nat) simp
  show ?thesis using cap(1) by (simp add: word_le_nat_alt 1 2 length_rb_list) linarith
qed

lemma unat_succ_diff:
  fixes w r :: cint
  assumes "unat (w - r) < 2 ^ 31"
  shows "unat (w + 1 - r) = Suc (unat (w - r))"
proof -
  have e: "w + 1 - r = (w - r) + 1" by simp
  show ?thesis unfolding e using assms by (subst unat_word_ariths(1)) simp
qed

text \<open>
  The two halves of a push: storing into the free slot leaves the contents alone, publishing the
  new write counter appends what the slot holds.
\<close>

lemma slot_free:
  assumes inv: "rb_inv rb" and "k < unat (m_write rb - m_read rb)" "unat (m_write rb - m_read rb) < m_capacity rb"
  shows "slot rb (m_read rb + of_nat k) \<noteq> slot rb (m_write rb)"
proof -
  let ?n = "unat (m_write rb - m_read rb)"
  have d: "m_capacity rb dvd 2 ^ 32" using inv by (simp add: rb_inv_def)
  have "slot rb (m_write rb) = (unat (m_read rb) + ?n) mod m_capacity rb"
    using slot_add[OF d, of "m_read rb" ?n] by simp
  then show ?thesis
    using mod_offset_neq[of k ?n "m_capacity rb" "unat (m_read rb)"] assms(2,3) slot_add[OF d] by simp
qed

lemma rb_store:
  fixes x :: 'a
  assumes inv: "rb_inv rb" and room: "length (rb_list rb) < m_capacity rb"
  defines "rb' \<equiv> rb\<lparr>m_buffer := (m_buffer rb)[slot rb (m_write rb) := x]\<rparr>"
  shows "rb_inv rb'" and "rb_list rb' = rb_list rb" and "m_buffer rb' ! slot rb' (m_write rb') = x"
proof -
  have s: "slot rb' w = slot rb w" for w by (simp add: slot_def rb'_def)
  show "rb_inv rb'" using inv by (simp add: rb_inv_def rb'_def)
  show "m_buffer rb' ! slot rb' (m_write rb') = x"
    unfolding s using inv by (simp add: rb'_def rb_inv_def slot_def)
  have "m_buffer rb' ! slot rb' (m_read rb' + of_nat k) = m_buffer rb ! slot rb (m_read rb + of_nat k)"
    if "k < unat (m_write rb - m_read rb)" for k
    unfolding s using slot_free[OF inv that] room by (simp add: rb'_def length_rb_list)
  then show "rb_list rb' = rb_list rb" by (simp add: rb_list_def) (simp add: rb'_def)
qed

lemma rb_publish:
  assumes inv: "rb_inv rb" and room: "length (rb_list rb) < m_capacity rb"
  defines "rb' \<equiv> rb\<lparr>m_write := increment (m_write rb)\<rparr>"
  shows "rb_inv rb'" and "rb_list rb' = rb_list rb @ [m_buffer rb ! slot rb (m_write rb)]"
proof -
  let ?n = "unat (m_write rb - m_read rb)"
  have cap: "m_capacity rb \<le> 2 ^ 30" and n: "?n < m_capacity rb"
    using inv room by (simp_all add: rb_inv_def length_rb_list)
  then have n': "unat (m_write rb' - m_read rb') = Suc ?n"
    using unat_succ_diff[of "m_write rb" "m_read rb"] by (simp add: rb'_def increment_def)
  show "rb_inv rb'" using inv n n' by (simp add: rb_inv_def) (simp add: rb'_def)
  have s: "slot rb' w = slot rb w" for w by (simp add: slot_def rb'_def)
  show "rb_list rb' = rb_list rb @ [m_buffer rb ! slot rb (m_write rb)]"
    unfolding rb_list_def n' s by (simp add: rb'_def)
qed

lemma tryPush_room:
  assumes inv: "rb_inv rb" and room: "length (rb_list rb) < m_capacity rb"
  shows "fst (tryPush x rb) \<and> rb_inv (snd (tryPush x rb)) \<and>
         rb_list (snd (tryPush x rb)) = rb_list rb @ [x] \<and>
         m_capacity (snd (tryPush x rb)) = m_capacity rb"
proof -
  define rb1 where "rb1 = rb\<lparr>m_buffer := (m_buffer rb)[slot rb (m_write rb) := x]\<rparr>"
  note st = rb_store[OF inv room, of x, folded rb1_def]
  have "tryPush x rb = (True, rb1\<lparr>m_write := increment (m_write rb1)\<rparr>)"
    using tryPush_test[OF inv] room by (simp add: tryPush_def Let_def rb1_def)
  moreover have "length (rb_list rb1) < m_capacity rb1" "m_capacity rb1 = m_capacity rb"
    unfolding st(2) using room by (simp_all add: rb1_def)
  ultimately show ?thesis using rb_publish[OF st(1)] st by simp
qed

lemma rb_advance:
  assumes inv: "rb_inv rb" and ne: "m_read rb \<noteq> m_write rb"
  defines "rb' \<equiv> rb\<lparr>m_read := increment (m_read rb)\<rparr>"
  shows "rb_inv rb'" and "rb_list rb = m_buffer rb ! slot rb (m_read rb) # rb_list rb'"
proof -
  let ?n = "unat (m_write rb - m_read rb)"
  have "unat (m_write rb - m_read rb) \<noteq> 0"
    using ne unat_eq_zero[of "m_write rb - m_read rb"] by auto
  then obtain m where n: "?n = Suc m" by (cases ?n) auto
  have e: "m_write rb' - m_read rb' = (m_write rb - m_read rb) - 1" by (simp add: rb'_def increment_def)
  have n': "unat (m_write rb' - m_read rb') = m"
    unfolding e using n ne by (subst unat_minus_one) auto
  have "[0..<?n] = 0 # map Suc [0..<m]" by (simp add: n upt_conv_Cons map_Suc_upt del: upt_Suc)
  then have "rb_list rb = m_buffer rb ! slot rb (m_read rb) #
      map (\<lambda>k. m_buffer rb ! slot rb (m_read rb + 1 + of_nat k)) [0..<m]"
    by (simp add: rb_list_def o_def add.assoc)
  moreover have "rb_list rb' = map (\<lambda>k. m_buffer rb ! slot rb (m_read rb + 1 + of_nat k)) [0..<m]"
    unfolding rb_list_def n' by (simp add: rb'_def increment_def slot_def)
  ultimately show "rb_list rb = m_buffer rb ! slot rb (m_read rb) # rb_list rb'" by simp
  show "rb_inv rb'" using inv n n' by (simp add: rb_inv_def) (simp add: rb'_def)
qed

lemma rb_list_Nil_iff: "rb_list rb = [] \<longleftrightarrow> m_read rb = m_write rb"
proof -
  have "rb_list rb = [] \<longleftrightarrow> unat (m_write rb - m_read rb) = 0" by (simp add: rb_list_def)
  then show ?thesis by (auto simp: unat_0_iff)
qed

lemma tryPop_some:
  assumes inv: "rb_inv rb" and ne: "rb_list rb = x # xs"
  shows "fst (tryPop rb) = Some x \<and> rb_inv (snd (tryPop rb)) \<and> rb_list (snd (tryPop rb)) = xs \<and>
         m_capacity (snd (tryPop rb)) = m_capacity rb"
proof -
  have "m_read rb \<noteq> m_write rb" using ne rb_list_Nil_iff[of rb] by auto
  then show ?thesis using rb_advance[OF inv] ne by (simp add: tryPop_def Let_def)
qed

interpretation ring_queue: bounded_queue tryPush tryPop rb_list m_capacity rb_inv
proof
  fix q :: "'a RingBuffer" and x xs
  assume inv: "rb_inv q"
  then show "length (rb_list q) \<le> m_capacity q" by (simp add: rb_inv_def length_rb_list)
  show "length (rb_list q) = m_capacity q \<Longrightarrow> tryPush x q = (False, q)"
    using tryPush_test[OF inv] by (simp add: tryPush_def Let_def)
  show "length (rb_list q) < m_capacity q \<Longrightarrow> fst (tryPush x q) \<and> rb_inv (snd (tryPush x q)) \<and>
      rb_list (snd (tryPush x q)) = rb_list q @ [x] \<and> m_capacity (snd (tryPush x q)) = m_capacity q"
    by (rule tryPush_room[OF inv])
  show "rb_list q = [] \<Longrightarrow> tryPop q = (None, q)"
    by (simp add: tryPop_def Let_def rb_list_Nil_iff)
  show "rb_list q = x # xs \<Longrightarrow> fst (tryPop q) = Some x \<and> rb_inv (snd (tryPop q)) \<and>
      rb_list (snd (tryPop q)) = xs \<and> m_capacity (snd (tryPop q)) = m_capacity q"
    by (rule tryPop_some[OF inv])
qed

lemma push_Inr:
  assumes "rb_inv rb" "push x rb = Inr rb'"
  shows "rb_inv rb' \<and> rb_list rb' = rb_list rb @ [x] \<and> m_capacity rb' = m_capacity rb \<and>
         length (rb_list rb) < m_capacity rb"
  using ring_queue.push_True[OF assms(1), of x rb'] assms(2)
  by (auto simp: push_def split: prod.splits bool.splits)

lemma push_full: "rb_inv rb \<Longrightarrow> \<not> length (rb_list rb) < m_capacity rb \<Longrightarrow> push x rb = Inl Spinning"
  using tryPush_test[of rb] by (simp add: push_def tryPush_def Let_def)

lemma push_room:
  assumes "rb_inv rb" "length (rb_list rb) < m_capacity rb"
  shows "\<exists>rb'. push x rb = Inr rb' \<and> rb_inv rb' \<and> rb_list rb' = rb_list rb @ [x] \<and>
           m_capacity rb' = m_capacity rb"
  using ring_queue.push_room[OF assms, of x] by (auto simp: push_def split: prod.splits bool.splits)

section \<open>Properties\<close>

text \<open>C16: The ring buffer implements a bounded FIFO queue, across the wrap-around of its counters.
  For a capacity that divides \<open>2 ^ 32\<close> and is at most \<open>2 ^ 30\<close>, and any counter values, \<open>tryPush\<close> fails exactly when the
  queue is full and otherwise appends the value, and \<open>tryPop\<close> returns nothing exactly when the queue
  is empty and otherwise removes its first element.\<close>

theorem ring_buffer_is_fifo:
  assumes "rb_inv rb"
  shows "(fst (tryPush x rb) \<longleftrightarrow> length (rb_list rb) < m_capacity rb) \<and>
     rb_inv (snd (tryPush x rb)) \<and>
     rb_list (snd (tryPush x rb)) = (if length (rb_list rb) < m_capacity rb then rb_list rb @ [x] else rb_list rb) \<and>
     fst (tryPop rb) = (case rb_list rb of [] \<Rightarrow> None | y # ys \<Rightarrow> Some y) \<and>
     rb_inv (snd (tryPop rb)) \<and> rb_list (snd (tryPop rb)) = tl (rb_list rb)"
proof (intro conjI)
  show "fst (tryPush x rb) \<longleftrightarrow> length (rb_list rb) < m_capacity rb"
    using tryPush_test[OF assms] by (simp add: tryPush_def Let_def)
  have "tryPush x rb = (False, rb)" if "\<not> length (rb_list rb) < m_capacity rb"
    using that tryPush_test[OF assms] by (simp add: tryPush_def Let_def)
  then show "rb_inv (snd (tryPush x rb))"
    "rb_list (snd (tryPush x rb)) = (if length (rb_list rb) < m_capacity rb then rb_list rb @ [x] else rb_list rb)"
    using ring_queue.push_room[OF assms, of x] assms by fastforce+
  show "fst (tryPop rb) = (case rb_list rb of [] \<Rightarrow> None | y # ys \<Rightarrow> Some y)"
    "rb_inv (snd (tryPop rb))" "rb_list (snd (tryPop rb)) = tl (rb_list rb)"
    using ring_queue.pop_empty[OF assms] ring_queue.pop_some[OF assms] assms
    by (cases "rb_list rb"; simp)+
qed

theorem ring_buffer_is_fifo_witness:
  "rb_inv (RingBuffer_new (0 :: nat) 4) \<and> fst (tryPush 5 (RingBuffer_new (0 :: nat) 4)) \<and>
   rb_list (snd (tryPush 5 (RingBuffer_new (0 :: nat) 4))) = [5] \<and> fst (tryPop (RingBuffer_new (0 :: nat) 4)) = None"
proof -
  have "rb_inv (RingBuffer_new (0 :: nat) 4)" by (rule rb_inv_new) simp_all
  moreover have "m_capacity (RingBuffer_new (0 :: nat) 4) = 4" by (simp add: RingBuffer_new_def)
  ultimately show ?thesis using ring_buffer_is_fifo[of "RingBuffer_new (0 :: nat) 4" 5] by simp
qed

text \<open>With a capacity that does not divide \<open>2 ^ 32\<close> the queue is not FIFO where the counters pass
  \<open>INT_MAX\<close>: in a buffer of capacity 7 whose counters have reached \<open>2 ^ 31 - 1\<close>, the third push
  reuses the slot of the first element, so three pushes followed by a pop return the third value.\<close>

lemma ring_buffer_wrap_overwrites:
  "let rb0 = \<lparr>m_write = 2147483647, m_read = 2147483647, m_capacity = 7, m_buffer = [0, 0, 0, 0, 0, 0, 0 :: nat]\<rparr>;
       rb1 = snd (tryPush 1 rb0); rb2 = snd (tryPush 2 rb1); rb3 = snd (tryPush 3 rb2)
   in fst (tryPush 1 rb0) \<and> fst (tryPush 2 rb1) \<and> fst (tryPush 3 rb2) \<and> fst (tryPop rb3) = Some 3"
proof -
  have "slot rb 2147483647 = 1" "slot rb 2147483648 = 0" "slot rb 2147483649 = 1"
    if "m_capacity rb = 7" for rb :: "nat RingBuffer"
    using that by (simp_all add: slot_int)
  then show ?thesis by (simp add: tryPush_def tryPop_def Let_def increment_def)
qed

end
