(* ===== verification/Threads.thy ===== *)
theory Threads
  imports Prelude
begin

text \<open>
  \<open>core::Thread\<close> and \<open>core::Actor\<close> (\<open>source/core/concurrency/thread.h\<close>, \<open>thread.cpp\<close>, \<open>actor.h\<close>, \<open>thread_wait_strategy.h\<close>,
  Linux build), with the thread priorities of \<open>thread_priority.h\<close>: the life cycle that the classes
  enforce around the calls of the operating system, whose results are arguments.
\<close>

section \<open>Thread priorities\<close>

datatype ThreadPriority = IDLE | BELOW_NORMAL | NORMAL | ABOVE_NORMAL | CRITICAL

definition NATIVE_THREAD_PRIORITIES :: "(ThreadPriority \<times> int) list" where
  "NATIVE_THREAD_PRIORITIES =
     [(IDLE, 19), (BELOW_NORMAL, 1), (NORMAL, 0), (ABOVE_NORMAL, - 1), (CRITICAL, - 20)]"

definition getThreadPriorityFromString :: "string \<Rightarrow> ThreadPriority result" where
  "getThreadPriorityFromString input =
     (if input = ''IDLE'' then Inr IDLE
      else if input = ''BELOW_NORMAL'' then Inr BELOW_NORMAL
      else if input = ''NORMAL'' then Inr NORMAL
      else if input = ''ABOVE_NORMAL'' then Inr ABOVE_NORMAL
      else if input = ''CRITICAL'' then Inr CRITICAL
      else Inl Std_invalid_argument)"

section \<open>Threads\<close>

definition MAX_THREAD_NAME_LENGTH :: nat where
  "MAX_THREAD_NAME_LENGTH = 16"

text \<open>\<open>joins\<close> is the list of the thread ids that \<open>pthread_join\<close> was called for.\<close>

record Thread =
  m_name :: string
  m_started :: bool
  m_joined :: bool
  m_threadID :: nat
  m_priority :: ThreadPriority
  joins :: "nat list"

definition Thread_new :: "string \<Rightarrow> Thread" where
  "Thread_new name = \<lparr>m_name = name, m_started = False, m_joined = False, m_threadID = 0, m_priority = NORMAL, joins = []\<rparr>"

definition setThreadName :: "string \<Rightarrow> unit result" where
  "setThreadName name =
     (if 0 < length name
      then if length name < MAX_THREAD_NAME_LENGTH then Inr () else Inl Assertion_failed
      else Inr ())"

text \<open>\<open>start\<close>: \<open>pthread_create\<close> gives an id or fails.\<close>

definition Thread_start :: "nat option \<Rightarrow> Thread \<Rightarrow> Thread result" where
  "Thread_start created t =
     (case created of
        None \<Rightarrow> Inl (Runtime_error ''Thread creation failed'')
      | Some tid \<Rightarrow> res_bind (setThreadName (m_name t)) (\<lambda>_. Inr (t\<lparr>m_threadID := tid, m_started := True\<rparr>)))"

text \<open>\<open>success\<close> is set in the Windows branch only.\<close>

definition Thread_setPriority :: "ThreadPriority \<Rightarrow> Thread \<Rightarrow> (bool \<times> Thread) result" where
  "Thread_setPriority priority t =
     (if \<not> m_started t then Inl Assertion_failed else Inr (False, t\<lparr>m_priority := priority\<rparr>))"

text \<open>\<open>affinityResult\<close> is what \<open>pthread_setaffinity_np\<close> returns.\<close>

definition pinToCPUCoreInternal :: "int \<Rightarrow> int \<Rightarrow> int result" where
  "pinToCPUCoreInternal affinityResult coreID = (if \<not> 0 \<le> coreID then Inl Assertion_failed else Inr affinityResult)"

definition Thread_pinToCPUCore :: "int \<Rightarrow> int \<Rightarrow> Thread \<Rightarrow> int result" where
  "Thread_pinToCPUCore affinityResult coreID t =
     (if \<not> m_started t then Inl Assertion_failed else pinToCPUCoreInternal affinityResult coreID)"

definition pinCallingThreadToCPUCore :: "int \<Rightarrow> int \<Rightarrow> int result" where
  "pinCallingThreadToCPUCore affinityResult coreID = pinToCPUCoreInternal affinityResult coreID"

text \<open>Of a release build; \<open>killResult\<close> is what \<open>pthread_kill\<close> with signal 0 returns.\<close>

definition Thread_isAlive :: "int \<Rightarrow> Thread \<Rightarrow> bool" where
  "Thread_isAlive killResult t = (if \<not> m_started t then False else killResult = 0)"

definition isJoiningOk :: "Thread \<Rightarrow> bool" where
  "isJoiningOk t = (if \<not> m_started t \<or> m_joined t then False else True)"

definition Thread_join :: "Thread \<Rightarrow> Thread" where
  "Thread_join t = (if \<not> isJoiningOk t then t else t\<lparr>joins := joins t @ [m_threadID t], m_joined := True\<rparr>)"

text \<open>\<open>detach\<close>, with the thread id it hands to \<open>pthread_detach\<close>; the object does not remember it.\<close>

definition Thread_detach :: "Thread \<Rightarrow> nat \<times> Thread" where
  "Thread_detach t = (m_threadID t, t)"

text \<open>The priority the scheduler reports; \<open>mem\<close> is what the structure holds when the call fails.\<close>

definition getRealPriority :: "int option \<Rightarrow> int \<Rightarrow> int" where
  "getRealPriority reported mem = (case reported of None \<Rightarrow> mem | Some p \<Rightarrow> p)"

section \<open>Cores and ids\<close>

definition getCurrentCoreID :: "cint \<Rightarrow> cint" where
  "getCurrentCoreID sched_getcpu = sched_getcpu"

text \<open>\<open>sysconf\<close> returns a \<open>long\<close>, -1 when it does not know.\<close>

definition getNumberOfCores :: "clong \<Rightarrow> 32 word" where
  "getNumberOfCores sysconf = ucast sysconf"

text \<open>The local variable is declared \<open>auto threadID(0)\<close> and so is an \<open>int\<close>.\<close>

definition getCurrentThreadID :: "64 word \<Rightarrow> 64 word" where
  "getCurrentThreadID pthread_self = scast (ucast pthread_self :: cint)"

text \<open>\<open>edx\<close> is what \<open>cpuid\<close> with the argument 1 leaves in that register.\<close>

unbundle bit_operations_syntax

definition isHyperThreading :: "32 word \<Rightarrow> bool" where
  "isHyperThreading edx = (edx AND push_bit 28 1 \<noteq> 0)"

section \<open>Wait strategies\<close>

text \<open>The call of the operating system that a strategy makes; \<open>usleep\<close> takes 32 bits.\<close>

datatype wait_call = Usleep "32 word" | Pthread_yield

definition Thread_sleep :: "64 word \<Rightarrow> wait_call list" where
  "Thread_sleep microseconds = [Usleep (ucast microseconds)]"

definition Thread_yield :: "wait_call list" where
  "Thread_yield = [Pthread_yield]"

datatype ThreadWaitStrategy = SleepWaitStrategy | YieldWaitStrategy | BusyWaitStrategy

primrec applyWaitStrategy :: "ThreadWaitStrategy \<Rightarrow> 64 word \<Rightarrow> wait_call list" where
  "applyWaitStrategy SleepWaitStrategy argument = Thread_sleep argument"
| "applyWaitStrategy YieldWaitStrategy argument = Thread_yield"
| "applyWaitStrategy BusyWaitStrategy argument = []"

section \<open>Actors\<close>

record Actor = Thread +
  m_isFinishing :: bool

definition Actor_new :: "string \<Rightarrow> Actor" where
  "Actor_new name = Thread.extend (Thread_new name) \<lparr>m_isFinishing = False\<rparr>"

definition sendFinishSignal :: "'a Actor_scheme \<Rightarrow> 'a Actor_scheme" where
  "sendFinishSignal a = a\<lparr>m_isFinishing := True\<rparr>"

definition Actor_join :: "'a Actor_scheme \<Rightarrow> 'a Actor_scheme" where
  "Actor_join a =
     (let t = Thread_join (Thread.truncate a) in a\<lparr>m_joined := m_joined t, joins := joins t\<rparr>)"

definition Actor_shutdown :: "'a Actor_scheme \<Rightarrow> 'a Actor_scheme" where
  "Actor_shutdown a = Actor_join (sendFinishSignal a)"

text \<open>The destructor.\<close>

definition Actor_destroy :: "'a Actor_scheme \<Rightarrow> 'a Actor_scheme" where
  "Actor_destroy a = (if \<not> m_isFinishing a then Actor_shutdown a else a)"

section \<open>Lemmas\<close>

lemma setThreadName_ok: "length name < MAX_THREAD_NAME_LENGTH \<Longrightarrow> setThreadName name = Inr ()"
  by (simp add: setThreadName_def)

text \<open>A thread is joined at most once, and only after it was started.\<close>

definition joined_once :: "Thread \<Rightarrow> bool" where
  "joined_once t \<longleftrightarrow> joins t = (if m_joined t then [m_threadID t] else []) \<and> (m_joined t \<longrightarrow> m_started t)"

lemma joined_once_new: "joined_once (Thread_new name)"
  by (simp add: joined_once_def Thread_new_def)

lemma joined_once_start: "Thread_start created t = Inr t' \<Longrightarrow> \<not> m_started t \<Longrightarrow> joined_once t \<Longrightarrow> joined_once t'"
  by (auto simp: joined_once_def Thread_start_def split: option.splits)

lemma joined_once_join: "joined_once t \<Longrightarrow> joined_once (Thread_join t) \<and> Thread_join (Thread_join t) = Thread_join t"
  by (auto simp: joined_once_def Thread_join_def isJoiningOk_def)

lemma actor_shutdown_joins:
  "joined_once (Thread.truncate a) \<Longrightarrow> m_started a \<Longrightarrow>
   m_isFinishing (Actor_shutdown a) \<and> joins (Actor_shutdown a) = [m_threadID a] \<and> Actor_shutdown (Actor_shutdown a) = Actor_shutdown a"
  by (auto simp: joined_once_def Actor_shutdown_def Actor_join_def sendFinishSignal_def Thread_join_def isJoiningOk_def
      Thread.truncate_def Let_def)

text \<open>A thread that was detached is still joined, which the operating system does not allow.\<close>

lemma detached_thread_joined:
  assumes "Thread_detach t = (tid, t')" "m_started t" "\<not> m_joined t"
  shows "joins (Thread_join t') = joins t @ [tid]"
  using assms by (auto simp: Thread_detach_def Thread_join_def isJoiningOk_def)

text \<open>Of a thread id only the low 32 bits are left, with their sign; ids that differ above are the same.\<close>

lemma thread_id_cut:
  "getCurrentThreadID v = getCurrentThreadID w \<longleftrightarrow> take_bit 32 v = take_bit 32 w"
proof -
  have inv: "ucast (scast x :: 64 word) = x" for x :: cint
  proof (rule bit_word_eqI)
    fix n assume "n < LENGTH(32)"
    then show "bit (ucast (scast x :: 64 word) :: cint) n \<longleftrightarrow> bit x n"
      by (cases "n = 31") (auto simp: bit_ucast_iff bit_signed_iff min_def)
  qed
  have "(scast (ucast v :: cint) :: 64 word) = scast (ucast w :: cint) \<longleftrightarrow> (ucast v :: cint) = ucast w"
    using inv[of "ucast v"] inv[of "ucast w"] by metis
  also have "\<dots> \<longleftrightarrow> take_bit 32 v = take_bit 32 w"
  proof
    assume "(ucast v :: cint) = ucast w"
    then have eq: "bit (ucast v :: cint) n \<longleftrightarrow> bit (ucast w :: cint) n" for n by simp
    have "bit v n \<longleftrightarrow> bit w n" if "n < 32" for n using eq[of n] that by (simp add: bit_ucast_iff)
    then show "take_bit 32 v = take_bit 32 w" by (auto simp: bit_eq_iff bit_take_bit_iff)
  next
    assume "take_bit 32 v = take_bit 32 w"
    then have eq: "bit (take_bit 32 v) n \<longleftrightarrow> bit (take_bit 32 w) n" for n by simp
    have "bit v n \<longleftrightarrow> bit w n" if "n < 32" for n using eq[of n] that by (simp add: bit_take_bit_iff)
    then show "(ucast v :: cint) = ucast w" by (auto simp: bit_eq_iff bit_ucast_iff)
  qed
  finally show ?thesis by (simp add: getCurrentThreadID_def)
qed

lemma isHyperThreading_bit: "isHyperThreading edx \<longleftrightarrow> bit edx 28"
  by (simp add: isHyperThreading_def bit_iff_and_push_bit_not_eq_0)

text \<open>A machine whose core count is unknown counts as one with 2^32 - 1 cores.\<close>

lemma unknown_core_count: "unat (getNumberOfCores (- 1)) = 2 ^ 32 - 1"
proof -
  have "getNumberOfCores (- 1) = - 1" by (rule bit_word_eqI) (simp add: getNumberOfCores_def bit_ucast_iff)
  then show ?thesis by (simp add: unsigned_minus_1_eq_mask mask_eq_exp_minus_1)
qed

text \<open>A sleep of 2^32 microseconds, a little over an hour, does not sleep.\<close>

lemma long_sleep_is_none: "applyWaitStrategy SleepWaitStrategy (2 ^ 32) = [Usleep 0]"
  by (simp add: Thread_sleep_def)

end
