(* ===== verification/Thread_Pool.thy ===== *)
theory Thread_Pool
  imports Ring_Buffer Threads
begin

text \<open>
  \<open>core::Task\<close> (\<open>source/core/concurrency/task.h\<close>), \<open>core::ThreadPoolArguments\<close> and
  \<open>core::ThreadPool\<close> (\<open>thread_pool_arguments.h\<close>, \<open>thread_pool.h\<close>, \<open>thread_pool.cpp\<close>). The operating system threads themselves are represented
  by what the pool decides about them: name, task argument, priority and core. The number of cores
  and the hyper-threading flag of the machine are parameters.
\<close>

section \<open>Tasks\<close>

text \<open>
  The callback of a task is a value of the client's choice (what \<open>std::bind\<close> captured); \<open>run\<close> says
  what calling it does to the client's state. A default constructed task has an empty
  \<open>std::function\<close>, whose call throws.
\<close>

record 'c Task =
  m_callback :: "'c option"
  m_taskException :: "cpp_error option"

definition Task_default :: "'c Task" where
  "Task_default = \<lparr>m_callback = None, m_taskException = None\<rparr>"

definition Task_new :: "'c \<Rightarrow> 'c Task" where
  "Task_new f = \<lparr>m_callback = Some f, m_taskException = None\<rparr>"

text \<open>\<open>execute\<close>: exceptions are stored in the task and never leave it.\<close>

definition Task_execute :: "('c \<Rightarrow> 's \<Rightarrow> 's \<times> cpp_error option) \<Rightarrow> 'c Task \<Rightarrow> 's \<Rightarrow> ('c Task \<times> 's) result" where
  "Task_execute run task s =
     (case m_callback task of
        None \<Rightarrow> Inr (task\<lparr>m_taskException := Some Std_bad_function_call\<rparr>, s)
      | Some f \<Rightarrow> (case run f s of
            (s', None) \<Rightarrow> Inr (task, s')
          | (s', Some e) \<Rightarrow> if is_exception e then Inr (task\<lparr>m_taskException := Some e\<rparr>, s') else Inl e))"

text \<open>The function every thread starts with: it is given the task of the thread, which may not be null.\<close>

definition internalThreadFunction :: "('c \<Rightarrow> 's \<Rightarrow> 's \<times> cpp_error option) \<Rightarrow> 'c Task option \<Rightarrow> 's \<Rightarrow> ('c Task \<times> 's) result" where
  "internalThreadFunction run argument s =
     (case argument of None \<Rightarrow> Inl Assertion_failed | Some task \<Rightarrow> Task_execute run task s)"

section \<open>The pool\<close>

record ThreadPoolArguments =
  m_pinThreadsToCores :: bool
  m_hyperThreading :: bool
  m_workQueueSizePerThread :: cint
  m_threadStackSize :: cint
  m_threadPriority :: ThreadPriority
  m_threadNames :: "string list"

definition ThreadPoolArguments_default :: ThreadPoolArguments where
  "ThreadPoolArguments_default = \<lparr>m_pinThreadsToCores = True, m_hyperThreading = False,
     m_workQueueSizePerThread = 128, m_threadStackSize = 0, m_threadPriority = NORMAL,
     m_threadNames = []\<rparr>"

text \<open>A worker thread as the pool sets it up.\<close>

record Worker =
  worker_name :: string
  worker_queueIndex :: nat
  worker_stackSize :: cint
  worker_priority :: ThreadPriority
  worker_core :: "nat option"

record 'c ThreadPool =
  m_threads :: "Worker list"
  m_threadQueues :: "'c Task RingBuffer list"
  m_isShuttingDown :: bool

definition ThreadPool_new :: "'c ThreadPool" where
  "ThreadPool_new = \<lparr>m_threads = [], m_threadQueues = [], m_isShuttingDown = False\<rparr>"

text \<open>The body of the loop of \<open>initialise\<close> for worker \<open>i\<close>; \<open>numCores\<close> is already halved when
  hyper-threading is avoided. Starting the thread names it.\<close>

definition pool_add_worker :: "ThreadPoolArguments \<Rightarrow> nat \<Rightarrow> bool \<Rightarrow> nat \<Rightarrow> 'c ThreadPool \<Rightarrow> 'c ThreadPool result" where
  "pool_add_worker args numCores useProcessorsWithEvenIndex i pool =
     res_bind (RingBuffer_construct Task_default (scast (m_workQueueSizePerThread args))) (\<lambda>queue.
     res_bind (vec_at (m_threadNames args) (length (m_threads pool))) (\<lambda>threadName.
     res_bind (setThreadName threadName) (\<lambda>_.
     res_bind (if m_pinThreadsToCores args
               then if numCores = 0 then Inl Division_by_zero
                    else let coreID = i mod numCores
                         in Inr (Some (if useProcessorsWithEvenIndex then coreID * 2 else coreID))
               else Inr None) (\<lambda>core.
     Inr (pool\<lparr>m_threadQueues := m_threadQueues pool @ [queue],
               m_threads := m_threads pool @
                 [\<lparr>worker_name = threadName, worker_queueIndex = i,
                   worker_stackSize = m_threadStackSize args,
                   worker_priority = m_threadPriority args, worker_core = core\<rparr>]\<rparr>)))))"

definition ThreadPool_initialise :: "nat \<Rightarrow> bool \<Rightarrow> ThreadPoolArguments \<Rightarrow> 'c ThreadPool \<Rightarrow> 'c ThreadPool result" where
  "ThreadPool_initialise numberOfCores hyperThreaded args pool =
     (if \<not> 0 < length (m_threadNames args) then Inl Assertion_failed
      else let avoid = (hyperThreaded \<and> \<not> m_hyperThreading args);
               numCores = (if avoid then numberOfCores div 2 else numberOfCores)
           in res_fold (pool_add_worker args numCores avoid) [0..<length (m_threadNames args)] pool)"

definition submitTask :: "'c Task \<Rightarrow> csize \<Rightarrow> 'c ThreadPool \<Rightarrow> 'c ThreadPool result" where
  "submitTask task queueID pool =
     (if unat queueID \<ge> length (m_threadQueues pool) then Inl Std_invalid_argument
      else res_bind (push task (m_threadQueues pool ! unat queueID)) (\<lambda>queue.
           Inr (pool\<lparr>m_threadQueues := (m_threadQueues pool)[unat queueID := queue]\<rparr>)))"

text \<open>\<open>shutdown\<close> raises the flag; joining waits for the workers to see it.\<close>

definition ThreadPool_shutdown :: "'c ThreadPool \<Rightarrow> 'c ThreadPool" where
  "ThreadPool_shutdown pool = pool\<lparr>m_isShuttingDown := True\<rparr>"

text \<open>
  One turn of the loop of \<open>workerThreadFunction\<close> of the thread with queue \<open>queueIndex\<close>: the client
  state \<open>s\<close> holds the pool (\<open>get\<close> and \<open>put\<close>). \<open>None\<close> says that the loop has ended.
\<close>

definition worker_turn ::
  "('s \<Rightarrow> 'c ThreadPool) \<Rightarrow> ('c ThreadPool \<Rightarrow> 's \<Rightarrow> 's) \<Rightarrow> ('c \<Rightarrow> 's \<Rightarrow> 's \<times> cpp_error option) \<Rightarrow>
   nat \<Rightarrow> 's \<Rightarrow> 's option result" where
  "worker_turn get put run queueIndex s =
     (if m_isShuttingDown (get s) then Inr None
      else res_bind (vec_at (m_threadQueues (get s)) queueIndex) (\<lambda>queue.
        case tryPop queue of
          (Some queueTask, queue') \<Rightarrow>
            res_bind (Task_execute run queueTask
                (put ((get s)\<lparr>m_threadQueues := (m_threadQueues (get s))[queueIndex := queue']\<rparr>) s))
              (\<lambda>(_, s'). Inr (Some s'))
        | (None, _) \<Rightarrow> Inr (Some s)))"

section \<open>Lemmas\<close>

definition pool_inv :: "'c ThreadPool \<Rightarrow> bool" where
  "pool_inv pool \<longleftrightarrow> length (m_threads pool) = length (m_threadQueues pool) \<and>
     (\<forall>i < length (m_threads pool). worker_queueIndex (m_threads pool ! i) = i) \<and>
     (\<forall>q \<in> set (m_threadQueues pool). rb_inv q)"

text \<open>The worker the pool creates for index \<open>i\<close>.\<close>

definition worker_for :: "ThreadPoolArguments \<Rightarrow> nat \<Rightarrow> bool \<Rightarrow> nat \<Rightarrow> Worker" where
  "worker_for args numCores even_only i =
     \<lparr>worker_name = m_threadNames args ! i, worker_queueIndex = i,
      worker_stackSize = m_threadStackSize args, worker_priority = m_threadPriority args,
      worker_core = (if m_pinThreadsToCores args
                     then Some (if even_only then i mod numCores * 2 else i mod numCores) else None)\<rparr>"

lemma queue_constructed:
  assumes "0 < sint (w :: cint)"
  shows "RingBuffer_construct d (scast w) = Inr (RingBuffer_new d (nat (sint w)))"
proof -
  have u: "uint (scast w :: csize) = sint w"
    using assms sint_range_32[of w] by (simp add: uint_scast_32_64)
  then have "unat (scast w :: csize) = nat (sint w)" by (metis unat_eq_nat_uint)
  then show ?thesis
    using assms sint_range_32[of w] u by (simp add: RingBuffer_construct_def word_less_def)
qed

lemma pool_add_workers:
  assumes "n \<le> length (m_threadNames args)" "\<forall>name \<in> set (m_threadNames args). length name < MAX_THREAD_NAME_LENGTH"
    and cap: "0 < sint (m_workQueueSizePerThread args)" and cores: "0 < numCores"
  shows "res_fold (pool_add_worker args numCores ev) [0..<n] ThreadPool_new =
     Inr \<lparr>m_threads = map (worker_for args numCores ev) [0..<n],
          m_threadQueues = replicate n (RingBuffer_new Task_default (nat (sint (m_workQueueSizePerThread args)))),
          m_isShuttingDown = False\<rparr>"
  using assms(1)
proof (induction n)
  case (Suc n)
  then have "setThreadName (m_threadNames args ! n) = Inr ()" using assms(2) by (simp add: setThreadName_ok)
  then show ?case
    using Suc cores
    by (simp add: queue_constructed[OF cap] pool_add_worker_def worker_for_def Let_def replicate_append_same)
qed (simp add: ThreadPool_new_def)

text \<open>Queue sizes for which a ring buffer is a queue for ever.\<close>

definition queue_size_ok :: "cint \<Rightarrow> bool" where
  "queue_size_ok w \<longleftrightarrow> 0 < sint w \<and> sint w \<le> 2 ^ 30 \<and> nat (sint w) dvd 2 ^ 32"

lemma queue_size_ok_construct:
  assumes "queue_size_ok w" "RingBuffer_construct d (scast w) = Inr q"
  shows "rb_inv q \<and> rb_list q = []"
  using assms by (auto simp: queue_size_ok_def queue_constructed intro!: rb_inv_new)

lemma pool_inv_add_worker:
  assumes "pool_add_worker args n ev i pool = Inr pool'" "pool_inv pool" "i = length (m_threads pool)"
    and "queue_size_ok (m_workQueueSizePerThread args)"
  shows "pool_inv pool' \<and> length (m_threads pool') = Suc i \<and> m_isShuttingDown pool' = m_isShuttingDown pool \<and>
    map rb_list (m_threadQueues pool') = map rb_list (m_threadQueues pool) @ [[]]"
proof -
  obtain q nm core where q: "RingBuffer_construct Task_default (scast (m_workQueueSizePerThread args)) = Inr q"
    and p: "pool' = pool\<lparr>m_threadQueues := m_threadQueues pool @ [q], m_threads := m_threads pool @
      [\<lparr>worker_name = nm, worker_queueIndex = i, worker_stackSize = m_threadStackSize args,
        worker_priority = m_threadPriority args, worker_core = core\<rparr>]\<rparr>"
    using assms(1) unfolding pool_add_worker_def res_bind_Inr_iff sum.inject by blast
  have "rb_inv q" "rb_list q = []" using queue_size_ok_construct[OF assms(4) q] by simp_all
  then show ?thesis using assms(2,3) by (auto simp: p pool_inv_def nth_append less_Suc_eq)
qed

lemma pool_inv_initialise:
  assumes "ThreadPool_initialise cores ht args ThreadPool_new = Inr pool" "queue_size_ok (m_workQueueSizePerThread args)"
  shows "pool_inv pool \<and> \<not> m_isShuttingDown pool \<and>
    map rb_list (m_threadQueues pool) = replicate (length (m_threadNames args)) []"
proof -
  have "pool_inv pool' \<and> length (m_threads pool') = n \<and> \<not> m_isShuttingDown pool' \<and>
      map rb_list (m_threadQueues pool') = replicate n []"
    if "res_fold (pool_add_worker args c ev) [0..<n] ThreadPool_new = Inr pool'" for c ev n pool'
    using that
  proof (induction n arbitrary: pool')
    case 0
    then show ?case by (auto simp: ThreadPool_new_def pool_inv_def)
  next
    case (Suc n)
    then obtain pool1 where 1: "res_fold (pool_add_worker args c ev) [0..<n] ThreadPool_new = Inr pool1"
      and 2: "pool_add_worker args c ev n pool1 = Inr pool'" by auto
    note IH = Suc.IH[OF 1]
    show ?case using pool_inv_add_worker[OF 2 _ _ assms(2)] IH by (simp add: replicate_append_same)
  qed
  then show ?thesis using assms(1) by (auto simp: ThreadPool_initialise_def Let_def split: if_splits)
qed

lemma submitTask_Inr:
  assumes "submitTask task q pool = Inr pool'" "pool_inv pool"
  shows "pool_inv pool' \<and> unat q < length (m_threadQueues pool) \<and>
     m_threads pool' = m_threads pool \<and> m_isShuttingDown pool' = m_isShuttingDown pool \<and>
     map rb_list (m_threadQueues pool') =
       (map rb_list (m_threadQueues pool))[unat q := rb_list (m_threadQueues pool ! unat q) @ [task]]"
proof -
  obtain queue where q: "unat q < length (m_threadQueues pool)"
    "push task (m_threadQueues pool ! unat q) = Inr queue"
    "pool' = pool\<lparr>m_threadQueues := (m_threadQueues pool)[unat q := queue]\<rparr>"
    using assms(1) by (auto simp: submitTask_def split: if_splits)
  have "rb_inv (m_threadQueues pool ! unat q)" using assms(2) q(1) by (simp add: pool_inv_def)
  from push_Inr[OF this q(2)] show ?thesis using assms(2) q
    by (auto simp: pool_inv_def map_update dest!: set_update_subset_insert[THEN subsetD])
qed

section \<open>A sample pool\<close>

definition sample_args :: ThreadPoolArguments where
  "sample_args = ThreadPoolArguments_default\<lparr>m_workQueueSizePerThread := 4, m_threadNames := [''A'', ''B'']\<rparr>"

text \<open>A pool with one queue that holds one task.\<close>

definition sample_queue :: "string Task RingBuffer" where
  "sample_queue = \<lparr>m_write = 1, m_read = 0, m_capacity = 4,
     m_buffer = [Task_new ''T'', Task_default, Task_default, Task_default]\<rparr>"

definition sample_pool :: "string ThreadPool" where
  "sample_pool = \<lparr>m_threads = [\<lparr>worker_name = ''A'', worker_queueIndex = 0, worker_stackSize = 0, worker_priority = NORMAL, worker_core = None\<rparr>],
     m_threadQueues = [sample_queue], m_isShuttingDown = False\<rparr>"

lemma sample_queue_ok: "rb_inv sample_queue" "rb_list sample_queue = [Task_new ''T'']" "m_capacity sample_queue = 4"
  by (simp_all add: sample_queue_def rb_inv_def rb_list_def slot_int)

lemma sample_pool_ok: "pool_inv sample_pool" "m_threadQueues sample_pool = [sample_queue]" "\<not> m_isShuttingDown sample_pool"
  using sample_queue_ok(1) by (simp_all add: sample_pool_def pool_inv_def)

section \<open>Properties\<close>

text \<open>Initialising a pool creates one worker and one empty task queue per thread name, in order:
  worker \<open>i\<close> serves queue \<open>i\<close> under the \<open>i\<close>-th name, and when threads are pinned it runs on core
  \<open>i mod cores\<close>, or, when the machine has hyper-threads that are to be avoided, on the even core
  \<open>2 * (i mod (cores / 2))\<close>; every core a worker is pinned to exists.\<close>

theorem ThreadPool_initialise_workers:
  assumes "m_threadNames args \<noteq> []" "0 < sint (m_workQueueSizePerThread args)"
    "\<forall>name \<in> set (m_threadNames args). length name < MAX_THREAD_NAME_LENGTH"
    "(if ht \<and> \<not> m_hyperThreading args then 2 else 1) \<le> cores"
  shows "\<exists>pool. ThreadPool_initialise cores ht args (ThreadPool_new :: 'c ThreadPool) = Inr pool \<and>
      map worker_name (m_threads pool) = m_threadNames args \<and>
      m_threadQueues pool = replicate (length (m_threadNames args))
        (RingBuffer_new Task_default (nat (sint (m_workQueueSizePerThread args)))) \<and>
      (\<forall>i < length (m_threads pool). worker_queueIndex (m_threads pool ! i) = i \<and>
         worker_core (m_threads pool ! i) =
           (if m_pinThreadsToCores args
            then Some (if ht \<and> \<not> m_hyperThreading args then 2 * (i mod (cores div 2)) else i mod cores)
            else None) \<and>
         (\<forall>c. worker_core (m_threads pool ! i) = Some c \<longrightarrow> c < cores))"
proof -
  let ?ev = "ht \<and> \<not> m_hyperThreading args"
  let ?n = "if ?ev then cores div 2 else cores"
  have n: "0 < ?n" using assms(4) by auto
  have "2 * (i mod (cores div 2)) < cores" if "?ev" for i
  proof -
    have "i mod (cores div 2) < cores div 2" using n that by simp
    then show ?thesis by linarith
  qed
  moreover have "map (\<lambda>i. m_threadNames args ! i) [0..<length (m_threadNames args)] = m_threadNames args"
    by (rule map_nth)
  moreover have "ThreadPool_initialise cores ht args (ThreadPool_new :: 'c ThreadPool) =
    res_fold (pool_add_worker args ?n ?ev) [0..<length (m_threadNames args)] ThreadPool_new"
    using assms(1) by (simp add: ThreadPool_initialise_def Let_def)
  note this[unfolded pool_add_workers[OF order_refl assms(3,2) n]]
  ultimately show ?thesis
    using n by (auto simp: worker_for_def o_def mult.commute)
qed

theorem ThreadPool_initialise_workers_witness:
  "\<exists>pool. ThreadPool_initialise 4 True sample_args (ThreadPool_new :: string ThreadPool) = Inr pool \<and>
     map worker_name (m_threads pool) = [''A'', ''B''] \<and> worker_core (m_threads pool ! 1) = Some 2"
proof -
  have args: "m_threadNames sample_args = [''A'', ''B'']" "sint (m_workQueueSizePerThread sample_args) = 4"
    "m_pinThreadsToCores sample_args" "\<not> m_hyperThreading sample_args"
    "\<forall>name \<in> set (m_threadNames sample_args). length name < MAX_THREAD_NAME_LENGTH"
    by (simp_all add: MAX_THREAD_NAME_LENGTH_def sample_args_def ThreadPoolArguments_default_def)
  obtain pool where p: "ThreadPool_initialise 4 True sample_args (ThreadPool_new :: string ThreadPool) = Inr pool"
    "map worker_name (m_threads pool) = [''A'', ''B'']"
    "\<forall>i < length (m_threads pool). worker_core (m_threads pool ! i) = Some (2 * (i mod 2))"
    using ThreadPool_initialise_workers[of sample_args True 4, where ?'c = string] args by auto
  moreover from p(2) have "length (m_threads pool) = 2" by auto
  ultimately show ?thesis by auto
qed

text \<open>On a single-core machine whose processor reports hyper-threading, a pool that pins its
  threads and avoids hyper-threads halves the core count to zero and divides by it.\<close>

lemma ThreadPool_single_core_divides_by_zero:
  assumes "m_pinThreadsToCores args" "\<not> m_hyperThreading args" "m_threadNames args \<noteq> []"
    "0 < sint (m_workQueueSizePerThread args)" "length (hd (m_threadNames args)) < MAX_THREAD_NAME_LENGTH"
  shows "ThreadPool_initialise 1 True args (ThreadPool_new :: 'c ThreadPool) = Inl Division_by_zero"
proof -
  obtain n where n: "length (m_threadNames args) = Suc n" using assms(3) by (cases "m_threadNames args") auto
  have "[0..<Suc n] = 0 # map Suc [0..<n]" by (simp add: upt_conv_Cons map_Suc_upt del: upt_Suc)
  moreover have "setThreadName (m_threadNames args ! 0) = Inr ()"
    using assms(3,5) by (simp add: setThreadName_ok flip: hd_conv_nth)
  ultimately show ?thesis
    using assms(1,2) n
    by (simp add: queue_constructed[OF assms(4)] ThreadPool_initialise_def Let_def pool_add_worker_def ThreadPool_new_def del: upt_Suc)
qed

text \<open>The threads of the pool carry the names of the securities: a symbol of 16 or more characters
  fails the assertion on thread names.\<close>

lemma long_thread_name_aborts:
  assumes "m_threadNames args \<noteq> []" "MAX_THREAD_NAME_LENGTH \<le> length (hd (m_threadNames args))"
    "0 < sint (m_workQueueSizePerThread args)"
  shows "ThreadPool_initialise cores ht args (ThreadPool_new :: 'c ThreadPool) = Inl Assertion_failed"
proof -
  obtain n where n: "length (m_threadNames args) = Suc n" using assms(1) by (cases "m_threadNames args") auto
  have "[0..<Suc n] = 0 # map Suc [0..<n]" by (simp add: upt_conv_Cons map_Suc_upt del: upt_Suc)
  moreover have "setThreadName (m_threadNames args ! 0) = Inl Assertion_failed"
    using assms(1,2) by (cases "hd (m_threadNames args)") (simp_all add: setThreadName_def MAX_THREAD_NAME_LENGTH_def flip: hd_conv_nth)
  ultimately show ?thesis
    using n by (simp add: queue_constructed[OF assms(3)] ThreadPool_initialise_def Let_def pool_add_worker_def ThreadPool_new_def del: upt_Suc)
qed

text \<open>Submitting a task appends it to the one queue it names and touches no other queue; a queue
  number out of range is answered with \<open>std::invalid_argument\<close>, and a full queue makes the caller
  spin.\<close>

theorem submitTask_behaviour:
  assumes "pool_inv pool"
  shows "(unat q \<ge> length (m_threadQueues pool) \<longrightarrow> submitTask task q pool = Inl Std_invalid_argument) \<and>
    (unat q < length (m_threadQueues pool) \<longrightarrow>
       (if length (rb_list (m_threadQueues pool ! unat q)) < m_capacity (m_threadQueues pool ! unat q)
        then \<exists>pool'. submitTask task q pool = Inr pool' \<and> pool_inv pool' \<and>
               map rb_list (m_threadQueues pool') = (map rb_list (m_threadQueues pool))
                 [unat q := rb_list (m_threadQueues pool ! unat q) @ [task]]
        else submitTask task q pool = Inl Spinning))"
proof (intro conjI impI)
  assume q: "unat q < length (m_threadQueues pool)"
  let ?r = "m_threadQueues pool ! unat q"
  have inv: "rb_inv ?r" using assms q by (simp add: pool_inv_def)
  show "if length (rb_list ?r) < m_capacity ?r
        then \<exists>pool'. submitTask task q pool = Inr pool' \<and> pool_inv pool' \<and>
               map rb_list (m_threadQueues pool') =
                 (map rb_list (m_threadQueues pool))[unat q := rb_list ?r @ [task]]
        else submitTask task q pool = Inl Spinning"
  proof (cases "length (rb_list ?r) < m_capacity ?r")
    case True
    from push_room[OF inv this] obtain r' where "push task ?r = Inr r'" by blast
    then obtain pool' where "submitTask task q pool = Inr pool'" using q by (simp add: submitTask_def)
    then show ?thesis using submitTask_Inr[OF _ assms] True by auto
  next
    case False
    then show ?thesis using push_full[OF inv] q by (simp add: submitTask_def)
  qed
qed (simp add: submitTask_def)

theorem submitTask_behaviour_witness:
  "pool_inv sample_pool \<and> submitTask (Task_new ''U'') 1 sample_pool = Inl Std_invalid_argument \<and>
   (\<exists>pool'. submitTask (Task_new ''U'') 0 sample_pool = Inr pool' \<and>
      map rb_list (m_threadQueues pool') = [[Task_new ''T'', Task_new ''U'']])"
  using submitTask_behaviour[OF sample_pool_ok(1), of 1 "Task_new ''U''"]
    submitTask_behaviour[OF sample_pool_ok(1), of 0 "Task_new ''U''"] sample_pool_ok sample_queue_ok by auto

text \<open>A turn of a worker runs the oldest task of its own queue exactly once and removes it; an
  exception thrown by the task ends there, and the worker goes on.\<close>

theorem worker_turn_runs_oldest:
  assumes "i < length (m_threadQueues (get s))" "rb_inv (m_threadQueues (get s) ! i)"
    "\<not> m_isShuttingDown (get s)" "rb_list (m_threadQueues (get s) ! i) = Task_new f # ts"
  shows "\<exists>q'. rb_inv q' \<and> rb_list q' = ts \<and>
     worker_turn get put run i s =
       (case run f (put ((get s)\<lparr>m_threadQueues := (m_threadQueues (get s))[i := q']\<rparr>) s) of
          (s', None) \<Rightarrow> Inr (Some s')
        | (s', Some e) \<Rightarrow> if is_exception e then Inr (Some s') else Inl e)"
proof -
  let ?q = "m_threadQueues (get s) ! i"
  have "fst (tryPop ?q) = Some (Task_new f)" "rb_inv (snd (tryPop ?q))" "rb_list (snd (tryPop ?q)) = ts"
    using ring_queue.pop_some[OF assms(2,4)] by simp_all
  then obtain q' where q': "tryPop ?q = (Some (Task_new f), q')" "rb_inv q'" "rb_list q' = ts"
    by (cases "tryPop ?q") auto
  have "worker_turn get put run i s =
       (case run f (put ((get s)\<lparr>m_threadQueues := (m_threadQueues (get s))[i := q']\<rparr>) s) of
          (s', None) \<Rightarrow> Inr (Some s')
        | (s', Some e) \<Rightarrow> if is_exception e then Inr (Some s') else Inl e)"
    using assms(1,3) q'(1)
    by (simp add: worker_turn_def Task_execute_def Task_new_def split: prod.splits option.splits)
  then show ?thesis using q'(2,3) by blast
qed

theorem worker_turn_runs_oldest_witness:
  "\<exists>q'. rb_list q' = [] \<and> worker_turn id (\<lambda>pool _. pool) (\<lambda>f pool. (pool, None)) 0 sample_pool =
     Inr (Some (sample_pool\<lparr>m_threadQueues := [q']\<rparr>))"
  using worker_turn_runs_oldest[of 0 id sample_pool "''T''" "[]" "\<lambda>pool _. pool" "\<lambda>f pool. (pool, None)"]
    sample_pool_ok sample_queue_ok by auto

end
