(* ===== verification/Central_Order_Book.thy ===== *)
theory Central_Order_Book
  imports Order_Book Thread_Pool
begin

text \<open>
  \<open>order_matcher::CentralOrderBook\<close> (\<open>source/order_matcher/central_order_book.h\<close>,
  \<open>central_order_book.cpp\<close>, \<open>central_order_book_visitor.h\<close>): the order books of all securities,
  the outgoing message queues, and the thread pool that runs one matching task at a time per queue.
\<close>

section \<open>State\<close>

text \<open>What \<open>std::bind\<close> captures in the two kinds of tasks.\<close>

datatype book_task = Task_NewOrder Order | Task_CancelOrder Order string

record CentralOrderBook =
  m_isMatchingMultithreaded :: bool
  m_orderNumber :: cint
  m_orderBookDictionary :: "(nat \<times> OrderBook) list"
  m_queueIDDictionary :: "(nat \<times> cint) list"
  m_securityIds :: "nat list"
  m_outgoingMessages :: "OutgoingMessage RingBuffer list"
  m_orderBookThreadPool :: "book_task ThreadPool"

definition CentralOrderBook_new :: CentralOrderBook where
  "CentralOrderBook_new = \<lparr>m_isMatchingMultithreaded = False, m_orderNumber = 0,
     m_orderBookDictionary = [], m_queueIDDictionary = [], m_securityIds = [],
     m_outgoingMessages = [], m_orderBookThreadPool = ThreadPool_new\<rparr>"

section \<open>Operations\<close>

text \<open>\<open>accept\<close> visits the books in the hash table's order, which is a parameter.\<close>

definition CentralOrderBook_accept ::
  "((nat \<times> OrderBook) list \<Rightarrow> (nat \<times> OrderBook) list) \<Rightarrow> (Order \<Rightarrow> 'v \<Rightarrow> 'v result) \<Rightarrow>
   CentralOrderBook \<Rightarrow> 'v \<Rightarrow> 'v result" where
  "CentralOrderBook_accept hash_order visit cob v =
     res_fold (\<lambda>element. OrderBook_accept visit (snd element)) (hash_order (m_orderBookDictionary cob)) v"

text \<open>\<open>CentralOrderBookVisitor::visit\<close> appends the printed order and a line end to its stream.\<close>

definition visitor_visit :: "SecurityManager \<Rightarrow> Order \<Rightarrow> string \<Rightarrow> string result" where
  "visitor_visit sm element orders =
     res_bind (Order_toString sm element) (\<lambda>text. Inr (orders @ text @ [CHR 0x0A]))"

definition setSymbols_step :: "string \<Rightarrow> SecurityManager \<times> CentralOrderBook \<times> cint \<Rightarrow> SecurityManager \<times> CentralOrderBook \<times> cint" where
  "setSymbols_step symbol = (\<lambda>(sm, cob, queueID).
     let (currentSecurityId, sm') = addSecurity symbol sm
     in (sm', cob\<lparr>m_securityIds := m_securityIds cob @ [currentSecurityId],
                  m_queueIDDictionary := umap_insert currentSecurityId (queueID + 1) (m_queueIDDictionary cob)\<rparr>,
         queueID + 1))"

definition setSymbols :: "string list \<Rightarrow> SecurityManager \<Rightarrow> CentralOrderBook \<Rightarrow> SecurityManager \<times> CentralOrderBook" where
  "setSymbols symbols sm cob =
     (case fold setSymbols_step symbols (sm, cob, - 1) of (sm', cob', _) \<Rightarrow> (sm', cob'))"

definition initialiseMultithreadedMatching ::
  "nat \<Rightarrow> bool \<Rightarrow> ThreadPoolArguments \<Rightarrow> CentralOrderBook \<Rightarrow> CentralOrderBook result" where
  "initialiseMultithreadedMatching numberOfCores hyperThreaded args cob =
     (let cob1 = cob\<lparr>m_isMatchingMultithreaded := True,
                     m_orderBookDictionary :=
                       fold (\<lambda>securityId. umap_insert securityId OrderBook_empty) (m_securityIds cob)
                         (m_orderBookDictionary cob)\<rparr>
      in res_bind (ThreadPool_initialise numberOfCores hyperThreaded args (m_orderBookThreadPool cob1))
           (\<lambda>pool. Inr (cob1\<lparr>m_orderBookThreadPool := pool\<rparr>)))"

definition initialiseOutgoingMessageQueues ::
  "OutgoingMessage \<Rightarrow> cint \<Rightarrow> cint \<Rightarrow> CentralOrderBook \<Rightarrow> CentralOrderBook result" where
  "initialiseOutgoingMessageQueues mem numberOfThreads outgoingMessageProcessorQueueSize cob =
     res_fold (\<lambda>_ cob. res_bind (RingBuffer_construct mem (scast outgoingMessageProcessorQueueSize))
                 (\<lambda>q. Inr (cob\<lparr>m_outgoingMessages := m_outgoingMessages cob @ [q]\<rparr>)))
       [0..<nat (sint numberOfThreads)] cob"

text \<open>\<open>m_outgoingMessages[queueID]->push(message)\<close>, with the conversion of the \<open>int\<close> index.\<close>

definition push_outgoing :: "cint \<Rightarrow> OutgoingMessage \<Rightarrow> CentralOrderBook \<Rightarrow> CentralOrderBook result" where
  "push_outgoing queueID message cob =
     (let i = unat (scast queueID :: csize)
      in res_bind (vec_at (m_outgoingMessages cob) i) (\<lambda>q.
         res_bind (push message q) (\<lambda>q'.
         Inr (cob\<lparr>m_outgoingMessages := (m_outgoingMessages cob)[i := q']\<rparr>))))"

text \<open>\<open>m_queueIDDictionary[securityId]\<close>.\<close>

definition queue_of :: "nat \<Rightarrow> CentralOrderBook \<Rightarrow> cint \<times> CentralOrderBook" where
  "queue_of securityId cob =
     (let (q, m) = umap_index 0 securityId (m_queueIDDictionary cob)
      in (q, cob\<lparr>m_queueIDDictionary := m\<rparr>))"

definition fill_message :: "Order \<Rightarrow> OutgoingMessage" where
  "fill_message ord = OutgoingMessage_new ord (if isFilled ord then FILLED else PARTIALLY_FILLED) []"

definition taskNewOrder :: "Order \<Rightarrow> CentralOrderBook \<Rightarrow> CentralOrderBook result" where
  "taskNewOrder ord cob =
     (let securityId = m_securityId ord;
          (queueID, cob1) = queue_of securityId cob;
          (book, books) = umap_index OrderBook_empty securityId (m_orderBookDictionary cob1)
      in case processMatching (OrderBook_insert ord book) [] of
           None \<Rightarrow> Inl Not_terminating
         | Some (_, book', processedOrders) \<Rightarrow>
             res_fold (\<lambda>processed. push_outgoing queueID (fill_message processed)) processedOrders
               (cob1\<lparr>m_orderBookDictionary := AList.update securityId book' books\<rparr>))"

definition addOrder :: "Order \<Rightarrow> CentralOrderBook \<Rightarrow> (bool \<times> Order \<times> CentralOrderBook) result" where
  "addOrder ord cob =
     (let number = m_orderNumber cob + 1;
          ord' = ord\<lparr>m_orderID := scast number\<rparr>;
          (queueID, cob1) = queue_of (m_securityId ord') (cob\<lparr>m_orderNumber := number\<rparr>)
      in res_bind (push_outgoing queueID (OutgoingMessage_new ord' ACCEPTED []) cob1) (\<lambda>cob2.
         res_bind (if m_isMatchingMultithreaded cob2
                   then res_bind (submitTask (Task_new (Task_NewOrder ord')) (scast queueID) (m_orderBookThreadPool cob2))
                          (\<lambda>pool. Inr (cob2\<lparr>m_orderBookThreadPool := pool\<rparr>))
                   else taskNewOrder ord' cob2)
           (\<lambda>cob3. Inr (True, ord', cob3))))"

definition rejectOrder :: "Order \<Rightarrow> string \<Rightarrow> CentralOrderBook \<Rightarrow> CentralOrderBook result" where
  "rejectOrder ord message cob =
     (let outgoingMessage = OutgoingMessage_new ord REJECTED message;
          (queueID, cob1) = queue_of (m_securityId ord) cob
      in push_outgoing queueID outgoingMessage cob1)"

text \<open>
  The text of a cancel reject: \<open>%d\<close> is given the address of the characters of
  \<open>origClientOrderID\<close>, whose low 32 bits are the parameter \<open>address\<close>.
\<close>

definition cancel_reject_text :: "cint \<Rightarrow> nat \<Rightarrow> string" where
  "cancel_reject_text address sessionId =
     ''Order to cancel could not be found, client session '' @ to_string (sint (of_nat sessionId :: cint)) @
     '', client ID '' @ to_string (sint address)"

definition taskCancelOrder :: "cint \<Rightarrow> Order \<Rightarrow> string \<Rightarrow> CentralOrderBook \<Rightarrow> CentralOrderBook result" where
  "taskCancelOrder address ord origClientOrderID cob =
     (let sessionId = m_sessionId ord;
          securityId = m_securityId ord;
          (queueID, cob1) = queue_of securityId cob;
          side = m_side ord;
          (book, books) = umap_index OrderBook_empty securityId (m_orderBookDictionary cob1);
          cob2 = cob1\<lparr>m_orderBookDictionary := books\<rparr>
      in case OrderBook_find book origClientOrderID sessionId side of
           Some i \<Rightarrow>
             (let (orderBeingCanceled, book1) = cancel_entry side i book
              in res_bind (push_outgoing queueID (OutgoingMessage_new orderBeingCanceled CANCELED ''Order canceled'') cob2)
                   (\<lambda>cob3. Inr (cob3\<lparr>m_orderBookDictionary :=
                       AList.update securityId (OrderBook_erase orderBeingCanceled book1) books\<rparr>)))
         | None \<Rightarrow>
             res_bind (format (cancel_reject_text address sessionId)) (\<lambda>message.
             rejectOrder ord message cob2))"

definition cancelOrder :: "cint \<Rightarrow> Order \<Rightarrow> string \<Rightarrow> CentralOrderBook \<Rightarrow> CentralOrderBook result" where
  "cancelOrder address ord origClientOrderID cob =
     (if m_isMatchingMultithreaded cob
      then let (queueID, cob1) = queue_of (m_securityId ord) cob
           in res_bind (submitTask (Task_new (Task_CancelOrder ord origClientOrderID)) (scast queueID) (m_orderBookThreadPool cob1))
                (\<lambda>pool. Inr (cob1\<lparr>m_orderBookThreadPool := pool\<rparr>))
      else taskCancelOrder address ord origClientOrderID cob)"

text \<open>What a worker thread runs when it executes a task.\<close>

definition run_book_task :: "cint \<Rightarrow> book_task \<Rightarrow> CentralOrderBook \<Rightarrow> CentralOrderBook \<times> cpp_error option" where
  "run_book_task address t cob =
     (case (case t of Task_NewOrder ord \<Rightarrow> taskNewOrder ord cob
                    | Task_CancelOrder ord orig \<Rightarrow> taskCancelOrder address ord orig cob) of
        Inr cob' \<Rightarrow> (cob', None)
      | Inl e \<Rightarrow> (cob, Some e))"

definition matching_worker :: "cint \<Rightarrow> nat \<Rightarrow> CentralOrderBook \<Rightarrow> CentralOrderBook option result" where
  "matching_worker address =
     worker_turn m_orderBookThreadPool (\<lambda>pool cob. cob\<lparr>m_orderBookThreadPool := pool\<rparr>) (run_book_task address)"

section \<open>The abstract view\<close>

text \<open>
  The two dictionaries as total functions (a missing key reads as its default, which is what
  \<open>operator[]\<close> inserts), the queues as lists.
\<close>

definition book_at :: "CentralOrderBook \<Rightarrow> nat \<Rightarrow> OrderBook" where
  "book_at cob securityId = (case map_of (m_orderBookDictionary cob) securityId of Some b \<Rightarrow> b | None \<Rightarrow> OrderBook_empty)"

definition queueID_at :: "CentralOrderBook \<Rightarrow> nat \<Rightarrow> cint" where
  "queueID_at cob securityId = (case map_of (m_queueIDDictionary cob) securityId of Some q \<Rightarrow> q | None \<Rightarrow> 0)"

definition queue_index :: "CentralOrderBook \<Rightarrow> nat \<Rightarrow> nat" where
  "queue_index cob securityId = unat (scast (queueID_at cob securityId) :: csize)"

definition out_view :: "CentralOrderBook \<Rightarrow> OutgoingMessage list list" where
  "out_view cob = map rb_list (m_outgoingMessages cob)"

definition pending :: "CentralOrderBook \<Rightarrow> book_task Task list list" where
  "pending cob = map rb_list (m_threadQueues (m_orderBookThreadPool cob))"

definition outgoing_ok :: "CentralOrderBook \<Rightarrow> bool" where
  "outgoing_ok cob \<longleftrightarrow> (\<forall>q \<in> set (m_outgoingMessages cob). rb_inv q)"

text \<open>What no matching task changes.\<close>

definition same_frame :: "CentralOrderBook \<Rightarrow> CentralOrderBook \<Rightarrow> bool" where
  "same_frame cob cob' \<longleftrightarrow>
     m_isMatchingMultithreaded cob' = m_isMatchingMultithreaded cob \<and>
     m_orderBookThreadPool cob' = m_orderBookThreadPool cob \<and>
     m_orderNumber cob' = m_orderNumber cob \<and> queueID_at cob' = queueID_at cob"

lemma same_frame_refl [simp]: "same_frame cob cob"
  by (simp add: same_frame_def)

lemma same_frame_trans: "same_frame a b \<Longrightarrow> same_frame b c \<Longrightarrow> same_frame a c"
  by (simp add: same_frame_def)

lemma umap_index_book:
  "umap_index OrderBook_empty s (m_orderBookDictionary cob) = (b, books) \<Longrightarrow>
   b = book_at cob s \<and> (\<forall>t. (case map_of books t of Some b \<Rightarrow> b | None \<Rightarrow> OrderBook_empty) = book_at cob t)"
  by (auto simp: umap_index_def book_at_def map_of_append map_add_def split: option.splits if_splits)

lemma queue_of_effect:
  assumes "queue_of s cob = (q, cob')"
  shows "q = queueID_at cob s \<and> same_frame cob cob' \<and> book_at cob' = book_at cob \<and>
    m_outgoingMessages cob' = m_outgoingMessages cob \<and>
    m_orderBookDictionary cob' = m_orderBookDictionary cob \<and>
    m_orderBookThreadPool cob' = m_orderBookThreadPool cob"
proof -
  have "queueID_at cob' t = queueID_at cob t" for t
    using assms by (auto simp: queue_of_def umap_index_def queueID_at_def map_of_append map_add_def Let_def
        split: option.splits prod.splits if_splits)
  then show ?thesis
    using assms by (auto simp: queue_of_def same_frame_def umap_index_def queueID_at_def book_at_def fun_eq_iff Let_def
        split: option.splits prod.splits)
qed

text \<open>Pushing to an outgoing queue.\<close>

lemma push_outgoing_effect:
  assumes "push_outgoing queueID msg cob = Inr cob'" "outgoing_ok cob"
  shows "\<exists>out. cob' = cob\<lparr>m_outgoingMessages := out\<rparr> \<and> outgoing_ok cob' \<and>
     map rb_list out = (out_view cob)[unat (scast queueID :: csize) := out_view cob ! unat (scast queueID :: csize) @ [msg]] \<and>
     unat (scast queueID :: csize) < length (out_view cob)"
proof -
  let ?i = "unat (scast queueID :: csize)"
  obtain q' where i: "?i < length (m_outgoingMessages cob)" and q': "push msg (m_outgoingMessages cob ! ?i) = Inr q'"
    and c: "cob' = cob\<lparr>m_outgoingMessages := (m_outgoingMessages cob)[?i := q']\<rparr>"
    using assms(1) by (auto simp: push_outgoing_def Let_def vec_at_def split: if_splits)
  have "rb_inv (m_outgoingMessages cob ! ?i)" using assms(2) i by (simp add: outgoing_ok_def)
  from push_Inr[OF this q'] have "rb_inv q'" "rb_list q' = rb_list (m_outgoingMessages cob ! ?i) @ [msg]"
    by simp_all
  then show ?thesis using i c assms(2)
    by (auto simp: outgoing_ok_def out_view_def map_update dest!: set_update_subset_insert[THEN subsetD])
qed

lemma push_all_effect:
  assumes "res_fold (\<lambda>x. push_outgoing queueID (f x)) xs cob = Inr cob'" "outgoing_ok cob"
  shows "\<exists>out. cob' = cob\<lparr>m_outgoingMessages := out\<rparr> \<and> outgoing_ok cob' \<and>
     map rb_list out = (out_view cob)[unat (scast queueID :: csize) :=
       out_view cob ! unat (scast queueID :: csize) @ map f xs]"
  using assms
proof (induction xs arbitrary: cob)
  case Nil
  then show ?case by (auto simp: out_view_def intro: exI[of _ "m_outgoingMessages cob"])
next
  case (Cons x xs)
  then obtain cob1 where 1: "push_outgoing queueID (f x) cob = Inr cob1"
    and 2: "res_fold (\<lambda>x. push_outgoing queueID (f x)) xs cob1 = Inr cob'" by auto
  from push_outgoing_effect[OF 1 Cons.prems(2)] obtain out1 where
    "cob1 = cob\<lparr>m_outgoingMessages := out1\<rparr>" "outgoing_ok cob1"
    "out_view cob1 = (out_view cob)[unat (scast queueID :: csize) := out_view cob ! unat (scast queueID :: csize) @ [f x]]"
    "unat (scast queueID :: csize) < length (out_view cob)"
    by (auto simp: out_view_def)
  with Cons.IH[OF 2] show ?case by auto
qed

section \<open>Effects of the operations\<close>

lemma taskNewOrder_effect:
  assumes "taskNewOrder ord cob = Inr cob'" "outgoing_ok cob"
  shows "\<exists>r book' ps. processMatching (OrderBook_insert ord (book_at cob (m_securityId ord))) [] = Some (r, book', ps) \<and>
     same_frame cob cob' \<and> outgoing_ok cob' \<and> book_at cob' = (book_at cob)(m_securityId ord := book') \<and>
     out_view cob' = (out_view cob)[queue_index cob (m_securityId ord) :=
       out_view cob ! queue_index cob (m_securityId ord) @ map fill_message ps]"
proof -
  let ?s = "m_securityId ord"
  obtain q cob1 where q: "queue_of ?s cob = (q, cob1)" by (cases "queue_of ?s cob") auto
  obtain b books where b: "umap_index OrderBook_empty ?s (m_orderBookDictionary cob1) = (b, books)"
    by (cases "umap_index OrderBook_empty ?s (m_orderBookDictionary cob1)") auto
  note qe = queue_of_effect[OF q] and be = umap_index_book[OF b]
  obtain r book' ps where pm: "processMatching (OrderBook_insert ord b) [] = Some (r, book', ps)"
    and fd: "res_fold (\<lambda>p. push_outgoing q (fill_message p)) ps
      (cob1\<lparr>m_orderBookDictionary := AList.update ?s book' books\<rparr>) = Inr cob'"
    using assms(1) q b by (auto simp: taskNewOrder_def Let_def split: option.splits prod.splits)
  let ?c = "cob1\<lparr>m_orderBookDictionary := AList.update ?s book' books\<rparr>"
  have frame: "same_frame cob ?c" "book_at ?c = (book_at cob)(?s := book')"
    "out_view ?c = out_view cob" "outgoing_ok ?c"
    using qe be assms(2)
    by (auto simp: same_frame_def queueID_at_def book_at_def fun_eq_iff out_view_def outgoing_ok_def)
  from push_all_effect[OF fd frame(4)] obtain out where "cob' = ?c\<lparr>m_outgoingMessages := out\<rparr>" "outgoing_ok cob'"
    "map rb_list out = (out_view ?c)[unat (scast q :: csize) := out_view ?c ! unat (scast q :: csize) @ map fill_message ps]"
    by blast
  then show ?thesis using pm qe be frame
    by (auto simp: same_frame_def queueID_at_def book_at_def out_view_def queue_index_def fun_eq_iff)
qed

lemma rejectOrder_effect:
  assumes "rejectOrder ord message cob = Inr cob'" "outgoing_ok cob"
  shows "same_frame cob cob' \<and> outgoing_ok cob' \<and> book_at cob' = book_at cob \<and>
     out_view cob' = (out_view cob)[queue_index cob (m_securityId ord) :=
       out_view cob ! queue_index cob (m_securityId ord) @ [OutgoingMessage_new ord REJECTED message]]"
proof -
  obtain q cob1 where q: "queue_of (m_securityId ord) cob = (q, cob1)" by (cases "queue_of (m_securityId ord) cob") auto
  note qe = queue_of_effect[OF q]
  have push: "push_outgoing q (OutgoingMessage_new ord REJECTED message) cob1 = Inr cob'"
    using assms(1) q by (simp add: rejectOrder_def Let_def)
  have "outgoing_ok cob1" using qe assms(2) by (simp add: outgoing_ok_def)
  from push_outgoing_effect[OF push this] qe show ?thesis
    by (auto simp: same_frame_def queueID_at_def book_at_def out_view_def queue_index_def fun_eq_iff)
qed

definition cancel_reject_message :: "cint \<Rightarrow> Order \<Rightarrow> OutgoingMessage" where
  "cancel_reject_message address ord = OutgoingMessage_new ord REJECTED
     (c_str (take 2047 (cancel_reject_text address (m_sessionId ord))))"

lemma taskCancelOrder_effect:
  assumes "taskCancelOrder address ord orig cob = Inr cob'" "outgoing_ok cob"
  defines "s \<equiv> m_securityId ord"
  defines "found \<equiv> OrderBook_find (book_at cob s) orig (m_sessionId ord) (m_side ord)"
  shows "same_frame cob cob' \<and> outgoing_ok cob' \<and>
     book_at cob' = (case found of None \<Rightarrow> book_at cob
       | Some i \<Rightarrow> (book_at cob)(s := OrderBook_erase (fst (cancel_entry (m_side ord) i (book_at cob s)))
                                        (snd (cancel_entry (m_side ord) i (book_at cob s))))) \<and>
     out_view cob' = (out_view cob)[queue_index cob s := out_view cob ! queue_index cob s @
       [case found of None \<Rightarrow> cancel_reject_message address ord
        | Some i \<Rightarrow> OutgoingMessage_new (fst (cancel_entry (m_side ord) i (book_at cob s))) CANCELED ''Order canceled'']]"
proof -
  obtain q cob1 where q: "queue_of s cob = (q, cob1)" by (cases "queue_of s cob") auto
  obtain b books where b: "umap_index OrderBook_empty s (m_orderBookDictionary cob1) = (b, books)"
    by (cases "umap_index OrderBook_empty s (m_orderBookDictionary cob1)") auto
  let ?c = "cob1\<lparr>m_orderBookDictionary := books\<rparr>"
  note qe = queue_of_effect[OF q] and be = umap_index_book[OF b]
  have bb: "b = book_at cob s" using be qe by simp
  have frame: "same_frame cob ?c" "book_at ?c = book_at cob" "out_view ?c = out_view cob" "outgoing_ok ?c"
    "queue_index ?c = queue_index cob" "q = queueID_at cob s"
    using qe be assms(2)
    by (auto simp: same_frame_def queueID_at_def queue_index_def book_at_def fun_eq_iff out_view_def outgoing_ok_def)
  show ?thesis
  proof (cases found)
    case None
    then have "rejectOrder ord (c_str (take 2047 (cancel_reject_text address (m_sessionId ord)))) ?c = Inr cob'"
      using assms(1) q b bb
      by (simp add: taskCancelOrder_def Let_def s_def found_def format_def formatImplementation_def MAX_BUFFER_SIZE_def)
    from rejectOrder_effect[OF this frame(4)] None frame show ?thesis
      by (simp add: s_def cancel_reject_message_def same_frame_def)
  next
    case (Some i)
    obtain o' b1 where ce: "cancel_entry (m_side ord) i b = (o', b1)" by (cases "cancel_entry (m_side ord) i b") auto
    obtain cob2 where push: "push_outgoing q (OutgoingMessage_new o' CANCELED ''Order canceled'') ?c = Inr cob2"
      and c': "cob' = cob2\<lparr>m_orderBookDictionary := AList.update s (OrderBook_erase o' b1) books\<rparr>"
      using assms(1) q b bb Some ce by (auto simp: taskCancelOrder_def Let_def s_def found_def)
    from push_outgoing_effect[OF push frame(4)] obtain out where out: "cob2 = ?c\<lparr>m_outgoingMessages := out\<rparr>"
      "outgoing_ok cob2" "map rb_list out = (out_view ?c)[unat (scast q :: csize) := out_view ?c ! unat (scast q :: csize) @
          [OutgoingMessage_new o' CANCELED ''Order canceled'']]" by blast
    have "book_at cob' = (book_at cob)(s := OrderBook_erase o' b1)"
      using c' out(1) be qe by (auto simp: book_at_def fun_eq_iff)
    moreover have "same_frame cob cob'" using frame(1) c' out(1) by (simp add: same_frame_def queueID_at_def fun_eq_iff)
    moreover have "outgoing_ok cob'" using out(2) c' by (simp add: outgoing_ok_def)
    ultimately show ?thesis using Some ce bb out frame(3,6) c' by (simp add: out_view_def queue_index_def)
  qed
qed

lemma addOrder_effect:
  assumes "addOrder ord cob = Inr (r, ord', cob')" "outgoing_ok cob"
  shows "r \<and> ord' = ord\<lparr>m_orderID := scast (m_orderNumber cob + 1)\<rparr> \<and>
    (\<exists>cob2. same_frame (cob\<lparr>m_orderNumber := m_orderNumber cob + 1\<rparr>) cob2 \<and> outgoing_ok cob2 \<and>
      book_at cob2 = book_at cob \<and>
      queue_index cob (m_securityId ord) < length (out_view cob) \<and>
      out_view cob2 = (out_view cob)[queue_index cob (m_securityId ord) :=
        out_view cob ! queue_index cob (m_securityId ord) @ [OutgoingMessage_new ord' ACCEPTED []]] \<and>
      (if m_isMatchingMultithreaded cob
       then \<exists>pool. submitTask (Task_new (Task_NewOrder ord')) (scast (queueID_at cob (m_securityId ord)))
              (m_orderBookThreadPool cob) = Inr pool \<and> cob' = cob2\<lparr>m_orderBookThreadPool := pool\<rparr>
       else taskNewOrder ord' cob2 = Inr cob'))"
proof -
  let ?c = "cob\<lparr>m_orderNumber := m_orderNumber cob + 1\<rparr>"
  let ?o = "ord\<lparr>m_orderID := scast (m_orderNumber cob + 1)\<rparr>"
  obtain q cob1 where q: "queue_of (m_securityId ord) ?c = (q, cob1)" by (cases "queue_of (m_securityId ord) ?c") auto
  note qe = queue_of_effect[OF q]
  obtain cob2 where push: "push_outgoing q (OutgoingMessage_new ?o ACCEPTED []) cob1 = Inr cob2"
    and rest: "r" "ord' = ?o" "(if m_isMatchingMultithreaded cob2
       then \<exists>pool. submitTask (Task_new (Task_NewOrder ?o)) (scast q) (m_orderBookThreadPool cob2) = Inr pool \<and>
              cob' = cob2\<lparr>m_orderBookThreadPool := pool\<rparr>
       else taskNewOrder ?o cob2 = Inr cob')"
    using assms(1) q by (auto simp: addOrder_def Let_def split: if_splits)
  have o1: "outgoing_ok cob1" "out_view cob1 = out_view cob"
    using qe assms(2) by (simp_all add: outgoing_ok_def out_view_def)
  have q': "q = queueID_at cob (m_securityId ord)" "book_at cob1 = book_at cob"
    using qe by (simp_all add: queueID_at_def book_at_def fun_eq_iff)
  from push_outgoing_effect[OF push o1(1)] obtain out where out: "cob2 = cob1\<lparr>m_outgoingMessages := out\<rparr>"
    "outgoing_ok cob2" "map rb_list out = (out_view cob)[queue_index cob (m_securityId ord) :=
        out_view cob ! queue_index cob (m_securityId ord) @ [OutgoingMessage_new ?o ACCEPTED []]]"
    "queue_index cob (m_securityId ord) < length (out_view cob)"
    unfolding o1(2) q'(1) queue_index_def by blast
  have "same_frame ?c cob2" using qe out(1) by (simp add: same_frame_def queueID_at_def fun_eq_iff)
  moreover have "book_at cob2 = book_at cob" using q'(2) out(1) by (simp add: book_at_def fun_eq_iff)
  moreover have "m_isMatchingMultithreaded cob2 = m_isMatchingMultithreaded cob"
    "m_orderBookThreadPool cob2 = m_orderBookThreadPool cob"
    using \<open>same_frame ?c cob2\<close> by (simp_all add: same_frame_def)
  ultimately show ?thesis using rest out q'(1) by (auto simp: out_view_def)
qed

section \<open>The engine invariant\<close>

text \<open>An order the converter can produce: a finite limit price, nothing executed yet.\<close>

definition order_fit :: "Order \<Rightarrow> bool" where
  "order_fit ord \<longleftrightarrow> finite_price (m_price ord) \<and> order_balanced ord"

fun task_order :: "book_task \<Rightarrow> Order" where
  "task_order (Task_NewOrder ord) = ord"
| "task_order (Task_CancelOrder ord _) = ord"

definition new_order_ids :: "book_task Task list \<Rightarrow> nat list" where
  "new_order_ids ts = concat (map (\<lambda>t. case m_callback t of
      Some (Task_NewOrder ord) \<Rightarrow> [unat (m_orderID ord)] | _ \<Rightarrow> []) ts)"

definition task_ok :: "CentralOrderBook \<Rightarrow> nat \<Rightarrow> book_task Task \<Rightarrow> bool" where
  "task_ok cob i t \<longleftrightarrow> (\<exists>c. t = Task_new c \<and> queue_index cob (m_securityId (task_order c)) = i \<and>
     (\<forall>ord. c = Task_NewOrder ord \<longrightarrow> order_fit ord))"

text \<open>
  The tasks waiting in a queue: new orders carry rising numbers that were handed out already, and
  every book served by the queue only holds orders with smaller numbers.
\<close>

definition queue_ok :: "CentralOrderBook \<Rightarrow> nat \<Rightarrow> book_task Task list \<Rightarrow> bool" where
  "queue_ok cob i ts \<longleftrightarrow> (\<forall>t \<in> set ts. task_ok cob i t) \<and> sorted_wrt (<) (new_order_ids ts) \<and>
     (\<forall>n \<in> set (new_order_ids ts). 0 < n \<and> n \<le> unat (m_orderNumber cob) \<and>
        (\<forall>s. queue_index cob s = i \<longrightarrow> ids_upto (n - 1) (book_at cob s)))"

definition engine_inv :: "CentralOrderBook \<Rightarrow> bool" where
  "engine_inv cob \<longleftrightarrow> 0 \<le> sint (m_orderNumber cob) \<and> outgoing_ok cob \<and>
     pool_inv (m_orderBookThreadPool cob) \<and>
     (\<forall>s. book_good (unat (m_orderNumber cob)) (book_at cob s)) \<and>
     (\<forall>i < length (pending cob). queue_ok cob i (pending cob ! i) \<and>
        (\<not> m_isMatchingMultithreaded cob \<longrightarrow> pending cob ! i = []))"

lemma new_order_ids_simps [simp]:
  "new_order_ids [] = []"
  "new_order_ids (Task_new (Task_NewOrder ord) # ts) = unat (m_orderID ord) # new_order_ids ts"
  "new_order_ids (Task_new (Task_CancelOrder ord c) # ts) = new_order_ids ts"
  "new_order_ids (ts @ ts') = new_order_ids ts @ new_order_ids ts'"
  by (simp_all add: new_order_ids_def Task_new_def)

text \<open>The order numbers stay positive \<open>int\<close>s until the 2^31st order.\<close>

lemma next_order_number:
  assumes "0 \<le> sint (n :: cint)" "sint n < 2 ^ 31 - 1"
  shows "unat (scast (n + 1) :: csize) = Suc (unat n)" "unat (n + 1) = Suc (unat n)" "0 \<le> sint (n + 1)"
proof -
  have s: "sint (n + 1) = sint n + 1"
    using assms by (simp add: sint_word_add signed_take_bit_int_eq_self)
  have pos: "sint m = uint m" if "0 \<le> sint m" for m :: cint
  proof -
    have "uint m = sint m mod 2 ^ 32" using uint_sint[of m] by (simp add: take_bit_eq_mod)
    then show ?thesis using that sint_range_32[of m] by simp
  qed
  show 0: "0 \<le> sint (n + 1)" using s assms by simp
  have u: "uint (n + 1) = uint n + 1" using s pos[OF 0] pos[OF assms(1)] by simp
  then show 1: "unat (n + 1) = Suc (unat n)" by (metis Suc_eq_plus1 nat_int_add of_nat_1 uint_nat unat_eq_nat_uint)
  have "uint (scast (n + 1) :: csize) = uint (n + 1)"
    using 0 pos[OF 0] sint_range_32[of "n + 1"] by (simp add: uint_scast_32_64)
  then show "unat (scast (n + 1) :: csize) = Suc (unat n)" using 1 by (metis unat_eq_nat_uint)
qed

lemma queue_index_frame: "same_frame cob cob' \<Longrightarrow> queue_index cob' = queue_index cob"
  by (simp add: same_frame_def queue_index_def fun_eq_iff)

lemma pending_frame: "same_frame cob cob' \<Longrightarrow> pending cob' = pending cob"
  by (simp add: same_frame_def pending_def)

lemma engine_inv_book:
  assumes inv: "engine_inv cob" and fr: "same_frame cob cob'" and out: "outgoing_ok cob'"
    and upd: "book_at cob' = (book_at cob)(s := b)" and good: "book_good (unat (m_orderNumber cob)) b"
    and ids: "\<And>n. queue_index cob s < length (pending cob) \<Longrightarrow>
      n \<in> set (new_order_ids (pending cob ! queue_index cob s)) \<Longrightarrow> ids_upto (n - 1) b"
  shows "engine_inv cob'"
proof -
  have eq: "queue_index cob' = queue_index cob" "pending cob' = pending cob" "m_orderNumber cob' = m_orderNumber cob"
    "m_isMatchingMultithreaded cob' = m_isMatchingMultithreaded cob"
    "m_orderBookThreadPool cob' = m_orderBookThreadPool cob"
    using queue_index_frame[OF fr] pending_frame[OF fr] fr by (simp_all add: same_frame_def)
  have "queue_ok cob' i (pending cob ! i)" if i: "i < length (pending cob)" for i
  proof -
    have q: "queue_ok cob i (pending cob ! i)" using inv i by (simp add: engine_inv_def)
    have "task_ok cob' i t = task_ok cob i t" for t by (simp add: task_ok_def eq)
    moreover have "ids_upto (n - 1) (book_at cob' t)"
      if "n \<in> set (new_order_ids (pending cob ! i))" "queue_index cob t = i" for n t
      using q that ids[of n] i by (cases "t = s") (simp_all add: queue_ok_def upd)
    ultimately show ?thesis using q by (simp add: queue_ok_def eq)
  qed
  then show ?thesis using inv out good by (simp add: engine_inv_def eq upd)
qed

lemma cancelled_book:
  assumes good: "book_good n b" and found: "OrderBook_find b c sid side = Some i"
  shows "book_good n (OrderBook_erase (fst (cancel_entry side i b)) (snd (cancel_entry side i b)))"
proof -
  have "i < length (ladder_of side b)"
    using OrderBook_find_Some[OF found] find_index_SomeD by blast
  from book_good_erase[OF book_good_cancel_entry[OF good this]] show ?thesis .
qed

lemma engine_inv_taskCancelOrder:
  assumes inv: "engine_inv cob" and t: "taskCancelOrder address ord orig cob = Inr cob'"
  shows "engine_inv cob'"
proof -
  let ?s = "m_securityId ord"
  let ?found = "OrderBook_find (book_at cob ?s) orig (m_sessionId ord) (m_side ord)"
  have out: "outgoing_ok cob" using inv by (simp add: engine_inv_def)
  note eff = taskCancelOrder_effect[OF t out]
  show ?thesis
  proof (cases ?found)
    case None
    then show ?thesis
      using eff inv by (intro engine_inv_book[OF inv, of cob' ?s "book_at cob ?s"])
        (auto simp: engine_inv_def queue_ok_def)
  next
    case (Some i)
    let ?b = "OrderBook_erase (fst (cancel_entry (m_side ord) i (book_at cob ?s))) (snd (cancel_entry (m_side ord) i (book_at cob ?s)))"
    have good: "book_good (unat (m_orderNumber cob)) (book_at cob ?s)" using inv by (simp add: engine_inv_def)
    show ?thesis
    proof (rule engine_inv_book[OF inv, of cob' ?s ?b])
      show "book_good (unat (m_orderNumber cob)) ?b" by (rule cancelled_book[OF good Some])
      fix n assume "queue_index cob ?s < length (pending cob)"
        "n \<in> set (new_order_ids (pending cob ! queue_index cob ?s))"
      then have "ids_upto (n - 1) (book_at cob ?s)" using inv by (simp add: engine_inv_def queue_ok_def)
      then have "book_good (n - 1) (book_at cob ?s)" using good by (simp add: book_good_def)
      from cancelled_book[OF this Some] show "ids_upto (n - 1) ?b" by (simp add: book_good_def)
    qed (use eff Some in simp_all)
  qed
qed

lemma engine_inv_rejectOrder:
  assumes inv: "engine_inv cob" and t: "rejectOrder ord message cob = Inr cob'"
  shows "engine_inv cob'"
proof -
  have "outgoing_ok cob" using inv by (simp add: engine_inv_def)
  from rejectOrder_effect[OF t this] inv show ?thesis
    by (intro engine_inv_book[OF inv, of cob' 0 "book_at cob 0"]) (auto simp: engine_inv_def queue_ok_def)
qed

text \<open>A new order task whose number is above those of its book and below those still waiting.\<close>

lemma engine_inv_taskNewOrder:
  assumes inv: "engine_inv cob" and t: "taskNewOrder ord cob = Inr cob'" and fit: "order_fit ord"
    and num: "0 < unat (m_orderID ord)" "unat (m_orderID ord) \<le> unat (m_orderNumber cob)"
    and ids: "ids_upto (unat (m_orderID ord) - 1) (book_at cob (m_securityId ord))"
    and wait: "\<And>n. queue_index cob (m_securityId ord) < length (pending cob) \<Longrightarrow>
      n \<in> set (new_order_ids (pending cob ! queue_index cob (m_securityId ord))) \<Longrightarrow> unat (m_orderID ord) < n"
  shows "engine_inv cob'"
proof -
  let ?s = "m_securityId ord" and ?n = "unat (m_orderID ord)"
  have out: "outgoing_ok cob" using inv by (simp add: engine_inv_def)
  have "book_good (?n - 1) (book_at cob ?s)" using inv ids by (simp add: engine_inv_def book_good_def)
  then obtain ps b where pm: "processMatching (OrderBook_insert ord (book_at cob ?s)) [] = Some (ps \<noteq> [], b, ps)"
    and good: "book_good ?n b"
    using book_good_new_order[of "?n - 1" "book_at cob ?s" ord] fit num(1) by (auto simp: order_fit_def)
  from taskNewOrder_effect[OF t out] pm
  have eff: "same_frame cob cob'" "outgoing_ok cob'" "book_at cob' = (book_at cob)(?s := b)" by auto
  show ?thesis
  proof (rule engine_inv_book[OF inv eff])
    show "book_good (unat (m_orderNumber cob)) b" using book_good_mono[OF good num(2)] .
    fix n assume "queue_index cob ?s < length (pending cob)"
      "n \<in> set (new_order_ids (pending cob ! queue_index cob ?s))"
    then have "?n \<le> n - 1" using wait by fastforce
    moreover have "ids_upto ?n b" using good by (simp add: book_good_def)
    ultimately show "ids_upto (n - 1) b" using ids_upto_mono by blast
  qed
qed

lemma engine_inv_numbered:
  assumes inv: "engine_inv cob" and lim: "sint (m_orderNumber cob) < 2 ^ 31 - 1"
    and fr: "same_frame (cob\<lparr>m_orderNumber := m_orderNumber cob + 1\<rparr>) cob2"
    and out: "outgoing_ok cob2" and books: "book_at cob2 = book_at cob"
  shows "engine_inv cob2"
proof -
  let ?c = "cob\<lparr>m_orderNumber := m_orderNumber cob + 1\<rparr>"
  have n: "unat (m_orderNumber cob + 1) = Suc (unat (m_orderNumber cob))" "0 \<le> sint (m_orderNumber cob + 1)"
    using next_order_number[of "m_orderNumber cob"] inv lim by (simp_all add: engine_inv_def)
  have eq: "queue_index cob2 = queue_index cob" "pending cob2 = pending cob"
    "m_orderNumber cob2 = m_orderNumber cob + 1" "m_isMatchingMultithreaded cob2 = m_isMatchingMultithreaded cob"
    "m_orderBookThreadPool cob2 = m_orderBookThreadPool cob"
    using fr by (simp_all add: same_frame_def queue_index_def pending_def queueID_at_def fun_eq_iff)
  have "task_ok cob2 i t = task_ok cob i t" for i t by (simp add: task_ok_def eq)
  then have "queue_ok cob2 i ts" if "queue_ok cob i ts" for i ts
    using that by (auto simp: queue_ok_def eq n books)
  moreover have "book_good (Suc (unat (m_orderNumber cob))) (book_at cob s)" for s
    using inv book_good_mono[of "unat (m_orderNumber cob)"] by (simp add: engine_inv_def)
  ultimately show ?thesis using inv out n(2) by (simp add: engine_inv_def eq n(1) books)
qed

lemma engine_inv_submit:
  assumes inv: "engine_inv cob" and multi: "m_isMatchingMultithreaded cob"
    and sub: "submitTask (Task_new c) (scast (queueID_at cob (m_securityId (task_order c)))) (m_orderBookThreadPool cob) = Inr pool"
    and new: "\<And>ord. c = Task_NewOrder ord \<Longrightarrow> order_fit ord \<and> 0 < unat (m_orderID ord) \<and>
      unat (m_orderID ord) \<le> unat (m_orderNumber cob) \<and>
      (\<forall>s. ids_upto (unat (m_orderID ord) - 1) (book_at cob s)) \<and>
      (\<forall>i < length (pending cob). \<forall>n \<in> set (new_order_ids (pending cob ! i)). n < unat (m_orderID ord))"
  shows "engine_inv (cob\<lparr>m_orderBookThreadPool := pool\<rparr>)"
proof -
  let ?c = "cob\<lparr>m_orderBookThreadPool := pool\<rparr>" and ?i = "queue_index cob (m_securityId (task_order c))"
  have pinv: "pool_inv (m_orderBookThreadPool cob)" using inv by (simp add: engine_inv_def)
  note st = submitTask_Inr[OF sub pinv, folded queue_index_def]
  have i: "?i < length (pending cob)" using st by (simp add: pending_def)
  have pend: "pending ?c = (pending cob)[?i := pending cob ! ?i @ [Task_new c]]"
    using st by (simp add: pending_def)
  have eq: "queue_index ?c = queue_index cob" "book_at ?c = book_at cob"
    by (simp_all add: queue_index_def queueID_at_def book_at_def fun_eq_iff)
  have tok: "task_ok ?c j t = task_ok cob j t" for j t by (simp add: task_ok_def eq)
  have old: "queue_ok cob j (pending cob ! j)" if "j < length (pending cob)" for j
    using inv that by (simp add: engine_inv_def)
  have qok: "queue_ok ?c j ts = queue_ok cob j ts" for j ts by (simp add: queue_ok_def tok eq)
  have "task_ok cob ?i (Task_new c)" using new by (auto simp: task_ok_def)
  then have "queue_ok cob ?i (pending cob ! ?i @ [Task_new c])"
    using old[OF i] new i by (cases c) (auto simp: queue_ok_def sorted_wrt_append)
  then have "queue_ok ?c j (pending ?c ! j)" if "j < length (pending cob)" for j
    using old[OF that] that i by (cases "j = ?i") (simp_all add: qok pend)
  moreover have "outgoing_ok ?c" using inv by (simp add: engine_inv_def outgoing_ok_def)
  ultimately show ?thesis using inv st multi by (simp add: engine_inv_def eq pend)
qed

lemma engine_inv_addOrder:
  assumes inv: "engine_inv cob" and add: "addOrder ord cob = Inr (r, ord', cob')"
    and fit: "order_fit ord" and lim: "sint (m_orderNumber cob) < 2 ^ 31 - 1"
  shows "engine_inv cob'"
proof -
  have out: "outgoing_ok cob" using inv by (simp add: engine_inv_def)
  let ?N = "unat (m_orderNumber cob)" and ?s = "m_securityId ord"
  from addOrder_effect[OF add out] obtain cob2 where
    o': "ord' = ord\<lparr>m_orderID := scast (m_orderNumber cob + 1)\<rparr>" and
    c2: "same_frame (cob\<lparr>m_orderNumber := m_orderNumber cob + 1\<rparr>) cob2" "outgoing_ok cob2" "book_at cob2 = book_at cob" and
    st: "if m_isMatchingMultithreaded cob
       then \<exists>pool. submitTask (Task_new (Task_NewOrder ord')) (scast (queueID_at cob ?s)) (m_orderBookThreadPool cob) = Inr pool \<and>
              cob' = cob2\<lparr>m_orderBookThreadPool := pool\<rparr>
       else taskNewOrder ord' cob2 = Inr cob'"
    by blast
  have inv2: "engine_inv cob2" by (rule engine_inv_numbered[OF inv lim c2])
  have eq: "queueID_at cob2 = queueID_at cob" "pending cob2 = pending cob"
    "m_orderNumber cob2 = m_orderNumber cob + 1" "m_isMatchingMultithreaded cob2 = m_isMatchingMultithreaded cob"
    "m_orderBookThreadPool cob2 = m_orderBookThreadPool cob"
    using c2 by (simp_all add: same_frame_def pending_def queueID_at_def fun_eq_iff)
  have num: "unat (m_orderID ord') = Suc ?N" "unat (m_orderNumber cob + 1) = Suc ?N"
    using next_order_number[of "m_orderNumber cob"] inv lim by (simp_all add: engine_inv_def o')
  have fit': "order_fit ord'" "m_securityId ord' = ?s" using fit by (simp_all add: o' order_fit_def order_balanced_def)
  have ids: "ids_upto ?N (book_at cob2 s)" for s using inv c2(3) by (simp add: engine_inv_def book_good_def)
  have wait: "n < Suc ?N" if "i < length (pending cob)" "n \<in> set (new_order_ids (pending cob ! i))" for i n
    using inv that by (auto simp: engine_inv_def queue_ok_def less_Suc_eq_le)
  show ?thesis
  proof (cases "m_isMatchingMultithreaded cob")
    case True
    then obtain pool where "submitTask (Task_new (Task_NewOrder ord')) (scast (queueID_at cob2 (m_securityId ord')))
        (m_orderBookThreadPool cob2) = Inr pool" "cob' = cob2\<lparr>m_orderBookThreadPool := pool\<rparr>"
      using st fit'(2) by (auto simp: eq)
    with engine_inv_submit[OF inv2, of "Task_NewOrder ord'" pool] True fit'(1) num ids wait show ?thesis
      by (simp add: eq)
  next
    case False
    then have "pending cob2 ! i = []" if "i < length (pending cob2)" for i
      using inv2 that by (simp add: engine_inv_def eq)
    with engine_inv_taskNewOrder[OF inv2, of ord' cob'] False st fit' num ids show ?thesis
      by (simp add: eq)
  qed
qed

text \<open>A worker takes a task out of its queue, then runs it.\<close>

lemma matching_worker_cases:
  assumes "matching_worker address i cob = Inr (Some cob')" "pool_inv (m_orderBookThreadPool cob)"
    and "i < length (pending cob)"
  shows "(pending cob ! i = [] \<and> cob' = cob) \<or>
    (\<exists>t ts pool. pending cob ! i = t # ts \<and> pool_inv pool \<and>
       m_isShuttingDown pool = m_isShuttingDown (m_orderBookThreadPool cob) \<and>
       map rb_list (m_threadQueues pool) = (pending cob)[i := ts] \<and>
       (\<forall>c. t = Task_new c \<longrightarrow>
          (\<exists>e. run_book_task address c (cob\<lparr>m_orderBookThreadPool := pool\<rparr>) = (cob', e) \<and>
               (\<forall>x. e = Some x \<longrightarrow> is_exception x))))"
proof -
  let ?p = "m_orderBookThreadPool cob"
  let ?q = "m_threadQueues ?p ! i"
  have i: "i < length (m_threadQueues ?p)" using assms(3) by (simp add: pending_def)
  have inv: "rb_inv ?q" using assms(2) i by (simp add: pool_inv_def)
  have run: "\<not> m_isShuttingDown ?p"
    using assms(1) by (auto simp: matching_worker_def worker_turn_def split: if_splits)
  show ?thesis
  proof (cases "rb_list ?q")
    case Nil
    then show ?thesis
      using assms(1) ring_queue.pop_empty[OF inv Nil] run i
      by (simp add: matching_worker_def worker_turn_def pending_def)
  next
    case (Cons t ts)
    obtain q' where q': "tryPop ?q = (Some t, q')" "rb_inv q'" "rb_list q' = ts"
      using ring_queue.pop_some[OF inv Cons] by (cases "tryPop ?q") auto
    let ?pool = "?p\<lparr>m_threadQueues := (m_threadQueues ?p)[i := q']\<rparr>"
    have "pool_inv ?pool"
      using assms(2) q'(2) by (auto simp: pool_inv_def dest!: set_update_subset_insert[THEN subsetD])
    moreover have "map rb_list (m_threadQueues ?pool) = (pending cob)[i := ts]"
      by (simp add: pending_def map_update q'(3))
    moreover have "\<exists>e. run_book_task address c (cob\<lparr>m_orderBookThreadPool := ?pool\<rparr>) = (cob', e) \<and>
        (\<forall>x. e = Some x \<longrightarrow> is_exception x)"
      if "t = Task_new c" for c
      using assms(1) run i q'(1) that
      by (auto simp: matching_worker_def worker_turn_def Task_execute_def Task_new_def
          split: prod.splits option.splits if_splits)
    ultimately show ?thesis using Cons i by (intro disjI2 exI[of _ t] exI[of _ ts] exI[of _ ?pool]) (simp add: pending_def)
  qed
qed

lemma engine_inv_popped:
  assumes inv: "engine_inv cob" and i: "i < length (pending cob)" "pending cob ! i = t # ts"
    and pool: "pool_inv pool" "map rb_list (m_threadQueues pool) = (pending cob)[i := ts]"
  shows "engine_inv (cob\<lparr>m_orderBookThreadPool := pool\<rparr>)"
proof -
  let ?c = "cob\<lparr>m_orderBookThreadPool := pool\<rparr>"
  have pend: "pending ?c = (pending cob)[i := ts]" using pool by (simp add: pending_def)
  have eq: "queue_index ?c = queue_index cob" "book_at ?c = book_at cob"
    by (simp_all add: queue_index_def queueID_at_def book_at_def fun_eq_iff)
  have qok: "queue_ok ?c j us = queue_ok cob j us" for j us by (simp add: queue_ok_def task_ok_def eq)
  have old: "queue_ok cob j (pending cob ! j)" if "j < length (pending cob)" for j
    using inv that by (simp add: engine_inv_def)
  have "new_order_ids (t # ts) = new_order_ids [t] @ new_order_ids ts"
    by (metis append_Cons append_Nil new_order_ids_simps(4))
  then have "queue_ok cob i ts" using old[OF i(1)] i(2) by (auto simp: queue_ok_def sorted_wrt_append)
  then have "queue_ok ?c j (pending ?c ! j)" if "j < length (pending cob)" for j
    using old[OF that] that by (cases "j = i") (simp_all add: qok pend)
  moreover have "outgoing_ok ?c" using inv by (simp add: engine_inv_def outgoing_ok_def)
  moreover have "pending ?c ! j = []" if "\<not> m_isMatchingMultithreaded cob" "j < length (pending cob)" for j
    using inv that i by (simp add: engine_inv_def)
  ultimately show ?thesis using inv pool by (simp add: engine_inv_def eq pend)
qed

lemma engine_inv_worker:
  assumes inv: "engine_inv cob" and w: "matching_worker address i cob = Inr (Some cob')" and i: "i < length (pending cob)"
  shows "engine_inv cob'"
proof -
  have pinv: "pool_inv (m_orderBookThreadPool cob)" using inv by (simp add: engine_inv_def)
  consider (idle) "cob' = cob" |
    (task) t ts pool where "pending cob ! i = t # ts" "pool_inv pool"
      "map rb_list (m_threadQueues pool) = (pending cob)[i := ts]"
      "\<And>c. t = Task_new c \<Longrightarrow> \<exists>e. run_book_task address c (cob\<lparr>m_orderBookThreadPool := pool\<rparr>) = (cob', e)"
    using matching_worker_cases[OF w pinv i] by blast
  then show ?thesis
  proof cases
    case task
    let ?c = "cob\<lparr>m_orderBookThreadPool := pool\<rparr>"
    have pend: "pending ?c = (pending cob)[i := ts]" using task by (simp add: pending_def)
    have eq: "queue_index ?c = queue_index cob" "book_at ?c = book_at cob"
      by (simp_all add: queue_index_def queueID_at_def book_at_def fun_eq_iff)
    have inv': "engine_inv ?c" by (rule engine_inv_popped[OF inv i task(1-3)])
    have "queue_ok cob i (pending cob ! i)" using inv i by (simp add: engine_inv_def)
    then have q: "queue_ok cob i (t # ts)" unfolding task(1) .
    then obtain c where c: "t = Task_new c" "queue_index cob (m_securityId (task_order c)) = i"
      "\<And>ord. c = Task_NewOrder ord \<Longrightarrow> order_fit ord"
      by (auto simp: queue_ok_def task_ok_def)
    obtain e where e: "run_book_task address c ?c = (cob', e)" using task(4)[OF c(1)] by blast
    show ?thesis
    proof (cases c)
      case (Task_NewOrder ord)
      have "engine_inv cob1" if t: "taskNewOrder ord ?c = Inr cob1" for cob1
        by (rule engine_inv_taskNewOrder[OF inv' t])
          (use q c Task_NewOrder i in \<open>auto simp: queue_ok_def eq pend\<close>)
      then show ?thesis using e Task_NewOrder inv' by (auto simp: run_book_task_def split: sum.splits)
    next
      case (Task_CancelOrder ord orig)
      then show ?thesis using e inv' engine_inv_taskCancelOrder[OF inv']
        by (auto simp: run_book_task_def split: sum.splits)
    qed
  qed (use inv in simp)
qed

section \<open>The engine as a transition system\<close>

text \<open>
  The states the program can reach: after start-up, any interleaving of the FIX thread (new orders,
  cancels, rejects), the matching workers and the outgoing message processor. Up to the 2^31st
  order; queue sizes are powers of two.
\<close>

inductive engine_reachable :: "cint \<Rightarrow> CentralOrderBook \<Rightarrow> bool" for address where
  start_single: "queue_size_ok sz \<Longrightarrow>
    initialiseOutgoingMessageQueues mem n sz (snd (setSymbols symbols SecurityManager_init CentralOrderBook_new)) = Inr cob \<Longrightarrow>
    engine_reachable address cob"
| start_multi: "queue_size_ok sz \<Longrightarrow> queue_size_ok (m_workQueueSizePerThread args) \<Longrightarrow>
    initialiseMultithreadedMatching cores ht args (snd (setSymbols symbols SecurityManager_init CentralOrderBook_new)) = Inr cob1 \<Longrightarrow>
    initialiseOutgoingMessageQueues mem n sz cob1 = Inr cob \<Longrightarrow> engine_reachable address cob"
| new_order: "engine_reachable address cob \<Longrightarrow> order_fit ord \<Longrightarrow> sint (m_orderNumber cob) < 2 ^ 31 - 1 \<Longrightarrow>
    addOrder ord cob = Inr (r, ord', cob') \<Longrightarrow> engine_reachable address cob'"
| cancel_order: "engine_reachable address cob \<Longrightarrow> cancelOrder address ord orig cob = Inr cob' \<Longrightarrow>
    engine_reachable address cob'"
| reject_order: "engine_reachable address cob \<Longrightarrow> rejectOrder ord message cob = Inr cob' \<Longrightarrow>
    engine_reachable address cob'"
| worker: "engine_reachable address cob \<Longrightarrow> i < length (m_threadQueues (m_orderBookThreadPool cob)) \<Longrightarrow>
    matching_worker address i cob = Inr (Some cob') \<Longrightarrow> engine_reachable address cob'"
| drain: "engine_reachable address cob \<Longrightarrow> i < length (m_outgoingMessages cob) \<Longrightarrow>
    tryPop (m_outgoingMessages cob ! i) = (msg, q) \<Longrightarrow>
    engine_reachable address (cob\<lparr>m_outgoingMessages := (m_outgoingMessages cob)[i := q]\<rparr>)"

lemma engine_inv_cancelOrder:
  assumes inv: "engine_inv cob" and c: "cancelOrder address ord orig cob = Inr cob'"
  shows "engine_inv cob'"
proof (cases "m_isMatchingMultithreaded cob")
  case True
  obtain q cob1 where q: "queue_of (m_securityId ord) cob = (q, cob1)" by (cases "queue_of (m_securityId ord) cob") auto
  note qe = queue_of_effect[OF q]
  have inv1: "engine_inv cob1"
    using qe inv by (intro engine_inv_book[OF inv, of cob1 0 "book_at cob 0"])
      (auto simp: engine_inv_def queue_ok_def outgoing_ok_def)
  obtain pool where "submitTask (Task_new (Task_CancelOrder ord orig)) (scast q) (m_orderBookThreadPool cob1) = Inr pool"
    "cob' = cob1\<lparr>m_orderBookThreadPool := pool\<rparr>"
    using c q True by (auto simp: cancelOrder_def)
  with engine_inv_submit[OF inv1, of "Task_CancelOrder ord orig" pool] qe True show ?thesis
    by (simp add: same_frame_def)
next
  case False
  then show ?thesis using c engine_inv_taskCancelOrder[OF inv] by (simp add: cancelOrder_def)
qed

lemma engine_inv_drain:
  assumes inv: "engine_inv cob" and i: "i < length (m_outgoingMessages cob)" and pop: "tryPop (m_outgoingMessages cob ! i) = (msg, q)"
  shows "engine_inv (cob\<lparr>m_outgoingMessages := (m_outgoingMessages cob)[i := q]\<rparr>)"
proof -
  have o: "outgoing_ok cob" using inv by (simp add: engine_inv_def)
  then have "rb_inv (m_outgoingMessages cob ! i)" using i by (simp add: outgoing_ok_def)
  then have "rb_inv q"
    using ring_queue.pop_some[of "m_outgoingMessages cob ! i"] ring_queue.pop_empty[of "m_outgoingMessages cob ! i"] pop
    by (cases "rb_list (m_outgoingMessages cob ! i)") auto
  then have "outgoing_ok (cob\<lparr>m_outgoingMessages := (m_outgoingMessages cob)[i := q]\<rparr>)"
    using o by (auto simp: outgoing_ok_def dest!: set_update_subset_insert[THEN subsetD])
  then show ?thesis
    using inv by (intro engine_inv_book[OF inv, of _ 0 "book_at cob 0"])
      (auto simp: engine_inv_def queue_ok_def same_frame_def queueID_at_def book_at_def fun_eq_iff)
qed

section \<open>Start-up\<close>

lemma setSymbols_fold:
  assumes "sm_inv sm" "m_securityIds cob = [0..<k]" "length (m_securitiesById sm) = k" "q = of_nat k - 1"
    and "m_queueIDDictionary cob = map (\<lambda>i. (i, of_nat i)) [0..<k]"
  shows "fold setSymbols_step symbols (sm, cob, q) =
    (fold (\<lambda>s m. snd (addSecurity s m)) symbols sm,
     cob\<lparr>m_securityIds := [0..<k + length symbols],
         m_queueIDDictionary := map (\<lambda>i. (i, of_nat i)) [0..<k + length symbols]\<rparr>,
     of_nat (k + length symbols) - 1)"
  using assms
proof (induction symbols arbitrary: sm cob k q)
  case Nil
  then show ?case by simp
next
  case (Cons s symbols)
  have fresh: "map_of (m_securitiesById sm) k = None" using sm_inv_fresh[OF Cons.prems(1)] Cons.prems(3) by simp
  have inv: "sm_inv (snd (addSecurity s sm))" by (rule sm_inv_addSecurity[OF Cons.prems(1)])
  have add: "fst (addSecurity s sm) = k" "length (m_securitiesById (snd (addSecurity s sm))) = Suc k"
    using Cons.prems(3) fresh by (simp_all add: addSecurity_def Let_def umap_insert_def)
  let ?cob = "cob\<lparr>m_securityIds := [0..<Suc k], m_queueIDDictionary := map (\<lambda>i. (i, of_nat i)) [0..<Suc k]\<rparr>"
  have "map_of (map (\<lambda>i. (i, of_nat i :: cint)) [0..<k]) k = None" by (simp add: map_of_eq_None_iff image_def)
  then have "setSymbols_step s (sm, cob, q) = (snd (addSecurity s sm), ?cob, of_nat (Suc k) - 1)"
    using Cons.prems(2,4,5) add(1) by (simp add: setSymbols_step_def Let_def umap_insert_def split_beta)
  with Cons.IH[OF inv, of ?cob "Suc k" "of_nat (Suc k) - 1"] add(2) show ?case by simp
qed

lemma setSymbols_new:
  "setSymbols symbols SecurityManager_init CentralOrderBook_new =
    (fold (\<lambda>s m. snd (addSecurity s m)) symbols SecurityManager_init,
     CentralOrderBook_new\<lparr>m_securityIds := [0..<length symbols],
       m_queueIDDictionary := map (\<lambda>i. (i, of_nat i)) [0..<length symbols]\<rparr>)"
  using setSymbols_fold[OF sm_inv_init, of CentralOrderBook_new 0 "- 1" symbols]
  by (simp add: setSymbols_def CentralOrderBook_new_def SecurityManager_init_def)

lemma setSymbols_fields [simp]:
  "m_outgoingMessages (snd (setSymbols symbols SecurityManager_init CentralOrderBook_new)) = []"
  "m_orderNumber (snd (setSymbols symbols SecurityManager_init CentralOrderBook_new)) = 0"
  "m_orderBookDictionary (snd (setSymbols symbols SecurityManager_init CentralOrderBook_new)) = []"
  "m_orderBookThreadPool (snd (setSymbols symbols SecurityManager_init CentralOrderBook_new)) = ThreadPool_new"
  "m_isMatchingMultithreaded (snd (setSymbols symbols SecurityManager_init CentralOrderBook_new)) = False"
  unfolding setSymbols_new by (simp_all add: CentralOrderBook_new_def)

lemma outgoing_queues_started:
  assumes "initialiseOutgoingMessageQueues mem n sz cob = Inr cob'" "queue_size_ok sz" "m_outgoingMessages cob = []"
  shows "\<exists>out. cob' = cob\<lparr>m_outgoingMessages := out\<rparr> \<and> outgoing_ok cob' \<and> map rb_list out = replicate (nat (sint n)) []"
proof -
  have "\<exists>out. cob' = cob\<lparr>m_outgoingMessages := out\<rparr> \<and> outgoing_ok cob' \<and> map rb_list out = replicate k []"
    if "res_fold (\<lambda>_ cob. res_bind (RingBuffer_construct mem (scast sz))
                 (\<lambda>q. Inr (cob\<lparr>m_outgoingMessages := m_outgoingMessages cob @ [q]\<rparr>))) [0..<k] cob = Inr cob'" for k cob'
    using that
  proof (induction k arbitrary: cob')
    case 0
    then show ?case using assms(3) by (auto simp: outgoing_ok_def intro: exI[of _ "[]"])
  next
    case (Suc k)
    then obtain cob1 q where 1: "res_fold (\<lambda>_ cob. res_bind (RingBuffer_construct mem (scast sz))
                 (\<lambda>q. Inr (cob\<lparr>m_outgoingMessages := m_outgoingMessages cob @ [q]\<rparr>))) [0..<k] cob = Inr cob1"
      and 2: "RingBuffer_construct mem (scast sz) = Inr q" "cob' = cob1\<lparr>m_outgoingMessages := m_outgoingMessages cob1 @ [q]\<rparr>"
      by auto
    from Suc.IH[OF 1] obtain out where "cob1 = cob\<lparr>m_outgoingMessages := out\<rparr>" "outgoing_ok cob1"
      "map rb_list out = replicate k []" by blast
    with 2 queue_size_ok_construct[OF assms(2) 2(1)] show ?case
      by (auto simp: outgoing_ok_def replicate_append_same intro!: exI[of _ "out @ [q]"])
  qed
  then show ?thesis using assms(1) by (simp add: initialiseOutgoingMessageQueues_def)
qed

lemma empty_books:
  "(\<And>b. b \<in> snd ` set m \<Longrightarrow> b = OrderBook_empty) \<Longrightarrow>
   b \<in> snd ` set (fold (\<lambda>s. umap_insert s OrderBook_empty) ss m) \<Longrightarrow> b = OrderBook_empty"
proof (induction ss arbitrary: m)
  case (Cons s ss)
  show ?case
    by (rule Cons.IH[OF _ Cons.prems(2)[simplified]]) (use Cons.prems(1) in \<open>auto simp: umap_insert_def split: if_splits\<close>)
qed simp

lemma engine_inv_fresh:
  assumes "m_orderNumber cob = 0" "outgoing_ok cob" "pool_inv (m_orderBookThreadPool cob)"
    "\<And>b. b \<in> snd ` set (m_orderBookDictionary cob) \<Longrightarrow> b = OrderBook_empty"
    "pending cob = replicate n []"
  shows "engine_inv cob"
proof -
  have "book_at cob s = OrderBook_empty" for s
    using assms(4) by (force simp: book_at_def dest: map_of_SomeD split: option.splits)
  then show ?thesis using assms by (simp add: engine_inv_def queue_ok_def book_good_empty)
qed

lemma engine_reachable_inv: "engine_reachable address cob \<Longrightarrow> engine_inv cob"
proof (induction rule: engine_reachable.induct)
  case (start_single sz mem n symbols cob)
  then obtain out where "cob = (snd (setSymbols symbols SecurityManager_init CentralOrderBook_new))\<lparr>m_outgoingMessages := out\<rparr>"
    "outgoing_ok cob" using outgoing_queues_started[OF start_single(2,1)] by auto
  then show ?case
    by (intro engine_inv_fresh[where n = 0])
      (simp_all add: pending_def ThreadPool_new_def pool_inv_def)
next
  case (start_multi sz args cores ht symbols cob1 mem n cob)
  let ?c = "snd (setSymbols symbols SecurityManager_init CentralOrderBook_new)"
  obtain pool where pool: "ThreadPool_initialise cores ht args ThreadPool_new = Inr pool"
    and c1: "cob1 = ?c\<lparr>m_isMatchingMultithreaded := True, m_orderBookDictionary :=
        fold (\<lambda>s. umap_insert s OrderBook_empty) (m_securityIds ?c) [], m_orderBookThreadPool := pool\<rparr>"
    using start_multi(3) by (auto simp: initialiseMultithreadedMatching_def Let_def)
  have "m_outgoingMessages cob1 = []" by (simp add: c1)
  then obtain out where c: "cob = cob1\<lparr>m_outgoingMessages := out\<rparr>" "outgoing_ok cob"
    using outgoing_queues_started[OF start_multi(4,1)] by blast
  show ?case
  proof (rule engine_inv_fresh[where n = "length (m_threadNames args)"])
    fix b assume "b \<in> snd ` set (m_orderBookDictionary cob)"
    then show "b = OrderBook_empty"
      using empty_books[of "[]" b "m_securityIds ?c"] by (simp add: c(1) c1)
  qed (use c pool_inv_initialise[OF pool start_multi(2)] in
      \<open>simp_all add: c1 pending_def\<close>)
qed (auto intro: engine_inv_addOrder engine_inv_cancelOrder engine_inv_rejectOrder engine_inv_worker engine_inv_drain
      simp: pending_def)

section \<open>Progress\<close>

text \<open>Free places of the outgoing queue that serves a security.\<close>

definition out_room :: "CentralOrderBook \<Rightarrow> nat \<Rightarrow> nat" where
  "out_room cob i = (if i < length (m_outgoingMessages cob)
     then m_capacity (m_outgoingMessages cob ! i) - length (rb_list (m_outgoingMessages cob ! i)) else 0)"

lemma push_outgoing_room:
  assumes "outgoing_ok cob" "0 < out_room cob (unat (scast q :: csize))"
  shows "\<exists>cob'. push_outgoing q msg cob = Inr cob' \<and> outgoing_ok cob' \<and>
     out_room cob' (unat (scast q :: csize)) = out_room cob (unat (scast q :: csize)) - 1"
proof -
  let ?i = "unat (scast q :: csize)"
  let ?r = "m_outgoingMessages cob ! ?i"
  have i: "?i < length (m_outgoingMessages cob)" and l: "length (rb_list ?r) < m_capacity ?r"
    using assms(2) by (simp_all add: out_room_def split: if_splits)
  have inv: "rb_inv ?r" using assms(1) i by (simp add: outgoing_ok_def)
  from push_room[OF inv l] obtain r' where r': "push msg ?r = Inr r'" "rb_inv r'" "rb_list r' = rb_list ?r @ [msg]"
    "m_capacity r' = m_capacity ?r" by blast
  let ?c = "cob\<lparr>m_outgoingMessages := (m_outgoingMessages cob)[?i := r']\<rparr>"
  have "push_outgoing q msg cob = Inr ?c" using i r'(1) by (simp add: push_outgoing_def Let_def)
  moreover have "outgoing_ok ?c"
    using assms(1) r'(2) by (auto simp: outgoing_ok_def dest!: set_update_subset_insert[THEN subsetD])
  ultimately show ?thesis using i r' by (simp add: out_room_def)
qed

lemma push_all_room:
  assumes "outgoing_ok cob" "length xs \<le> out_room cob (unat (scast q :: csize))"
  shows "\<exists>cob'. res_fold (\<lambda>x. push_outgoing q (f x)) xs cob = Inr cob'"
  using assms
proof (induction xs arbitrary: cob)
  case (Cons x xs)
  then have "0 < out_room cob (unat (scast q :: csize))" by simp
  from push_outgoing_room[OF Cons.prems(1) this, of "f x"] obtain cob1 where
    "push_outgoing q (f x) cob = Inr cob1" "outgoing_ok cob1"
    "out_room cob1 (unat (scast q :: csize)) = out_room cob (unat (scast q :: csize)) - 1" by blast
  with Cons.IH[of cob1] Cons.prems(2) show ?case by simp
qed simp

lemma out_room_cong: "m_outgoingMessages cob' = m_outgoingMessages cob \<Longrightarrow> out_room cob' = out_room cob"
  by (simp add: out_room_def fun_eq_iff)

lemma taskNewOrder_progress:
  assumes out: "outgoing_ok cob" and s: "s = m_securityId ord"
    and pm: "processMatching (OrderBook_insert ord (book_at cob s)) [] = Some (r, book', ps)"
    and room: "length ps \<le> out_room cob (queue_index cob s)"
  shows "\<exists>cob'. taskNewOrder ord cob = Inr cob'"
proof -
  obtain q cob1 where q: "queue_of s cob = (q, cob1)" by (cases "queue_of s cob") auto
  obtain b books where b: "umap_index OrderBook_empty s (m_orderBookDictionary cob1) = (b, books)"
    by (cases "umap_index OrderBook_empty s (m_orderBookDictionary cob1)") auto
  note qe = queue_of_effect[OF q] and be = umap_index_book[OF b]
  let ?c = "cob1\<lparr>m_orderBookDictionary := AList.update s book' books\<rparr>"
  have "outgoing_ok ?c" "length ps \<le> out_room ?c (unat (scast q :: csize))"
    using qe out room out_room_cong[of ?c cob] by (simp_all add: outgoing_ok_def queue_index_def)
  from push_all_room[OF this] obtain cob' where
    "res_fold (\<lambda>p. push_outgoing q (fill_message p)) ps ?c = Inr cob'" by blast
  moreover have "b = book_at cob s" using be qe by simp
  ultimately show ?thesis using q b pm s by (simp add: taskNewOrder_def Let_def)
qed

lemma taskCancelOrder_progress:
  assumes out: "outgoing_ok cob" and room: "0 < out_room cob (queue_index cob (m_securityId ord))"
  shows "\<exists>cob'. taskCancelOrder address ord orig cob = Inr cob'"
proof -
  let ?s = "m_securityId ord"
  obtain q cob1 where q: "queue_of ?s cob = (q, cob1)" by (cases "queue_of ?s cob") auto
  obtain b books where b: "umap_index OrderBook_empty ?s (m_orderBookDictionary cob1) = (b, books)"
    by (cases "umap_index OrderBook_empty ?s (m_orderBookDictionary cob1)") auto
  let ?c = "cob1\<lparr>m_orderBookDictionary := books\<rparr>"
  note qe = queue_of_effect[OF q]
  obtain q2 cob2 where q2: "queue_of ?s ?c = (q2, cob2)" by (cases "queue_of ?s ?c") auto
  note qe2 = queue_of_effect[OF q2]
  have "queueID_at ?c = queueID_at cob1" by (simp add: queueID_at_def fun_eq_iff)
  then have "q2 = q" using qe qe2 by (simp add: same_frame_def)
  have ok: "outgoing_ok ?c" "0 < out_room ?c (unat (scast q :: csize))"
    "outgoing_ok cob2" "0 < out_room cob2 (unat (scast q2 :: csize))"
    using qe qe2 \<open>q2 = q\<close> out room out_room_cong[of ?c cob] out_room_cong[of cob2 cob]
    by (simp_all add: outgoing_ok_def queue_index_def)
  show ?thesis
  proof (cases "OrderBook_find b orig (m_sessionId ord) (m_side ord)")
    case None
    then show ?thesis using push_outgoing_room[OF ok(3,4)] q b q2
      by (auto simp: taskCancelOrder_def Let_def rejectOrder_def format_def formatImplementation_def)
  next
    case (Some i)
    obtain o' b1 where ce: "cancel_entry (m_side ord) i b = (o', b1)" by (cases "cancel_entry (m_side ord) i b") auto
    from push_outgoing_room[OF ok(1,2), of "OutgoingMessage_new o' CANCELED ''Order canceled''"] Some q b ce
    show ?thesis by (auto simp: taskCancelOrder_def Let_def)
  qed
qed

text \<open>A cancel request in the multithreaded mode is queued for the worker of its security.\<close>

lemma cancelOrder_queued:
  assumes "m_isMatchingMultithreaded cob" "pool_inv (m_orderBookThreadPool cob)" "q = queue_index cob (m_securityId ord)"
    "q < length (pending cob)" "length (pending cob ! q) < m_capacity (m_threadQueues (m_orderBookThreadPool cob) ! q)"
  shows "\<exists>cob'. cancelOrder address ord orig cob = Inr cob' \<and> book_at cob' = book_at cob \<and> out_view cob' = out_view cob \<and>
    pending cob' = (pending cob)[q := pending cob ! q @ [Task_new (Task_CancelOrder ord orig)]]"
proof -
  obtain i cob1 where i: "queue_of (m_securityId ord) cob = (i, cob1)" by (cases "queue_of (m_securityId ord) cob") auto
  note qe = queue_of_effect[OF i]
  have u: "unat (scast i :: csize) = q" using qe assms(3) by (simp add: queue_index_def)
  let ?p = "m_orderBookThreadPool cob" and ?t = "Task_new (Task_CancelOrder ord orig)"
  have q: "q < length (m_threadQueues ?p)" using assms(4) by (simp add: pending_def)
  then have inv: "rb_inv (m_threadQueues ?p ! q)" using assms(2) by (simp add: pool_inv_def)
  obtain queue where "push ?t (m_threadQueues ?p ! q) = Inr queue"
    using push_room[OF inv, of ?t] assms(5) q by (auto simp: pending_def)
  then obtain pool where pool: "submitTask ?t (scast i) ?p = Inr pool" using q u by (auto simp: submitTask_def)
  have "map rb_list (m_threadQueues pool) = (pending cob)[q := pending cob ! q @ [?t]]"
    using submitTask_Inr[OF pool assms(2)] u q by (simp add: pending_def)
  then show ?thesis using assms(1) i pool qe
    by (simp add: cancelOrder_def pending_def out_view_def book_at_def fun_eq_iff)
qed

text \<open>The failures of a new order task are never exceptions.\<close>

lemma push_outgoing_no_exception: "push_outgoing q msg cob = Inl e \<Longrightarrow> \<not> is_exception e"
  by (auto simp: push_outgoing_def Let_def vec_at_def push_def res_bind_def
      split: if_splits sum.splits prod.splits bool.splits)

lemma push_all_no_exception: "res_fold (\<lambda>x. push_outgoing q (f x)) xs cob = Inl e \<Longrightarrow> \<not> is_exception e"
proof (induction xs arbitrary: cob)
  case (Cons x xs)
  then show ?case by (cases "push_outgoing q (f x) cob") (auto dest: push_outgoing_no_exception)
qed simp

lemma taskNewOrder_no_exception: "taskNewOrder ord cob = Inl e \<Longrightarrow> \<not> is_exception e"
  by (auto simp: taskNewOrder_def Let_def dest: push_all_no_exception split: prod.splits option.splits)

lemma addOrder_accepted:
  assumes "engine_inv cob" "\<not> m_isMatchingMultithreaded cob" "order_fit ord"
    "sint (m_orderNumber cob) < 2 ^ 31 - 1" "s = m_securityId ord" "q = queue_index cob s"
    "3 + 2 * book_size (book_at cob s) \<le> out_room cob q"
  shows "\<exists>ord' cob' ps book'. addOrder ord cob = Inr (True, ord', cob') \<and>
     ord' = ord\<lparr>m_orderID := scast (m_orderNumber cob + 1)\<rparr> \<and>
     processMatching (OrderBook_insert ord' (book_at cob s)) [] = Some (ps \<noteq> [], book', ps) \<and> trade_pairs ps \<and>
     out_view cob' = (out_view cob)[q := out_view cob ! q @ OutgoingMessage_new ord' ACCEPTED [] # map fill_message ps] \<and>
     book_at cob' = (book_at cob)(s := book') \<and> m_orderNumber cob' = m_orderNumber cob + 1"
proof -
  let ?n = "m_orderNumber cob + 1"
  let ?o = "ord\<lparr>m_orderID := scast ?n\<rparr>" and ?c = "cob\<lparr>m_orderNumber := ?n\<rparr>"
  have out: "outgoing_ok cob" using assms(1) by (simp add: engine_inv_def)
  have num: "unat (m_orderID ?o) = Suc (unat (m_orderNumber cob))"
    using next_order_number[of "m_orderNumber cob"] assms(1,4) by (simp add: engine_inv_def)
  have "book_good (unat (m_orderNumber cob)) (book_at cob s)" using assms(1) by (simp add: engine_inv_def)
  then obtain ps book' where pm: "processMatching (OrderBook_insert ?o (book_at cob s)) [] = Some (ps \<noteq> [], book', ps)"
    and ps: "trade_pairs ps" "length ps \<le> 2 * Suc (book_size (book_at cob s))"
    using book_good_new_order[of "unat (m_orderNumber cob)" "book_at cob s" ?o] assms(3) num
    by (auto simp: order_fit_def order_balanced_def)
  obtain q1 cob1 where q1: "queue_of s ?c = (q1, cob1)" by (cases "queue_of s ?c") auto
  note qe = queue_of_effect[OF q1]
  have eq: "q = unat (scast q1 :: csize)" "outgoing_ok cob1" "out_room cob1 = out_room cob" "book_at cob1 = book_at cob"
    "queue_index cob1 = queue_index cob"
    using qe out out_room_cong[of cob1 cob] assms(6)
    by (simp_all add: queue_index_def same_frame_def queueID_at_def outgoing_ok_def book_at_def fun_eq_iff)
  from push_outgoing_room[of cob1 q1 "OutgoingMessage_new ?o ACCEPTED []"] obtain cob2 where
    c2: "push_outgoing q1 (OutgoingMessage_new ?o ACCEPTED []) cob1 = Inr cob2" "outgoing_ok cob2"
      "out_room cob2 q = out_room cob q - 1"
    using eq assms(7) by auto
  obtain out2 where "cob2 = cob1\<lparr>m_outgoingMessages := out2\<rparr>" using push_outgoing_effect[OF c2(1) eq(2)] by blast
  then have c2': "book_at cob2 = book_at cob" "queue_index cob2 = queue_index cob"
    "m_isMatchingMultithreaded cob2 = m_isMatchingMultithreaded cob"
    using qe eq by (auto simp: book_at_def queue_index_def queueID_at_def same_frame_def fun_eq_iff)
  have "length ps \<le> out_room cob2 (queue_index cob2 s)"
    using ps(2) c2(3) c2'(2) assms(6,7) by simp
  then obtain cob' where c': "taskNewOrder ?o cob2 = Inr cob'"
    using taskNewOrder_progress[OF c2(2), of s ?o] pm c2'(1) assms(5) by auto
  have add: "addOrder ord cob = Inr (True, ?o, cob')"
    using q1 c2(1) c' c2'(3) assms(2,5) by (simp add: addOrder_def Let_def)
  from addOrder_effect[OF add out] assms(2,5,6) obtain cob3 where
    c3: "same_frame ?c cob3" "outgoing_ok cob3" "book_at cob3 = book_at cob" "q < length (out_view cob)"
      "out_view cob3 = (out_view cob)[q := out_view cob ! q @ [OutgoingMessage_new ?o ACCEPTED []]]"
      "taskNewOrder ?o cob3 = Inr cob'" by auto
  moreover from c3(1) have "queue_index cob3 = queue_index cob" "m_orderNumber cob3 = ?n"
    by (simp_all add: same_frame_def queue_index_def queueID_at_def fun_eq_iff)
  ultimately show ?thesis
    using taskNewOrder_effect[OF c3(6,2)] add pm ps(1) assms(5,6) by (auto simp: same_frame_def)
qed

section \<open>A sample engine\<close>

text \<open>
  One symbol, an outgoing queue of eight places, in the single threaded mode; and the same in the
  multithreaded mode with one worker whose queue has four places.
\<close>

definition sample_out :: "OutgoingMessage RingBuffer" where
  "sample_out = RingBuffer_new (OutgoingMessage_new sample_bid ACCEPTED []) 8"

definition sample_engine :: CentralOrderBook where
  "sample_engine = CentralOrderBook_new\<lparr>m_securityIds := [0], m_queueIDDictionary := [(0, 0)],
     m_outgoingMessages := [sample_out]\<rparr>"

definition sample_engine_args :: ThreadPoolArguments where
  "sample_engine_args = ThreadPoolArguments_default\<lparr>m_workQueueSizePerThread := 4, m_threadNames := [''ABC'']\<rparr>"

lemma sample_engine_start:
  "initialiseOutgoingMessageQueues (OutgoingMessage_new sample_bid ACCEPTED []) 1 8
     (snd (setSymbols [''ABC''] SecurityManager_init CentralOrderBook_new)) = Inr sample_engine"
proof -
  have "RingBuffer_construct (OutgoingMessage_new sample_bid ACCEPTED []) (scast (8 :: cint)) = Inr sample_out"
    using queue_constructed[of 8 "OutgoingMessage_new sample_bid ACCEPTED []"] by (simp add: sample_out_def)
  then show ?thesis
    unfolding setSymbols_new by (simp add: initialiseOutgoingMessageQueues_def sample_engine_def CentralOrderBook_new_def)
qed

lemma queue_size_ok_samples: "queue_size_ok 8" "queue_size_ok 4"
  by (simp_all add: queue_size_ok_def)

lemma sample_engine_reachable: "engine_reachable 0 sample_engine"
  by (rule engine_reachable.start_single[OF queue_size_ok_samples(1) sample_engine_start])

lemma sample_engine_view:
  "queue_index sample_engine 0 = 0" "book_at sample_engine s = OrderBook_empty" "out_view sample_engine = [[]]"
  "\<not> m_isMatchingMultithreaded sample_engine" "m_orderNumber sample_engine = 0" "out_room sample_engine 0 = 8"
  "outgoing_ok sample_engine"
proof -
  show "outgoing_ok sample_engine" using engine_reachable_inv[OF sample_engine_reachable] by (simp add: engine_inv_def)
qed (simp_all add: sample_engine_def queue_index_def queueID_at_def book_at_def out_view_def out_room_def sample_out_def
    CentralOrderBook_new_def, simp add: RingBuffer_new_def)

definition sample_multi :: CentralOrderBook where
  "sample_multi = sample_engine\<lparr>m_isMatchingMultithreaded := True, m_orderBookDictionary := [(0, OrderBook_empty)],
     m_orderBookThreadPool := \<lparr>m_threads = [\<lparr>worker_name = ''ABC'', worker_queueIndex = 0, worker_stackSize = 0,
       worker_priority = NORMAL, worker_core = Some 0\<rparr>], m_threadQueues = [RingBuffer_new Task_default 4], m_isShuttingDown = False\<rparr>\<rparr>"

lemma sample_multi_start:
  "initialiseMultithreadedMatching 1 False sample_engine_args (snd (setSymbols [''ABC''] SecurityManager_init CentralOrderBook_new)) =
    Inr (sample_multi\<lparr>m_outgoingMessages := []\<rparr>)"
  "initialiseOutgoingMessageQueues (OutgoingMessage_new sample_bid ACCEPTED []) 1 8 (sample_multi\<lparr>m_outgoingMessages := []\<rparr>) =
    Inr sample_multi"
proof -
  have "RingBuffer_construct Task_default (scast (4 :: cint)) = Inr (RingBuffer_new Task_default 4 :: book_task Task RingBuffer)"
    using queue_constructed[of 4 "Task_default :: book_task Task"] by simp
  then show "initialiseMultithreadedMatching 1 False sample_engine_args (snd (setSymbols [''ABC''] SecurityManager_init CentralOrderBook_new)) =
    Inr (sample_multi\<lparr>m_outgoingMessages := []\<rparr>)"
    unfolding setSymbols_new
    by (simp add: initialiseMultithreadedMatching_def ThreadPool_initialise_def pool_add_worker_def setThreadName_def MAX_THREAD_NAME_LENGTH_def sample_multi_def sample_engine_def
        sample_engine_args_def ThreadPoolArguments_default_def CentralOrderBook_new_def ThreadPool_new_def umap_insert_def Let_def)
  have "RingBuffer_construct (OutgoingMessage_new sample_bid ACCEPTED []) (scast (8 :: cint)) = Inr sample_out"
    using queue_constructed[of 8 "OutgoingMessage_new sample_bid ACCEPTED []"] by (simp add: sample_out_def)
  then show "initialiseOutgoingMessageQueues (OutgoingMessage_new sample_bid ACCEPTED []) 1 8 (sample_multi\<lparr>m_outgoingMessages := []\<rparr>) =
    Inr sample_multi"
    by (simp add: initialiseOutgoingMessageQueues_def sample_multi_def sample_engine_def)
qed

lemma sample_multi_reachable: "engine_reachable 0 sample_multi"
proof (rule engine_reachable.start_multi[OF queue_size_ok_samples(1) _ sample_multi_start])
  show "queue_size_ok (m_workQueueSizePerThread sample_engine_args)"
    using queue_size_ok_samples(2) by (simp add: sample_engine_args_def)
qed

lemma sample_runs:
  "\<exists>ord' cob1 cob2 cob3. addOrder sample_bid sample_multi = Inr (True, ord', cob1) \<and> length (pending cob1) = 1 \<and>
     new_order_ids (pending cob1 ! 0) = [1] \<and> matching_worker 0 0 cob1 = Inr (Some cob2) \<and>
     addOrder sample_bid (sample_multi\<lparr>m_isMatchingMultithreaded := False\<rparr>) = Inr (True, ord', cob3)"
  by (simp add: addOrder_def queue_of_def push_outgoing_def push_def tryPush_def tryPop_def submitTask_def slot_int increment_def
      sample_multi_def sample_engine_def sample_out_def sample_bid_def Order_new_def RingBuffer_new_def CentralOrderBook_new_def
      matching_worker_def worker_turn_def Task_execute_def Task_new_def run_book_task_def taskNewOrder_def
      processMatching.simps match_step_def OrderBook_insert_def OrderBook_empty_def pending_def rb_list_def new_order_ids_def Let_def)

lemma sample_bid_fit: "order_fit sample_bid"
  by (simp add: order_fit_def sample_bid_def Order_new_def finite_price_def order_balanced_def)

text \<open>The sample engine after its first order: the bid rests in the book and is acknowledged.\<close>

definition resting_bid :: Order where
  "resting_bid = sample_bid\<lparr>m_orderID := 1\<rparr>"

lemma sample_resting:
  "\<exists>cob. addOrder sample_bid sample_engine = Inr (True, resting_bid, cob) \<and> engine_reachable 0 cob \<and>
     book_at cob 0 = \<lparr>m_bidOrders = [(Fin 10, resting_bid)], m_askOrders = []\<rparr> \<and>
     out_view cob = [[OutgoingMessage_new resting_bid ACCEPTED []]] \<and> queue_index cob 0 = 0 \<and> 0 < out_room cob 0"
proof -
  have "\<exists>cob. addOrder sample_bid sample_engine = Inr (True, resting_bid, cob) \<and>
     book_at cob 0 = \<lparr>m_bidOrders = [(Fin 10, resting_bid)], m_askOrders = []\<rparr> \<and>
     out_view cob = [[OutgoingMessage_new resting_bid ACCEPTED []]] \<and> queue_index cob 0 = 0 \<and> 0 < out_room cob 0"
    by (simp add: addOrder_def queue_of_def push_outgoing_def push_def tryPush_def slot_int increment_def resting_bid_def
        sample_engine_def sample_out_def sample_bid_def Order_new_def RingBuffer_new_def CentralOrderBook_new_def
        taskNewOrder_def processMatching.simps match_step_def OrderBook_insert_def OrderBook_empty_def rb_list_def
        umap_index_def umap_insert_def book_at_def out_view_def out_room_def queue_index_def queueID_at_def Let_def)
  then obtain cob where c: "addOrder sample_bid sample_engine = Inr (True, resting_bid, cob)"
     "book_at cob 0 = \<lparr>m_bidOrders = [(Fin 10, resting_bid)], m_askOrders = []\<rparr> \<and>
     out_view cob = [[OutgoingMessage_new resting_bid ACCEPTED []]] \<and> queue_index cob 0 = 0 \<and> 0 < out_room cob 0"
    by blast
  have "sint (m_orderNumber sample_engine) < 2 ^ 31 - 1" by (simp add: sample_engine_view)
  from engine_reachable.new_order[OF sample_engine_reachable sample_bid_fit this c(1)] c show ?thesis by blast
qed

section \<open>Properties\<close>

text \<open>C2: In every state the engine can reach, through any interleaving of new orders, cancels,
  rejects, matching workers and the message processor, in the single threaded and in the
  multithreaded mode, the book of every security is uncrossed, sorted by price and arrival, holds
  only orders of the right side and only orders whose open and executed quantities add up.\<close>

theorem engine_books_uncrossed:
  assumes "engine_reachable address cob"
  shows "book_inv (book_at cob securityId) \<and> uncrossed (book_at cob securityId)"
  using engine_reachable_inv[OF assms] by (simp add: engine_inv_def book_good_def)

theorem engine_books_uncrossed_witness:
  "\<exists>cob. engine_reachable 0 cob \<and> book_at cob 0 = \<lparr>m_bidOrders = [(Fin 10, resting_bid)], m_askOrders = []\<rparr> \<and>
     book_inv (book_at cob 0) \<and> uncrossed (book_at cob 0)"
proof -
  obtain cob where "engine_reachable 0 cob" "book_at cob 0 = \<lparr>m_bidOrders = [(Fin 10, resting_bid)], m_askOrders = []\<rparr>"
    using sample_resting by blast
  then show ?thesis using engine_books_uncrossed[of 0 cob 0] by (intro exI[of _ cob]) simp
qed

text \<open>C10: In every reachable state of the engine the tasks waiting for a matching worker are in
  arrival order: the order numbers in a worker's queue rise, are all positive and handed out, and
  are larger than the numbers of all orders resting in the books which that worker serves; every
  task waits in the queue of its own security.\<close>

theorem engine_arrival_order:
  assumes "engine_reachable address cob" "i < length (pending cob)"
  shows "sorted_wrt (<) (new_order_ids (pending cob ! i)) \<and>
    (\<forall>n \<in> set (new_order_ids (pending cob ! i)). 0 < n \<and> n \<le> unat (m_orderNumber cob) \<and>
       (\<forall>s. queue_index cob s = i \<longrightarrow>
          (\<forall>e \<in> set (m_bidOrders (book_at cob s)) \<union> set (m_askOrders (book_at cob s)). unat (m_orderID (snd e)) < n))) \<and>
    (\<forall>t \<in> set (pending cob ! i). \<exists>c. t = Task_new c \<and> queue_index cob (m_securityId (task_order c)) = i)"
proof (intro conjI ballI allI impI)
  have "queue_ok cob i (pending cob ! i)"
    using engine_reachable_inv[OF assms(1)] assms(2) by (simp add: engine_inv_def)
  note q = this[unfolded queue_ok_def]
  show "sorted_wrt (<) (new_order_ids (pending cob ! i))" using q by blast
  fix n assume n: "n \<in> set (new_order_ids (pending cob ! i))"
  then show pos: "0 < n" and "n \<le> unat (m_orderNumber cob)" using q by auto
  fix s e assume "queue_index cob s = i"
    and e: "e \<in> set (m_bidOrders (book_at cob s)) \<union> set (m_askOrders (book_at cob s))"
  then have "ids_upto (n - 1) (book_at cob s)" using q n by blast
  then have "unat (m_orderID (snd e)) \<le> n - 1" using e unfolding ids_upto_def by blast
  then show "unat (m_orderID (snd e)) < n" using pos by linarith
next
  fix t assume "t \<in> set (pending cob ! i)"
  then have "task_ok cob i t"
    using engine_reachable_inv[OF assms(1)] assms(2) unfolding engine_inv_def queue_ok_def by blast
  then show "\<exists>c. t = Task_new c \<and> queue_index cob (m_securityId (task_order c)) = i"
    unfolding task_ok_def by blast
qed

theorem engine_arrival_order_witness:
  "\<exists>cob. engine_reachable 0 cob \<and> length (pending cob) = 1 \<and> new_order_ids (pending cob ! 0) = [1] \<and>
     (\<forall>s. queue_index cob s = 0 \<longrightarrow>
        (\<forall>e \<in> set (m_bidOrders (book_at cob s)) \<union> set (m_askOrders (book_at cob s)). unat (m_orderID (snd e)) = 0))"
proof -
  obtain ord' cob where c: "addOrder sample_bid sample_multi = Inr (True, ord', cob)" "length (pending cob) = 1"
    "new_order_ids (pending cob ! 0) = [1]"
    using sample_runs by blast
  have "sint (m_orderNumber sample_multi) < 2 ^ 31 - 1"
    by (simp add: sample_multi_def sample_engine_def CentralOrderBook_new_def)
  from engine_reachable.new_order[OF sample_multi_reachable sample_bid_fit this c(1)] have "engine_reachable 0 cob" .
  moreover from this have "\<forall>s. queue_index cob s = 0 \<longrightarrow>
        (\<forall>e \<in> set (m_bidOrders (book_at cob s)) \<union> set (m_askOrders (book_at cob s)). unat (m_orderID (snd e)) = 0)"
    using engine_arrival_order[of 0 cob 0] c(2,3) by simp
  ultimately show ?thesis using c(2,3) by blast
qed

text \<open>C8: A new order in the single threaded mode. When the outgoing queue of its security has room,
  \<open>addOrder\<close> returns; the order gets the next order number, its queue receives first the ACCEPTED
  report and then one FILLED or PARTIALLY FILLED report per processed order, in pairs; the book of the
  security becomes the result of matching, and every other queue and book is as before.\<close>

theorem addOrder_reports:
  assumes "engine_inv cob" "\<not> m_isMatchingMultithreaded cob" "order_fit ord"
    "sint (m_orderNumber cob) < 2 ^ 31 - 1" "s = m_securityId ord" "q = queue_index cob s"
    "3 + 2 * book_size (book_at cob s) \<le> out_room cob q"
  shows "\<exists>ord' cob' ps book'. addOrder ord cob = Inr (True, ord', cob') \<and>
     ord' = ord\<lparr>m_orderID := scast (m_orderNumber cob + 1)\<rparr> \<and>
     processMatching (OrderBook_insert ord' (book_at cob s)) [] = Some (ps \<noteq> [], book', ps) \<and> trade_pairs ps \<and>
     out_view cob' = (out_view cob)[q := out_view cob ! q @ OutgoingMessage_new ord' ACCEPTED [] # map fill_message ps] \<and>
     book_at cob' = (book_at cob)(s := book') \<and> m_orderNumber cob' = m_orderNumber cob + 1"
  using addOrder_accepted[OF assms] .

theorem addOrder_reports_witness:
  "\<exists>ord' cob' ps. addOrder sample_bid sample_engine = Inr (True, ord', cob') \<and> trade_pairs ps \<and> m_orderID ord' = 1 \<and>
     out_view cob' = [OutgoingMessage_new ord' ACCEPTED [] # map fill_message ps] \<and> m_orderNumber cob' = 1"
proof -
  have "m_securityId sample_bid = 0" by (simp add: sample_bid_def Order_new_def)
  moreover have "book_size OrderBook_empty = 0" by (simp add: book_size_def OrderBook_empty_def)
  ultimately show ?thesis
    using addOrder_reports[OF engine_reachable_inv[OF sample_engine_reachable] sample_engine_view(4) sample_bid_fit, of 0 0]
      sample_engine_view by auto
qed

text \<open>C9: A cancel request is answered exactly once, on the queue of its security. If the ladder of the
  requested side has an order with the given client id and session, the first one in the ladder is
  reported as CANCELED and leaves the ladder, and the other entries keep their order; otherwise
  the request is reported as REJECTED and all books are as before. The other ladder, the books of
  the other securities and every other queue are untouched. (The one exception the theorem
  states: an order in the ask ladder whose side is neither BUY nor SELL is reported as CANCELED but
  stays in the ladder.) The engine is in a consistent state and the queue of the security has room.\<close>

theorem taskCancelOrder_answers:
  assumes "engine_inv cob" "s = m_securityId ord" "q = queue_index cob s" "0 < out_room cob q"
  shows "\<exists>cob'. taskCancelOrder address ord orig cob = Inr cob' \<and>
    (\<forall>s'. s' \<noteq> s \<longrightarrow> book_at cob' s' = book_at cob s') \<and>
    (let side = m_side ord; L = ladder_of side (book_at cob s) in
     case OrderBook_find (book_at cob s) orig (m_sessionId ord) side of
       None \<Rightarrow> (side \<in> {BUY, SELL} \<longrightarrow> (\<forall>e \<in> set L. \<not> is_order orig (m_sessionId ord) e)) \<and>
         book_at cob' s = book_at cob s \<and>
         out_view cob' = (out_view cob)[q := out_view cob ! q @ [cancel_reject_message address ord]]
     | Some i \<Rightarrow>
         let canceled = cancel (snd (L ! i))
         in i < length L \<and> m_clientOrderID canceled = orig \<and> m_sessionId canceled = m_sessionId ord \<and>
            (\<forall>j < i. \<not> is_order orig (m_sessionId ord) (L ! j)) \<and>
            out_view cob' = (out_view cob)[q := out_view cob ! q @
              [OutgoingMessage_new canceled CANCELED ''Order canceled'']] \<and>
            ladder_of side (book_at cob' s) =
              (if m_side canceled = side then take i L @ drop (Suc i) L else L[i := (fst (L ! i), canceled)]) \<and>
            (\<forall>other. (other = BUY) \<noteq> (side = BUY) \<longrightarrow>
               ladder_of other (book_at cob' s) = ladder_of other (book_at cob s)))"
proof -
  have out: "outgoing_ok cob" and inv: "book_inv (book_at cob s)"
    using assms(1) by (simp_all add: engine_inv_def book_good_def)
  obtain cob' where t: "taskCancelOrder address ord orig cob = Inr cob'"
    using taskCancelOrder_progress[OF out] assms by blast
  note eff = taskCancelOrder_effect[OF t out, folded assms(2), folded assms(3)]
  show ?thesis
  proof (cases "OrderBook_find (book_at cob s) orig (m_sessionId ord) (m_side ord)")
    case None
    then have "m_side ord \<in> {BUY, SELL} \<longrightarrow>
        (\<forall>e \<in> set (ladder_of (m_side ord) (book_at cob s)). \<not> is_order orig (m_sessionId ord) e)"
      by (auto simp: OrderBook_find_def ladder_of_def find_index_None_iff split: if_splits)
    then show ?thesis using t eff None by (simp add: Let_def)
  next
    case (Some i)
    note ce = cancel_and_erase[OF inv Some]
    have "\<forall>j < i. \<not> is_order orig (m_sessionId ord) (ladder_of (m_side ord) (book_at cob s) ! j)"
      using OrderBook_find_Some[OF Some] find_index_SomeD by blast
    then show ?thesis using t eff Some ce by (simp add: Let_def)
  qed
qed

theorem taskCancelOrder_answers_witness:
  "(\<exists>cob'. taskCancelOrder 0 sample_bid ''X'' sample_engine = Inr cob' \<and> book_at cob' 0 = book_at sample_engine 0 \<and>
     out_view cob' = [[cancel_reject_message 0 sample_bid]]) \<and>
   (\<exists>cob cob'. engine_reachable 0 cob \<and> m_bidOrders (book_at cob 0) = [(Fin 10, resting_bid)] \<and>
     taskCancelOrder 0 sample_bid ''B1'' cob = Inr cob' \<and> m_bidOrders (book_at cob' 0) = [] \<and>
     out_view cob' = [[OutgoingMessage_new resting_bid ACCEPTED [],
       OutgoingMessage_new (cancel resting_bid) CANCELED ''Order canceled'']])"
proof
  have b: "m_securityId sample_bid = 0" "m_side sample_bid = BUY" "m_sessionId sample_bid = 3"
    by (simp_all add: sample_bid_def Order_new_def)
  have "OrderBook_find OrderBook_empty ''X'' (m_sessionId sample_bid) (m_side sample_bid) = None"
    by (simp add: OrderBook_find_def OrderBook_empty_def)
  then show "\<exists>cob'. taskCancelOrder 0 sample_bid ''X'' sample_engine = Inr cob' \<and> book_at cob' 0 = book_at sample_engine 0 \<and>
     out_view cob' = [[cancel_reject_message 0 sample_bid]]"
    using taskCancelOrder_answers[OF engine_reachable_inv[OF sample_engine_reachable], of 0 sample_bid 0 0 "''X''"]
      sample_engine_view b by (auto simp: Let_def)
  obtain cob where c: "engine_reachable 0 cob" "book_at cob 0 = \<lparr>m_bidOrders = [(Fin 10, resting_bid)], m_askOrders = []\<rparr>"
    "out_view cob = [[OutgoingMessage_new resting_bid ACCEPTED []]]" "queue_index cob 0 = 0" "0 < out_room cob 0"
    using sample_resting by blast
  have "OrderBook_find (book_at cob 0) ''B1'' 3 BUY = Some 0" "m_side (cancel resting_bid) = BUY"
    by (simp_all add: OrderBook_find_def c(2) is_order_def resting_bid_def sample_bid_def Order_new_def)
  with taskCancelOrder_answers[OF engine_reachable_inv[OF c(1)], of 0 sample_bid 0 0 "''B1''"] b c
  obtain cob' where "taskCancelOrder 0 sample_bid ''B1'' cob = Inr cob'" "m_bidOrders (book_at cob' 0) = []"
     "out_view cob' = [[OutgoingMessage_new resting_bid ACCEPTED [],
       OutgoingMessage_new (cancel resting_bid) CANCELED ''Order canceled'']]"
    by (auto simp: Let_def ladder_of_def)
  moreover have "m_bidOrders (book_at cob 0) = [(Fin 10, resting_bid)]" using c(2) by simp
  ultimately show "\<exists>cob cob'. engine_reachable 0 cob \<and> m_bidOrders (book_at cob 0) = [(Fin 10, resting_bid)] \<and>
     taskCancelOrder 0 sample_bid ''B1'' cob = Inr cob' \<and> m_bidOrders (book_at cob' 0) = [] \<and>
     out_view cob' = [[OutgoingMessage_new resting_bid ACCEPTED [],
       OutgoingMessage_new (cancel resting_bid) CANCELED ''Order canceled'']]"
    using c(1) by blast
qed

text \<open>C11: The multithreaded mode computes what the single threaded mode computes. If the worker of a
  security has no task waiting, handing it a new order and letting it take one turn leads to the
  same order, the same outgoing reports and the same books as matching the order synchronously.\<close>

theorem multithreaded_matches_single:
  assumes "engine_inv cob" "m_isMatchingMultithreaded cob" "i = queue_index cob (m_securityId ord)"
    "pending cob ! i = []"
    and "addOrder ord cob = Inr (r, ord', cob1)" "matching_worker address i cob1 = Inr (Some cob2)"
    and "addOrder ord (cob\<lparr>m_isMatchingMultithreaded := False\<rparr>) = Inr (r', ord'', cob3)"
  shows "ord'' = ord' \<and> out_view cob2 = out_view cob3 \<and> book_at cob2 = book_at cob3"
proof -
  let ?s = "m_securityId ord" and ?single = "cob\<lparr>m_isMatchingMultithreaded := False\<rparr>"
  have out: "outgoing_ok cob" "outgoing_ok ?single" and pinv: "pool_inv (m_orderBookThreadPool cob)"
    using assms(1) by (simp_all add: engine_inv_def outgoing_ok_def)
  from addOrder_effect[OF assms(5) out(1)] assms(2) obtain a pool where
    o': "ord' = ord\<lparr>m_orderID := scast (m_orderNumber cob + 1)\<rparr>" and
    a: "outgoing_ok a" "book_at a = book_at cob" "same_frame (cob\<lparr>m_orderNumber := m_orderNumber cob + 1\<rparr>) a"
      "out_view a = (out_view cob)[i := out_view cob ! i @ [OutgoingMessage_new ord' ACCEPTED []]]" and
    sub: "submitTask (Task_new (Task_NewOrder ord')) (scast (queueID_at cob ?s)) (m_orderBookThreadPool cob) = Inr pool"
      and c1: "cob1 = a\<lparr>m_orderBookThreadPool := pool\<rparr>"
    unfolding assms(3) by auto
  have s': "m_securityId ord' = ?s" by (simp add: o')
  note st = submitTask_Inr[OF sub pinv, folded queue_index_def assms(3)]
  have i: "i < length (pending cob1)" and p1: "pending cob1 ! i = [Task_new (Task_NewOrder ord')]"
    using st assms(4) arg_cong[where f = length, OF st[THEN conjunct2, THEN conjunct2, THEN conjunct2, THEN conjunct2]]
    by (simp_all add: pending_def c1)
  from matching_worker_cases[OF assms(6) _ i] p1 st obtain pool' e where
    run: "run_book_task address (Task_NewOrder ord') (cob1\<lparr>m_orderBookThreadPool := pool'\<rparr>) = (cob2, e)"
    and e: "\<forall>x. e = Some x \<longrightarrow> is_exception x" by (auto simp: c1)
  let ?m = "cob1\<lparr>m_orderBookThreadPool := pool'\<rparr>"
  have multi: "taskNewOrder ord' ?m = Inr cob2"
    using run e taskNewOrder_no_exception[of ord' ?m] by (auto simp: run_book_task_def split: sum.splits)
  have m: "outgoing_ok ?m" "out_view ?m = out_view a" "book_at ?m = book_at cob" "queue_index ?m = queue_index cob"
    using a by (simp_all add: c1 outgoing_ok_def out_view_def book_at_def queue_index_def queueID_at_def same_frame_def fun_eq_iff)
  have sv: "queue_index ?single = queue_index cob" "book_at ?single = book_at cob" "out_view ?single = out_view cob"
    "m_orderNumber ?single = m_orderNumber cob" "m_isMatchingMultithreaded ?single = False"
    by (simp_all add: queueID_at_def queue_index_def book_at_def out_view_def fun_eq_iff)
  from addOrder_effect[OF assms(7) out(2)] obtain b where
    o'': "ord'' = ord'" and fr: "same_frame (?single\<lparr>m_orderNumber := m_orderNumber cob + 1\<rparr>) b" and
    b: "outgoing_ok b" "book_at b = book_at cob" "out_view b = out_view a" "taskNewOrder ord'' b = Inr cob3"
    unfolding sv if_False a(4) assms(3) o' by blast
  have "queue_index b = queue_index cob"
    using fr by (simp add: same_frame_def queue_index_def queueID_at_def fun_eq_iff)
  with taskNewOrder_effect[OF multi m(1)] taskNewOrder_effect[OF b(4,1)] show ?thesis
    by (auto simp: o'' m b s')
qed

theorem multithreaded_matches_single_witness:
  "\<exists>ord' cob1 cob2 cob3. addOrder sample_bid sample_multi = Inr (True, ord', cob1) \<and> matching_worker 0 0 cob1 = Inr (Some cob2) \<and>
     addOrder sample_bid (sample_multi\<lparr>m_isMatchingMultithreaded := False\<rparr>) = Inr (True, ord', cob3) \<and>
     out_view cob2 = out_view cob3 \<and> book_at cob2 = book_at cob3"
proof -
  have m: "m_isMatchingMultithreaded sample_multi" "queue_index sample_multi (m_securityId sample_bid) = 0"
    "pending sample_multi ! 0 = []"
    by (simp_all add: sample_multi_def sample_engine_def queue_index_def queueID_at_def sample_bid_def Order_new_def pending_def)
  obtain ord' cob1 cob2 cob3 where r: "addOrder sample_bid sample_multi = Inr (True, ord', cob1)"
    "matching_worker 0 0 cob1 = Inr (Some cob2)"
    "addOrder sample_bid (sample_multi\<lparr>m_isMatchingMultithreaded := False\<rparr>) = Inr (True, ord', cob3)"
    using sample_runs by blast
  then show ?thesis
    using multithreaded_matches_single[OF engine_reachable_inv[OF sample_multi_reachable] m(1) m(2)[symmetric] m(3) r] by blast
qed

end
