(* ===== verification/Fix_Constants.thy ===== *)
theory Fix_Constants
  imports Cpp_String
begin

text \<open>
  \<open>source/fix/fix_constants.h\<close>: FIX versions, message types and tags. The enumerators are the
  integers the code uses as indexes into its string tables.
\<close>

section \<open>Versions and message types\<close>

datatype FixVersion = FIX_VERSION_NONE | FIX_4_0 | FIX_4_1 | FIX_4_2 | FIX_4_3 | FIX_4_4 | FIX_5_0
  | FIX_5_0SP1 | FIX_5_0SP2

primrec FixVersion_value :: "FixVersion \<Rightarrow> int" where
  "FixVersion_value FIX_VERSION_NONE = 0"
| "FixVersion_value FIX_4_0 = 1"
| "FixVersion_value FIX_4_1 = 2"
| "FixVersion_value FIX_4_2 = 3"
| "FixVersion_value FIX_4_3 = 4"
| "FixVersion_value FIX_4_4 = 5"
| "FixVersion_value FIX_5_0 = 6"
| "FixVersion_value FIX_5_0SP1 = 7"
| "FixVersion_value FIX_5_0SP2 = 8"

definition FIX_VERSION_STRINGS :: "string list" where
  "FIX_VERSION_STRINGS = [''NONE'', ''FIX.4.0'', ''FIX.4.1'', ''FIX.4.2'', ''FIX.4.3'', ''FIX.4.4'',
     ''FIX.5.0'', ''FIX.5.0SP1'', ''FIX.5.0SP2'']"

datatype MessageType = MESSAGE_TYPE_NONE | LOGON | LOGOFF | TEST_REQUEST | RESEND_REQUEST | ADMIN_REJECT
  | SEQUENCE_RESET | HEARTBEAT | USER_LOGON | USER_RESPONSE | NEW_ORDER | CANCEL | EXECUTION_REPORT
  | BUSINESS_REJECT

primrec MessageType_value :: "MessageType \<Rightarrow> int" where
  "MessageType_value MESSAGE_TYPE_NONE = 0"
| "MessageType_value LOGON = 1"
| "MessageType_value LOGOFF = 2"
| "MessageType_value TEST_REQUEST = 3"
| "MessageType_value RESEND_REQUEST = 4"
| "MessageType_value ADMIN_REJECT = 5"
| "MessageType_value SEQUENCE_RESET = 6"
| "MessageType_value HEARTBEAT = 7"
| "MessageType_value USER_LOGON = 8"
| "MessageType_value USER_RESPONSE = 9"
| "MessageType_value NEW_ORDER = 10"
| "MessageType_value CANCEL = 11"
| "MessageType_value EXECUTION_REPORT = 12"
| "MessageType_value BUSINESS_REJECT = 13"

definition FIX_MESSAGE_TYPE_STRINGS :: "string list" where
  "FIX_MESSAGE_TYPE_STRINGS = [''NONE'', ''A'', ''5'', ''1'', ''2'', ''3'', ''4'', ''0'', ''BE'', ''BF'', ''D'', ''F'', ''8'', ''j'']"

section \<open>Separators, tags and field values\<close>

abbreviation (input) FIX_EQUALS :: char where "FIX_EQUALS \<equiv> CHR ''=''"
abbreviation (input) FIX_DELIMITER :: char where "FIX_DELIMITER \<equiv> CHR 0x01"

abbreviation (input) FIX_TAG_AVERAGE_PRICE :: int where "FIX_TAG_AVERAGE_PRICE \<equiv> 6"
abbreviation (input) FIX_TAG_VERSION :: int where "FIX_TAG_VERSION \<equiv> 8"
abbreviation (input) FIX_TAG_BODY_LENGTH :: int where "FIX_TAG_BODY_LENGTH \<equiv> 9"
abbreviation (input) FIX_TAG_BODY_CHECKSUM :: int where "FIX_TAG_BODY_CHECKSUM \<equiv> 10"
abbreviation (input) FIX_TAG_CLIENT_ORDER_ID :: int where "FIX_TAG_CLIENT_ORDER_ID \<equiv> 11"
abbreviation (input) FIX_TAG_CUMULATIVE_QUANTITY :: int where "FIX_TAG_CUMULATIVE_QUANTITY \<equiv> 14"
abbreviation (input) FIX_TAG_EXEC_ID :: int where "FIX_TAG_EXEC_ID \<equiv> 17"
abbreviation (input) FIX_TAG_EXEC_INST :: int where "FIX_TAG_EXEC_INST \<equiv> 18"
abbreviation (input) FIX_TAG_EXEC_TRANSTYPE :: int where "FIX_TAG_EXEC_TRANSTYPE \<equiv> 20"
abbreviation (input) FIX_TAG_HAND_INST :: int where "FIX_TAG_HAND_INST \<equiv> 21"
abbreviation (input) FIX_TAG_LAST_PRICE :: int where "FIX_TAG_LAST_PRICE \<equiv> 31"
abbreviation (input) FIX_TAG_LAST_QUANTITY :: int where "FIX_TAG_LAST_QUANTITY \<equiv> 32"
abbreviation (input) FIX_TAG_SEQUENCE_NUMBER :: int where "FIX_TAG_SEQUENCE_NUMBER \<equiv> 34"
abbreviation (input) FIX_TAG_MESSAGE_TYPE :: int where "FIX_TAG_MESSAGE_TYPE \<equiv> 35"
abbreviation (input) FIX_TAG_ORDER_ID :: int where "FIX_TAG_ORDER_ID \<equiv> 37"
abbreviation (input) FIX_TAG_ORDER_QUANTITY :: int where "FIX_TAG_ORDER_QUANTITY \<equiv> 38"
abbreviation (input) FIX_TAG_ORDER_STATUS :: int where "FIX_TAG_ORDER_STATUS \<equiv> 39"
abbreviation (input) FIX_TAG_ORDER_TYPE :: int where "FIX_TAG_ORDER_TYPE \<equiv> 40"
abbreviation (input) FIX_TAG_ORIG_CLIENT_ORDER_ID :: int where "FIX_TAG_ORIG_CLIENT_ORDER_ID \<equiv> 41"
abbreviation (input) FIX_TAG_ORDER_PRICE :: int where "FIX_TAG_ORDER_PRICE \<equiv> 44"
abbreviation (input) FIX_TAG_REF_SEQ_NUM :: int where "FIX_TAG_REF_SEQ_NUM \<equiv> 45"
abbreviation (input) FIX_TAG_SECURITY_ID :: int where "FIX_TAG_SECURITY_ID \<equiv> 48"
abbreviation (input) FIX_TAG_SENDER_COMPID :: int where "FIX_TAG_SENDER_COMPID \<equiv> 49"
abbreviation (input) FIX_TAG_SENDER_SUBID :: int where "FIX_TAG_SENDER_SUBID \<equiv> 50"
abbreviation (input) FIX_TAG_SENDING_TIME :: int where "FIX_TAG_SENDING_TIME \<equiv> 52"
abbreviation (input) FIX_TAG_ORDER_SIDE :: int where "FIX_TAG_ORDER_SIDE \<equiv> 54"
abbreviation (input) FIX_TAG_SYMBOL :: int where "FIX_TAG_SYMBOL \<equiv> 55"
abbreviation (input) FIX_TAG_TARGET_COMPID :: int where "FIX_TAG_TARGET_COMPID \<equiv> 56"
abbreviation (input) FIX_TAG_TARGET_SUBID :: int where "FIX_TAG_TARGET_SUBID \<equiv> 57"
abbreviation (input) FIX_TAG_FREE_TEXT :: int where "FIX_TAG_FREE_TEXT \<equiv> 58"
abbreviation (input) FIX_TAG_TIME_IN_FORCE :: int where "FIX_TAG_TIME_IN_FORCE \<equiv> 59"
abbreviation (input) FIX_TAG_TRANSACTION_TIME :: int where "FIX_TAG_TRANSACTION_TIME \<equiv> 60"
abbreviation (input) FIX_TAG_ENCRYPT_METHOD :: int where "FIX_TAG_ENCRYPT_METHOD \<equiv> 98"
abbreviation (input) FIX_TAG_HEARBEAT_INTERVAL :: int where "FIX_TAG_HEARBEAT_INTERVAL \<equiv> 108"
abbreviation (input) FIX_TAG_TEST_REQUEST_ID :: int where "FIX_TAG_TEST_REQUEST_ID \<equiv> 112"
abbreviation (input) FIX_TAG_EXEC_TYPE :: int where "FIX_TAG_EXEC_TYPE \<equiv> 150"
abbreviation (input) FIX_TAG_LEAVES_QTY :: int where "FIX_TAG_LEAVES_QTY \<equiv> 151"
abbreviation (input) FIX_TAG_USERNAME :: int where "FIX_TAG_USERNAME \<equiv> 553"
abbreviation (input) FIX_TAG_PASSWORD :: int where "FIX_TAG_PASSWORD \<equiv> 554"
abbreviation (input) FIX_TAG_REF_TAG :: int where "FIX_TAG_REF_TAG \<equiv> 371"
abbreviation (input) FIX_TAG_REF_MSG_TYPE :: int where "FIX_TAG_REF_MSG_TYPE \<equiv> 372"
abbreviation (input) FIX_TAG_REJECT_REASON :: int where "FIX_TAG_REJECT_REASON \<equiv> 373"
abbreviation (input) FIX_TAG_USER_REQUEST_ID :: int where "FIX_TAG_USER_REQUEST_ID \<equiv> 923"
abbreviation (input) FIX_TAG_USER_PASSWORD :: int where "FIX_TAG_USER_PASSWORD \<equiv> 924"

abbreviation (input) FIX_ORDER_STATUS_NEW :: int where "FIX_ORDER_STATUS_NEW \<equiv> 0"
abbreviation (input) FIX_ORDER_STATUS_PARTIALLY_FILLED :: int where "FIX_ORDER_STATUS_PARTIALLY_FILLED \<equiv> 1"
abbreviation (input) FIX_ORDER_STATUS_FILLED :: int where "FIX_ORDER_STATUS_FILLED \<equiv> 2"
abbreviation (input) FIX_ORDER_STATUS_DONE_FOR_DAY :: int where "FIX_ORDER_STATUS_DONE_FOR_DAY \<equiv> 3"
abbreviation (input) FIX_ORDER_STATUS_CANCELED :: int where "FIX_ORDER_STATUS_CANCELED \<equiv> 4"
abbreviation (input) FIX_ORDER_STATUS_REPLACED :: int where "FIX_ORDER_STATUS_REPLACED \<equiv> 5"
abbreviation (input) FIX_ORDER_STATUS_PENDING_CANCEL :: int where "FIX_ORDER_STATUS_PENDING_CANCEL \<equiv> 6"
abbreviation (input) FIX_ORDER_STATUS_STOPPED :: int where "FIX_ORDER_STATUS_STOPPED \<equiv> 7"
abbreviation (input) FIX_ORDER_STATUS_REJECTED :: int where "FIX_ORDER_STATUS_REJECTED \<equiv> 8"

abbreviation (input) FIX_ORDER_TYPE_MARKET :: int where "FIX_ORDER_TYPE_MARKET \<equiv> 1"
abbreviation (input) FIX_ORDER_TYPE_LIMIT :: int where "FIX_ORDER_TYPE_LIMIT \<equiv> 2"
abbreviation (input) FIX_ORDER_SIDE_BUY :: int where "FIX_ORDER_SIDE_BUY \<equiv> 1"
abbreviation (input) FIX_ORDER_SIDE_SELL :: int where "FIX_ORDER_SIDE_SELL \<equiv> 2"
abbreviation (input) FIX_ORDER_TIF_DAY :: int where "FIX_ORDER_TIF_DAY \<equiv> 0"
abbreviation (input) FIX_ENCRYPTION_NONE :: int where "FIX_ENCRYPTION_NONE \<equiv> 0"

section \<open>String conversions\<close>

definition getFixVersionFromString :: "string \<Rightarrow> int" where
  "getFixVersionFromString version =
     (if compare version ''FIX.4.0'' then FixVersion_value FIX_4_0
      else if compare version ''FIX.4.1'' then FixVersion_value FIX_4_1
      else if compare version ''FIX.4.2'' then FixVersion_value FIX_4_2
      else if compare version ''FIX.4.3'' then FixVersion_value FIX_4_3
      else if compare version ''FIX.4.4'' then FixVersion_value FIX_4_4
      else if compare version ''FIX.5.0'' then FixVersion_value FIX_5_0
      else if compare version ''FIX.5.0SP1'' then FixVersion_value FIX_5_0SP1
      else if compare version ''FIX.5.0SP2'' then FixVersion_value FIX_5_0SP2
      else FixVersion_value FIX_VERSION_NONE)"

definition getMessageTypeFromString :: "string \<Rightarrow> int" where
  "getMessageTypeFromString messageType =
     (if compare messageType ''A'' then MessageType_value LOGON
      else if compare messageType ''0'' then MessageType_value HEARTBEAT
      else if compare messageType ''1'' then MessageType_value TEST_REQUEST
      else if compare messageType ''2'' then MessageType_value RESEND_REQUEST
      else if compare messageType ''4'' then MessageType_value SEQUENCE_RESET
      else if compare messageType ''5'' then MessageType_value LOGOFF
      else if compare messageType ''BE'' then MessageType_value USER_LOGON
      else if compare messageType ''BF'' then MessageType_value USER_RESPONSE
      else if compare messageType ''D'' then MessageType_value NEW_ORDER
      else if compare messageType ''F'' then MessageType_value CANCEL
      else if compare messageType ''8'' then MessageType_value EXECUTION_REPORT
      else if compare messageType ''3'' then MessageType_value ADMIN_REJECT
      else if compare messageType ''j'' then MessageType_value BUSINESS_REJECT
      else MessageType_value MESSAGE_TYPE_NONE)"

text \<open>Entry \<open>v\<close> of a string table, indexed by an \<open>int\<close>.\<close>

definition table_at :: "string list \<Rightarrow> int \<Rightarrow> string result" where
  "table_at table v = (if 0 \<le> v then vec_at table (nat v) else Inl Out_of_bounds)"

section \<open>Tables and conversions agree\<close>

lemma version_table: "map getFixVersionFromString FIX_VERSION_STRINGS = [0, 1, 2, 3, 4, 5, 6, 7, 8]"
  by code_simp

lemma message_type_table:
  "map getMessageTypeFromString FIX_MESSAGE_TYPE_STRINGS = [0, 1, 2, 3, 4, 5, 6, 7, 8, 9, 10, 11, 12, 13]"
  by code_simp

lemma table_roundtrip:
  assumes "map f table = map int [0..<length table]" "table_at table v = Inr s"
  shows "f s = v"
proof -
  from assms(2) have v: "0 \<le> v" "nat v < length table" "s = table ! nat v"
    by (auto simp: table_at_def vec_at_def split: if_splits)
  then have "f s = map f table ! nat v" by simp
  then show ?thesis using v(1,2) unfolding assms(1) by simp
qed

lemma version_roundtrip: "table_at FIX_VERSION_STRINGS v = Inr s \<Longrightarrow> getFixVersionFromString s = v"
  by (rule table_roundtrip) (simp_all add: version_table[symmetric] FIX_VERSION_STRINGS_def upt_rec)

lemma message_type_roundtrip: "table_at FIX_MESSAGE_TYPE_STRINGS v = Inr s \<Longrightarrow> getMessageTypeFromString s = v"
  by (rule table_roundtrip) (simp_all add: message_type_table[symmetric] FIX_MESSAGE_TYPE_STRINGS_def upt_rec)

text \<open>A field value: no separator in it.\<close>

definition field_value :: "string \<Rightarrow> bool" where
  "field_value s \<longleftrightarrow> FIX_EQUALS \<notin> set s \<and> FIX_DELIMITER \<notin> set s"

lemma field_value_to_string [simp]: "field_value (to_string i)"
  by (simp add: field_value_def)

lemma field_value_table:
  "table_at FIX_VERSION_STRINGS v = Inr s \<Longrightarrow> field_value s"
  "table_at FIX_MESSAGE_TYPE_STRINGS v = Inr s \<Longrightarrow> field_value s"
proof -
  have "list_all field_value FIX_VERSION_STRINGS" "list_all field_value FIX_MESSAGE_TYPE_STRINGS" by code_simp+
  then show "table_at FIX_VERSION_STRINGS v = Inr s \<Longrightarrow> field_value s"
    "table_at FIX_MESSAGE_TYPE_STRINGS v = Inr s \<Longrightarrow> field_value s"
    by (auto simp: table_at_def vec_at_def list_all_iff split: if_splits)
qed

end
