(* ===== verification/Fix_Message.thy ===== *)
theory Fix_Message
  imports Fix_Constants Unordered_Map Ieee_Double
begin

text \<open>
  \<open>fix::FixMessage\<close> (\<open>source/fix/fix_message.h\<close>, \<open>fix_message.cpp\<close>): a FIX message as its header
  fields and a hash table of body tags. The iteration order of the hash table, which decides the
  order of the body tags on the wire, is the parameter \<open>hash_order\<close>; the UTC time string is a
  parameter too.
\<close>

section \<open>\<open>std::to_string(double)\<close>\<close>

text \<open>
  The conversion \<open>%f\<close>: six decimals, correctly rounded. (The only NaNs of the program are results
  of \<open>0.0 / 0.0\<close>, which the x86-64 processors deliver with the sign bit set.)
\<close>

definition show_fixed6 :: "rat \<Rightarrow> string" where
  "show_fixed6 x =
     (let n = nat (round_half_even (x * 1000000))
      in show_nat (n div 1000000) @ [CHR ''.''] @ padLeft (show_nat (n mod 1000000)) 6 (CHR ''0''))"

definition double_to_string :: "double \<Rightarrow> string" where
  "double_to_string d = (case d of
       Fin x \<Rightarrow> if x < 0 then CHR ''-'' # show_fixed6 (- x) else show_fixed6 x
     | NegZero \<Rightarrow> CHR ''-'' # show_fixed6 0
     | Inf neg \<Rightarrow> if neg then ''-inf'' else ''inf''
     | NaN \<Rightarrow> ''-nan'')"

section \<open>The message\<close>

record FixMessage =
  m_fixVersion :: int
  m_sequenceNumber :: csize
  m_messageType :: int
  m_senderCompId :: string
  m_targetCompId :: string
  m_sendingTime :: string
  m_bodyTagValuePairs :: "(int \<times> string) list"

text \<open>The constructor leaves \<open>m_messageType\<close> as the storage \<open>mem\<close> held it.\<close>

definition FixMessage_new :: "int \<Rightarrow> FixMessage" where
  "FixMessage_new mem = \<lparr>m_fixVersion = FixVersion_value FIX_VERSION_NONE, m_sequenceNumber = 1,
     m_messageType = mem, m_senderCompId = [], m_targetCompId = [], m_sendingTime = [],
     m_bodyTagValuePairs = []\<rparr>"

definition FixMessage_reset :: "FixMessage \<Rightarrow> FixMessage" where
  "FixMessage_reset msg = msg\<lparr>m_fixVersion := FixVersion_value FIX_VERSION_NONE, m_messageType := 0,
     m_sequenceNumber := 1, m_senderCompId := [], m_targetCompId := [], m_sendingTime := [],
     m_bodyTagValuePairs := []\<rparr>"

definition isAdminMessage :: "FixMessage \<Rightarrow> bool" where
  "isAdminMessage msg =
     (let type = m_messageType msg
      in type = MessageType_value LOGOFF \<or> type = MessageType_value LOGON \<or>
         type = MessageType_value HEARTBEAT \<or> type = MessageType_value TEST_REQUEST \<or>
         type = MessageType_value USER_LOGON \<or> type = MessageType_value ADMIN_REJECT)"

definition hasTag :: "int \<Rightarrow> FixMessage \<Rightarrow> bool" where
  "hasTag tag msg = (map_of (m_bodyTagValuePairs msg) tag \<noteq> None)"

definition removeTag :: "int \<Rightarrow> FixMessage \<Rightarrow> FixMessage" where
  "removeTag tag msg = msg\<lparr>m_bodyTagValuePairs := AList.delete tag (m_bodyTagValuePairs msg)\<rparr>"

definition setTag :: "int \<Rightarrow> string \<Rightarrow> FixMessage \<Rightarrow> FixMessage" where
  "setTag tag value msg = msg\<lparr>m_bodyTagValuePairs := AList.update tag value (m_bodyTagValuePairs msg)\<rparr>"

definition setTag_int :: "int \<Rightarrow> int \<Rightarrow> FixMessage \<Rightarrow> FixMessage" where
  "setTag_int tag value = setTag tag (to_string value)"

definition setTag_char :: "int \<Rightarrow> char \<Rightarrow> FixMessage \<Rightarrow> FixMessage" where
  "setTag_char tag value = setTag tag [value]"

definition setTag_double :: "int \<Rightarrow> double \<Rightarrow> FixMessage \<Rightarrow> FixMessage" where
  "setTag_double tag value = setTag tag (double_to_string value)"

definition setTag_long :: "int \<Rightarrow> clong \<Rightarrow> FixMessage \<Rightarrow> FixMessage" where
  "setTag_long tag value = setTag tag (to_string (sint value))"

definition setSendingAndTransactionTimeAsCurrent :: "string \<Rightarrow> FixMessage \<Rightarrow> FixMessage" where
  "setSendingAndTransactionTimeAsCurrent dateTime msg =
     setTag FIX_TAG_TRANSACTION_TIME dateTime (setTag FIX_TAG_SENDING_TIME dateTime msg)"

text \<open>\<open>getTagValue\<close> uses \<open>operator[]\<close> of the (mutable) table: asking for a missing tag adds it.\<close>

definition getTagValue :: "int \<Rightarrow> FixMessage \<Rightarrow> string \<times> FixMessage" where
  "getTagValue tag msg =
     (let (value, m) = umap_index [] tag (m_bodyTagValuePairs msg)
      in (value, msg\<lparr>m_bodyTagValuePairs := m\<rparr>))"

text \<open>An empty value has the terminating NUL at position 0.\<close>

definition getTagValueAsChar :: "int \<Rightarrow> FixMessage \<Rightarrow> char \<times> FixMessage" where
  "getTagValueAsChar tag msg =
     (let (valueAsString, msg') = getTagValue tag msg
      in (case valueAsString of [] \<Rightarrow> NUL | c # _ \<Rightarrow> c, msg'))"

definition getTagValueAsInt :: "int \<Rightarrow> FixMessage \<Rightarrow> (int \<times> FixMessage) result" where
  "getTagValueAsInt tag msg =
     (let (value, msg') = getTagValue tag msg in res_bind (stoi value) (\<lambda>v. Inr (v, msg')))"

definition getTagValueAsLong :: "int \<Rightarrow> FixMessage \<Rightarrow> (int \<times> FixMessage) result" where
  "getTagValueAsLong tag msg =
     (let (value, msg') = getTagValue tag msg in res_bind (stol value) (\<lambda>v. Inr (v, msg')))"

text \<open>
  \<open>initialiseHeader\<close> moves the header fields out of the tag table, one at a time. The sequence
  number goes through \<open>int\<close> and is sign extended to \<open>size_t\<close>.
\<close>

definition header_field :: "int \<Rightarrow> (string \<Rightarrow> FixMessage \<Rightarrow> FixMessage) \<Rightarrow> FixMessage \<Rightarrow> FixMessage" where
  "header_field tag set_field msg =
     (if hasTag tag msg
      then let (value, msg') = getTagValue tag msg in removeTag tag (set_field value msg')
      else msg)"

definition initialiseHeader :: "FixMessage \<Rightarrow> FixMessage result" where
  "initialiseHeader msg =
     (let msg1 = header_field FIX_TAG_VERSION (\<lambda>v m. m\<lparr>m_fixVersion := getFixVersionFromString v\<rparr>) msg;
          msg2 = header_field FIX_TAG_MESSAGE_TYPE (\<lambda>v m. m\<lparr>m_messageType := getMessageTypeFromString v\<rparr>) msg1
      in res_bind (if hasTag FIX_TAG_SEQUENCE_NUMBER msg2
                   then res_bind (getTagValueAsInt FIX_TAG_SEQUENCE_NUMBER msg2) (\<lambda>(v, m).
                          Inr (removeTag FIX_TAG_SEQUENCE_NUMBER (m\<lparr>m_sequenceNumber := word_of_int v\<rparr>)))
                   else Inr msg2) (\<lambda>msg3.
         Inr (header_field FIX_TAG_TARGET_COMPID (\<lambda>v m. m\<lparr>m_targetCompId := v\<rparr>)
               (header_field FIX_TAG_SENDER_COMPID (\<lambda>v m. m\<lparr>m_senderCompId := v\<rparr>)
                 (header_field FIX_TAG_SENDING_TIME (\<lambda>v m. m\<lparr>m_sendingTime := v\<rparr>) msg3)))))"

section \<open>Lengths, checksum and printing\<close>

definition calculateHeaderLength :: "FixMessage \<Rightarrow> cint result" where
  "calculateHeaderLength msg =
     res_bind (table_at FIX_MESSAGE_TYPE_STRINGS (m_messageType msg)) (\<lambda>type.
     Inr (20 + of_nat (length type) + of_nat (length (to_string (uint (m_sequenceNumber msg)))) +
          of_nat (length (m_senderCompId msg)) + of_nat (length (m_sendingTime msg)) +
          of_nat (length (m_targetCompId msg))))"

definition calculateBodyLength :: "FixMessage \<Rightarrow> cint result" where
  "calculateBodyLength msg =
     (let bodyLength = foldl (\<lambda>n (tag, value). n + of_nat (length (to_string tag)) + 2 + of_nat (length value))
                         0 (m_bodyTagValuePairs msg)
      in res_bind (calculateHeaderLength msg) (\<lambda>headerLength. Inr (bodyLength + headerLength)))"

text \<open>The value of a (signed) \<open>char\<close> and the remainder of C's truncated division.\<close>

definition char_value :: "char \<Rightarrow> int" where
  "char_value c = (if of_char c < (128 :: int) then of_char c else of_char c - 256)"

definition c_rem :: "int \<Rightarrow> int \<Rightarrow> int" where
  "c_rem a b = (if a < 0 then - ((- a) mod b) else a mod b)"

definition calculateCheckSum :: "string \<Rightarrow> string" where
  "calculateCheckSum message =
     (let sum = foldl (\<lambda>s c. s + word_of_int (char_value c)) (0 :: cint) message
      in padLeft (to_string (c_rem (sint sum) 256)) 3 (CHR ''0''))"

definition tag_string :: "int \<Rightarrow> string \<Rightarrow> string" where
  "tag_string tag value = to_string tag @ [FIX_EQUALS] @ value @ [FIX_DELIMITER]"

text \<open>
  \<open>toString\<close> appends to its output argument, which every caller passes empty. (\<open>appendTag\<close> looks
  each body tag up again; the tags of the iteration are all present.)
\<close>

definition header_string :: "string \<Rightarrow> FixMessage \<Rightarrow> string" where
  "header_string type msg =
     tag_string FIX_TAG_MESSAGE_TYPE type @
     tag_string FIX_TAG_SEQUENCE_NUMBER (to_string (uint (m_sequenceNumber msg))) @
     tag_string FIX_TAG_SENDER_COMPID (m_senderCompId msg) @
     tag_string FIX_TAG_SENDING_TIME (m_sendingTime msg) @
     tag_string FIX_TAG_TARGET_COMPID (m_targetCompId msg)"

definition body_string :: "(int \<times> string) list \<Rightarrow> string" where
  "body_string tags = concat (map (\<lambda>(tag, value). tag_string tag value) tags)"

definition FixMessage_toString ::
  "((int \<times> string) list \<Rightarrow> (int \<times> string) list) \<Rightarrow> FixMessage \<Rightarrow> string result" where
  "FixMessage_toString hash_order msg =
     res_bind (table_at FIX_VERSION_STRINGS (m_fixVersion msg)) (\<lambda>version.
     res_bind (calculateBodyLength msg) (\<lambda>bodyLength.
     res_bind (table_at FIX_MESSAGE_TYPE_STRINGS (m_messageType msg)) (\<lambda>type.
       let output = tag_string FIX_TAG_VERSION version @
                    tag_string FIX_TAG_BODY_LENGTH (to_string (sint bodyLength)) @
                    header_string type msg @
                    body_string (hash_order (m_bodyTagValuePairs msg))
       in Inr (output @ tag_string FIX_TAG_BODY_CHECKSUM (calculateCheckSum output)))))"

section \<open>The body length field\<close>

lemma length_tag_string: "length (tag_string tag value) = length (to_string tag) + 2 + length value"
  by (simp add: tag_string_def)

lemma length_body_string:
  "length (body_string tags) = sum_list (map (\<lambda>(tag, value). length (to_string tag) + 2 + length value) tags)"
  by (induction tags) (auto simp: body_string_def length_tag_string)

lemma length_body_string_iteration:
  assumes "is_iteration it"
  shows "length (body_string (it tags)) = length (body_string tags)"
proof -
  have "mset (map f (it tags)) = mset (map f tags)" for f :: "int \<times> string \<Rightarrow> nat"
    using assms by (simp add: is_iteration_def)
  then show ?thesis unfolding length_body_string by (metis sum_mset_sum_list)
qed

lemma two_digit_tag: "10 \<le> n \<Longrightarrow> n < 100 \<Longrightarrow> length (to_string n) = 2"
proof -
  assume "10 \<le> n" "n < 100"
  then have "\<not> nat n < 10" "nat n div 10 < 10" "\<not> n < 0" by auto
  then show ?thesis by (simp add: to_string_def show_nat.simps[of "nat n"] show_nat.simps[of "nat n div 10"])
qed

lemma length_header_string:
  "length (header_string type msg) = 20 + length type + length (to_string (uint (m_sequenceNumber msg))) +
     length (m_senderCompId msg) + length (m_sendingTime msg) + length (m_targetCompId msg)"
  by (simp add: header_string_def length_tag_string two_digit_tag)

lemma body_length_fold:
  "foldl (\<lambda>n (tag, value). n + of_nat (length (to_string tag)) + 2 + of_nat (length value)) k tags =
     k + (of_nat (length (body_string tags)) :: cint)"
  by (induction tags arbitrary: k) (auto simp: body_string_def length_tag_string algebra_simps)

lemma calculateBodyLength_eq:
  assumes "table_at FIX_MESSAGE_TYPE_STRINGS (m_messageType msg) = Inr type"
  shows "calculateBodyLength msg =
    Inr (of_nat (length (header_string type msg @ body_string (m_bodyTagValuePairs msg))))"
  using assms
  by (simp add: calculateBodyLength_def calculateHeaderLength_def body_length_fold length_header_string)

lemma sint_of_nat_32: "n < 2 ^ 31 \<Longrightarrow> sint (of_nat n :: cint) = int n"
  using sint_word_of_int_32[of "int n"] by simp

lemma toString_Inr:
  assumes "FixMessage_toString hash_order msg = Inr out"
  obtains version type len where "table_at FIX_VERSION_STRINGS (m_fixVersion msg) = Inr version"
    "table_at FIX_MESSAGE_TYPE_STRINGS (m_messageType msg) = Inr type" "calculateBodyLength msg = Inr len"
    "out = (tag_string 8 version @ tag_string 9 (to_string (sint len)) @
        header_string type msg @ body_string (hash_order (m_bodyTagValuePairs msg))) @
      tag_string 10 (calculateCheckSum (tag_string 8 version @ tag_string 9 (to_string (sint len)) @
        header_string type msg @ body_string (hash_order (m_bodyTagValuePairs msg))))"
  using assms by (auto simp: FixMessage_toString_def Let_def)

section \<open>The checksum\<close>

text \<open>The checksum of the FIX protocol: the sum of the bytes modulo 256, in three digits.\<close>

definition fix_checksum :: "string \<Rightarrow> string" where
  "fix_checksum s =
     (let n = sum_list (map of_char s) mod (256 :: nat)
      in [digit_char (n div 100), digit_char (n div 10 mod 10), digit_char (n mod 10)])"

lemma three_digits:
  assumes "n < 1000"
  shows "padLeft (to_string (int n)) 3 (CHR ''0'') =
    [digit_char (n div 100), digit_char (n div 10 mod 10), digit_char (n mod 10)]"
proof -
  have z: "CHR ''0'' = digit_char 0" by (simp add: digit_char_def)
  consider "n < 10" | "10 \<le> n" "n < 100" | "100 \<le> n" by linarith
  then show ?thesis
  proof cases
    case 1
    then show ?thesis by (simp add: padLeft_def to_string_def show_nat.simps[of n] z numeral_2_eq_2)
  next
    case 2
    then have "n div 10 < 10" by linarith
    with 2 show ?thesis
      by (simp add: padLeft_def to_string_def show_nat.simps[of n] show_nat.simps[of "n div 10"] z)
  next
    case 3
    then have "\<not> n div 10 < 10" "n div 10 div 10 < 10" "n div 10 div 10 = n div 100" using assms by linarith+
    with 3 show ?thesis
      by (simp add: padLeft_def to_string_def show_nat.simps[of n] show_nat.simps[of "n div 10"]
          show_nat.simps[of "n div 10 div 10"] show_nat.simps[of "n div 100"])
  qed
qed

lemma checksum_fold:
  "foldl (\<lambda>s c. s + word_of_int (char_value c)) k message = k + (word_of_int (sum_list (map char_value message)) :: cint)"
  by (induction message arbitrary: k) (simp_all add: add.assoc)

lemma char_value_ascii: "of_char c < (128 :: nat) \<Longrightarrow> char_value c = int (of_char c)"
proof -
  assume "of_char c < (128 :: nat)"
  moreover have "int (of_char c) = (of_char c :: int)" by (rule of_nat_of_char)
  ultimately show ?thesis unfolding char_value_def by (metis of_nat_less_iff of_nat_numeral)
qed

lemma ascii_sum:
  "(\<And>c. c \<in> set s \<Longrightarrow> of_char c < (128 :: nat)) \<Longrightarrow>
   sum_list (map char_value s) = int (sum_list (map of_char s)) \<and> sum_list (map of_char s) \<le> 127 * length s"
  by (induction s) (fastforce simp: char_value_ascii)+

lemma calculateCheckSum_ascii:
  assumes "\<And>c. c \<in> set s \<Longrightarrow> of_char c < (128 :: nat)" "length s \<le> 2 ^ 24"
  shows "calculateCheckSum s = fix_checksum s"
proof -
  let ?n = "sum_list (map of_char s) :: nat"
  have n: "sum_list (map char_value s) = int ?n" "?n \<le> 127 * length s" using ascii_sum[OF assms(1)] by auto
  then have "sint (word_of_int (int ?n) :: cint) = int ?n"
    using assms(2) by (intro sint_word_of_int_32) simp_all
  then have "calculateCheckSum s = padLeft (to_string (int ?n mod 256)) 3 (CHR ''0'')"
    unfolding calculateCheckSum_def Let_def checksum_fold n(1) by (simp add: c_rem_def)
  also have "int ?n mod 256 = int (?n mod 256)" by (simp add: zmod_int)
  also have "padLeft (to_string \<dots>) 3 (CHR ''0'') = fix_checksum s"
    unfolding fix_checksum_def Let_def by (rule three_digits) simp
  finally show ?thesis .
qed

section \<open>A sample message\<close>

definition sample_message :: FixMessage where
  "sample_message = \<lparr>m_fixVersion = FixVersion_value FIX_4_2, m_sequenceNumber = 2, m_messageType = MessageType_value HEARTBEAT,
     m_senderCompId = ''C'', m_targetCompId = ''S'', m_sendingTime = ''T'', m_bodyTagValuePairs = [(112, ''x'')]\<rparr>"

definition sample_text :: string where
  "sample_text = concat [''8=FIX.4.2'' @ [CHR 0x01], ''9=31'' @ [CHR 0x01], ''35=0'' @ [CHR 0x01], ''34=2'' @ [CHR 0x01],
     ''49=C'' @ [CHR 0x01], ''52=T'' @ [CHR 0x01], ''56=S'' @ [CHR 0x01], ''112=x'' @ [CHR 0x01], ''10=212'' @ [CHR 0x01]]"

lemma sample_message_prints: "FixMessage_toString (\<lambda>es. es) sample_message = Inr sample_text"
  by code_simp

section \<open>Properties\<close>

text \<open>The body length a message announces is right. A printed message (shorter than 2^31
  characters) is the version field, the body length field, the body and the checksum field, and the
  number in the body length field is the number of characters of the body, which consists of the
  five header fields and the tags of the table in the order of the iteration.\<close>

theorem toString_body_length:
  assumes "is_iteration hash_order" "FixMessage_toString hash_order msg = Inr out" "length out < 2 ^ 31"
  shows "\<exists>version type body.
     out = tag_string 8 version @ tag_string 9 (to_string (int (length body))) @ body @
       tag_string 10 (calculateCheckSum (tag_string 8 version @ tag_string 9 (to_string (int (length body))) @ body)) \<and>
     body = header_string type msg @ body_string (hash_order (m_bodyTagValuePairs msg)) \<and>
     table_at FIX_VERSION_STRINGS (m_fixVersion msg) = Inr version \<and>
     table_at FIX_MESSAGE_TYPE_STRINGS (m_messageType msg) = Inr type"
proof -
  from assms(2) obtain version type len where t: "table_at FIX_VERSION_STRINGS (m_fixVersion msg) = Inr version"
    "table_at FIX_MESSAGE_TYPE_STRINGS (m_messageType msg) = Inr type" "calculateBodyLength msg = Inr len"
    and out: "out = (tag_string 8 version @ tag_string 9 (to_string (sint len)) @
        header_string type msg @ body_string (hash_order (m_bodyTagValuePairs msg))) @
      tag_string 10 (calculateCheckSum (tag_string 8 version @ tag_string 9 (to_string (sint len)) @
        header_string type msg @ body_string (hash_order (m_bodyTagValuePairs msg))))"
    by (rule toString_Inr)
  let ?body = "header_string type msg @ body_string (hash_order (m_bodyTagValuePairs msg))"
  have l: "length ?body = length (header_string type msg @ body_string (m_bodyTagValuePairs msg))"
    by (simp add: length_body_string_iteration[OF assms(1)])
  have "length ?body < 2 ^ 31" using assms(3) out by simp
  moreover have "len = of_nat (length ?body)"
    using calculateBodyLength_eq[OF t(2)] t(3) unfolding l by (simp only: sum.inject)
  ultimately have "sint len = int (length ?body)" using sint_of_nat_32 by blast
  then show ?thesis using t out by auto
qed

theorem toString_body_length_witness:
  "FixMessage_toString (\<lambda>es. es) sample_message = Inr sample_text \<and>
   (\<exists>version body rest. sample_text = tag_string 8 version @ tag_string 9 (to_string (int (length body))) @ body @ rest)"
proof -
  have "length sample_text < 2 ^ 31" by (simp add: sample_text_def)
  from toString_body_length[OF is_iteration_id sample_message_prints this] sample_message_prints show ?thesis by blast
qed

text \<open>C22: The checksum of a printed message of ASCII characters is the checksum of the FIX protocol,
  three digits that give the sum of all preceding bytes modulo 256.\<close>

theorem checksum_is_fix_checksum:
  assumes "\<forall>c \<in> set s. of_char c < (128 :: nat)" "length s \<le> 2 ^ 24"
  shows "calculateCheckSum s = fix_checksum s"
  using calculateCheckSum_ascii assms by blast

theorem checksum_is_fix_checksum_witness: "calculateCheckSum ''35=0'' = fix_checksum ''35=0'' \<and> fix_checksum ''35=0'' = ''213''"
proof -
  have "fix_checksum ''35=0'' = ''213''" by code_simp
  moreover have "\<forall>c \<in> set ''35=0''. of_char c < (128 :: nat)" by simp
  ultimately show ?thesis using checksum_is_fix_checksum[of "''35=0''"] by simp
qed

text \<open>With bytes above 127 the checksum is wrong, because the code adds up signed characters: a
  single byte 233 has checksum 233, the code computes -23.\<close>

lemma checksum_wrong_on_high_bytes:
  "calculateCheckSum [CHR 0xE9] = ''-23'' \<and> fix_checksum [CHR 0xE9] = ''233''"
  by code_simp

end
