(* ===== verification/Fix_Parser.thy ===== *)
theory Fix_Parser
  imports Fix_Message
begin

text \<open>
  \<open>fix::FixParser\<close> (\<open>source/fix/fix_parser.h\<close>): the four parsers, and \<open>FixMessage::loadFromFile\<close>,
  which uses the first. A \<open>const char*\<close> and a length are a list of bytes; only
  \<open>parseMultipleMessagesFromBuffer\<close> reads one byte beyond the length it is given.
\<close>

section \<open>\<open>parseFromString\<close>\<close>

definition parse_pair :: "string \<Rightarrow> FixMessage \<Rightarrow> FixMessage result" where
  "parse_pair tagValuePair msg =
     (if length tagValuePair = 0 then Inr msg
      else let tokens = split tagValuePair FIX_EQUALS
           in res_bind (vec_at tokens 0) (\<lambda>t0.
              res_bind (stoi t0) (\<lambda>tag.
              res_bind (vec_at tokens 1) (\<lambda>value.
              Inr (setTag tag value msg)))))"

definition parseFromString :: "FixMessage \<Rightarrow> string \<Rightarrow> FixMessage result" where
  "parseFromString msg input = res_bind (res_fold parse_pair (split input FIX_DELIMITER) msg) initialiseHeader"

text \<open>\<open>FixMessage::loadFromFile\<close>: the file system gives the contents of a file or nothing.\<close>

definition loadFromFile :: "int \<Rightarrow> (string \<Rightarrow> string option) \<Rightarrow> string \<Rightarrow> FixMessage list \<Rightarrow> FixMessage list result" where
  "loadFromFile mem file_contents input messages =
     (case file_contents input of
        None \<Rightarrow> res_bind (format (''File '' @ c_str input @ '' could not be opened'')) (\<lambda>t. Inl (Runtime_error t))
      | Some text \<Rightarrow>
          res_fold (\<lambda>line messages. if startsWith line (CHR ''#'') then Inr messages
                      else res_bind (parseFromString (FixMessage_new mem) line) (\<lambda>m. Inr (messages @ [m])))
            (split text (CHR 0x0A)) messages)"

section \<open>\<open>parseFromBuffer\<close> and \<open>parseFromMultipleBuffers\<close>\<close>

text \<open>The local variables of the loops: \<open>in_value\<close> says that \<open>target\<close> points to \<open>value\<close>.\<close>

record parse_state =
  ps_tag :: string
  ps_value :: string
  in_value :: bool
  ps_message :: FixMessage

definition push_target :: "char \<Rightarrow> ('a parse_state_scheme) \<Rightarrow> 'a parse_state_scheme" where
  "push_target c st = (if in_value st then st\<lparr>ps_value := ps_value st @ [c]\<rparr> else st\<lparr>ps_tag := ps_tag st @ [c]\<rparr>)"

definition parse_char :: "char \<Rightarrow> parse_state \<Rightarrow> parse_state result" where
  "parse_char iter st =
     (if iter = FIX_EQUALS then Inr (st\<lparr>in_value := True\<rparr>)
      else if iter = FIX_DELIMITER
      then res_bind (stoi (ps_tag st)) (\<lambda>tag.
             Inr \<lparr>ps_tag = [], ps_value = [], in_value = False,
                  ps_message = setTag tag (ps_value st) (ps_message st)\<rparr>)
      else Inr (push_target iter st))"

definition parse_start :: "FixMessage \<Rightarrow> parse_state" where
  "parse_start msg = \<lparr>ps_tag = [], ps_value = [], in_value = False, ps_message = msg\<rparr>"

definition parseFromBuffer :: "FixMessage \<Rightarrow> string \<Rightarrow> FixMessage result" where
  "parseFromBuffer msg input =
     res_bind (res_fold parse_char input (parse_start msg)) (\<lambda>st. initialiseHeader (ps_message st))"

text \<open>
  The loop of \<open>parseFromMultipleBuffers\<close>: \<open>buffer\<close> is the buffer being read, \<open>switched\<close> says that
  it is the second one.
\<close>

function two_buffer_loop :: "string \<Rightarrow> string \<Rightarrow> bool \<Rightarrow> nat \<Rightarrow> parse_state \<Rightarrow> parse_state result" where
  "two_buffer_loop buffer buffer2 switched i st =
     (if i < length buffer
      then res_bind (parse_char (buffer ! i) st) (\<lambda>st'.
             if i = length buffer - 1
             then if switched then Inr st' else two_buffer_loop buffer2 buffer2 True 0 st'
             else two_buffer_loop buffer buffer2 switched (i + 1) st')
      else Inr st)"
  by pat_completeness auto
termination
  by (relation "measures [\<lambda>(b, b2, sw, i, st). if sw then 0 else 1, \<lambda>(b, b2, sw, i, st). length b - i]") auto

declare two_buffer_loop.simps [simp del]

definition parseFromMultipleBuffers :: "FixMessage \<Rightarrow> string \<Rightarrow> string \<Rightarrow> FixMessage result" where
  "parseFromMultipleBuffers msg buffer1 buffer2 =
     res_bind (two_buffer_loop buffer1 buffer2 False 0 (parse_start msg)) (\<lambda>st. initialiseHeader (ps_message st))"

section \<open>\<open>parseMultipleMessagesFromBuffer\<close>\<close>

record frame_state = parse_state +
  lastTagOfMessage :: bool
  fixMessageStarted :: bool
  messages :: "FixMessage list"
  remainingBytesStartIndex :: nat
  numOfFixMessages :: nat

text \<open>The part of the loop body after the look-ahead, for the character \<open>iter\<close> at index \<open>i\<close>.\<close>

definition frame_char :: "nat \<Rightarrow> char \<Rightarrow> frame_state \<Rightarrow> frame_state result" where
  "frame_char i iter st =
     (if \<not> fixMessageStarted st then Inr st
      else if iter = FIX_EQUALS
      then Inr (st\<lparr>lastTagOfMessage := (if length (ps_tag st) = 2 \<and> ps_tag st ! 0 = CHR ''1'' \<and> ps_tag st ! 1 = CHR ''0''
                     then True else lastTagOfMessage st),
                   in_value := True\<rparr>)
      else if iter = FIX_DELIMITER
      then res_bind (stoi (ps_tag st)) (\<lambda>tag.
             let st1 = st\<lparr>in_value := False, ps_message := setTag tag (ps_value st) (ps_message st)\<rparr>
             in res_bind (if lastTagOfMessage st1
                          then res_bind (initialiseHeader (ps_message st1)) (\<lambda>m.
                                 Inr (st1\<lparr>messages := messages st1 @ [m], remainingBytesStartIndex := i + 1,
                                          ps_message := FixMessage_reset m,
                                          numOfFixMessages := numOfFixMessages st1 + 1,
                                          lastTagOfMessage := False, fixMessageStarted := False\<rparr>))
                          else Inr st1)
                  (\<lambda>st2. Inr (st2\<lparr>ps_tag := [], ps_value := []\<rparr>)))
      else Inr (push_target iter st))"

function frame_loop :: "string \<Rightarrow> nat \<Rightarrow> nat \<Rightarrow> frame_state \<Rightarrow> frame_state result" where
  "frame_loop buffer bufferSize i st =
     (if i < bufferSize
      then res_bind (vec_at buffer i) (\<lambda>iter.
           res_bind (if iter = CHR ''8'' then res_bind (vec_at buffer (i + 1)) (\<lambda>c. Inr (c = FIX_EQUALS)) else Inr False)
             (\<lambda>starts.
                if starts
                then res_bind (frame_char (i + 1) FIX_EQUALS ((push_target iter st)\<lparr>fixMessageStarted := True\<rparr>))
                       (frame_loop buffer bufferSize (i + 2))
                else res_bind (frame_char i iter st) (frame_loop buffer bufferSize (i + 1))))
      else Inr st)"
  by pat_completeness auto
termination
  by (relation "measure (\<lambda>(b, n, i, st). n - i)") auto

declare frame_loop.simps [simp del]

definition frame_start :: "int \<Rightarrow> FixMessage list \<Rightarrow> nat \<Rightarrow> frame_state" where
  "frame_start mem msgs rest = \<lparr>ps_tag = [], ps_value = [], in_value = False, ps_message = FixMessage_new mem,
     lastTagOfMessage = False, fixMessageStarted = False, messages = msgs, remainingBytesStartIndex = rest,
     numOfFixMessages = 0\<rparr>"

text \<open>Returns the number of messages, the messages and the index of the first unconsumed byte.\<close>

definition parseMultipleMessagesFromBuffer ::
  "int \<Rightarrow> string \<Rightarrow> nat \<Rightarrow> FixMessage list \<Rightarrow> nat \<Rightarrow> (nat \<times> FixMessage list \<times> nat) result" where
  "parseMultipleMessagesFromBuffer mem buffer bufferSize msgs rest =
     res_bind (frame_loop buffer bufferSize 0 (frame_start mem msgs rest)) (\<lambda>st.
       Inr (numOfFixMessages st, messages st, remainingBytesStartIndex st))"

section \<open>One pass over a field\<close>

lemma parse_plain:
  "field_value xs \<Longrightarrow> res_fold parse_char xs st =
    Inr (if in_value st then st\<lparr>ps_value := ps_value st @ xs\<rparr> else st\<lparr>ps_tag := ps_tag st @ xs\<rparr>)"
  by (induction xs arbitrary: st) (auto simp: field_value_def parse_char_def push_target_def)

definition int_tag :: "int \<Rightarrow> bool" where
  "int_tag t \<longleftrightarrow> - (2 ^ 31) \<le> t \<and> t < 2 ^ 31"

lemma parse_field:
  assumes "int_tag t" "field_value v"
  shows "res_fold parse_char (tag_string t v) (parse_start m) = Inr (parse_start (setTag t v m))"
proof -
  have "stoi (to_string t) = Inr t" using assms(1) stoi_to_string by (simp add: int_tag_def)
  then show ?thesis
    using assms(2) by (simp add: tag_string_def parse_plain parse_start_def parse_char_def)
qed

definition set_tags :: "(int \<times> string) list \<Rightarrow> FixMessage \<Rightarrow> FixMessage" where
  "set_tags fs m = fold (\<lambda>(t, v). setTag t v) fs m"

lemma set_tags_simps [simp]:
  "set_tags [] m = m" "set_tags ((t, v) # fs) m = set_tags fs (setTag t v m)"
  "set_tags (fs @ gs) m = set_tags gs (set_tags fs m)"
  by (simp_all add: set_tags_def)

definition fields_ok :: "(int \<times> string) list \<Rightarrow> bool" where
  "fields_ok fs \<longleftrightarrow> (\<forall>(t, v) \<in> set fs. int_tag t \<and> field_value v)"

lemma body_string_simps [simp]:
  "body_string [] = []" "body_string ((t, v) # fs) = tag_string t v @ body_string fs"
  "body_string (fs @ gs) = body_string fs @ body_string gs"
  by (simp_all add: body_string_def)

lemma parse_fields:
  "fields_ok fs \<Longrightarrow> res_fold parse_char (body_string fs) (parse_start m) = Inr (parse_start (set_tags fs m))"
  by (induction fs arbitrary: m) (auto simp: fields_ok_def parse_field)

lemma set_tags_more [simp]:
  "m_fixVersion (set_tags fs m) = m_fixVersion m" "m_messageType (set_tags fs m) = m_messageType m"
  "m_sequenceNumber (set_tags fs m) = m_sequenceNumber m" "m_senderCompId (set_tags fs m) = m_senderCompId m"
  "m_targetCompId (set_tags fs m) = m_targetCompId m" "m_sendingTime (set_tags fs m) = m_sendingTime m"
  by (induction fs arbitrary: m) (auto simp: setTag_def)

lemma map_of_set_tags: "map_of (m_bodyTagValuePairs (set_tags fs m)) = map_of (m_bodyTagValuePairs m) ++ map_of (rev fs)"
  by (induction fs arbitrary: m) (auto simp: setTag_def map_add_def fun_eq_iff split: option.splits)

lemma map_of_set_tags_new:
  assumes "distinct (map fst fs)" "m_bodyTagValuePairs m = []"
  shows "map_of (m_bodyTagValuePairs (set_tags fs m)) = map_of fs"
proof -
  have "map_of (rev fs) = map_of fs"
    by (rule map_of_inject_set[THEN iffD2]) (use assms(1) in \<open>simp_all add: rev_map[symmetric]\<close>)
  then show ?thesis using assms(2) by (simp add: map_of_set_tags)
qed

section \<open>The header\<close>

definition header_tags :: "int set" where
  "header_tags = {8, 35, 34, 52, 49, 56}"

lemma header_field_hit:
  assumes "map_of (m_bodyTagValuePairs m) t = Some v"
  shows "header_field t f m = removeTag t (f v m)"
  using assms by (simp add: header_field_def hasTag_def getTagValue_def)

lemma map_of_removeTag [simp]:
  "map_of (m_bodyTagValuePairs (removeTag t m)) k = (if k = t then None else map_of (m_bodyTagValuePairs m) k)"
  by (simp add: removeTag_def)

lemma removeTag_more [simp]:
  "m_fixVersion (removeTag t m) = m_fixVersion m" "m_messageType (removeTag t m) = m_messageType m"
  "m_sequenceNumber (removeTag t m) = m_sequenceNumber m" "m_senderCompId (removeTag t m) = m_senderCompId m"
  "m_targetCompId (removeTag t m) = m_targetCompId m" "m_sendingTime (removeTag t m) = m_sendingTime m"
  by (simp_all add: removeTag_def)

lemma initialiseHeader_full:
  assumes "map_of (m_bodyTagValuePairs m) 8 = Some version" "map_of (m_bodyTagValuePairs m) 35 = Some type"
    "map_of (m_bodyTagValuePairs m) 34 = Some sequence" "stoi sequence = Inr n"
    "map_of (m_bodyTagValuePairs m) 52 = Some time" "map_of (m_bodyTagValuePairs m) 49 = Some sender"
    "map_of (m_bodyTagValuePairs m) 56 = Some target"
  shows "\<exists>m'. initialiseHeader m = Inr m' \<and> m_fixVersion m' = getFixVersionFromString version \<and>
    m_messageType m' = getMessageTypeFromString type \<and> m_sequenceNumber m' = word_of_int n \<and>
    m_sendingTime m' = time \<and> m_senderCompId m' = sender \<and> m_targetCompId m' = target \<and>
    map_of (m_bodyTagValuePairs m') = (\<lambda>k. if k \<in> header_tags then None else map_of (m_bodyTagValuePairs m) k)"
  using assms
  by (auto simp: initialiseHeader_def Let_def header_field_hit hasTag_def getTagValueAsInt_def getTagValue_def
      header_tags_def fun_eq_iff)

section \<open>Printed messages\<close>

text \<open>All fields of a printed message, in order.\<close>

definition message_fields :: "string \<Rightarrow> string \<Rightarrow> string \<Rightarrow> string \<Rightarrow> FixMessage \<Rightarrow> (int \<times> string) list \<Rightarrow> (int \<times> string) list" where
  "message_fields version len type checksum msg tags =
     [(8, version), (9, len), (35, type), (34, to_string (uint (m_sequenceNumber msg))),
      (49, m_senderCompId msg), (52, m_sendingTime msg), (56, m_targetCompId msg)] @ tags @ [(10, checksum)]"

text \<open>A message that can be sent: separators nowhere, header tags and the checksum tag not in the body.\<close>

definition sendable :: "FixMessage \<Rightarrow> bool" where
  "sendable msg \<longleftrightarrow> distinct (map fst (m_bodyTagValuePairs msg)) \<and>
     (\<forall>(t, v) \<in> set (m_bodyTagValuePairs msg). int_tag t \<and> field_value v \<and> t \<notin> header_tags \<union> {9, 10}) \<and>
     field_value (m_senderCompId msg) \<and> field_value (m_sendingTime msg) \<and> field_value (m_targetCompId msg) \<and>
     unat (m_sequenceNumber msg) < 2 ^ 31"

lemma field_value_checksum: "field_value (calculateCheckSum s)"
  by (auto simp: calculateCheckSum_def Let_def padLeft_def field_value_def)

lemma printed_fields:
  assumes "FixMessage_toString hash_order msg = Inr out"
  shows "\<exists>version len type checksum.
    out = body_string (message_fields version len type checksum msg (hash_order (m_bodyTagValuePairs msg))) \<and>
    table_at FIX_VERSION_STRINGS (m_fixVersion msg) = Inr version \<and>
    table_at FIX_MESSAGE_TYPE_STRINGS (m_messageType msg) = Inr type \<and> field_value len \<and> field_value checksum"
proof -
  from assms obtain version type len where t: "table_at FIX_VERSION_STRINGS (m_fixVersion msg) = Inr version"
    "table_at FIX_MESSAGE_TYPE_STRINGS (m_messageType msg) = Inr type" "calculateBodyLength msg = Inr len"
    and out: "out = (tag_string 8 version @ tag_string 9 (to_string (sint len)) @
        header_string type msg @ body_string (hash_order (m_bodyTagValuePairs msg))) @
      tag_string 10 (calculateCheckSum (tag_string 8 version @ tag_string 9 (to_string (sint len)) @
        header_string type msg @ body_string (hash_order (m_bodyTagValuePairs msg))))"
    by (rule toString_Inr)
  show ?thesis
    by (intro exI[of _ version] exI[of _ "to_string (sint len)"] exI[of _ type]
        exI[of _ "calculateCheckSum (tag_string 8 version @ tag_string 9 (to_string (sint len)) @
        header_string type msg @ body_string (hash_order (m_bodyTagValuePairs msg)))"])
      (simp add: out t message_fields_def header_string_def field_value_checksum)
qed

lemma message_fields_ok:
  assumes "sendable msg" "is_iteration hash_order" "field_value version" "field_value len" "field_value type"
    "field_value checksum"
  shows "fields_ok (message_fields version len type checksum msg (hash_order (m_bodyTagValuePairs msg)))"
    and "distinct (map fst (message_fields version len type checksum msg (hash_order (m_bodyTagValuePairs msg))))"
proof -
  let ?b = "hash_order (m_bodyTagValuePairs msg)"
  have set: "set ?b = set (m_bodyTagValuePairs msg)" by (rule is_iteration_set[OF assms(2)])
  show "fields_ok (message_fields version len type checksum msg ?b)"
    using assms set by (auto simp: fields_ok_def message_fields_def sendable_def int_tag_def)
  have "distinct (map fst ?b)" using assms(1) is_iteration_map_of(1)[OF assms(2)] by (simp add: sendable_def)
  moreover have "t \<notin> header_tags \<union> {9, 10}" if "t \<in> fst ` set ?b" for t
    using that assms(1) set by (auto simp: sendable_def)
  ultimately show "distinct (map fst (message_fields version len type checksum msg ?b))"
    by (auto simp: message_fields_def header_tags_def)
qed

text \<open>What a parser makes of a printed message: its body gains the tags 9 and 10.\<close>

definition received_as :: "FixMessage \<Rightarrow> FixMessage \<Rightarrow> bool" where
  "received_as msg m' \<longleftrightarrow> m_fixVersion m' = m_fixVersion msg \<and> m_messageType m' = m_messageType msg \<and>
     m_sequenceNumber m' = m_sequenceNumber msg \<and> m_senderCompId m' = m_senderCompId msg \<and>
     m_sendingTime m' = m_sendingTime msg \<and> m_targetCompId m' = m_targetCompId msg \<and>
     hasTag FIX_TAG_BODY_LENGTH m' \<and> hasTag FIX_TAG_BODY_CHECKSUM m' \<and>
     (\<forall>t. t \<notin> {9, 10} \<longrightarrow> map_of (m_bodyTagValuePairs m') t = map_of (m_bodyTagValuePairs msg) t)"

lemma received_message:
  assumes send: "sendable msg" and it: "is_iteration hash_order"
    and t: "table_at FIX_VERSION_STRINGS (m_fixVersion msg) = Inr version"
      "table_at FIX_MESSAGE_TYPE_STRINGS (m_messageType msg) = Inr type" "field_value len" "field_value checksum"
    and m: "m_bodyTagValuePairs m = []"
  defines "fs \<equiv> message_fields version len type checksum msg (hash_order (m_bodyTagValuePairs msg))"
  shows "\<exists>m'. initialiseHeader (set_tags fs m) = Inr m' \<and> received_as msg m'"
proof -
  let ?b = "hash_order (m_bodyTagValuePairs msg)"
  have fv: "field_value version" "field_value type" using field_value_table t by blast+
  have d: "distinct (map fst fs)" using message_fields_ok(2)[OF send it fv(1) t(3) fv(2) t(4)] by (simp add: fs_def)
  have body: "map_of (m_bodyTagValuePairs (set_tags fs m)) = map_of fs" by (rule map_of_set_tags_new[OF d m])
  have mo: "map_of ?b = map_of (m_bodyTagValuePairs msg)"
    using send is_iteration_map_of(2)[OF it] by (simp add: sendable_def)
  have hdr: "map_of fs 8 = Some version" "map_of fs 35 = Some type"
    "map_of fs 34 = Some (to_string (uint (m_sequenceNumber msg)))"
    "map_of fs 52 = Some (m_sendingTime msg)" "map_of fs 49 = Some (m_senderCompId msg)"
    "map_of fs 56 = Some (m_targetCompId msg)"
    by (simp_all add: fs_def message_fields_def)
  have "unat (m_sequenceNumber msg) < 2 ^ 31" using send by (simp add: sendable_def)
  then have "int (unat (m_sequenceNumber msg)) < 2 ^ 31" by (metis of_nat_less_iff of_nat_numeral of_nat_power)
  then have "uint (m_sequenceNumber msg) < 2 ^ 31" by (simp only: uint_nat)
  then have "stoi (to_string (uint (m_sequenceNumber msg))) = Inr (uint (m_sequenceNumber msg))"
    by (intro stoi_to_string) (simp_all add: order_trans[of _ 0])
  from initialiseHeader_full[OF hdr(1-3)[folded body] this hdr(4-6)[folded body]] obtain m' where
    m': "initialiseHeader (set_tags fs m) = Inr m'" "m_fixVersion m' = m_fixVersion msg"
      "m_messageType m' = m_messageType msg" "m_sequenceNumber m' = m_sequenceNumber msg"
      "m_sendingTime m' = m_sendingTime msg" "m_senderCompId m' = m_senderCompId msg"
      "m_targetCompId m' = m_targetCompId msg"
      "map_of (m_bodyTagValuePairs m') =
        (\<lambda>k. if k \<in> header_tags then None else map_of (m_bodyTagValuePairs (set_tags fs m)) k)"
    using version_roundtrip[OF t(1)] message_type_roundtrip[OF t(2)] by auto
  have none: "map_of (m_bodyTagValuePairs msg) k = None" if "k \<in> header_tags" for k
    using send that by (auto simp: sendable_def map_of_eq_None_iff)
  have "map_of fs k = map_of (m_bodyTagValuePairs msg) k" if "k \<notin> header_tags \<union> {9, 10}" for k
    using that mo by (auto simp: fs_def message_fields_def header_tags_def map_of_append map_add_def split: option.splits)
  moreover have "map_of fs 9 = Some len" "map_of fs 10 = Some checksum"
    using d by (auto intro!: map_of_is_SomeI) (simp_all add: fs_def message_fields_def)
  ultimately show ?thesis using m' none by (auto simp: received_as_def body hasTag_def header_tags_def)
qed

section \<open>Two buffers\<close>

lemma two_buffer_second:
  "i \<le> length b \<Longrightarrow> two_buffer_loop b b2 True i st = res_fold parse_char (drop i b) st"
proof (induction "length b - i" arbitrary: i st)
  case 0
  then show ?case by (simp add: two_buffer_loop.simps[of b])
next
  case (Suc n)
  then have i: "i < length b" by simp
  have "drop i b = b ! i # drop (Suc i) b" by (rule Cons_nth_drop_Suc[symmetric, OF i])
  moreover have "two_buffer_loop b b2 True (i + 1) st' = res_fold parse_char (drop (Suc i) b) st'" for st'
    using Suc.hyps(1)[of "Suc i" st'] Suc.hyps(2) i by simp
  ultimately show ?case using i
    by (subst two_buffer_loop.simps, cases "parse_char (b ! i) st") auto
qed

lemma two_buffer_first:
  "i < length b \<Longrightarrow>
   two_buffer_loop b b2 False i st = res_bind (res_fold parse_char (drop i b) st) (res_fold parse_char b2)"
proof (induction "length b - i" arbitrary: i st)
  case (Suc n)
  then have i: "i < length b" by simp
  have d: "drop i b = b ! i # drop (Suc i) b" by (rule Cons_nth_drop_Suc[symmetric, OF i])
  show ?case
  proof (cases "i = length b - 1")
    case True
    then have "drop (Suc i) b = []" by simp
    then show ?thesis using i d True two_buffer_second[of 0 b2 b2]
      by (subst two_buffer_loop.simps, cases "parse_char (b ! i) st") auto
  next
    case False
    then have "two_buffer_loop b b2 False (i + 1) st' =
        res_bind (res_fold parse_char (drop (Suc i) b) st') (res_fold parse_char b2)" for st'
      using Suc.hyps(1)[of "Suc i" st'] Suc.hyps(2) i by simp
    then show ?thesis using i d False
      by (subst two_buffer_loop.simps, cases "parse_char (b ! i) st") auto
  qed
qed simp

section \<open>Framing\<close>

text \<open>
  The look-ahead of \<open>frame_loop\<close> only matters between messages: inside a message the character is
  handled as any other.
\<close>

definition starts_at :: "string \<Rightarrow> nat \<Rightarrow> bool" where
  "starts_at buffer i \<longleftrightarrow> buffer ! i = CHR ''8'' \<and> buffer ! (i + 1) = FIX_EQUALS"

lemma frame_loop_step:
  assumes "i < n" "n \<le> length buffer" "i + 1 < n \<or> (buffer ! i \<noteq> CHR ''8'')"
  shows "frame_loop buffer n i st =
    res_bind (frame_char i (buffer ! i) (if starts_at buffer i then st\<lparr>fixMessageStarted := True\<rparr> else st))
      (frame_loop buffer n (i + 1))"
proof (cases "starts_at buffer i")
  case False
  then show ?thesis using assms by (subst frame_loop.simps) (auto simp: starts_at_def vec_at_def)
next
  case True
  then have "i + 1 < n" using assms by (auto simp: starts_at_def)
  moreover have "frame_loop buffer n (i + 1) st' =
      res_bind (frame_char (i + 1) FIX_EQUALS st') (frame_loop buffer n (i + 2))" for st'
    using True \<open>i + 1 < n\<close> assms(2) by (subst frame_loop.simps) (simp add: starts_at_def vec_at_def)
  moreover have "frame_char i (CHR ''8'') (st\<lparr>fixMessageStarted := True\<rparr>) =
      Inr ((push_target (CHR ''8'') st)\<lparr>fixMessageStarted := True\<rparr>)"
    by (simp add: frame_char_def push_target_def)
  ultimately show ?thesis using True assms
    by (subst frame_loop.simps) (simp add: starts_at_def vec_at_def)
qed

text \<open>The characters of a segment, one after the other, at consecutive indexes.\<close>

fun frame_chars :: "nat \<Rightarrow> string \<Rightarrow> frame_state \<Rightarrow> frame_state result" where
  "frame_chars i [] st = Inr st"
| "frame_chars i (c # cs) st = res_bind (frame_char i c st) (frame_chars (i + 1) cs)"

lemma frame_chars_append:
  "frame_chars i (xs @ ys) st = res_bind (frame_chars i xs st) (frame_chars (i + length xs) ys)"
  by (induction xs arbitrary: i st) (simp_all add: res_bind_def split: sum.splits)

text \<open>Inside a message, as long as no field ends, the state stays started.\<close>

lemma frame_char_started:
  "fixMessageStarted st \<Longrightarrow> c \<noteq> FIX_DELIMITER \<Longrightarrow> \<exists>st'. frame_char i c st = Inr st' \<and> fixMessageStarted st' \<and>
     messages st' = messages st \<and> remainingBytesStartIndex st' = remainingBytesStartIndex st \<and>
     numOfFixMessages st' = numOfFixMessages st"
  by (auto simp: frame_char_def push_target_def)

lemma frame_loop_inside:
  assumes "buffer = pre @ xs @ post" "length pre + length xs \<le> n" "n \<le> length buffer"
    and "fixMessageStarted st" "FIX_DELIMITER \<notin> set xs"
    and "length pre + length xs < n \<or> (xs \<noteq> [] \<longrightarrow> last xs \<noteq> CHR ''8'')"
  shows "frame_loop buffer n (length pre) st =
    res_bind (frame_chars (length pre) xs st) (frame_loop buffer n (length pre + length xs))"
  using assms
proof (induction xs arbitrary: pre st)
  case (Cons c cs)
  let ?i = "length pre"
  have c: "buffer ! ?i = c" using Cons.prems(1) by simp
  have id: "st\<lparr>fixMessageStarted := True\<rparr> = st" using Cons.prems(4) by (cases st) simp
  obtain st' where st': "frame_char ?i c st = Inr st'" "fixMessageStarted st'"
    using frame_char_started[of st c ?i] Cons.prems(4,5) by auto
  have "?i + 1 < n \<or> c \<noteq> CHR ''8''" using Cons.prems(2,6) by (cases cs) auto
  then have "frame_loop buffer n ?i st = res_bind (frame_char ?i c st) (frame_loop buffer n (?i + 1))"
    using frame_loop_step[of ?i n buffer st] Cons.prems(2,3) c id by simp
  moreover have "frame_loop buffer n (length (pre @ [c])) st' =
      res_bind (frame_chars (length (pre @ [c])) cs st') (frame_loop buffer n (length (pre @ [c]) + length cs))"
    by (rule Cons.IH) (use Cons.prems st' in \<open>auto split: if_splits\<close>)
  ultimately show ?case using st' by simp
qed simp

text \<open>The states between two fields.\<close>

definition between :: "bool \<Rightarrow> FixMessage \<Rightarrow> FixMessage list \<Rightarrow> nat \<Rightarrow> nat \<Rightarrow> frame_state" where
  "between started m msgs rest k = \<lparr>ps_tag = [], ps_value = [], in_value = False, ps_message = m,
     lastTagOfMessage = False, fixMessageStarted = started, messages = msgs, remainingBytesStartIndex = rest,
     numOfFixMessages = k\<rparr>"

lemma frame_plain:
  "field_value xs \<Longrightarrow> fixMessageStarted st \<Longrightarrow> frame_chars i xs st =
    Inr (if in_value st then st\<lparr>ps_value := ps_value st @ xs\<rparr> else st\<lparr>ps_tag := ps_tag st @ xs\<rparr>)"
  by (induction xs arbitrary: i st) (auto simp: field_value_def frame_char_def push_target_def)

lemma to_string_10: "int_tag t \<Longrightarrow> to_string t = ''10'' \<longleftrightarrow> t = 10"
proof
  assume "int_tag t" "to_string t = ''10''"
  then have "stoi ''10'' = Inr t" using stoi_to_string[of t] by (simp add: int_tag_def)
  moreover have "stoi ''10'' = Inr 10" by code_simp
  ultimately show "t = 10" by simp
next
  assume "t = 10"
  moreover have "to_string 10 = ''10''" by code_simp
  ultimately show "to_string t = ''10''" by simp
qed

lemma is_tag_10:
  "int_tag t \<Longrightarrow> (length (to_string t) = 2 \<and> to_string t ! 0 = CHR ''1'' \<and> to_string t ! 1 = CHR ''0'') \<longleftrightarrow> t = 10"
proof -
  have "(length s = 2 \<and> s ! 0 = CHR ''1'' \<and> s ! 1 = CHR ''0'') \<longleftrightarrow> s = ''10''" for s :: string
    by (auto simp: numeral_2_eq_2 length_Suc_conv)
  then show "int_tag t \<Longrightarrow> ?thesis" using to_string_10 by simp
qed

lemma frame_field_chars:
  assumes "int_tag t" "field_value v"
  shows "frame_chars i (to_string t @ FIX_EQUALS # v) (between True m msgs r k) =
    Inr ((between True m msgs r k)\<lparr>ps_tag := to_string t, ps_value := v, in_value := True, lastTagOfMessage := (t = 10)\<rparr>)"
  using assms is_tag_10[OF assms(1)]
  by (simp add: frame_chars_append frame_plain between_def frame_char_def)

lemma frame_field_loop:
  assumes t: "int_tag t" "field_value v" and b: "buffer = pre @ tag_string t v @ post"
    and n: "length (pre @ tag_string t v) \<le> n" "n \<le> length buffer"
  shows "frame_loop buffer n (length pre) (between True m msgs r k) =
    (if t = 10
     then res_bind (initialiseHeader (setTag t v m)) (\<lambda>m'. frame_loop buffer n (length (pre @ tag_string t v))
            (between False (FixMessage_new 0) (msgs @ [m']) (length (pre @ tag_string t v)) (k + 1)))
     else frame_loop buffer n (length (pre @ tag_string t v)) (between True (setTag t v m) msgs r k))"
proof -
  let ?xs = "to_string t @ FIX_EQUALS # v"
  let ?j = "length pre + length ?xs"
  let ?st = "(between True m msgs r k)\<lparr>ps_tag := to_string t, ps_value := v, in_value := True, lastTagOfMessage := (t = 10)\<rparr>"
  have "FIX_DELIMITER \<notin> set ?xs" using t by (simp add: field_value_def)
  then have "frame_loop buffer n (length pre) (between True m msgs r k) = frame_loop buffer n ?j ?st"
    using frame_loop_inside[of buffer pre ?xs "FIX_DELIMITER # post" n "between True m msgs r k"] b n t
    by (simp add: frame_field_chars tag_string_def) (simp add: between_def)
  also have "buffer ! ?j = FIX_DELIMITER" using b by (simp add: tag_string_def nth_append)
  then have "frame_loop buffer n ?j ?st = res_bind (frame_char ?j FIX_DELIMITER ?st) (frame_loop buffer n (?j + 1))"
    using frame_loop_step[of ?j n buffer ?st] b n by (simp add: tag_string_def starts_at_def)
  also have "stoi (to_string t) = Inr t" using t(1) stoi_to_string by (simp add: int_tag_def)
  then have "frame_char ?j FIX_DELIMITER ?st =
    (if t = 10
     then res_bind (initialiseHeader (setTag t v m)) (\<lambda>m'.
            Inr (between False (FixMessage_new 0) (msgs @ [m']) (?j + 1) (k + 1)))
     else Inr (between True (setTag t v m) msgs r k))"
    by (cases "t = 10"; cases "initialiseHeader (setTag t v m)")
      (simp_all add: frame_char_def between_def Let_def FixMessage_reset_def FixMessage_new_def)
  also have "?j + 1 = length (pre @ tag_string t v)" by (simp add: tag_string_def)
  finally show ?thesis by (simp add: res_bind_def split: sum.splits)
qed

lemma frame_fields:
  assumes "fields_ok fs" "\<And>t. t \<in> fst ` set fs \<Longrightarrow> t \<noteq> 10" "buffer = pre @ body_string fs @ post"
    "length (pre @ body_string fs) \<le> n" "n \<le> length buffer"
  shows "frame_loop buffer n (length pre) (between True m msgs r k) =
    frame_loop buffer n (length (pre @ body_string fs)) (between True (set_tags fs m) msgs r k)"
  using assms
proof (induction fs arbitrary: pre m)
  case (Cons f fs)
  obtain t v where f: "f = (t, v)" by (cases f) auto
  have "int_tag t" "field_value v" "t \<noteq> 10" using Cons.prems f by (auto simp: fields_ok_def)
  then have "frame_loop buffer n (length pre) (between True m msgs r k) =
      frame_loop buffer n (length (pre @ tag_string t v)) (between True (setTag t v m) msgs r k)"
    using frame_field_loop[of t v buffer pre "body_string fs @ post" n] Cons.prems f by simp
  also have "\<dots> = frame_loop buffer n (length ((pre @ tag_string t v) @ body_string fs)) (between True (set_tags fs (setTag t v m)) msgs r k)"
    by (rule Cons.IH) (use Cons.prems f in \<open>auto simp: fields_ok_def\<close>)
  finally show ?case by (simp add: f)
qed simp

text \<open>The beginning of a message: the look-ahead finds \<open>8=\<close>.\<close>

lemma frame_begin:
  assumes "buffer = pre @ tag_string 8 v @ post" "length (pre @ tag_string 8 v) \<le> n" "n \<le> length buffer"
  shows "frame_loop buffer n (length pre) (between started m msgs r k) =
    frame_loop buffer n (length pre) (between True m msgs r k)"
proof -
  have 8: "to_string 8 = ''8''" by code_simp
  have "starts_at buffer (length pre)"
    using assms(1) by (simp add: starts_at_def tag_string_def 8 nth_append)
  moreover have "length pre + 1 < n" using assms(2) by (simp add: tag_string_def 8)
  ultimately show ?thesis
    using assms(3) frame_loop_step[of "length pre" n buffer] by (simp add: between_def)
qed

text \<open>One whole message.\<close>

lemma frame_message:
  assumes b: "buffer = pre @ out @ post" "length (pre @ out) \<le> n" "n \<le> length buffer"
    and send: "sendable msg" and it: "is_iteration hash_order" and out: "FixMessage_toString hash_order msg = Inr out"
    and m: "m_bodyTagValuePairs m = []"
  shows "\<exists>m'. received_as msg m' \<and> frame_loop buffer n (length pre) (between False m msgs r k) =
    frame_loop buffer n (length (pre @ out)) (between False (FixMessage_new 0) (msgs @ [m']) (length (pre @ out)) (k + 1))"
proof -
  from printed_fields[OF out] obtain version len type checksum where
    f: "out = body_string (message_fields version len type checksum msg (hash_order (m_bodyTagValuePairs msg)))"
    and t: "table_at FIX_VERSION_STRINGS (m_fixVersion msg) = Inr version"
      "table_at FIX_MESSAGE_TYPE_STRINGS (m_messageType msg) = Inr type" "field_value len" "field_value checksum" by blast
  have fv: "field_value version" "field_value type" using field_value_table t by blast+
  define fs where "fs = [(9, len), (35, type), (34, to_string (uint (m_sequenceNumber msg))),
      (49, m_senderCompId msg), (52, m_sendingTime msg), (56, m_targetCompId msg)] @ hash_order (m_bodyTagValuePairs msg)"
  have mf: "message_fields version len type checksum msg (hash_order (m_bodyTagValuePairs msg)) = ((8, version) # fs) @ [(10, checksum)]"
    by (simp add: message_fields_def fs_def)
  have ok: "fields_ok ((8, version) # fs)" "int_tag 10" "t \<in> fst ` set ((8, version) # fs) \<Longrightarrow> t \<noteq> 10" for t
    using message_fields_ok[OF send it fv(1) t(3) fv(2) t(4)]
    unfolding mf by (auto simp: fields_ok_def int_tag_def)
  have out': "out = body_string ((8, version) # fs) @ tag_string 10 checksum" unfolding f mf by simp
  obtain m' where m': "initialiseHeader (setTag 10 checksum (set_tags ((8, version) # fs) m)) = Inr m'" "received_as msg m'"
    using received_message[OF send it t m] unfolding mf by auto
  have "frame_loop buffer n (length pre) (between False m msgs r k) =
      frame_loop buffer n (length pre) (between True m msgs r k)"
    by (rule frame_begin[of buffer pre version "body_string fs @ tag_string 10 checksum @ post"])
      (use b out' in simp_all)
  also have "\<dots> = frame_loop buffer n (length (pre @ body_string ((8, version) # fs)))
      (between True (set_tags ((8, version) # fs) m) msgs r k)"
    by (rule frame_fields[of _ _ _ "tag_string 10 checksum @ post"]) (use ok b out' in auto)
  also have "\<dots> = frame_loop buffer n (length ((pre @ body_string ((8, version) # fs)) @ tag_string 10 checksum))
      (between False (FixMessage_new 0) (msgs @ [m']) (length ((pre @ body_string ((8, version) # fs)) @ tag_string 10 checksum)) (k + 1))"
    using frame_field_loop[OF ok(2) t(4), of buffer "pre @ body_string ((8, version) # fs)" post n] b out' m'(1) by simp
  finally show ?thesis using m'(2) out' by auto
qed

lemma frame_messages:
  assumes "list_all2 (\<lambda>msg out. sendable msg \<and> FixMessage_toString hash_order msg = Inr out) ms outs"
    "is_iteration hash_order" "buffer = pre @ concat outs @ post" "length (pre @ concat outs) \<le> n" "n \<le> length buffer"
    "m_bodyTagValuePairs m = []" "pre = [] \<or> r = length pre"
  shows "\<exists>ms' m'. list_all2 received_as ms ms' \<and> m_bodyTagValuePairs m' = [] \<and>
    frame_loop buffer n (length pre) (between False m msgs r k) = frame_loop buffer n (length (pre @ concat outs))
      (between False m' (msgs @ ms') (if outs = [] then r else length (pre @ concat outs)) (k + length outs))"
  using assms
proof (induction ms outs arbitrary: pre m msgs r k rule: list_all2_induct)
  case Nil
  then show ?case by (auto intro!: exI[of _ "[]"] exI[of _ m])
next
  case (Cons msg ms out outs)
  from frame_message[of buffer pre out "concat outs @ post" n msg hash_order m msgs r k] Cons.hyps(1) Cons.prems
  obtain m1 where m1: "received_as msg m1" "frame_loop buffer n (length pre) (between False m msgs r k) =
    frame_loop buffer n (length (pre @ out)) (between False (FixMessage_new 0) (msgs @ [m1]) (length (pre @ out)) (k + 1))"
    by auto
  from Cons.IH[of "pre @ out" "FixMessage_new 0" "length (pre @ out)" "msgs @ [m1]" "k + 1"] Cons.prems
  obtain ms' m' where "list_all2 received_as ms ms'" "m_bodyTagValuePairs m' = []"
    "frame_loop buffer n (length (pre @ out)) (between False (FixMessage_new 0) (msgs @ [m1]) (length (pre @ out)) (k + 1)) =
     frame_loop buffer n (length ((pre @ out) @ concat outs)) (between False m' ((msgs @ [m1]) @ ms')
       (if outs = [] then length (pre @ out) else length ((pre @ out) @ concat outs)) (k + 1 + length outs))"
    by (auto simp: FixMessage_new_def)
  then show ?case using m1 by (auto intro!: exI[of _ "m1 # ms'"] exI[of _ m'])
qed

text \<open>An incomplete field at the end of the bytes received so far.\<close>

lemma frame_char_keeps:
  "c \<noteq> FIX_DELIMITER \<Longrightarrow> \<exists>st'. frame_char i c st = Inr st' \<and> messages st' = messages st \<and>
     remainingBytesStartIndex st' = remainingBytesStartIndex st \<and> numOfFixMessages st' = numOfFixMessages st"
  by (auto simp: frame_char_def push_target_def)

lemma frame_tail:
  assumes "i \<le> n" "n < length buffer" "\<And>j. i \<le> j \<Longrightarrow> j < n \<Longrightarrow> buffer ! j \<noteq> FIX_DELIMITER"
  shows "\<exists>st'. frame_loop buffer n i st = Inr st' \<and> messages st' = messages st \<and>
     remainingBytesStartIndex st' = remainingBytesStartIndex st \<and> numOfFixMessages st' = numOfFixMessages st"
  using assms
proof (induction "n - i" arbitrary: i st rule: less_induct)
  case less
  show ?case
  proof (cases "i < n")
    case False
    then show ?thesis by (simp add: frame_loop.simps[of buffer])
  next
    case True
    let ?st = "(push_target (buffer ! i) st)\<lparr>fixMessageStarted := True\<rparr>"
    have ?thesis if s: "starts_at buffer i"
    proof -
      obtain st1 where st1: "frame_char (i + 1) FIX_EQUALS ?st = Inr st1" "messages st1 = messages st"
        "remainingBytesStartIndex st1 = remainingBytesStartIndex st" "numOfFixMessages st1 = numOfFixMessages st"
        using frame_char_keeps[of FIX_EQUALS "i + 1" ?st] by (auto simp: push_target_def split: if_splits)
      have "frame_loop buffer n i st = frame_loop buffer n (i + 2) st1"
        using True less.prems(2) s st1(1) by (subst frame_loop.simps) (simp add: starts_at_def vec_at_def)
      moreover have "\<exists>st'. frame_loop buffer n (i + 2) st1 = Inr st' \<and> messages st' = messages st1 \<and>
          remainingBytesStartIndex st' = remainingBytesStartIndex st1 \<and> numOfFixMessages st' = numOfFixMessages st1"
      proof (cases "i + 2 \<le> n")
        case True
        then show ?thesis using less.hyps[of "i + 2" st1] less.prems by simp
      next
        case False
        then show ?thesis by (simp add: frame_loop.simps[of buffer])
      qed
      ultimately show ?thesis using st1 by simp
    qed
    moreover have ?thesis if s: "\<not> starts_at buffer i"
    proof -
      obtain st1 where st1: "frame_char i (buffer ! i) st = Inr st1" "messages st1 = messages st"
        "remainingBytesStartIndex st1 = remainingBytesStartIndex st" "numOfFixMessages st1 = numOfFixMessages st"
        using frame_char_keeps[of "buffer ! i" i st] less.prems(3)[of i] True by auto
      have "frame_loop buffer n i st = frame_loop buffer n (i + 1) st1"
        using True less.prems(2) s st1(1) by (subst frame_loop.simps) (auto simp: starts_at_def vec_at_def)
      then show ?thesis using less.hyps[of "i + 1" st1] less.prems True st1 by simp
    qed
    ultimately show ?thesis by blast
  qed
qed

lemma strict_prefix_tag_string:
  "p @ c # q = tag_string t v \<Longrightarrow> field_value v \<Longrightarrow> FIX_DELIMITER \<notin> set p"
proof -
  assume p: "p @ c # q = tag_string t v" and v: "field_value v"
  have "butlast (p @ c # q) = to_string t @ FIX_EQUALS # v" unfolding p by (simp add: tag_string_def butlast_append)
  then have "set p \<subseteq> set (to_string t @ FIX_EQUALS # v)" by (metis butlast_append list.distinct(1) set_append sup_ge1)
  then show ?thesis using v by (auto simp: field_value_def)
qed

text \<open>A strict prefix of a sequence of fields: some fields, then part of one.\<close>

lemma prefix_of_fields:
  assumes "p @ c # q = body_string fs" "fields_ok fs"
  shows "\<exists>fs1 fs2 xs. fs = fs1 @ fs2 \<and> fs2 \<noteq> [] \<and> p = body_string fs1 @ xs \<and> FIX_DELIMITER \<notin> set xs"
  using assms
proof (induction fs arbitrary: p)
  case (Cons f fs)
  obtain t v where f: "f = (t, v)" by (cases f) auto
  have v: "field_value v" "fields_ok fs" using Cons.prems(2) f by (auto simp: fields_ok_def)
  from Cons.prems(1) have "p @ c # q = tag_string t v @ body_string fs" by (simp add: f)
  then obtain us where "(p = tag_string t v @ us \<and> us @ c # q = body_string fs) \<or>
      (p @ us = tag_string t v \<and> c # q = us @ body_string fs)"
    by (auto simp: append_eq_append_conv2)
  then show ?case
  proof
    assume h: "p = tag_string t v @ us \<and> us @ c # q = body_string fs"
    then obtain fs1 fs2 xs where "fs = fs1 @ fs2" "fs2 \<noteq> []" "us = body_string fs1 @ xs" "FIX_DELIMITER \<notin> set xs"
      using Cons.IH[OF _ v(2)] by blast
    then show ?thesis using h f by (intro exI[of _ "(t, v) # fs1"] exI[of _ fs2] exI[of _ xs]) simp
  next
    assume h: "p @ us = tag_string t v \<and> c # q = us @ body_string fs"
    show ?thesis
    proof (cases us)
      case Nil
      then have "p = tag_string t v" "body_string fs = [] @ c # q" using h by simp_all
      then show ?thesis using f Cons.IH[of "[]"] v(2)
        by (intro exI[of _ "[(t, v)]"] exI[of _ fs] exI[of _ "[]"]) (auto dest: sym)
    next
      case (Cons d ds)
      then have "FIX_DELIMITER \<notin> set p" using h strict_prefix_tag_string[of p d ds t v] v by simp
      then show ?thesis by (intro exI[of _ "[]"] exI[of _ "f # fs"] exI[of _ p]) simp
    qed
  qed
qed simp

lemma frame_partial:
  assumes p: "p @ c # q = out" and b: "buffer = pre @ p @ post" "n = length (pre @ p)" "post \<noteq> []"
    and send: "sendable msg" and it: "is_iteration hash_order" and out: "FixMessage_toString hash_order msg = Inr out"
  shows "\<exists>st'. frame_loop buffer n (length pre) (between False m msgs r k) = Inr st' \<and> messages st' = msgs \<and>
     remainingBytesStartIndex st' = r \<and> numOfFixMessages st' = k"
proof -
  from printed_fields[OF out] obtain version len type checksum where
    f: "out = body_string (message_fields version len type checksum msg (hash_order (m_bodyTagValuePairs msg)))"
    and t: "table_at FIX_VERSION_STRINGS (m_fixVersion msg) = Inr version"
      "table_at FIX_MESSAGE_TYPE_STRINGS (m_messageType msg) = Inr type" "field_value len" "field_value checksum" by blast
  have fv: "field_value version" "field_value type" using field_value_table t by blast+
  define fs where "fs = message_fields version len type checksum msg (hash_order (m_bodyTagValuePairs msg))"
  have ok: "fields_ok fs" "distinct (map fst fs)"
    using message_fields_ok[OF send it fv(1) t(3) fv(2) t(4)] by (simp_all add: fs_def)
  obtain fs1 fs2 xs where x: "fs = fs1 @ fs2" "fs2 \<noteq> []" "p = body_string fs1 @ xs" "FIX_DELIMITER \<notin> set xs"
    using prefix_of_fields[OF _ ok(1)] p f fs_def by blast
  have n: "n < length buffer" using b by simp
  have tail: "\<exists>st'. frame_loop buffer n (length (pre @ body_string fs1)) st = Inr st' \<and> messages st' = messages st \<and>
     remainingBytesStartIndex st' = remainingBytesStartIndex st \<and> numOfFixMessages st' = numOfFixMessages st" for st
  proof (rule frame_tail[OF _ n])
    fix j assume j: "length (pre @ body_string fs1) \<le> j" "j < n"
    then have "buffer ! j = xs ! (j - length (pre @ body_string fs1))" "j - length (pre @ body_string fs1) < length xs"
      using b(1,2) x(3) by (auto simp: nth_append)
    then show "buffer ! j \<noteq> FIX_DELIMITER" using x(4) nth_mem by metis
  qed (use b x in simp)
  show ?thesis
  proof (cases fs1)
    case Nil
    then show ?thesis using tail[of "between False m msgs r k"] by (simp add: between_def)
  next
    case (Cons f' fs1')
    have f': "f' = (8, version)" using Cons x(1) by (simp add: fs_def message_fields_def)
    have last: "last fs2 = (10, checksum)" using x(1,2) by (metis fs_def message_fields_def append_assoc last_appendR last_snoc)
    then have "10 \<in> fst ` set fs2" using x(2) last_in_set by (metis fst_conv imageI)
    then have no10: "t \<noteq> 10" if "t \<in> fst ` set fs1" for t using ok(2) x(1) that by (metis disjoint_iff distinct_append list.set_map map_append)
    have "frame_loop buffer n (length pre) (between False m msgs r k) =
        frame_loop buffer n (length pre) (between True m msgs r k)"
      by (rule frame_begin[of buffer pre version "body_string fs1' @ xs @ post"])
        (use b x Cons f' in simp_all)
    also have "\<dots> = frame_loop buffer n (length (pre @ body_string fs1)) (between True (set_tags fs1 m) msgs r k)"
      by (rule frame_fields[of _ _ _ "xs @ post"]) (use ok(1) x no10 b in \<open>auto simp: fields_ok_def\<close>)
    finally show ?thesis using tail[of "between True (set_tags fs1 m) msgs r k"] by (simp add: between_def)
  qed
qed

lemma parse_stream:
  assumes "list_all2 (\<lambda>msg out. sendable msg \<and> FixMessage_toString hash_order msg = Inr out) ms outs"
    "is_iteration hash_order" "sendable next" "FixMessage_toString hash_order next = Inr (partial @ c # rest)"
    "post \<noteq> []"
  shows "\<exists>ms'. list_all2 received_as ms ms' \<and>
    parseMultipleMessagesFromBuffer mem (concat outs @ partial @ post) (length (concat outs @ partial)) [] 0 =
      Inr (length ms, ms', length (concat outs))"
proof -
  let ?buffer = "concat outs @ partial @ post" and ?n = "length (concat outs @ partial)"
  have len: "length outs = length ms" using assms(1) by (simp add: list_all2_lengthD)
  have "frame_start mem [] 0 = between False (FixMessage_new mem) [] 0 0"
    by (simp add: frame_start_def between_def)
  moreover have if_eq: "(if outs = [] then 0 else length ([] @ concat outs)) = length (concat outs)" by simp
  have "m_bodyTagValuePairs (FixMessage_new mem) = []" by (simp add: FixMessage_new_def)
  then obtain ms' m' where ms': "list_all2 received_as ms ms'"
    "frame_loop ?buffer ?n (length []) (between False (FixMessage_new mem) [] 0 0) =
     frame_loop ?buffer ?n (length (concat outs)) (between False m' ms' (length (concat outs)) (length outs))"
    using frame_messages[OF assms(1,2), of ?buffer "[]" "partial @ post" ?n "FixMessage_new mem" 0 "[]" 0]
    unfolding if_eq by auto
  moreover obtain st where "frame_loop ?buffer ?n (length (concat outs))
      (between False m' ms' (length (concat outs)) (length outs)) = Inr st"
      "messages st = ms'" "remainingBytesStartIndex st = length (concat outs)"
      "numOfFixMessages st = length outs"
    using frame_partial[OF refl refl refl assms(5,3,2,4), of "concat outs" m' ms' "length (concat outs)" "length outs"]
    by blast
  ultimately show ?thesis using len by (auto simp: parseMultipleMessagesFromBuffer_def)
qed

lemma printed_not_Nil: "FixMessage_toString hash_order msg = Inr out \<Longrightarrow> out \<noteq> []"
  by (erule toString_Inr) (simp add: tag_string_def)

lemma parse_printed:
  assumes "sendable msg" "is_iteration hash_order" "FixMessage_toString hash_order msg = Inr out"
  shows "\<exists>m'. parseFromBuffer (FixMessage_new mem) out = Inr m' \<and> received_as msg m'"
proof -
  from printed_fields[OF assms(3)] obtain version len type checksum where
    f: "out = body_string (message_fields version len type checksum msg (hash_order (m_bodyTagValuePairs msg)))"
    and t: "table_at FIX_VERSION_STRINGS (m_fixVersion msg) = Inr version"
      "table_at FIX_MESSAGE_TYPE_STRINGS (m_messageType msg) = Inr type" "field_value len" "field_value checksum" by blast
  have "field_value version" "field_value type" using field_value_table t by blast+
  then have ok: "fields_ok (message_fields version len type checksum msg (hash_order (m_bodyTagValuePairs msg)))"
    using message_fields_ok(1)[OF assms(1,2)] t by blast
  have "m_bodyTagValuePairs (FixMessage_new mem) = []" by (simp add: FixMessage_new_def)
  from received_message[OF assms(1,2) t this] show ?thesis
    unfolding parseFromBuffer_def f parse_fields[OF ok] by (simp add: parse_start_def)
qed

lemma sample_message_sendable: "sendable sample_message"
  by (simp add: sendable_def sample_message_def int_tag_def field_value_def header_tags_def)

text \<open>The printed sample message is its first byte and the rest.\<close>

lemma sample_text_first: "\<exists>rest. sample_text = [] @ CHR ''8'' # rest" "\<exists>c rest. sample_text = ''8='' @ c # rest"
  by (simp_all add: sample_text_def)

section \<open>Properties\<close>

text \<open>C23: Parsing what was printed gives the message back. For every message whose fields contain
  no separator, whose body holds no header tag and not the tags 9 and 10, and whose sequence number is below 2^31, whatever the order in which the hash table
  lists its tags, \<open>parseFromBuffer\<close> on the printed text returns a message with the same version,
  type, sequence number, sender, target and sending time and the same value for every body tag.\<close>

theorem parse_print_roundtrip:
  assumes "sendable msg" "is_iteration hash_order" "FixMessage_toString hash_order msg = Inr out"
  shows "\<exists>m'. parseFromBuffer (FixMessage_new mem) out = Inr m' \<and> received_as msg m'"
  using parse_printed[OF assms] .

theorem parse_print_roundtrip_witness:
  "\<exists>m'. parseFromBuffer (FixMessage_new 0) sample_text = Inr m' \<and> received_as sample_message m' \<and> m_sequenceNumber m' = 2"
  using parse_print_roundtrip[OF sample_message_sendable is_iteration_id sample_message_prints, of 0]
  by (auto simp: received_as_def sample_message_def)

text \<open>Parsing a message that is split over two buffers is parsing their concatenation, provided the
  first buffer is not empty; with an empty first buffer the second one is never read.\<close>

theorem two_buffers_as_one:
  "parseFromMultipleBuffers msg buffer1 buffer2 =
     (if buffer1 = [] then initialiseHeader msg else parseFromBuffer msg (buffer1 @ buffer2))"
proof (cases "buffer1 = []")
  case True
  then show ?thesis by (simp add: parseFromMultipleBuffers_def two_buffer_loop.simps[of "[]"] parse_start_def)
next
  case False
  then show ?thesis
    using two_buffer_first[of 0 buffer1 buffer2 "parse_start msg"]
    by (simp add: parseFromMultipleBuffers_def parseFromBuffer_def)
qed

text \<open>C24: Framing of the byte stream. When the buffer holds any number of printed messages followed by
  a strict prefix of another printed message, and is not full, the framer returns exactly these
  messages in order, their number, and as start of the remaining bytes the position where the
  incomplete message begins. The messages are \<open>sendable\<close>: no field holds a separator, the body holds
  no tag twice, no header tag (8, 34, 35, 49, 52, 56) and not the tags 9 and 10, tags are 32-bit numbers and the
  sequence number is below 2^31. (The admin reject the program builds is not one of them: its body
  has an empty sequence number tag.)\<close>

theorem framing_recovers_messages:
  assumes "list_all2 (\<lambda>msg out. sendable msg \<and> FixMessage_toString hash_order msg = Inr out) ms outs"
    "is_iteration hash_order" "sendable next" "FixMessage_toString hash_order next = Inr (partial @ c # rest)"
    "post \<noteq> []"
  shows "\<exists>ms'. list_all2 received_as ms ms' \<and>
    parseMultipleMessagesFromBuffer mem (concat outs @ partial @ post) (length (concat outs @ partial)) [] 0 =
      Inr (length ms, ms', length (concat outs))"
  using parse_stream[OF assms] .

theorem framing_recovers_messages_witness:
  "\<exists>ms'. list_all2 received_as [sample_message] ms' \<and>
     parseMultipleMessagesFromBuffer 0 (sample_text @ ''8='' @ ''?'') (length (sample_text @ ''8='')) [] 0 = Inr (1, ms', length sample_text)"
proof -
  obtain c rest where "FixMessage_toString (\<lambda>es. es) sample_message = Inr (''8='' @ c # rest)"
    using sample_message_prints sample_text_first(2) by auto
  from framing_recovers_messages[OF _ is_iteration_id sample_message_sendable this, of "[sample_message]" "[sample_text]" "''?''" 0]
  show ?thesis using sample_message_sendable sample_message_prints by simp
qed

end
