(* ===== verification/Fix_Receive_Cache.thy ===== *)
theory Fix_Receive_Cache
  imports Fix_Parser
begin

text \<open>
  \<open>fix::FixReceiveCache\<close> (\<open>source/fix/fix_receive_cache.h\<close>, \<open>fix_receive_cache.cpp\<close>): the bytes of a
  connection that do not form a complete message yet. \<open>std::memcpy\<close> is defined for ranges that do
  not overlap only.
\<close>

record FixReceiveCache =
  cache_capacity :: nat
  cache_size :: nat
  cache_buffer :: string

definition FixReceiveCache_new :: FixReceiveCache where
  "FixReceiveCache_new = \<lparr>cache_capacity = 0, cache_size = 0, cache_buffer = []\<rparr>"

text \<open>The new buffer holds whatever the storage \<open>mem\<close> held.\<close>

definition FixReceiveCache_initialise :: "string \<Rightarrow> nat \<Rightarrow> FixReceiveCache \<Rightarrow> FixReceiveCache" where
  "FixReceiveCache_initialise mem capacity cache =
     cache\<lparr>cache_buffer := take capacity (mem @ replicate capacity NUL), cache_capacity := capacity\<rparr>"

definition getRemainingBufferSize :: "FixReceiveCache \<Rightarrow> nat" where
  "getRemainingBufferSize cache = cache_capacity cache - cache_size cache"

text \<open>\<open>recv\<close> writes its bytes at \<open>getBuffer()\<close>; \<open>incrementSize\<close> follows.\<close>

definition cache_write :: "string \<Rightarrow> FixReceiveCache \<Rightarrow> FixReceiveCache" where
  "cache_write bytes cache = cache\<lparr>cache_buffer :=
     take (cache_size cache) (cache_buffer cache) @ bytes @ drop (cache_size cache + length bytes) (cache_buffer cache)\<rparr>"

definition incrementSize :: "nat \<Rightarrow> FixReceiveCache \<Rightarrow> FixReceiveCache" where
  "incrementSize n cache = cache\<lparr>cache_size := cache_size cache + n\<rparr>"

definition moveBufferToStart :: "nat \<Rightarrow> nat \<Rightarrow> FixReceiveCache \<Rightarrow> FixReceiveCache result" where
  "moveBufferToStart startIndex endIndex cache =
     (let newSize = endIndex - startIndex + 1
      in if startIndex < newSize then Inl Overlapping_copy
         else Inr (cache\<lparr>cache_buffer := take newSize (drop startIndex (cache_buffer cache)) @ drop newSize (cache_buffer cache),
                          cache_size := newSize\<rparr>))"

text \<open>\<open>m_size - 1\<close> wraps around to the largest \<open>size_t\<close> for an empty cache.\<close>

definition FixReceiveCache_parse ::
  "int \<Rightarrow> FixMessage list \<Rightarrow> FixReceiveCache \<Rightarrow> (nat \<times> FixMessage list \<times> FixReceiveCache) result" where
  "FixReceiveCache_parse mem msgs cache =
     (let remainingBytesEndIndex = (if cache_size cache = 0 then 2 ^ 64 - 1 else cache_size cache - 1)
      in res_bind (parseMultipleMessagesFromBuffer mem (cache_buffer cache) (cache_size cache) msgs 0)
           (\<lambda>(numMessages, msgs', remainingBytesStartIndex).
              if numMessages > 0
              then if remainingBytesEndIndex > remainingBytesStartIndex
                   then res_bind (moveBufferToStart remainingBytesStartIndex remainingBytesEndIndex cache)
                          (\<lambda>cache'. Inr (numMessages, msgs', cache'))
                   else Inr (numMessages, msgs', cache\<lparr>cache_size := 0\<rparr>)
              else Inr (numMessages, msgs', cache)))"

section \<open>Invariant\<close>

definition cache_inv :: "FixReceiveCache \<Rightarrow> bool" where
  "cache_inv cache \<longleftrightarrow> length (cache_buffer cache) = cache_capacity cache \<and> cache_size cache \<le> cache_capacity cache"

definition cached_bytes :: "FixReceiveCache \<Rightarrow> string" where
  "cached_bytes cache = take (cache_size cache) (cache_buffer cache)"

lemma cache_inv_initialise: "cache_inv (FixReceiveCache_initialise mem n FixReceiveCache_new)"
  by (simp add: cache_inv_def FixReceiveCache_initialise_def FixReceiveCache_new_def)

lemma cache_receive:
  assumes "cache_inv cache" "length bytes \<le> getRemainingBufferSize cache"
  shows "cache_inv (incrementSize (length bytes) (cache_write bytes cache)) \<and>
    cached_bytes (incrementSize (length bytes) (cache_write bytes cache)) = cached_bytes cache @ bytes"
  using assms
  by (auto simp: cache_inv_def cached_bytes_def incrementSize_def cache_write_def getRemainingBufferSize_def)

lemma parse_cached:
  assumes "list_all2 (\<lambda>msg out. sendable msg \<and> FixMessage_toString hash_order msg = Inr out) ms outs"
    "is_iteration hash_order" "sendable next" "FixMessage_toString hash_order next = Inr (partial @ c # rest)"
    "cache_inv cache" "cached_bytes cache = concat outs @ partial" "cache_size cache < cache_capacity cache"
  shows "\<exists>ms'. list_all2 received_as ms ms' \<and> cache_size cache = length (concat outs) + length partial \<and>
    parseMultipleMessagesFromBuffer mem (cache_buffer cache) (cache_size cache) [] 0 = Inr (length ms, ms', length (concat outs)) \<and>
    (ms \<noteq> [] \<longrightarrow> concat outs \<noteq> [])"
proof -
  let ?post = "drop (cache_size cache) (cache_buffer cache)"
  have b: "cache_buffer cache = concat outs @ partial @ ?post"
    using assms(6) append_take_drop_id[of "cache_size cache" "cache_buffer cache"] by (simp add: cached_bytes_def)
  have "length (cached_bytes cache) = cache_size cache"
    using assms(5) by (simp add: cache_inv_def cached_bytes_def)
  then have n: "cache_size cache = length (concat outs @ partial)" unfolding assms(6) by simp
  have post: "?post \<noteq> []" using assms(5,7) by (simp add: cache_inv_def)
  obtain ms' where "list_all2 received_as ms ms'"
    "parseMultipleMessagesFromBuffer mem (concat outs @ partial @ ?post) (length (concat outs @ partial)) [] 0 =
      Inr (length ms, ms', length (concat outs))"
    using parse_stream[OF assms(1-4) post] by blast
  moreover have "concat outs \<noteq> []" if "ms \<noteq> []"
    using assms(1) that printed_not_Nil by (auto simp: list_all2_Cons1 neq_Nil_conv)
  ultimately show ?thesis using b n by (metis length_append)
qed

text \<open>The last bytes of a message arrive and nothing follows them.\<close>

lemma parse_completed:
  assumes "sendable msg" "is_iteration hash_order" "FixMessage_toString hash_order msg = Inr out"
    "cache_inv cache" "cached_bytes cache = out" "cache_size cache < cache_capacity cache"
  shows "\<exists>m'. FixReceiveCache_parse mem [] cache = Inr (1, [m'], cache\<lparr>cache_size := 0\<rparr>) \<and> received_as msg m'"
proof -
  obtain c rest where out: "out = c # rest" using printed_not_Nil[OF assms(3)] by (cases out) auto
  obtain ms' where ms': "list_all2 received_as [msg] ms'" "cache_size cache = length out"
    "parseMultipleMessagesFromBuffer mem (cache_buffer cache) (cache_size cache) [] 0 = Inr (1, ms', length out)"
    using parse_cached[of hash_order "[msg]" "[out]" msg "[]" c rest cache mem] assms out by auto
  then obtain m' where "ms' = [m']" "received_as msg m'" by (auto simp: list_all2_Cons1)
  then show ?thesis using ms'(2,3) out by (simp add: FixReceiveCache_parse_def)
qed

section \<open>A sample cache\<close>

text \<open>A complete message and the first \<open>n\<close> bytes of another one.\<close>

definition sample_cache :: "string \<Rightarrow> FixReceiveCache" where
  "sample_cache partial = \<lparr>cache_capacity = 60, cache_size = length (sample_text @ partial),
     cache_buffer = take 60 (sample_text @ partial @ replicate 60 NUL)\<rparr>"

lemma sample_cache_ok:
  assumes "length partial < 7"
  shows "cache_inv (sample_cache partial)" "cached_bytes (sample_cache partial) = sample_text @ partial"
    "cache_size (sample_cache partial) < cache_capacity (sample_cache partial)"
proof -
  have "length sample_text = 53" by (simp add: sample_text_def)
  then show "cache_inv (sample_cache partial)" "cached_bytes (sample_cache partial) = sample_text @ partial"
    "cache_size (sample_cache partial) < cache_capacity (sample_cache partial)"
    using assms by (simp_all add: sample_cache_def cache_inv_def cached_bytes_def min_def)
qed

section \<open>Properties\<close>

text \<open>The cache keeps exactly the incomplete message. When it holds some printed messages followed by
  a strict prefix of another one, is not full, and the prefix is not longer than the messages before
  it and not a single byte, \<open>parse\<close> delivers these messages in order, and what stays in the cache
  is the prefix, ready to be completed by the next bytes.\<close>

theorem receive_cache_keeps_partial:
  assumes "list_all2 (\<lambda>msg out. sendable msg \<and> FixMessage_toString hash_order msg = Inr out) ms outs"
    "is_iteration hash_order" "sendable next" "FixMessage_toString hash_order next = Inr (partial @ c # rest)"
    "cache_inv cache" "cached_bytes cache = concat outs @ partial" "cache_size cache < cache_capacity cache"
    "length partial \<noteq> 1" "ms \<noteq> [] \<longrightarrow> length partial \<le> length (concat outs)"
  shows "\<exists>ms' cache'. FixReceiveCache_parse mem [] cache = Inr (length ms, ms', cache') \<and>
    list_all2 received_as ms ms' \<and> cache_inv cache' \<and> cached_bytes cache' = partial \<and>
    cache_capacity cache' = cache_capacity cache"
proof -
  obtain ms' where ms': "list_all2 received_as ms ms'" "cache_size cache = length (concat outs) + length partial"
    "parseMultipleMessagesFromBuffer mem (cache_buffer cache) (cache_size cache) [] 0 = Inr (length ms, ms', length (concat outs))"
    "ms \<noteq> [] \<longrightarrow> concat outs \<noteq> []"
    using parse_cached[OF assms(1-7)] by blast
  let ?L = "length (concat outs)" and ?P = "length partial"
  have drop: "take ?P (drop ?L (cache_buffer cache)) = partial"
    using arg_cong[where f = "drop ?L", OF assms(6)] ms'(2) by (simp add: cached_bytes_def drop_take)
  consider "ms = []" | "ms \<noteq> []" "?P = 0" | "ms \<noteq> []" "2 \<le> ?P" using assms(8) by linarith
  then show ?thesis
  proof cases
    case 1
    then have "outs = []" using assms(1) by simp
    then show ?thesis using 1 ms' assms(5,6) by (simp add: FixReceiveCache_parse_def)
  next
    case 2
    then have "cache_size cache \<noteq> 0" "\<not> ?L < ?L - 1" using ms'(2,4) by auto
    then have "FixReceiveCache_parse mem [] cache = Inr (length ms, ms', cache\<lparr>cache_size := 0\<rparr>)"
      using 2 ms'(2,3) by (auto simp: FixReceiveCache_parse_def Let_def)
    then show ?thesis using 2 ms'(1) assms(5) by (simp add: cache_inv_def cached_bytes_def)
  next
    case 3
    let ?cache = "cache\<lparr>cache_buffer := take ?P (drop ?L (cache_buffer cache)) @ drop ?P (cache_buffer cache), cache_size := ?P\<rparr>"
    have "?L + ?P - 1 - ?L + 1 = ?P" using 3 by simp
    then have "moveBufferToStart ?L (?L + ?P - 1) cache = Inr ?cache"
      using 3(1) assms(9) by (simp only: moveBufferToStart_def Let_def) simp
    then have "FixReceiveCache_parse mem [] cache = Inr (length ms, ms', ?cache)"
      using 3 ms'(2,3) by (auto simp: FixReceiveCache_parse_def Let_def)
    moreover have "cache_inv ?cache" "cached_bytes ?cache = partial"
      using assms(5) ms'(2) unfolding drop by (auto simp: cache_inv_def cached_bytes_def)
    ultimately show ?thesis using ms'(1) by auto
  qed
qed

theorem receive_cache_keeps_partial_witness:
  "\<exists>ms' cache'. FixReceiveCache_parse 0 [] (sample_cache ''8='') = Inr (1, ms', cache') \<and>
     list_all2 received_as [sample_message] ms' \<and> cached_bytes cache' = ''8=''"
proof -
  obtain c rest where "FixMessage_toString (\<lambda>es. es) sample_message = Inr (''8='' @ c # rest)"
    using sample_message_prints sample_text_first(2) by auto
  moreover have "2 \<le> length sample_text" by (simp add: sample_text_def)
  ultimately show ?thesis
    using receive_cache_keeps_partial[of "\<lambda>es. es" "[sample_message]" "[sample_text]" sample_message "''8=''" c rest "sample_cache ''8=''" 0]
      is_iteration_id sample_message_sendable sample_message_prints sample_cache_ok[of "''8=''"] by auto
qed

text \<open>A single byte that follows complete messages is lost: in the situation above with an incomplete
  message of which exactly one byte has arrived, the cache is empty afterwards.\<close>

lemma receive_cache_drops_single_byte:
  assumes "list_all2 (\<lambda>msg out. sendable msg \<and> FixMessage_toString hash_order msg = Inr out) ms outs"
    "is_iteration hash_order" "sendable next" "FixMessage_toString hash_order next = Inr (partial @ c # rest)"
    "cache_inv cache" "cached_bytes cache = concat outs @ partial" "cache_size cache < cache_capacity cache"
    "length partial = 1" "ms \<noteq> []"
  shows "\<exists>ms' cache'. FixReceiveCache_parse mem [] cache = Inr (length ms, ms', cache') \<and> cached_bytes cache' = []"
proof -
  obtain ms' where "cache_size cache = length (concat outs) + length partial"
    "parseMultipleMessagesFromBuffer mem (cache_buffer cache) (cache_size cache) [] 0 = Inr (length ms, ms', length (concat outs))"
    using parse_cached[OF assms(1-7)] by blast
  then have "FixReceiveCache_parse mem [] cache = Inr (length ms, ms', cache\<lparr>cache_size := 0\<rparr>)"
    using assms(8,9) by (simp add: FixReceiveCache_parse_def Let_def)
  then show ?thesis by (simp add: cached_bytes_def)
qed

end
