(* ===== verification/File_Utility.thy ===== *)
theory File_Utility
  imports Cpp_String
begin

text \<open>
  \<open>source/core/file_utility.h\<close> and \<open>source/core/datetime_utility.h\<close>. A file system is a map from
  path names to contents; which names can be written is a parameter. Path names are C strings. The
  clock is a parameter: the calendar text and the sub-second counters are read from it.
\<close>

section \<open>Files\<close>

type_synonym files = "string \<rightharpoonup> string"

text \<open>
  \<open>getDirectoryNameFromPath\<close> copies the characters of the path without a terminating NUL and then
  searches them as a C string, so the bytes after the copy (\<open>beyond\<close>, up to a NUL) take part.
\<close>

definition getDirectoryNameFromPath :: "string \<Rightarrow> string \<Rightarrow> string result" where
  "getDirectoryNameFromPath beyond fullPath =
     (if fullPath = [] then Inl Out_of_bounds
      else let path = c_str (fullPath @ beyond)
           in Inr (if CHR ''/'' \<in> set path
                   then rev (tl (dropWhile (\<lambda>c. c \<noteq> CHR ''/'') (rev path)))
                   else path))"

definition readAllFile :: "files \<Rightarrow> string \<Rightarrow> string" where
  "readAllFile fs fileName = (case fs (c_str fileName) of None \<Rightarrow> [] | Some content \<Rightarrow> content)"

text \<open>\<open>std::ios_base::app\<close> appends, \<open>std::ios_base::out\<close> truncates; both create the file.\<close>

definition appendTextToFile :: "(string \<Rightarrow> bool) \<Rightarrow> string \<Rightarrow> string \<Rightarrow> bool \<Rightarrow> files \<Rightarrow> bool \<times> files" where
  "appendTextToFile writable fileName text createIfNecessary fs =
     (let p = c_str fileName
      in if \<not> writable p then (False, fs)
         else (True, fs(p \<mapsto> (if createIfNecessary then (case fs p of None \<Rightarrow> [] | Some c \<Rightarrow> c) @ text else text))))"

definition doesFileExist :: "files \<Rightarrow> string \<Rightarrow> bool" where
  "doesFileExist fs fileName = (fs (c_str fileName) \<noteq> None)"

definition deleteFile :: "(string \<Rightarrow> bool) \<Rightarrow> string \<Rightarrow> files \<Rightarrow> bool \<times> files" where
  "deleteFile writable fileName fs =
     (let p = c_str fileName
      in if fs p = None \<or> \<not> writable p then (False, fs) else (True, fs(p := None)))"

text \<open>
  Directories. The calls \<open>rename\<close> and \<open>mkdir\<close> are arguments that answer with a status; the mode
  of \<open>mkdir\<close> is written 777 without the leading 0 of an octal number.
\<close>

definition backupDirectory :: "(string \<Rightarrow> string \<Rightarrow> int) \<Rightarrow> string \<Rightarrow> string \<Rightarrow> string \<Rightarrow> bool" where
  "backupDirectory rename existingName newName targetDirectory =
     (let actualNewName = targetDirectory @ ''//'' @ newName
      in if rename (c_str existingName) (c_str actualNewName) \<noteq> 0 then False else True)"

definition createDirectory :: "(string \<Rightarrow> 32 word \<Rightarrow> int) \<Rightarrow> string \<Rightarrow> bool" where
  "createDirectory mkdir dirName = (if mkdir (c_str dirName) 777 \<noteq> 0 then False else True)"

text \<open>
  Bits 8, 7 and 6 of a mode let the owner read, write and search, bits 2, 1 and 0 the others: in the
  new directory its owner cannot create a file, and the mode is not the one that was meant.
\<close>

lemma createDirectory_mode:
  "createDirectory (\<lambda>_ mode. if bit mode 7 \<or> bit mode 6 then 0 else - 1) dirName = False"
  "createDirectory (\<lambda>_ mode. if mode = 0x1FF then 0 else - 1) dirName = False"
  by (simp_all add: createDirectory_def bit_numeral_rec)

section \<open>Time stamps\<close>

datatype Subseconds = SECONDS | MILLISECONDS | MICROSECONDS

text \<open>A reading of the system clock: seconds and microseconds since the epoch, both in UTC.\<close>

record clock =
  clock_text :: string
  clock_seconds :: int
  clock_microseconds :: nat

definition getMilliseconds :: "clock \<Rightarrow> nat" where
  "getMilliseconds now = (clock_microseconds now div 1000) mod 1000"

definition getMicroseconds :: "clock \<Rightarrow> nat" where
  "getMicroseconds now = clock_microseconds now mod 1000000"

text \<open>\<open>std::setw\<close> pads with the fill character on the left.\<close>

definition getCurrentDateTime :: "clock \<Rightarrow> Subseconds \<Rightarrow> string" where
  "getCurrentDateTime now subseconds = clock_text now @
     (case subseconds of
        SECONDS \<Rightarrow> []
      | MILLISECONDS \<Rightarrow> CHR ''.'' # padLeft (show_nat (getMilliseconds now)) 3 (CHR ''0'')
      | MICROSECONDS \<Rightarrow> CHR ''.'' # padLeft (show_nat (getMicroseconds now)) 6 (CHR ''0''))"

definition getUtcDatetime :: "clock \<Rightarrow> Subseconds \<Rightarrow> string" where
  "getUtcDatetime now subseconds = getCurrentDateTime now subseconds"

definition getSubsecondsFromString :: "string \<Rightarrow> Subseconds" where
  "getSubsecondsFromString input =
     (if compare input ''MILLISECONDS'' then MILLISECONDS
      else if compare input ''MICROSECONDS'' then MICROSECONDS
      else SECONDS)"

lemma show_nat_width: "0 < k \<Longrightarrow> n < 10 ^ k \<Longrightarrow> length (show_nat n) \<le> k"
proof (induction k arbitrary: n)
  case (Suc k)
  show ?case
  proof (cases "n < 10")
    case False
    then have "n div 10 < 10 ^ k" "0 < k" using Suc.prems by (auto simp: less_mult_imp_div_less intro!: gr0I)
    then have "length (show_nat (n div 10)) \<le> k" by (rule Suc.IH[rotated])
    then show ?thesis using False by (simp add: show_nat.simps[of n])
  qed (simp add: show_nat.simps[of n])
qed simp

text \<open>Time stamps of one precision all have the same length.\<close>

lemma length_getUtcDatetime:
  "length (getUtcDatetime now p) = length (clock_text now) + (case p of SECONDS \<Rightarrow> 0 | MILLISECONDS \<Rightarrow> 4 | MICROSECONDS \<Rightarrow> 7)"
proof -
  have "length (show_nat (getMilliseconds now)) \<le> 3" by (rule show_nat_width) (simp_all add: getMilliseconds_def)
  moreover have "length (show_nat (getMicroseconds now)) \<le> 6" by (rule show_nat_width) (simp_all add: getMicroseconds_def)
  ultimately show ?thesis by (simp add: getUtcDatetime_def getCurrentDateTime_def split: Subseconds.split)
qed

end
