(* ===== verification/Fix_Sequence_Store.thy ===== *)
theory Fix_Sequence_Store
  imports File_Utility
begin

text \<open>
  \<open>fix::FixSequenceStore\<close> (\<open>source/fix/fix_sequence_store.h\<close>): the sequence numbers of a session,
  kept in a text file per pair of parties.
\<close>

definition getSequenceStoreFileName :: "string \<Rightarrow> string \<Rightarrow> string" where
  "getSequenceStoreFileName senderCompId targetCompid = senderCompId @ ''_'' @ targetCompid @ ''_sequence.txt''"

text \<open>Returns the outgoing and the incoming sequence number.\<close>

definition loadFromSequenceStore :: "files \<Rightarrow> string \<Rightarrow> string \<Rightarrow> (cint \<times> cint) result" where
  "loadFromSequenceStore fs senderCompId targetCompid =
     (let fileName = getSequenceStoreFileName senderCompId targetCompid
      in if \<not> doesFileExist fs fileName then Inr (1, 0)
         else let numbers = split (readAllFile fs fileName) (CHR '','')
              in res_bind (vec_at numbers 0) (\<lambda>n0. res_bind (stoi n0) (\<lambda>outgoing.
                 res_bind (vec_at numbers 1) (\<lambda>n1. res_bind (stoi n1) (\<lambda>incoming.
                 Inr (word_of_int outgoing, word_of_int incoming))))))"

definition updateSequenceStore :: "(string \<Rightarrow> bool) \<Rightarrow> string \<Rightarrow> string \<Rightarrow> cint \<Rightarrow> cint \<Rightarrow> files \<Rightarrow> files" where
  "updateSequenceStore writable senderCompId targetCompid outgoingSequenceNumber incomingSequenceNumber fs =
     (let fileName = getSequenceStoreFileName senderCompId targetCompid;
          newContent = to_string (sint outgoingSequenceNumber) @ '','' @ to_string (sint incomingSequenceNumber);
          fs1 = snd (deleteFile writable fileName fs)
      in snd (appendTextToFile writable fileName newContent True fs1))"

section \<open>The interface of a sequence store\<close>

text \<open>
  A session relies on this: what was saved for a pair of parties is what is loaded for it, and
  saving for one store file does not disturb another.
\<close>

locale sequence_store =
  fixes load :: "'s \<Rightarrow> 'k \<Rightarrow> (cint \<times> cint) result"
    and save :: "'k \<Rightarrow> cint \<times> cint \<Rightarrow> 's \<Rightarrow> 's"
    and same_file :: "'k \<Rightarrow> 'k \<Rightarrow> bool"
    and usable :: "'k \<Rightarrow> bool"
  assumes load_save: "usable k \<Longrightarrow> load (save k ns s) k = Inr ns"
    and load_other: "\<not> same_file k k' \<Longrightarrow> load (save k ns s) k' = load s k'"
begin

text \<open>The last save for a key decides, whatever was saved for other files since.\<close>

lemma load_last_save:
  assumes "usable k" "\<And>k' ns'. (k', ns') \<in> set later \<Longrightarrow> \<not> same_file k' k"
  shows "load (fold (\<lambda>(k', ns'). save k' ns') later (save k ns s)) k = Inr ns"
  using assms(2)
proof (induction later rule: rev_induct)
  case Nil
  then show ?case using load_save[OF assms(1)] by simp
next
  case (snoc l later)
  obtain k' ns' where l: "l = (k', ns')" by (cases l) auto
  then have "\<not> same_file k' k" using snoc.prems[of k' ns'] by simp
  moreover have "load (fold (\<lambda>(k', ns'). save k' ns') later (save k ns s)) k = Inr ns"
    by (rule snoc.IH) (use snoc.prems in auto)
  ultimately show ?case using l load_other by simp
qed

end

definition store_path :: "string \<times> string \<Rightarrow> string" where
  "store_path k = c_str (getSequenceStoreFileName (fst k) (snd k))"

lemma load_after_update:
  assumes "writable (store_path k)"
  shows "loadFromSequenceStore (updateSequenceStore writable (fst k) (snd k) outgoing incoming fs) (fst k) (snd k) =
    Inr (outgoing, incoming)"
proof -
  let ?text = "to_string (sint outgoing) @ '','' @ to_string (sint incoming)"
  let ?fs = "updateSequenceStore writable (fst k) (snd k) outgoing incoming fs"
  have "?fs (store_path k) = Some ?text"
    using assms by (simp add: updateSequenceStore_def appendTextToFile_def deleteFile_def store_path_def Let_def)
  then have "doesFileExist ?fs (getSequenceStoreFileName (fst k) (snd k))"
    "readAllFile ?fs (getSequenceStoreFileName (fst k) (snd k)) = ?text"
    by (simp_all add: doesFileExist_def readAllFile_def store_path_def)
  moreover have "split ?text (CHR '','') = [to_string (sint outgoing), to_string (sint incoming)]"
    using split_token[of "CHR '',''" "to_string (sint outgoing)" "to_string (sint incoming)"] by simp
  moreover have "stoi (to_string (sint w)) = Inr (sint w)" for w :: cint
    using sint_range_32[of w] by (intro stoi_to_string) simp_all
  ultimately show ?thesis by (simp add: loadFromSequenceStore_def Let_def)
qed

lemma load_other_file:
  assumes "store_path k \<noteq> store_path k'"
  shows "loadFromSequenceStore (updateSequenceStore writable (fst k) (snd k) outgoing incoming fs) (fst k') (snd k') =
    loadFromSequenceStore fs (fst k') (snd k')"
proof -
  have "updateSequenceStore writable (fst k) (snd k) outgoing incoming fs (store_path k') = fs (store_path k')"
    using assms by (simp add: updateSequenceStore_def appendTextToFile_def deleteFile_def store_path_def Let_def)
  then show ?thesis
    by (simp add: loadFromSequenceStore_def doesFileExist_def readAllFile_def store_path_def Let_def)
qed

interpretation file_store: sequence_store
  "\<lambda>fs k. loadFromSequenceStore fs (fst k) (snd k)"
  "\<lambda>k ns. updateSequenceStore writable (fst k) (snd k) (fst ns) (snd ns)"
  "\<lambda>k k'. store_path k = store_path k'" "\<lambda>k. writable (store_path k)"
  by unfold_locales (simp_all add: load_after_update load_other_file)

section \<open>Properties\<close>

text \<open>Sequence numbers survive a disconnect. What was last saved for a session is what is loaded for
  it, for all values of the two 32-bit numbers, after any number of saves for sessions with other
  store files.\<close>

theorem sequence_numbers_survive:
  assumes "writable (store_path (sender, target))"
    "\<forall>k ns. (k, ns) \<in> set later \<longrightarrow> store_path k \<noteq> store_path (sender, target)"
  shows "loadFromSequenceStore
    (fold (\<lambda>((s, t), (o', i')). updateSequenceStore writable s t o' i') later
      (updateSequenceStore writable sender target outgoing incoming fs)) sender target = Inr (outgoing, incoming)"
proof -
  have "(\<lambda>(k', ns'). updateSequenceStore writable (fst k') (snd k') (fst ns') (snd ns')) =
      (\<lambda>((s, t), (o', i')). updateSequenceStore writable s t o' i')" by auto
  moreover have "\<not> store_path k = store_path (sender, target)" if "(k, ns) \<in> set later" for k ns
    using assms(2) that by blast
  ultimately show ?thesis
    using file_store.load_last_save[of writable "(sender, target)" later "(outgoing, incoming)" fs, OF assms(1)]
    by simp
qed

theorem sequence_numbers_survive_witness:
  "loadFromSequenceStore (updateSequenceStore (\<lambda>_. True) ''S'' ''D'' 9 9
     (updateSequenceStore (\<lambda>_. True) ''S'' ''C'' 7 5 (\<lambda>_. None))) ''S'' ''C'' = Inr (7, 5)"
  using sequence_numbers_survive[of "\<lambda>_. True" "''S''" "''C''" "[((''S'', ''D''), (9, 9))]" 7 5 "\<lambda>_. None"]
  by (simp add: store_path_def getSequenceStoreFileName_def c_str_def)

end
