(* ===== verification/Fix_Session.thy ===== *)
theory Fix_Session
  imports Fix_Receive_Cache Fix_Sequence_Store
begin

text \<open>
  \<open>fix::FixSession\<close> (\<open>source/fix/fix_session.h\<close>, \<open>fix_session.cpp\<close>): sequence numbers, the messages a
  session builds itself, validation, sending and the two ways of receiving. What the outside world
  contributes to one call is the record \<open>fix_env\<close> (clock, hash order, result of the \<open>send\<close> system
  call, contents of uninitialised storage); what \<open>recv\<close> delivers is an argument. The bytes written
  to the socket are part of the result.
\<close>

section \<open>State\<close>

record FixSession =
  session_fixVersion :: int
  m_outgoingSequenceNumber :: cint
  m_incomingSequenceNumber :: cint
  m_heartBeatInterval :: int
  m_encryptionMethod :: int
  m_tcpConnection :: "nat option"
  m_locksAllocated :: bool
  m_receiveCache :: "FixReceiveCache option"
  session_targetCompId :: string
  m_timePrecision :: Subseconds
  m_lastReceivedTime :: int
  m_lastSentTime :: int
  m_isUsingExternalTCPConnectionManager :: bool

record fix_env =
  env_clock :: clock
  env_hash_order :: "(int \<times> string) list \<Rightarrow> (int \<times> string) list"
  env_send :: "string \<Rightarrow> int"
  env_message_type :: int
  env_bytes :: string

definition FixSession_new :: FixSession where
  "FixSession_new = \<lparr>session_fixVersion = FixVersion_value FIX_VERSION_NONE,
     m_outgoingSequenceNumber = 1, m_incomingSequenceNumber = 1, m_heartBeatInterval = 30,
     m_encryptionMethod = FIX_ENCRYPTION_NONE, m_tcpConnection = None, m_locksAllocated = False,
     m_receiveCache = None, session_targetCompId = [], m_timePrecision = MICROSECONDS,
     m_lastReceivedTime = 0, m_lastSentTime = 0, m_isUsingExternalTCPConnectionManager = False\<rparr>"

definition FixSession_initialise :: "string \<Rightarrow> nat option \<Rightarrow> Subseconds \<Rightarrow> nat \<Rightarrow> FixSession \<Rightarrow> FixSession" where
  "FixSession_initialise mem connection timePrecision receiveCacheSize session =
     session\<lparr>m_tcpConnection := connection, m_timePrecision := timePrecision, m_locksAllocated := True,
       m_receiveCache := Some (if receiveCacheSize > 0
         then FixReceiveCache_initialise mem receiveCacheSize FixReceiveCache_new else FixReceiveCache_new)\<rparr>"

text \<open>
  The copy constructor copies all members, pointers included, but the last one, which stays as the
  storage had it (\<open>mem\<close>). Both objects then own the same locks and cache. Nothing copies a session.
\<close>

definition FixSession_copy :: "bool \<Rightarrow> FixSession \<Rightarrow> FixSession" where
  "FixSession_copy mem other = other\<lparr>m_isUsingExternalTCPConnectionManager := mem\<rparr>"

definition connected :: "FixSession \<Rightarrow> bool" where
  "connected session = (m_tcpConnection session \<noteq> None)"

text \<open>\<open>difftime\<close> of two whole-second times, converted to \<open>size_t\<close>.\<close>

definition getSecondsSinceLastReceive :: "clock \<Rightarrow> FixSession \<Rightarrow> csize" where
  "getSecondsSinceLastReceive now session = word_of_int (clock_seconds now - m_lastReceivedTime session)"

definition getSecondsSinceLastSend :: "clock \<Rightarrow> FixSession \<Rightarrow> csize" where
  "getSecondsSinceLastSend now session = word_of_int (clock_seconds now - m_lastSentTime session)"

definition restoreSequenceNumbersFromStore :: "string \<Rightarrow> files \<Rightarrow> FixSession \<Rightarrow> FixSession result" where
  "restoreSequenceNumbersFromStore compid fs session =
     res_bind (loadFromSequenceStore fs compid (session_targetCompId session)) (\<lambda>(outgoing, incoming).
       Inr (session\<lparr>m_outgoingSequenceNumber := outgoing, m_incomingSequenceNumber := incoming\<rparr>))"

definition saveSequenceNumbersToStore :: "(string \<Rightarrow> bool) \<Rightarrow> string \<Rightarrow> FixSession \<Rightarrow> files \<Rightarrow> files" where
  "saveSequenceNumbersToStore writable compid session =
     updateSequenceStore writable compid (session_targetCompId session)
       (m_outgoingSequenceNumber session) (m_incomingSequenceNumber session)"

section \<open>Messages built by a session\<close>

definition getBaseMessage :: "string \<Rightarrow> FixSession \<Rightarrow> MessageType \<Rightarrow> FixMessage \<Rightarrow> FixMessage" where
  "getBaseMessage compid session messageType msg =
     msg\<lparr>m_fixVersion := session_fixVersion session, m_messageType := MessageType_value messageType,
         m_senderCompId := compid, m_targetCompId := session_targetCompId session\<rparr>"

definition getLogonMessage :: "string \<Rightarrow> FixSession \<Rightarrow> FixMessage \<Rightarrow> FixMessage" where
  "getLogonMessage compid session msg =
     setTag_int FIX_TAG_ENCRYPT_METHOD (m_encryptionMethod session)
       (setTag_int FIX_TAG_HEARBEAT_INTERVAL (m_heartBeatInterval session)
         (getBaseMessage compid session LOGON msg))"

text \<open>
  The reference sequence number is read from the reject message itself, and reading it inserts it.
\<close>

definition getAdminRejectionMessage :: "string \<Rightarrow> FixSession \<Rightarrow> FixMessage \<Rightarrow> FixMessage" where
  "getAdminRejectionMessage compid session msg =
     (let (value, msg') = getTagValue FIX_TAG_SEQUENCE_NUMBER (getBaseMessage compid session ADMIN_REJECT msg)
      in setTag FIX_TAG_REF_SEQ_NUM value msg')"

definition getLogoffMessage :: "string \<Rightarrow> FixSession \<Rightarrow> FixMessage \<Rightarrow> FixMessage" where
  "getLogoffMessage compid session = getBaseMessage compid session LOGOFF"

definition getHeartBeatMessage :: "string \<Rightarrow> FixSession \<Rightarrow> FixMessage \<Rightarrow> FixMessage" where
  "getHeartBeatMessage compid session = getBaseMessage compid session HEARTBEAT"

definition getExecutionReportMessage :: "string \<Rightarrow> FixSession \<Rightarrow> FixMessage \<Rightarrow> FixMessage" where
  "getExecutionReportMessage compid session = getBaseMessage compid session EXECUTION_REPORT"

definition getUserLogonResponseMessage :: "string \<Rightarrow> FixSession \<Rightarrow> FixMessage \<Rightarrow> FixMessage" where
  "getUserLogonResponseMessage compid session = getBaseMessage compid session USER_RESPONSE"

section \<open>Sending\<close>

text \<open>Returns the result of the system call, the session and the bytes handed to the socket.\<close>

definition FixSession_send :: "fix_env \<Rightarrow> FixMessage \<Rightarrow> FixSession \<Rightarrow> (int \<times> FixSession \<times> string) result" where
  "FixSession_send env msg session =
     (let time = getUtcDatetime (env_clock env) (m_timePrecision session)
      in if \<not> m_locksAllocated session then Inl Null_dereference
         else let msg1 = msg\<lparr>m_sequenceNumber := scast (m_outgoingSequenceNumber session), m_sendingTime := time\<rparr>;
                  msg2 = (if \<not> isAdminMessage msg then setTag FIX_TAG_TRANSACTION_TIME time msg1 else msg1)
              in res_bind (FixMessage_toString (env_hash_order env) msg2) (\<lambda>messageAsString.
                 case m_tcpConnection session of
                   None \<Rightarrow> Inl Null_dereference
                 | Some _ \<Rightarrow> Inr (env_send env messageAsString,
                     session\<lparr>m_outgoingSequenceNumber := m_outgoingSequenceNumber session + 1,
                             m_lastSentTime := clock_seconds (env_clock env)\<rparr>,
                     messageAsString)))"

section \<open>Handling admin messages\<close>

definition fresh_message :: "fix_env \<Rightarrow> FixMessage" where
  "fresh_message env = FixMessage_new (env_message_type env)"

definition handleLogonMessage ::
  "fix_env \<Rightarrow> string \<Rightarrow> files \<Rightarrow> FixMessage \<Rightarrow> FixSession \<Rightarrow> (FixSession \<times> string) result" where
  "handleLogonMessage env compid fs msg session =
     (let session1 = session\<lparr>session_targetCompId := m_senderCompId msg\<rparr>
      in res_bind (restoreSequenceNumbersFromStore compid fs session1) (\<lambda>session2.
         res_bind (getTagValueAsInt FIX_TAG_HEARBEAT_INTERVAL msg) (\<lambda>(heartbeatInterval, msg1).
         let session3 = session2\<lparr>m_heartBeatInterval := heartbeatInterval, session_fixVersion := m_fixVersion msg1\<rparr>
         in res_bind (getTagValueAsInt FIX_TAG_ENCRYPT_METHOD msg1) (\<lambda>(encryptionMethod, _).
            let session4 = session3\<lparr>m_encryptionMethod := encryptionMethod\<rparr>
            in res_bind (FixSession_send env (getLogonMessage compid session4 (fresh_message env)) session4)
                 (\<lambda>(_, session5, bytes). Inr (session5, bytes))))))"

definition handleAdminMessage ::
  "fix_env \<Rightarrow> string \<Rightarrow> FixMessage \<Rightarrow> FixSession \<Rightarrow> (FixSession \<times> string) result" where
  "handleAdminMessage env compid msg session =
     (let messageType = m_messageType msg;
          reply = (\<lambda>m. res_bind (FixSession_send env m session) (\<lambda>(_, session', bytes). Inr (session', bytes)))
      in if messageType = MessageType_value LOGOFF
         then reply (getLogoffMessage compid session (fresh_message env))
         else if messageType = MessageType_value HEARTBEAT
         then reply (getHeartBeatMessage compid session (fresh_message env))
         else if messageType = MessageType_value TEST_REQUEST
         then let (testRequestId, _) = getTagValue FIX_TAG_TEST_REQUEST_ID msg
              in reply (setTag FIX_TAG_TEST_REQUEST_ID testRequestId
                          (getHeartBeatMessage compid session (fresh_message env)))
         else if messageType = MessageType_value USER_LOGON
         then let (userRequestId, msg1) = getTagValue FIX_TAG_USER_REQUEST_ID msg;
                  (userName, _) = getTagValue FIX_TAG_USERNAME msg1
              in reply (setTag FIX_TAG_USERNAME userName (setTag FIX_TAG_USER_REQUEST_ID userRequestId
                          (getUserLogonResponseMessage compid session (fresh_message env))))
         else Inr (session, []))"

section \<open>Receiving\<close>

text \<open>The outcome of \<open>recv\<close>: some bytes, or a result that is not positive.\<close>

datatype recv_result = Recv_data string | Recv_none int

definition receiveWithCaching ::
  "fix_env \<Rightarrow> (nat \<Rightarrow> recv_result) \<Rightarrow> FixSession \<Rightarrow> (FixMessage list \<times> FixSession) result" where
  "receiveWithCaching env recv session =
     (case (m_receiveCache session, m_tcpConnection session) of
        (Some cache, Some _) \<Rightarrow>
          (case recv (getRemainingBufferSize cache) of
             Recv_none _ \<Rightarrow> Inr ([], session)
           | Recv_data bytes \<Rightarrow>
               let cache1 = incrementSize (length bytes) (cache_write bytes cache);
                   session1 = session\<lparr>m_lastReceivedTime := clock_seconds (env_clock env)\<rparr>
               in res_bind (FixReceiveCache_parse (env_message_type env) [] cache1) (\<lambda>(_, msgs, cache2).
                    Inr (msgs, session1\<lparr>m_receiveCache := Some cache2\<rparr>)))
      | _ \<Rightarrow> Inl Null_dereference)"

text \<open>
  The search of \<open>receive\<close> through the first bytes: the digits after \<open>9=\<close> up to a delimiter, if
  there is one, and the position of \<open>35\<close>.
\<close>

definition digits_after :: "string \<Rightarrow> nat \<Rightarrow> nat \<Rightarrow> (string \<times> nat) option" where
  "digits_after buffer receivedSize i =
     (let ds = takeWhile (\<lambda>c. c \<noteq> FIX_DELIMITER) (drop (i + 2) (take receivedSize buffer))
      in if i + 2 + length ds < receivedSize then Some (ds, i + 2 + length ds) else None)"

function scan_header :: "string \<Rightarrow> nat \<Rightarrow> nat \<Rightarrow> csize \<Rightarrow> (csize \<times> nat) result" where
  "scan_header buffer receivedSize i fixBodyLength =
     (if i < receivedSize
      then res_bind (if buffer ! i = CHR ''9'' \<and> buffer ! (i + 1) = FIX_EQUALS
                     then case digits_after buffer receivedSize i of
                            Some (ds, j) \<Rightarrow> res_bind (stoi ds) (\<lambda>n. Inr (word_of_int n, j))
                          | None \<Rightarrow> Inr (fixBodyLength, i)
                     else Inr (fixBodyLength, i))
             (\<lambda>(len, i'). if buffer ! i' = CHR ''3'' \<and> buffer ! (i' + 1) = CHR ''5'' then Inr (len, i')
                else scan_header buffer receivedSize (i' + 1) len)
      else Inr (fixBodyLength, 0))"
  by pat_completeness auto
termination
  by (relation "measure (\<lambda>(b, n, i, l). n - i)")
    (auto simp: digits_after_def Let_def split: if_splits option.splits)

declare scan_header.simps [simp del]

text \<open>
  \<open>receive\<close>: a first \<open>recv\<close> of 20 bytes into a stack buffer of 1024 bytes, then the rest of the
  message. The number of missing bytes is computed in \<open>size_t\<close>. Returns the length (or the result
  that is not positive), the message and the session.
\<close>

definition FixSession_receive ::
  "fix_env \<Rightarrow> (nat \<Rightarrow> recv_result) \<Rightarrow> (nat \<Rightarrow> recv_result) \<Rightarrow> FixMessage \<Rightarrow> FixSession \<Rightarrow>
   (int \<times> FixMessage \<times> FixSession) result" where
  "FixSession_receive env recv1 recv2 msg session =
     (case m_tcpConnection session of
        None \<Rightarrow> Inl Null_dereference
      | Some _ \<Rightarrow> (case recv1 20 of
          Recv_none n \<Rightarrow> Inr (n, msg, session)
        | Recv_data first \<Rightarrow>
            let stackBuffer = take 1024 (first @ drop (length first) (env_bytes env) @ replicate 1024 NUL)
            in res_bind (scan_header stackBuffer (length first) 0 0) (\<lambda>(fixBodyLength, receivedBodyStartIndex).
               let receivedBodyLength = of_nat (length first) - of_nat receivedBodyStartIndex;
                   remainingBytes = fixBodyLength - receivedBodyLength + 7;
                   session' = session\<lparr>m_lastReceivedTime := clock_seconds (env_clock env)\<rparr>
               in if remainingBytes + 20 > (1024 :: csize)
                  then if 2 ^ 63 \<le> unat remainingBytes then Inl Std_bad_alloc
                       else (case recv2 (unat remainingBytes) of
                               Recv_none n \<Rightarrow> Inr (n, msg, session)
                             | Recv_data rest \<Rightarrow> res_bind (parseFromMultipleBuffers msg first rest) (\<lambda>msg'.
                                 Inr (int (length first + length rest), msg', session')))
                  else (case recv2 (unat remainingBytes) of
                          Recv_none n \<Rightarrow> Inr (n, msg, session)
                        | Recv_data rest \<Rightarrow>
                            if 1024 < length first + length rest then Inl Out_of_bounds
                            else res_bind (parseFromBuffer msg (first @ rest)) (\<lambda>msg'.
                                   Inr (int (length first + length rest), msg', session'))))))"

section \<open>Validation\<close>

definition validateSequenceNumber :: "cint \<Rightarrow> FixSession \<Rightarrow> bool" where
  "validateSequenceNumber incomingSequenceNumber session =
     (m_incomingSequenceNumber session + 1 = incomingSequenceNumber)"

definition validateSequenceNumber_message :: "FixMessage \<Rightarrow> FixSession \<Rightarrow> bool" where
  "validateSequenceNumber_message msg = validateSequenceNumber (ucast (m_sequenceNumber msg))"

definition validateTargetCompid :: "string \<Rightarrow> FixMessage \<Rightarrow> bool" where
  "validateTargetCompid compid msg = compare (m_targetCompId msg) compid"

text \<open>The \<open>verifyTag\<close> calls of a group, in order: the first missing tag.\<close>

definition verifyTags :: "FixMessage \<Rightarrow> int \<Rightarrow> int list \<Rightarrow> bool \<times> int" where
  "verifyTags msg missingTag tags = (case List.find (\<lambda>t. \<not> hasTag t msg) tags of
       Some t \<Rightarrow> (False, t) | None \<Rightarrow> (True, missingTag))"

definition validateRequiredTags :: "FixMessage \<Rightarrow> int \<Rightarrow> bool \<times> int" where
  "validateRequiredTags msg missingTag =
     (if m_fixVersion msg = FixVersion_value FIX_VERSION_NONE then (False, missingTag)
      else if \<not> hasTag FIX_TAG_BODY_LENGTH msg then (False, FIX_TAG_BODY_LENGTH)
      else if m_messageType msg = MessageType_value MESSAGE_TYPE_NONE then (False, missingTag)
      else if \<not> hasTag FIX_TAG_BODY_CHECKSUM msg then (False, FIX_TAG_BODY_CHECKSUM)
      else if m_sequenceNumber msg = 0 then (False, missingTag)
      else if length (m_senderCompId msg) = 0 then (False, missingTag)
      else if length (m_targetCompId msg) = 0 then (False, missingTag)
      else if m_messageType msg = MessageType_value LOGON
      then verifyTags msg missingTag [FIX_TAG_HEARBEAT_INTERVAL, FIX_TAG_ENCRYPT_METHOD]
      else if m_messageType msg = MessageType_value NEW_ORDER
      then if length (m_sendingTime msg) = 0 then (False, missingTag)
           else verifyTags msg missingTag [FIX_TAG_SYMBOL, FIX_TAG_CLIENT_ORDER_ID, FIX_TAG_ORDER_QUANTITY,
                  FIX_TAG_ORDER_PRICE, FIX_TAG_ORDER_SIDE, FIX_TAG_ORDER_TYPE, FIX_TAG_TRANSACTION_TIME]
      else if m_messageType msg = MessageType_value CANCEL
      then if length (m_sendingTime msg) = 0 then (False, missingTag)
           else verifyTags msg missingTag [FIX_TAG_CLIENT_ORDER_ID, FIX_TAG_ORIG_CLIENT_ORDER_ID]
      else (True, missingTag))"

section \<open>Lemmas\<close>

lemma send_Inr:
  assumes "FixSession_send env msg session = Inr (ret, session', bytes)"
  obtains msg2 where "FixMessage_toString (env_hash_order env) msg2 = Inr bytes"
    "msg2 = (if isAdminMessage msg then id
             else setTag FIX_TAG_TRANSACTION_TIME (getUtcDatetime (env_clock env) (m_timePrecision session)))
       (msg\<lparr>m_sequenceNumber := scast (m_outgoingSequenceNumber session),
            m_sendingTime := getUtcDatetime (env_clock env) (m_timePrecision session)\<rparr>)"
    "ret = env_send env bytes" "connected session"
    "session' = session\<lparr>m_outgoingSequenceNumber := m_outgoingSequenceNumber session + 1,
       m_lastSentTime := clock_seconds (env_clock env)\<rparr>"
  using assms by (auto simp: FixSession_send_def Let_def connected_def split: if_splits option.splits)

lemma fst_verifyTags: "fst (verifyTags msg mt tags) \<longleftrightarrow> (\<forall>u \<in> set tags. hasTag u msg)"
  using find_None_iff[of "\<lambda>t. \<not> hasTag t msg" tags] by (cases "List.find (\<lambda>t. \<not> hasTag t msg) tags") (auto simp: verifyTags_def)

text \<open>The tags a message of a type must have in its body.\<close>

definition required_tags :: "int \<Rightarrow> int list" where
  "required_tags type = [FIX_TAG_BODY_LENGTH, FIX_TAG_BODY_CHECKSUM] @
     (if type = MessageType_value LOGON then [FIX_TAG_HEARBEAT_INTERVAL, FIX_TAG_ENCRYPT_METHOD]
      else if type = MessageType_value NEW_ORDER then [FIX_TAG_SYMBOL, FIX_TAG_CLIENT_ORDER_ID, FIX_TAG_ORDER_QUANTITY,
                  FIX_TAG_ORDER_PRICE, FIX_TAG_ORDER_SIDE, FIX_TAG_ORDER_TYPE, FIX_TAG_TRANSACTION_TIME]
      else if type = MessageType_value CANCEL then [FIX_TAG_CLIENT_ORDER_ID, FIX_TAG_ORIG_CLIENT_ORDER_ID]
      else [])"

definition header_complete :: "FixMessage \<Rightarrow> bool" where
  "header_complete msg \<longleftrightarrow> m_fixVersion msg \<noteq> 0 \<and> m_messageType msg \<noteq> 0 \<and> m_sequenceNumber msg \<noteq> 0 \<and>
     m_senderCompId msg \<noteq> [] \<and> m_targetCompId msg \<noteq> [] \<and>
     (m_messageType msg = MessageType_value NEW_ORDER \<or> m_messageType msg = MessageType_value CANCEL \<longrightarrow>
        m_sendingTime msg \<noteq> [])"

lemma validateRequiredTags_iff:
  "fst (validateRequiredTags msg mt) \<longleftrightarrow> header_complete msg \<and> (\<forall>t \<in> set (required_tags (m_messageType msg)). hasTag t msg)"
  by (auto simp: validateRequiredTags_def header_complete_def required_tags_def fst_verifyTags)

lemma field_value_time: "field_value (clock_text now) \<Longrightarrow> field_value (getUtcDatetime now p)"
proof -
  have "field_value (show_nat n)" for n using field_value_to_string[of "int n"] by (simp add: to_string_def)
  then have "field_value (padLeft (show_nat n) k (CHR ''0''))" for n k
    by (auto simp: padLeft_def field_value_def)
  then show "field_value (clock_text now) \<Longrightarrow> ?thesis"
    by (auto simp: getUtcDatetime_def getCurrentDateTime_def field_value_def split: Subseconds.split)
qed

lemma scast_sequence_number:
  assumes "0 \<le> sint (w :: cint)"
  shows "unat (scast w :: csize) = nat (sint w)" "unat (scast w :: csize) < 2 ^ 31"
proof -
  have "uint (scast w :: csize) = uint (word_of_int (sint w) :: csize)" by (simp only: scast_eq)
  also have "\<dots> = sint w mod 2 ^ 64" by (simp only: uint_word_of_int) simp
  also have "\<dots> = sint w" using assms sint_range_32[of w] by simp
  finally show "unat (scast w :: csize) = nat (sint w)" by (metis unat_eq_nat_uint)
  then show "unat (scast w :: csize) < 2 ^ 31" using sint_range_32[of w] by (simp add: nat_less_iff)
qed

lemma scan_header_blank:
  "(\<And>k. i \<le> k \<Longrightarrow> k < n \<Longrightarrow> \<not> (buffer ! k = CHR ''9'' \<and> buffer ! (k + 1) = FIX_EQUALS) \<and>
     \<not> (buffer ! k = CHR ''3'' \<and> buffer ! (k + 1) = CHR ''5'')) \<Longrightarrow> scan_header buffer n i l = Inr (l, 0)"
proof (induction "n - i" arbitrary: i)
  case 0
  then show ?case by (simp add: scan_header.simps)
next
  case (Suc m)
  then have "i < n" and rec: "scan_header buffer n (i + 1) l = Inr (l, 0)" by simp_all
  then have "\<not> (buffer ! i = CHR ''9'' \<and> buffer ! (i + 1) = FIX_EQUALS)" "\<not> (buffer ! i = CHR ''3'' \<and> buffer ! (i + 1) = CHR ''5'')"
    using Suc.prems[of i] by simp_all
  then show ?case using rec by (subst scan_header.simps) (simp only: if_False res_bind_simps prod.case, simp)
qed

lemma send_received:
  assumes "FixSession_send env msg session = Inr (ret, session', bytes)"
    "is_iteration (env_hash_order env)" "0 \<le> sint (m_outgoingSequenceNumber session)"
    "distinct (map fst (m_bodyTagValuePairs msg))"
    "\<forall>(t, v) \<in> set (m_bodyTagValuePairs msg). int_tag t \<and> field_value v \<and> t \<notin> header_tags \<union> {9, 10}"
    "field_value (m_senderCompId msg)" "field_value (m_targetCompId msg)" "field_value (clock_text (env_clock env))"
  shows "(\<exists>m'. parseFromBuffer (FixMessage_new mem) bytes = Inr m' \<and>
      m_messageType m' = m_messageType msg \<and> m_fixVersion m' = m_fixVersion msg \<and>
      m_senderCompId m' = m_senderCompId msg \<and> m_targetCompId m' = m_targetCompId msg \<and>
      (\<forall>t. t \<notin> {9, 10, 60} \<longrightarrow> map_of (m_bodyTagValuePairs m') t = map_of (m_bodyTagValuePairs msg) t) \<and>
      unat (m_sequenceNumber m') = nat (sint (m_outgoingSequenceNumber session)) \<and>
      m_sendingTime m' = getUtcDatetime (env_clock env) (m_timePrecision session)) \<and>
    session' = session\<lparr>m_outgoingSequenceNumber := m_outgoingSequenceNumber session + 1,
       m_lastSentTime := clock_seconds (env_clock env)\<rparr>"
proof -
  let ?time = "getUtcDatetime (env_clock env) (m_timePrecision session)"
  from assms(1) obtain msg2 where
    p: "FixMessage_toString (env_hash_order env) msg2 = Inr bytes" and
    m2: "msg2 = (if isAdminMessage msg then id else setTag FIX_TAG_TRANSACTION_TIME ?time)
       (msg\<lparr>m_sequenceNumber := scast (m_outgoingSequenceNumber session), m_sendingTime := ?time\<rparr>)" and
    s': "session' = session\<lparr>m_outgoingSequenceNumber := m_outgoingSequenceNumber session + 1,
       m_lastSentTime := clock_seconds (env_clock env)\<rparr>"
    by (rule send_Inr)
  note sq = scast_sequence_number[OF assms(3)]
  have time: "field_value ?time" by (rule field_value_time[OF assms(8)])
  have "int_tag t \<and> field_value v \<and> t \<notin> header_tags \<union> {9, 10}"
    if "(t, v) \<in> set (AList.update 60 ?time (m_bodyTagValuePairs msg))" for t v
  proof -
    have "(t, v) = (60, ?time) \<or> (t, v) \<in> set (m_bodyTagValuePairs msg)"
      using alist_update_cases[OF that] .
    then show ?thesis using assms(5) time by (auto simp: int_tag_def header_tags_def)
  qed
  then have "sendable msg2"
    using assms(4-7) sq time by (auto simp: m2 sendable_def setTag_def distinct_update)
  from parse_printed[OF this assms(2) p] obtain m' where
    "parseFromBuffer (FixMessage_new mem) bytes = Inr m'" "received_as msg2 m'" by blast
  moreover have "map_of (m_bodyTagValuePairs msg2) t = map_of (m_bodyTagValuePairs msg) t" if "t \<noteq> 60" for t
    using that by (simp add: m2 setTag_def)
  moreover have "m_messageType msg2 = m_messageType msg" "m_fixVersion msg2 = m_fixVersion msg"
    "m_senderCompId msg2 = m_senderCompId msg" "m_targetCompId msg2 = m_targetCompId msg"
    "m_sequenceNumber msg2 = scast (m_outgoingSequenceNumber session)" "m_sendingTime msg2 = ?time"
    by (simp_all add: m2 setTag_def)
  ultimately show ?thesis using s' sq(1) by (auto simp: received_as_def)
qed

section \<open>A sample session\<close>

definition sample_clock :: clock where
  "sample_clock = \<lparr>clock_text = ''20161118-10:00:00'', clock_seconds = 100, clock_microseconds = 0\<rparr>"

definition sample_env :: fix_env where
  "sample_env = \<lparr>env_clock = sample_clock, env_hash_order = (\<lambda>es. es), env_send = (\<lambda>s. int (length s)),
     env_message_type = 0, env_bytes = []\<rparr>"

definition sample_session :: FixSession where
  "sample_session = (FixSession_initialise [] (Some 0) SECONDS 0 FixSession_new)\<lparr>session_fixVersion := FixVersion_value FIX_4_2,
     session_targetCompId := ''C'', m_outgoingSequenceNumber := 7, m_incomingSequenceNumber := 5\<rparr>"

lemma sample_send:
  "\<exists>session' bytes. FixSession_send sample_env sample_message sample_session = Inr (int (length bytes), session', bytes)"
  by (simp add: FixSession_send_def sample_session_def FixSession_initialise_def isAdminMessage_def sample_message_def
      FixMessage_toString_def calculateBodyLength_def calculateHeaderLength_def table_at_def FIX_VERSION_STRINGS_def
      FIX_MESSAGE_TYPE_STRINGS_def sample_env_def Let_def)

section \<open>Properties\<close>

text \<open>C25: Sending uses up exactly one outgoing sequence number, and the peer reads it. When a session whose
  outgoing number is not negative sends a message without separators in its fields, whose body holds no tag twice,
  no header tag (8, 34, 35, 49, 52, 56) and not the tags 9 and 10, the bytes on the wire parse (whatever the hash order)
  to a message with the type, version, parties and tags of the original (the transaction time apart), the session's outgoing sequence
  number and the current time; the session's outgoing number is increased by one and nothing else
  about it changes but the time of the last send. (The admin reject the program builds, with its empty
  sequence number tag in the body, is not such a message.)\<close>

theorem send_numbers_messages:
  assumes "FixSession_send env msg session = Inr (ret, session', bytes)"
    "is_iteration (env_hash_order env)" "0 \<le> sint (m_outgoingSequenceNumber session)"
    "distinct (map fst (m_bodyTagValuePairs msg))"
    "\<forall>(t, v) \<in> set (m_bodyTagValuePairs msg). int_tag t \<and> field_value v \<and> t \<notin> header_tags \<union> {9, 10}"
    "field_value (m_senderCompId msg)" "field_value (m_targetCompId msg)" "field_value (clock_text (env_clock env))"
  shows "(\<exists>m'. parseFromBuffer (FixMessage_new mem) bytes = Inr m' \<and>
      m_messageType m' = m_messageType msg \<and> m_fixVersion m' = m_fixVersion msg \<and>
      m_senderCompId m' = m_senderCompId msg \<and> m_targetCompId m' = m_targetCompId msg \<and>
      (\<forall>t. t \<notin> {9, 10, 60} \<longrightarrow> map_of (m_bodyTagValuePairs m') t = map_of (m_bodyTagValuePairs msg) t) \<and>
      unat (m_sequenceNumber m') = nat (sint (m_outgoingSequenceNumber session)) \<and>
      m_sendingTime m' = getUtcDatetime (env_clock env) (m_timePrecision session)) \<and>
    session' = session\<lparr>m_outgoingSequenceNumber := m_outgoingSequenceNumber session + 1,
       m_lastSentTime := clock_seconds (env_clock env)\<rparr>"
  using assms by (rule send_received)

theorem send_numbers_messages_witness:
  "\<exists>session' bytes m'. FixSession_send sample_env sample_message sample_session = Inr (int (length bytes), session', bytes) \<and>
     parseFromBuffer (FixMessage_new 0) bytes = Inr m' \<and> unat (m_sequenceNumber m') = 7 \<and> m_outgoingSequenceNumber session' = 8"
proof -
  obtain session' bytes where send: "FixSession_send sample_env sample_message sample_session = Inr (int (length bytes), session', bytes)"
    using sample_send by blast
  have "is_iteration (env_hash_order sample_env)" using is_iteration_id by (simp add: sample_env_def)
  moreover have "m_outgoingSequenceNumber sample_session = 7" by (simp add: sample_session_def)
  moreover have "field_value (clock_text (env_clock sample_env))" by (simp add: sample_env_def sample_clock_def field_value_def)
  ultimately show ?thesis
    using send_numbers_messages[OF send, of 0] send sample_message_sendable
    by (fastforce simp: sendable_def)
qed

text \<open>Required tags. A message is accepted exactly when its header is complete and every tag its type
  requires is present; in particular a logon, an order or a cancel that reaches its handler has all
  the tags that are required of it.\<close>

theorem required_tags_checked:
  "fst (validateRequiredTags msg 0) \<longleftrightarrow>
     header_complete msg \<and> list_all (\<lambda>t. hasTag t msg) (required_tags (m_messageType msg))"
  by (simp add: validateRequiredTags_iff list_all_iff)

text \<open>The reference sequence number of an admin reject is always empty, and the reject carries an
  empty sequence number tag in its body, because the number is read from the new message instead of
  the rejected one.\<close>

lemma admin_reject_reference_empty:
  "map_of (m_bodyTagValuePairs (getAdminRejectionMessage compid session (FixMessage_new mem))) FIX_TAG_REF_SEQ_NUM = Some [] \<and>
   map_of (m_bodyTagValuePairs (getAdminRejectionMessage compid session (FixMessage_new mem))) FIX_TAG_SEQUENCE_NUMBER = Some []"
  by (simp add: getAdminRejectionMessage_def getBaseMessage_def getTagValue_def setTag_def FixMessage_new_def)

text \<open>C40: A peer can overrun the stack buffer of \<open>receive\<close>. If the first \<open>recv\<close> gives 8 to 20 bytes that hold
  neither \<open>9=\<close> nor \<open>35\<close> and end in neither 9 nor 3, whatever else they are, the number of missing bytes
  wraps around to almost 2^64, the sum that is compared with the size of the buffer wraps around
  again and is small, and the second \<open>recv\<close> may write that many bytes behind the first ones: when it
  delivers more than is left of the 1024 bytes, they leave the buffer.\<close>

theorem receive_overruns_buffer:
  assumes "connected session" "recv1 20 = Recv_data first" "8 \<le> length first" "length first \<le> 20"
    "\<forall>k. Suc k < length first \<longrightarrow> \<not> (first ! k = CHR ''9'' \<and> first ! Suc k = FIX_EQUALS) \<and>
       \<not> (first ! k = CHR ''3'' \<and> first ! Suc k = CHR ''5'')"
    "last first \<noteq> CHR ''9''" "last first \<noteq> CHR ''3''"
    "recv2 (2 ^ 64 - (length first - 7)) = Recv_data rest" "1024 < length first + length rest"
  shows "FixSession_receive env recv1 recv2 msg session = Inl Out_of_bounds"
proof -
  define n where "n = length first"
  let ?buffer = "take 1024 (first @ drop n (env_bytes env) @ replicate 1024 NUL)"
  have first: "?buffer ! k = first ! k" if "k < n" for k using that assms(4) by (simp add: nth_append n_def)
  have "last first = first ! (n - 1)" using assms(3) by (subst last_conv_nth) (auto simp: n_def)
  then have scan: "scan_header ?buffer n 0 0 = Inr (0, 0)"
    using first assms(5,6,7) by (intro scan_header_blank) (metis Suc_eq_plus1 Suc_lessI diff_Suc_1 n_def)
  have neg: "of_nat (2 ^ 64 - (n - 7)) = (- of_nat (n - 7) :: csize)"
  proof -
    have "n - 7 \<le> 2 ^ 64" using assms(4) by (simp add: n_def)
    then have "of_nat (2 ^ 64 - (n - 7)) + of_nat (n - 7) = (of_nat (2 ^ 64) :: csize)"
      by (simp only: of_nat_add[symmetric] le_add_diff_inverse2)
    then show ?thesis by (simp add: eq_neg_iff_add_eq_0)
  qed
  have "(0 - (of_nat n - of_nat 0) + 7 :: csize) = of_nat (2 ^ 64 - (n - 7))"
    using assms(3) unfolding neg by (simp add: of_nat_diff n_def)
  moreover have "unat (of_nat (2 ^ 64 - (n - 7)) :: csize) = 2 ^ 64 - (n - 7)"
    using assms(3) by (simp add: unat_of_nat n_def)
  moreover have "of_nat (2 ^ 64 - (n - 7)) + 20 = (of_nat (27 - n) :: csize)"
    using assms(3,4) unfolding neg by (simp add: of_nat_diff n_def)
  moreover have "unat (of_nat (27 - n) :: csize) = 27 - n" by (simp add: unat_of_nat)
  ultimately have missing: "unat (0 - (of_nat n - of_nat 0) + 7 :: csize) = 2 ^ 64 - (n - 7)"
      "\<not> (0 - (of_nat n - of_nat 0) + 7) + 20 > (1024 :: csize)"
    by (simp_all only: word_less_nat_alt) simp
  obtain sock where "m_tcpConnection session = Some sock" using assms(1) by (auto simp: connected_def)
  then show ?thesis using assms(8,9)
    by (simp only: FixSession_receive_def option.case recv_result.case Let_def assms(2) n_def[symmetric] scan
        res_bind_simps prod.case missing if_False if_True)
qed

theorem receive_overruns_buffer_witness:
  "FixSession_receive sample_env (\<lambda>_. Recv_data ''GET / HTTP/1.1'') (\<lambda>_. Recv_data (replicate 1012 (CHR ''y'')))
     (FixMessage_new 0) sample_session = Inl Out_of_bounds"
proof (rule receive_overruns_buffer[where rest = "replicate 1012 (CHR ''y'')" and first = "''GET / HTTP/1.1''"])
  have "\<forall>k < 13. \<not> (''GET / HTTP/1.1'' ! k = CHR ''9'' \<and> ''GET / HTTP/1.1'' ! Suc k = FIX_EQUALS) \<and>
       \<not> (''GET / HTTP/1.1'' ! k = CHR ''3'' \<and> ''GET / HTTP/1.1'' ! Suc k = CHR ''5'')"
    by code_simp
  then show "\<forall>k. Suc k < length ''GET / HTTP/1.1'' \<longrightarrow>
       \<not> (''GET / HTTP/1.1'' ! k = CHR ''9'' \<and> ''GET / HTTP/1.1'' ! Suc k = FIX_EQUALS) \<and>
       \<not> (''GET / HTTP/1.1'' ! k = CHR ''3'' \<and> ''GET / HTTP/1.1'' ! Suc k = CHR ''5'')" by simp
qed (simp_all add: connected_def sample_session_def FixSession_initialise_def)

end
