(* ===== verification/Fix_Versions.thy ===== *)
theory Fix_Versions
  imports Fix_Session
begin

text \<open>
  The version numbers that index \<open>FIX_VERSION_STRINGS\<close> (\<open>source/fix/fix_message.cpp\<close>,
  \<open>fix_parser.h\<close>, \<open>fix_receive_cache.cpp\<close>, \<open>fix_session.cpp\<close>): every message that the parsers
  deliver and every session carries one that is in the table, whatever bytes arrive.
\<close>

section \<open>Messages\<close>

definition version_known :: "int \<Rightarrow> bool" where
  "version_known v \<longleftrightarrow> 0 \<le> v \<and> v < int (length FIX_VERSION_STRINGS)"

lemma version_known_table: "version_known v \<longleftrightarrow> (\<exists>s. table_at FIX_VERSION_STRINGS v = Inr s)"
  by (auto simp: version_known_def table_at_def vec_at_def)

named_theorems versions

lemma version_known_string [versions]: "version_known (getFixVersionFromString s)" "version_known (FixVersion_value FIX_VERSION_NONE)"
  by (simp_all add: version_known_def getFixVersionFromString_def FIX_VERSION_STRINGS_def)

lemma version_tags [versions]:
  "m_fixVersion (setTag t v m) = m_fixVersion m" "m_fixVersion (removeTag t m) = m_fixVersion m"
  "m_fixVersion (snd (getTagValue t m)) = m_fixVersion m"
  by (simp_all add: setTag_def removeTag_def getTagValue_def split_beta)

lemma version_int_tag [versions]: "getTagValueAsInt t m = Inr (v, m') \<Longrightarrow> m_fixVersion m' = m_fixVersion m"
  by (auto simp: getTagValueAsInt_def split_beta versions)

lemma version_header_field:
  assumes "\<And>v m. version_known (m_fixVersion m) \<Longrightarrow> version_known (m_fixVersion (f v m))" "version_known (m_fixVersion m)"
  shows "version_known (m_fixVersion (header_field t f m))"
  using assms by (simp add: header_field_def split_beta Let_def versions)

lemma version_header:
  assumes "initialiseHeader m = Inr m'" "version_known (m_fixVersion m)"
  shows "version_known (m_fixVersion m')"
proof -
  let ?m1 = "header_field FIX_TAG_VERSION (\<lambda>v m. m\<lparr>m_fixVersion := getFixVersionFromString v\<rparr>) m"
  let ?m2 = "header_field FIX_TAG_MESSAGE_TYPE (\<lambda>v m. m\<lparr>m_messageType := getMessageTypeFromString v\<rparr>) ?m1"
  have 2: "version_known (m_fixVersion ?m2)"
    by (intro version_header_field) (simp_all add: versions assms(2))
  let ?seq = "if hasTag FIX_TAG_SEQUENCE_NUMBER ?m2
     then res_bind (getTagValueAsInt FIX_TAG_SEQUENCE_NUMBER ?m2) (\<lambda>(v, m).
            Inr (removeTag FIX_TAG_SEQUENCE_NUMBER (m\<lparr>m_sequenceNumber := word_of_int v\<rparr>)))
     else Inr ?m2"
  obtain m3 where seq: "?seq = Inr m3" and
    m': "m' = header_field FIX_TAG_TARGET_COMPID (\<lambda>v m. m\<lparr>m_targetCompId := v\<rparr>)
               (header_field FIX_TAG_SENDER_COMPID (\<lambda>v m. m\<lparr>m_senderCompId := v\<rparr>)
                 (header_field FIX_TAG_SENDING_TIME (\<lambda>v m. m\<lparr>m_sendingTime := v\<rparr>) m3))"
    using assms(1) unfolding initialiseHeader_def Let_def res_bind_Inr_iff by blast
  have "m_fixVersion m3 = m_fixVersion ?m2"
    using seq version_int_tag[of FIX_TAG_SEQUENCE_NUMBER ?m2] by (auto simp: version_tags split: if_splits)
  then have "version_known (m_fixVersion m3)" using 2 by simp
  then show ?thesis unfolding m' by (intro version_header_field) simp_all
qed

section \<open>Parsers\<close>

lemma version_parse_char: "parse_char c st = Inr st' \<Longrightarrow> m_fixVersion (ps_message st') = m_fixVersion (ps_message st)"
  by (auto simp: parse_char_def push_target_def versions split: if_splits)

lemma version_parseFromBuffer:
  assumes "parseFromBuffer msg input = Inr msg'" "version_known (m_fixVersion msg)"
  shows "version_known (m_fixVersion msg')"
proof -
  obtain st where st: "res_fold parse_char input (parse_start msg) = Inr st" "initialiseHeader (ps_message st) = Inr msg'"
    using assms(1) by (auto simp: parseFromBuffer_def)
  have "version_known (m_fixVersion (ps_message st))"
    by (rule res_fold_invariant[OF st(1)]) (use assms(2) version_parse_char in \<open>auto simp: parse_start_def\<close>)
  then show ?thesis using version_header[OF st(2)] by blast
qed

lemma version_two_buffers:
  "two_buffer_loop b b2 sw i st = Inr st' \<Longrightarrow> m_fixVersion (ps_message st') = m_fixVersion (ps_message st)"
proof (induction b b2 sw i st arbitrary: st' rule: two_buffer_loop.induct)
  case (1 b b2 sw i st)
  show ?case
  proof (cases "i < length b")
    case True
    then obtain st1 where p: "parse_char (b ! i) st = Inr st1"
      using "1.prems" by (auto simp: two_buffer_loop.simps[of b])
    have "m_fixVersion (ps_message st') = m_fixVersion (ps_message st1)"
      using "1.prems" "1.IH"[OF True p, of st'] True p by (auto simp: two_buffer_loop.simps[of b b2 sw i] split: if_splits)
    then show ?thesis using version_parse_char[OF p] by simp
  next
    case False
    then show ?thesis using "1.prems" by (simp add: two_buffer_loop.simps[of b])
  qed
qed

lemma version_parseFromMultipleBuffers:
  assumes "parseFromMultipleBuffers msg b1 b2 = Inr msg'" "version_known (m_fixVersion msg)"
  shows "version_known (m_fixVersion msg')"
proof -
  obtain st where st: "two_buffer_loop b1 b2 False 0 (parse_start msg) = Inr st" "initialiseHeader (ps_message st) = Inr msg'"
    using assms(1) by (auto simp: parseFromMultipleBuffers_def)
  then have "version_known (m_fixVersion (ps_message st))"
    using version_two_buffers[OF st(1)] assms(2) by (simp add: parse_start_def)
  then show ?thesis using version_header[OF st(2)] by blast
qed

text \<open>The framer: the message under construction and those that are complete.\<close>

definition frame_versions :: "frame_state \<Rightarrow> bool" where
  "frame_versions st \<longleftrightarrow> version_known (m_fixVersion (ps_message st)) \<and>
     (\<forall>m \<in> set (messages st). version_known (m_fixVersion m))"

lemma version_frame_char:
  assumes "frame_char i c st = Inr st'" "frame_versions st"
  shows "frame_versions st'"
proof -
  consider (same) "ps_message st' = ps_message st" "messages st' = messages st"
    | (tag) t v where "ps_message st' = setTag t v (ps_message st)" "messages st' = messages st"
    | (complete) t v m where "initialiseHeader (setTag t v (ps_message st)) = Inr m" "ps_message st' = FixMessage_reset m"
        "messages st' = messages st @ [m]"
    using assms(1) by (auto simp: frame_char_def push_target_def Let_def split: if_splits)
  then show ?thesis
  proof cases
    case (complete t v m)
    have "version_known (m_fixVersion m)"
      by (rule version_header[OF complete(1)]) (use assms(2) in \<open>simp add: frame_versions_def versions\<close>)
    then show ?thesis using assms(2) complete(2,3) version_known_string(2) by (auto simp: frame_versions_def FixMessage_reset_def)
  qed (use assms(2) in \<open>simp_all add: frame_versions_def versions\<close>)
qed

lemma version_frame_loop:
  "frame_loop b n i st = Inr st' \<Longrightarrow> frame_versions st \<Longrightarrow> frame_versions st'"
proof (induction b n i st arbitrary: st' rule: frame_loop.induct)
  case (1 b n i st)
  show ?case
  proof (cases "i < n")
    case True
    let ?st = "(push_target (b ! i) st)\<lparr>fixMessageStarted := True\<rparr>"
    have push: "frame_versions ?st" using "1.prems"(2) by (simp add: frame_versions_def push_target_def)
    obtain c where c: "vec_at b i = Inr c" using "1.prems"(1) True by (auto simp: frame_loop.simps[of b n i])
    then have c': "c = b ! i" by (simp add: vec_at_def split: if_splits)
    obtain starts where s: "(if c = CHR ''8'' then res_bind (vec_at b (i + 1)) (\<lambda>c. Inr (c = FIX_EQUALS)) else Inr False) = Inr starts"
      using "1.prems"(1) True c by (auto simp: frame_loop.simps[of b n i] split del: if_split)
    note IH = "1.IH"[OF True c s]
    show ?thesis
    proof (cases starts)
      case True
      then obtain st1 where "frame_char (i + 1) FIX_EQUALS ?st = Inr st1" "frame_loop b n (i + 2) st1 = Inr st'"
        using "1.prems"(1) \<open>i < n\<close> c s c' by (auto simp: frame_loop.simps[of b n i] split del: if_split)
      then show ?thesis using IH(1) True version_frame_char push c' by blast
    next
      case False
      then obtain st1 where "frame_char i c st = Inr st1" "frame_loop b n (i + 1) st1 = Inr st'"
        using "1.prems"(1) \<open>i < n\<close> c s by (auto simp: frame_loop.simps[of b n i] split del: if_split)
      then show ?thesis using IH(2) False version_frame_char "1.prems"(2) by blast
    qed
  next
    case False
    then show ?thesis using "1.prems" by (simp add: frame_loop.simps[of b n i])
  qed
qed

lemma version_cache_parse:
  assumes "FixReceiveCache_parse mem [] cache = Inr (k, msgs, cache')" "m \<in> set msgs"
  shows "version_known (m_fixVersion m)"
proof -
  obtain st where st: "frame_loop (cache_buffer cache) (cache_size cache) 0 (frame_start mem [] 0) = Inr st" "msgs = messages st"
    using assms(1) by (auto simp: FixReceiveCache_parse_def parseMultipleMessagesFromBuffer_def Let_def split: if_splits)
  have "frame_versions (frame_start mem [] 0)"
    by (simp add: frame_versions_def frame_start_def FixMessage_new_def version_known_def FIX_VERSION_STRINGS_def)
  from version_frame_loop[OF st(1) this] show ?thesis using st(2) assms(2) by (simp add: frame_versions_def)
qed

section \<open>Sessions\<close>

abbreviation session_known :: "FixSession \<Rightarrow> bool" where
  "session_known session \<equiv> version_known (session_fixVersion session)"

lemma version_receiveWithCaching:
  assumes "receiveWithCaching env recv session = Inr (msgs, session')"
  shows "session_fixVersion session' = session_fixVersion session \<and> (\<forall>m \<in> set msgs. version_known (m_fixVersion m))"
  using assms version_cache_parse
  by (auto simp: receiveWithCaching_def Let_def split: option.splits recv_result.splits)

lemma version_receive:
  assumes "FixSession_receive env recv1 recv2 msg session = Inr (n, msg', session')" "version_known (m_fixVersion msg)"
  shows "session_fixVersion session' = session_fixVersion session \<and> version_known (m_fixVersion msg')"
  using assms version_parseFromBuffer version_parseFromMultipleBuffers
  by (auto simp: FixSession_receive_def Let_def split: option.splits recv_result.splits if_splits)

lemma version_send: "FixSession_send env msg session = Inr (ret, session', bytes) \<Longrightarrow> session_fixVersion session' = session_fixVersion session"
  by (auto elim!: send_Inr)

lemma version_handleLogonMessage:
  assumes "handleLogonMessage env compid fs msg session = Inr (session', bytes)"
  shows "session_fixVersion session' = m_fixVersion msg"
  using assms by (auto simp: handleLogonMessage_def Let_def dest!: version_send version_int_tag)

lemma version_handleAdminMessage:
  assumes "handleAdminMessage env compid msg session = Inr (session', bytes)"
  shows "session_fixVersion session' = session_fixVersion session"
  using assms by (auto simp: handleAdminMessage_def Let_def split_beta dest: version_send split: if_splits)

end
