(* ===== verification/Tcp_Server.thy ===== *)
theory Tcp_Server
  imports Unordered_Map
begin

text \<open>
  The connection bookkeeping of \<open>core::Socket\<close>, \<open>core::TCPServer\<close> and \<open>core::TCPServerReactor\<close>
  (\<open>source/core/network/socket.cpp\<close>, \<open>tcp_server.h\<close>, \<open>tcp_server.cpp\<close>, \<open>tcp_server_reactor.cpp\<close>,
  Linux build): socket states, the slot table of peers, the descriptor table and the set of
  descriptors epoll watches. The descriptors that the process holds open are part of the state; the
  results of \<open>accept\<close> and \<open>epoll_wait\<close> are arguments.
\<close>

section \<open>Sockets\<close>

datatype SOCKET_STATE = DISCONNECTED | BOUND | CONNECTED | LISTENING | ACCEPTED

record Socket =
  m_socketDescriptor :: int
  m_state :: SOCKET_STATE

definition Socket_new :: Socket where
  "Socket_new = \<lparr>m_socketDescriptor = 0, m_state = DISCONNECTED\<rparr>"

text \<open>\<open>close\<close>, together with the descriptors that stay open.\<close>

definition Socket_close :: "Socket \<Rightarrow> int list \<Rightarrow> Socket \<times> int list" where
  "Socket_close sock fds =
     (if m_state sock \<noteq> DISCONNECTED
      then (sock\<lparr>m_state := DISCONNECTED\<rparr>,
            if m_socketDescriptor sock > 0 then removeAll (m_socketDescriptor sock) fds else fds)
      else (sock, fds))"

text \<open>The result of \<open>recv\<close> is an argument of the code that it does not look at.\<close>

definition isConnectionLost :: "int \<Rightarrow> int \<Rightarrow> Socket \<Rightarrow> bool \<times> Socket" where
  "isConnectionLost errorCode receiveResult sock =
     (let ret = (100 \<le> errorCode \<and> errorCode \<le> 104)
      in (ret, if ret then sock\<lparr>m_state := DISCONNECTED\<rparr> else sock))"

text \<open>\<open>accept\<close>: the system calls give a descriptor, or nothing on a timeout or an error.\<close>

definition Socket_accept :: "int option \<Rightarrow> Socket \<Rightarrow> Socket option \<times> Socket" where
  "Socket_accept peerSocketDesc sock =
     (if m_state sock \<noteq> LISTENING \<and> m_state sock \<noteq> ACCEPTED then (None, sock)
      else case peerSocketDesc of
             None \<Rightarrow> (None, sock)
           | Some d \<Rightarrow> (Some \<lparr>m_socketDescriptor = d, m_state = CONNECTED\<rparr>, sock\<lparr>m_state := ACCEPTED\<rparr>))"

section \<open>The server\<close>

record TCPServer =
  m_peerSockets :: "Socket list"
  m_peerSocketsConnectionFlags :: "bool list"
  m_socket :: Socket
  m_isStopping :: bool
  m_peerSocketIndexTable :: "(int \<times> nat) list"
  epoll_fds :: "int list"
  open_fds :: "int list"

text \<open>The index search of \<open>addPeer\<close>: the first free slot, or a new one.\<close>

definition addPeer :: "Socket \<Rightarrow> ('a TCPServer_scheme) \<Rightarrow> nat \<times> 'a TCPServer_scheme" where
  "addPeer peer srv =
     (case find_index Not (m_peerSocketsConnectionFlags srv) of
        None \<Rightarrow> (length (m_peerSockets srv),
                 srv\<lparr>m_peerSocketsConnectionFlags := m_peerSocketsConnectionFlags srv @ [True],
                     m_peerSockets := m_peerSockets srv @ [peer]\<rparr>)
      | Some i \<Rightarrow> (i, let (_, fds) = Socket_close (m_peerSockets srv ! i) (open_fds srv)
                     in srv\<lparr>m_peerSockets := (m_peerSockets srv)[i := peer], open_fds := fds,
                            m_peerSocketsConnectionFlags := (m_peerSocketsConnectionFlags srv)[i := True]\<rparr>))"

text \<open>\<open>m_peerSockets[peerIndex]->close()\<close>.\<close>

definition close_peer :: "nat \<Rightarrow> ('a TCPServer_scheme) \<Rightarrow> 'a TCPServer_scheme result" where
  "close_peer i srv = res_bind (vec_at (m_peerSockets srv) i) (\<lambda>sock.
     let (sock', fds) = Socket_close sock (open_fds srv)
     in Inr (srv\<lparr>m_peerSockets := (m_peerSockets srv)[i := sock'], open_fds := fds\<rparr>))"

definition removePeer :: "nat \<Rightarrow> ('a TCPServer_scheme) \<Rightarrow> 'a TCPServer_scheme result" where
  "removePeer peerIndex srv =
     res_bind (vec_at (m_peerSocketsConnectionFlags srv) peerIndex) (\<lambda>_.
       close_peer peerIndex (srv\<lparr>m_peerSocketsConnectionFlags := (m_peerSocketsConnectionFlags srv)[peerIndex := False]\<rparr>))"

definition TCPServer_onClientConnected :: "nat \<Rightarrow> ('a TCPServer_scheme) \<Rightarrow> 'a TCPServer_scheme result" where
  "TCPServer_onClientConnected peerIndex srv =
     res_bind (vec_at (m_peerSockets srv) peerIndex) (\<lambda>sock.
       let sd = m_socketDescriptor sock
       in Inr (srv\<lparr>m_peerSocketIndexTable := AList.update sd peerIndex (m_peerSocketIndexTable srv),
                   epoll_fds := epoll_fds srv @ [sd]\<rparr>))"

definition TCPServer_onClientDisconnected :: "nat \<Rightarrow> ('a TCPServer_scheme) \<Rightarrow> 'a TCPServer_scheme result" where
  "TCPServer_onClientDisconnected peerIndex srv =
     res_bind (vec_at (m_peerSockets srv) peerIndex) (\<lambda>sock.
       removePeer peerIndex (srv\<lparr>epoll_fds := removeAll (m_socketDescriptor sock) (epoll_fds srv)\<rparr>))"

text \<open>
  \<open>acceptNewConnection\<close> and the event loop call virtual functions: \<open>connected\<close> is
  \<open>onClientConnected\<close>, \<open>disconnected\<close> is \<open>onClientDisconnected\<close> and \<open>handle\<close> is \<open>handleClient\<close>
  of the derived class.
\<close>

definition acceptNewConnection ::
  "(nat \<Rightarrow> 'a TCPServer_scheme \<Rightarrow> 'a TCPServer_scheme result) \<Rightarrow> int option \<Rightarrow> 'a TCPServer_scheme \<Rightarrow> 'a TCPServer_scheme result" where
  "acceptNewConnection connected peerSocketDesc srv =
     (let (peerSocket, listener) = Socket_accept peerSocketDesc (m_socket srv);
          srv1 = srv\<lparr>m_socket := listener\<rparr>
      in case peerSocket of
           None \<Rightarrow> Inr srv1
         | Some peer \<Rightarrow>
             let (peerIndex, srv2) = addPeer peer (srv1\<lparr>open_fds := open_fds srv1 @ [m_socketDescriptor peer]\<rparr>)
             in connected peerIndex srv2)"

text \<open>One epoll event: the descriptor and whether it is a plain \<open>EPOLLIN\<close>.\<close>

definition reactor_event ::
  "(nat \<Rightarrow> 'a TCPServer_scheme \<Rightarrow> 'a TCPServer_scheme result) \<Rightarrow>
   (nat \<Rightarrow> 'a TCPServer_scheme \<Rightarrow> 'a TCPServer_scheme result) \<Rightarrow>
   (nat \<Rightarrow> 'a TCPServer_scheme \<Rightarrow> 'a TCPServer_scheme result) \<Rightarrow>
   int \<times> bool \<times> int option \<Rightarrow> 'a TCPServer_scheme \<Rightarrow> 'a TCPServer_scheme result" where
  "reactor_event connected disconnected handle event srv =
     (let (fd, valid, accepted) = event;
          (peerIndex, table) = umap_index 0 fd (m_peerSocketIndexTable srv);
          srv1 = srv\<lparr>m_peerSocketIndexTable := table\<rparr>
      in if valid
         then if fd = m_socketDescriptor (m_socket srv1)
              then acceptNewConnection connected accepted srv1
              else handle peerIndex srv1
         else disconnected peerIndex srv1)"

text \<open>One round of \<open>reactorThread\<close>: the events that \<open>epoll_wait\<close> reports, in order.\<close>

definition reactor_round ::
  "(nat \<Rightarrow> 'a TCPServer_scheme \<Rightarrow> 'a TCPServer_scheme result) \<Rightarrow>
   (nat \<Rightarrow> 'a TCPServer_scheme \<Rightarrow> 'a TCPServer_scheme result) \<Rightarrow>
   (nat \<Rightarrow> 'a TCPServer_scheme \<Rightarrow> 'a TCPServer_scheme result) \<Rightarrow>
   (int \<times> bool \<times> int option) list \<Rightarrow> 'a TCPServer_scheme \<Rightarrow> 'a TCPServer_scheme result" where
  "reactor_round connected disconnected handle events srv =
     (if m_isStopping srv then Inr srv
      else res_fold (reactor_event connected disconnected handle) events srv)"

definition TCPServer_stop :: "('a TCPServer_scheme) \<Rightarrow> 'a TCPServer_scheme" where
  "TCPServer_stop srv = srv\<lparr>m_isStopping := True\<rparr>"

section \<open>Slot tables\<close>

text \<open>
  The interface behind \<open>addPeer\<close> and its twin for sessions: a table of slots with a flag each.
  Adding takes the first free slot, overwrites nothing that is in use and leaves the other slots
  alone; removing frees one slot.
\<close>

locale slot_table =
  fixes flags :: "'t \<Rightarrow> bool list"
    and entry :: "'t \<Rightarrow> nat \<Rightarrow> 'e"
    and add :: "'e \<Rightarrow> 't \<Rightarrow> nat \<times> 't"
    and remove :: "nat \<Rightarrow> 't \<Rightarrow> 't result"
    and wf :: "'t \<Rightarrow> bool"
    and closable :: "'t \<Rightarrow> nat \<Rightarrow> bool"
  assumes add_index: "wf t \<Longrightarrow> fst (add e t) = (case find_index Not (flags t) of Some i \<Rightarrow> i | None \<Rightarrow> length (flags t))"
    and add_wf: "wf t \<Longrightarrow> wf (snd (add e t))"
    and add_flags: "wf t \<Longrightarrow> flags (snd (add e t)) =
          (if fst (add e t) < length (flags t) then (flags t)[fst (add e t) := True] else flags t @ [True])"
    and add_entry: "wf t \<Longrightarrow> entry (snd (add e t)) (fst (add e t)) = e"
    and add_other: "wf t \<Longrightarrow> j < length (flags t) \<Longrightarrow> j \<noteq> fst (add e t) \<Longrightarrow> entry (snd (add e t)) j = entry t j"
    and remove_flags: "wf t \<Longrightarrow> i < length (flags t) \<Longrightarrow> closable t i \<Longrightarrow> \<exists>t'. remove i t = Inr t' \<and> wf t' \<and> flags t' = (flags t)[i := False]"
begin

definition in_use :: "'t \<Rightarrow> nat set" where
  "in_use t = {i. i < length (flags t) \<and> flags t ! i}"

lemma find_index_Not: "find_index Not bs = Some i \<Longrightarrow> i < length bs \<and> \<not> bs ! i \<and> (\<forall>j < i. bs ! j)"
  using find_index_SomeD[of Not bs i] by auto

lemma add_fresh:
  assumes "wf t"
  shows "fst (add e t) \<notin> in_use t"
proof (cases "find_index Not (flags t)")
  case None
  then show ?thesis using add_index[OF assms, of e] by (simp add: in_use_def)
next
  case (Some i)
  then show ?thesis using add_index[OF assms, of e] find_index_Not[OF Some] by (simp add: in_use_def)
qed

lemma add_in_use:
  assumes "wf t"
  shows "in_use (snd (add e t)) = insert (fst (add e t)) (in_use t)"
proof -
  have "fst (add e t) \<le> length (flags t)"
    using add_index[OF assms, of e] find_index_Not[of "flags t"] by (auto split: option.splits)
  then show ?thesis
    using add_flags[OF assms, of e] by (auto simp: in_use_def nth_append nth_list_update)
qed

lemma add_keeps_used:
  assumes "wf t" "j \<in> in_use t"
  shows "entry (snd (add e t)) j = entry t j"
  using add_other[OF assms(1), of j e] add_fresh[OF assms(1), of e] assms(2) by (auto simp: in_use_def)

lemma remove_in_use:
  assumes "wf t" "i \<in> in_use t" "closable t i"
  obtains t' where "remove i t = Inr t'" "wf t'" "in_use t' = in_use t - {i}"
proof -
  obtain t' where t': "remove i t = Inr t'" "wf t'" "flags t' = (flags t)[i := False]"
    using remove_flags[OF assms(1), of i] assms(2,3) unfolding in_use_def by blast
  moreover have "in_use t' = in_use t - {i}" using t'(3) assms(2) by (auto simp: in_use_def nth_list_update split: if_splits)
  ultimately show ?thesis using that by blast
qed

text \<open>Slots are reused before the table grows.\<close>

lemma add_grows_only_when_full:
  assumes "wf t" "fst (add e t) = length (flags t)"
  shows "in_use t = {..<length (flags t)}"
proof -
  have "find_index Not (flags t) = None"
    using add_index[OF assms(1), of e] assms(2) find_index_Not[of "flags t"] by (auto split: option.splits)
  then show ?thesis by (auto simp: in_use_def find_index_None_iff)
qed

end

definition peers_ok :: "('a TCPServer_scheme) \<Rightarrow> bool" where
  "peers_ok srv \<longleftrightarrow> length (m_peerSockets srv) = length (m_peerSocketsConnectionFlags srv)"

interpretation peer_slots: slot_table m_peerSocketsConnectionFlags "\<lambda>srv i. m_peerSockets srv ! i" addPeer removePeer peers_ok "\<lambda>_ _. True"
proof
  fix t :: "'a TCPServer_scheme" and e j i
  assume wf: "peers_ok t"
  have lt: "find_index Not (m_peerSocketsConnectionFlags t) = Some k \<Longrightarrow> k < length (m_peerSocketsConnectionFlags t)" for k
    using find_index_SomeD[of Not "m_peerSocketsConnectionFlags t"] by blast
  show "fst (addPeer e t) = (case find_index Not (m_peerSocketsConnectionFlags t) of Some i \<Rightarrow> i | None \<Rightarrow> length (m_peerSocketsConnectionFlags t))"
    using wf by (simp add: addPeer_def peers_ok_def split: option.split)
  show "peers_ok (snd (addPeer e t))"
    using wf by (auto simp: addPeer_def peers_ok_def Let_def split: option.split prod.splits)
  show "m_peerSocketsConnectionFlags (snd (addPeer e t)) =
      (if fst (addPeer e t) < length (m_peerSocketsConnectionFlags t)
       then (m_peerSocketsConnectionFlags t)[fst (addPeer e t) := True] else m_peerSocketsConnectionFlags t @ [True])"
    using wf lt by (auto simp: addPeer_def peers_ok_def Let_def split: option.split prod.splits)
  show "m_peerSockets (snd (addPeer e t)) ! fst (addPeer e t) = e"
    using wf lt by (auto simp: addPeer_def peers_ok_def nth_append Let_def split: option.split prod.splits)
  show "j < length (m_peerSocketsConnectionFlags t) \<Longrightarrow> j \<noteq> fst (addPeer e t) \<Longrightarrow>
      m_peerSockets (snd (addPeer e t)) ! j = m_peerSockets t ! j"
    using wf by (auto simp: addPeer_def peers_ok_def nth_append Let_def split: option.splits prod.splits)
  show "i < length (m_peerSocketsConnectionFlags t) \<Longrightarrow> \<exists>t'. removePeer i t = Inr t' \<and> peers_ok t' \<and>
      m_peerSocketsConnectionFlags t' = (m_peerSocketsConnectionFlags t)[i := False]"
    using wf by (auto simp: removePeer_def close_peer_def peers_ok_def Let_def split: prod.splits)
qed

section \<open>Properties\<close>

text \<open>The slot of a new connection. \<open>addPeer\<close> picks a slot that no connected peer uses, stores the new
  socket there, leaves the sockets of all connected peers where they are, and extends the table only
  when every slot is in use.\<close>

theorem addPeer_slot:
  assumes "peers_ok srv" "addPeer peer srv = (i, srv')"
  shows "peers_ok srv' \<and> m_peerSockets srv' ! i = peer \<and> m_peerSocketsConnectionFlags srv' ! i \<and>
    \<not> (i < length (m_peerSocketsConnectionFlags srv) \<and> m_peerSocketsConnectionFlags srv ! i) \<and>
    (\<forall>j < length (m_peerSocketsConnectionFlags srv). m_peerSocketsConnectionFlags srv ! j \<longrightarrow>
       m_peerSocketsConnectionFlags srv' ! j \<and> m_peerSockets srv' ! j = m_peerSockets srv ! j) \<and>
    (i = length (m_peerSocketsConnectionFlags srv) \<longrightarrow>
       (\<forall>j < length (m_peerSocketsConnectionFlags srv). m_peerSocketsConnectionFlags srv ! j))"
proof -
  have add: "fst (addPeer peer srv) = i" "snd (addPeer peer srv) = srv'" using assms(2) by simp_all
  have use: "peer_slots.in_use srv' = insert i (peer_slots.in_use srv)" "i \<notin> peer_slots.in_use srv"
    using peer_slots.add_in_use[OF assms(1), of peer] peer_slots.add_fresh[OF assms(1), of peer] add by simp_all
  have "m_peerSocketsConnectionFlags srv' ! j \<and> m_peerSockets srv' ! j = m_peerSockets srv ! j"
    if "j < length (m_peerSocketsConnectionFlags srv)" "m_peerSocketsConnectionFlags srv ! j" for j
  proof -
    have "j \<in> peer_slots.in_use srv" using that by (simp add: peer_slots.in_use_def)
    then show ?thesis
      using use peer_slots.add_keeps_used[OF assms(1), of j peer] add by (auto simp: peer_slots.in_use_def)
  qed
  moreover have "\<forall>j < length (m_peerSocketsConnectionFlags srv). m_peerSocketsConnectionFlags srv ! j"
    if "i = length (m_peerSocketsConnectionFlags srv)"
    using peer_slots.add_grows_only_when_full[OF assms(1), of peer] that add by (auto simp: peer_slots.in_use_def)
  ultimately show ?thesis
    using peer_slots.add_wf[OF assms(1), of peer] peer_slots.add_entry[OF assms(1), of peer] add use
    by (auto simp: peer_slots.in_use_def)
qed

theorem addPeer_slot_witness:
  "let srv = \<lparr>m_peerSockets = [Socket_new], m_peerSocketsConnectionFlags = [False], m_socket = Socket_new, m_isStopping = False,
         m_peerSocketIndexTable = [], epoll_fds = [], open_fds = []\<rparr>;
       peer = \<lparr>m_socketDescriptor = 5, m_state = CONNECTED\<rparr>
   in peers_ok srv \<and> (\<exists>srv'. addPeer peer srv = (0, srv') \<and> m_peerSockets srv' ! 0 = peer \<and> m_peerSocketsConnectionFlags srv' ! 0)"
proof -
  let ?srv = "\<lparr>m_peerSockets = [Socket_new], m_peerSocketsConnectionFlags = [False], m_socket = Socket_new, m_isStopping = False,
         m_peerSocketIndexTable = [], epoll_fds = [], open_fds = []\<rparr>" and ?peer = "\<lparr>m_socketDescriptor = 5, m_state = CONNECTED\<rparr>"
  have ok: "peers_ok ?srv" by (simp add: peers_ok_def)
  moreover obtain srv' where a: "addPeer ?peer ?srv = (0, srv')" by (simp add: addPeer_def split_beta Let_def)
  ultimately show ?thesis using addPeer_slot[OF ok a] by (simp add: Let_def)
qed

text \<open>A lost connection leaks its descriptor. Once \<open>isConnectionLost\<close> has found the connection of a
  peer lost, closing the socket leaves the descriptor open: the state it sets is the one in which
  \<open>close\<close> does nothing.\<close>

lemma lost_connection_leaks:
  assumes "100 \<le> errorCode" "errorCode \<le> 104"
  shows "fst (isConnectionLost errorCode r sock) \<and>
    snd (Socket_close (snd (isConnectionLost errorCode r sock)) fds) = fds"
  using assms by (simp add: isConnectionLost_def Socket_close_def)

end
