(* ===== verification/Fix_Server_Reactor.thy ===== *)
theory Fix_Server_Reactor
  imports Fix_Versions Tcp_Server Thread_Pool
begin

text \<open>
  \<open>fix::FixServerReactor\<close> (\<open>source/fix/fix_server_reactor.h\<close>, \<open>fix_server_reactor.cpp\<close>) and its
  configuration: the sessions of the connected peers, their validation and their bookkeeping. A
  session pointer is the index of its slot; a slot whose flag is off keeps its object until it is
  reused. The bytes handed to \<open>send\<close> are logged per peer. The hook \<open>onFixMessage\<close> of the derived
  class is an argument; the other hooks only write log lines.
\<close>

section \<open>Configuration\<close>

record FixServerConfiguration =
  m_tcpDisableNagle :: bool
  m_tcpQuickAck :: bool
  m_tcpPendingConnectionSize :: int
  m_tcpSocketOptionSendBufferSize :: int
  m_tcpSocketOptionReceiveBufferSize :: int
  m_tcpPollTimeoutMicroseconds :: int
  m_tcpPollMaxEvents :: int
  m_reactorThreadCpuId :: int
  m_reactorThreadStackSize :: int
  m_reactorThreadPriority :: ThreadPriority
  m_fixSequenceNumberValidation :: bool
  m_fixCompId :: string
  m_fixAddress :: string
  m_fixReceiveCacheSize :: int
  m_fixPort :: int
  m_fixTimePrecision :: Subseconds

text \<open>The constructor leaves the port as the storage held it.\<close>

definition FixServerConfiguration_new :: "int \<Rightarrow> FixServerConfiguration" where
  "FixServerConfiguration_new mem_port = \<lparr>m_tcpDisableNagle = True, m_tcpQuickAck = True,
     m_tcpPendingConnectionSize = 32, m_tcpSocketOptionSendBufferSize = 102400,
     m_tcpSocketOptionReceiveBufferSize = 102400, m_tcpPollTimeoutMicroseconds = 1000,
     m_tcpPollMaxEvents = 1024, m_reactorThreadCpuId = -1, m_reactorThreadStackSize = 0,
     m_reactorThreadPriority = NORMAL, m_fixSequenceNumberValidation = True, m_fixCompId = [],
     m_fixAddress = [], m_fixReceiveCacheSize = 0, m_fixPort = mem_port, m_fixTimePrecision = MICROSECONDS\<rparr>"

section \<open>State\<close>

record FixServerReactor = TCPServer +
  Sessions :: "FixSession list"
  SessionFlags :: "bool list"
  m_receiveCacheSize :: nat
  m_sequenceNumberValidation :: bool
  m_port :: int
  m_address :: string
  reactor_timePrecision :: Subseconds
  COMPID :: string
  store_files :: files
  handed :: "(nat \<times> string) list"

text \<open>
  What the outside world contributes to the handling of one event: an environment for each message
  of the event, the files that can be written, the results of \<open>recv\<close>, \<open>errno\<close> and the contents
  of fresh storage.
\<close>

record reactor_env =
  env_fix :: "nat \<Rightarrow> fix_env"
  env_writable :: "string \<Rightarrow> bool"
  env_recv1 :: "nat \<Rightarrow> recv_result"
  env_recv2 :: "nat \<Rightarrow> recv_result"
  env_errno :: int
  env_storage :: string

text \<open>\<open>initialise\<close>: the options of the socket, of polling and of the thread go to the operating system.\<close>

definition FixServerReactor_initialise :: "FixServerConfiguration \<Rightarrow> 'a FixServerReactor_scheme \<Rightarrow> 'a FixServerReactor_scheme" where
  "FixServerReactor_initialise conf srv = srv\<lparr>m_address := m_fixAddress conf, m_port := m_fixPort conf,
     COMPID := m_fixCompId conf, reactor_timePrecision := m_fixTimePrecision conf,
     m_receiveCacheSize := unat (word_of_int (m_fixReceiveCacheSize conf) :: csize),
     m_sequenceNumberValidation := m_fixSequenceNumberValidation conf\<rparr>"

section \<open>Session slots\<close>

definition session_slot :: "'a FixServerReactor_scheme \<Rightarrow> nat" where
  "session_slot srv = (case find_index Not (SessionFlags srv) of Some i \<Rightarrow> i | None \<Rightarrow> length (Sessions srv))"

definition addSession :: "FixSession \<Rightarrow> 'a FixServerReactor_scheme \<Rightarrow> 'a FixServerReactor_scheme" where
  "addSession newSession srv =
     (case find_index Not (SessionFlags srv) of
        None \<Rightarrow> srv\<lparr>SessionFlags := SessionFlags srv @ [True], Sessions := Sessions srv @ [newSession]\<rparr>
      | Some i \<Rightarrow> srv\<lparr>Sessions := (Sessions srv)[i := newSession], SessionFlags := (SessionFlags srv)[i := True]\<rparr>)"

definition FixSession_close :: "FixSession \<Rightarrow> 'a FixServerReactor_scheme \<Rightarrow> 'a FixServerReactor_scheme result" where
  "FixSession_close session srv = (case m_tcpConnection session of
       None \<Rightarrow> Inr srv | Some peer \<Rightarrow> close_peer peer srv)"

text \<open>The destructor, beside the deletion of what the session owns.\<close>

definition FixSession_destroy :: "FixSession \<Rightarrow> 'a FixServerReactor_scheme \<Rightarrow> 'a FixServerReactor_scheme result" where
  "FixSession_destroy session srv =
     (if \<not> m_isUsingExternalTCPConnectionManager session then FixSession_close session srv else Inr srv)"

definition removeSession :: "nat \<Rightarrow> 'a FixServerReactor_scheme \<Rightarrow> 'a FixServerReactor_scheme result" where
  "removeSession sessionIndex srv =
     res_bind (vec_at (Sessions srv) sessionIndex) (\<lambda>session.
     res_bind (FixSession_close session srv) (\<lambda>srv1.
     res_bind (vec_at (SessionFlags srv1) sessionIndex) (\<lambda>_.
       Inr (srv1\<lparr>SessionFlags := (SessionFlags srv1)[sessionIndex := False]\<rparr>))))"

text \<open>\<open>None\<close> is the null pointer.\<close>

definition getSession :: "nat \<Rightarrow> 'a FixServerReactor_scheme \<Rightarrow> FixSession option result" where
  "getSession i srv = res_bind (vec_at (SessionFlags srv) i) (\<lambda>flag.
     if \<not> flag then Inr None else res_bind (vec_at (Sessions srv) i) (\<lambda>session. Inr (Some session)))"

text \<open>A call that updates the session object of a slot and may hand bytes to its socket.\<close>

definition session_call ::
  "nat \<Rightarrow> (FixSession \<Rightarrow> (FixSession \<times> string) result) \<Rightarrow> 'a FixServerReactor_scheme \<Rightarrow> 'a FixServerReactor_scheme result" where
  "session_call i f srv = res_bind (vec_at (Sessions srv) i) (\<lambda>session. res_bind (f session) (\<lambda>(session', bytes).
     Inr (srv\<lparr>Sessions := (Sessions srv)[i := session'],
              handed := (if bytes = [] then handed srv else handed srv @ [(i, bytes)])\<rparr>)))"

section \<open>Connections\<close>

definition onClientConnected :: "reactor_env \<Rightarrow> nat \<Rightarrow> 'a FixServerReactor_scheme \<Rightarrow> 'a FixServerReactor_scheme result" where
  "onClientConnected env peerIndex srv =
     res_bind (TCPServer_onClientConnected peerIndex srv) (\<lambda>srv1.
     let srv2 = addSession FixSession_new srv1
     in res_bind (getSession peerIndex srv2) (\<lambda>p. case p of
          None \<Rightarrow> Inl Null_dereference
        | Some session \<Rightarrow>
            let session' = FixSession_initialise (env_storage env) (Some peerIndex) (reactor_timePrecision srv2)
                             (m_receiveCacheSize srv2) (session\<lparr>m_isUsingExternalTCPConnectionManager := True\<rparr>)
            in Inr (srv2\<lparr>Sessions := (Sessions srv2)[peerIndex := session']\<rparr>)))"

definition onClientDisconnected :: "reactor_env \<Rightarrow> nat \<Rightarrow> 'a FixServerReactor_scheme \<Rightarrow> 'a FixServerReactor_scheme result" where
  "onClientDisconnected env peerIndex srv =
     res_bind (getSession peerIndex srv) (\<lambda>p. case p of
       None \<Rightarrow> Inl Null_dereference
     | Some session \<Rightarrow>
         let srv1 = srv\<lparr>store_files := saveSequenceNumbersToStore (env_writable env) (COMPID srv) session (store_files srv)\<rparr>
         in res_bind (removeSession peerIndex srv1) (TCPServer_onClientDisconnected peerIndex))"

text \<open>\<open>session->close()\<close> followed by \<open>onClientDisconnected\<close>.\<close>

definition drop_client :: "reactor_env \<Rightarrow> nat \<Rightarrow> 'a FixServerReactor_scheme \<Rightarrow> 'a FixServerReactor_scheme result" where
  "drop_client env peerIndex srv =
     res_bind (vec_at (Sessions srv) peerIndex) (\<lambda>session.
     res_bind (FixSession_close session srv) (onClientDisconnected env peerIndex))"

section \<open>Messages\<close>

text \<open>The admin reject for a missing tag.\<close>

definition missing_tag_reject :: "string \<Rightarrow> FixSession \<Rightarrow> FixMessage \<Rightarrow> int \<Rightarrow> FixMessage \<Rightarrow> FixMessage result" where
  "missing_tag_reject compid session incoming missingTag msg =
     res_bind (table_at FIX_MESSAGE_TYPE_STRINGS (m_messageType incoming)) (\<lambda>type.
       Inr (setTag_int FIX_TAG_REJECT_REASON 1 (setTag FIX_TAG_REF_MSG_TYPE type
         (setTag_int FIX_TAG_REF_TAG missingTag (setTag FIX_TAG_FREE_TEXT ''Required tag missing''
           (getAdminRejectionMessage compid session msg))))))"

definition send_reply :: "fix_env \<Rightarrow> FixMessage \<Rightarrow> FixSession \<Rightarrow> (FixSession \<times> string) result" where
  "send_reply env msg session = res_bind (FixSession_send env msg session) (\<lambda>(_, session', bytes). Inr (session', bytes))"

text \<open>The part of \<open>processMessage\<close> after the treatment of logon messages.\<close>

definition process_sequenced ::
  "reactor_env \<Rightarrow> fix_env \<Rightarrow> (FixMessage \<Rightarrow> nat \<Rightarrow> 'a FixServerReactor_scheme \<Rightarrow> 'a FixServerReactor_scheme result) \<Rightarrow>
   FixMessage \<Rightarrow> nat \<Rightarrow> 'a FixServerReactor_scheme \<Rightarrow> 'a FixServerReactor_scheme result" where
  "process_sequenced env fenv onFixMessage msg peerIndex srv =
     res_bind (vec_at (Sessions srv) peerIndex) (\<lambda>session.
       let n = ucast (m_sequenceNumber msg) :: cint
       in if m_sequenceNumberValidation srv \<and> \<not> validateSequenceNumber n session
          then drop_client env peerIndex srv
          else let srv1 = srv\<lparr>Sessions := (Sessions srv)[peerIndex := session\<lparr>m_incomingSequenceNumber := n\<rparr>]\<rparr>
               in if isAdminMessage msg
                  then res_bind (session_call peerIndex (handleAdminMessage fenv (COMPID srv1) msg) srv1) (\<lambda>srv2.
                         if m_messageType msg = MessageType_value LOGOFF then onClientDisconnected env peerIndex srv2
                         else Inr srv2)
                  else onFixMessage msg peerIndex srv1)"

definition processMessage ::
  "reactor_env \<Rightarrow> fix_env \<Rightarrow> (FixMessage \<Rightarrow> nat \<Rightarrow> 'a FixServerReactor_scheme \<Rightarrow> 'a FixServerReactor_scheme result) \<Rightarrow>
   FixMessage \<Rightarrow> nat \<Rightarrow> 'a FixServerReactor_scheme \<Rightarrow> 'a FixServerReactor_scheme result" where
  "processMessage env fenv onFixMessage msg peerIndex srv =
     (let (valid, missingTag) = validateRequiredTags msg 0
      in if \<not> valid
         then session_call peerIndex (\<lambda>session.
                res_bind (missing_tag_reject (COMPID srv) session msg missingTag (fresh_message fenv)) (\<lambda>m.
                  send_reply fenv m session)) srv
         else if m_messageType msg = MessageType_value LOGON
         then if \<not> validateTargetCompid (COMPID srv) msg then drop_client env peerIndex srv
              else res_bind (session_call peerIndex (handleLogonMessage fenv (COMPID srv) (store_files srv) msg) srv)
                     (process_sequenced env fenv onFixMessage msg peerIndex)
         else process_sequenced env fenv onFixMessage msg peerIndex srv)"

text \<open>The messages of one read, each with its environment.\<close>

fun process_batch ::
  "reactor_env \<Rightarrow> nat \<Rightarrow> (nat \<Rightarrow> FixMessage \<Rightarrow> nat \<Rightarrow> 'a FixServerReactor_scheme \<Rightarrow> 'a FixServerReactor_scheme result) \<Rightarrow>
   FixMessage list \<Rightarrow> nat \<Rightarrow> 'a FixServerReactor_scheme \<Rightarrow> 'a FixServerReactor_scheme result" where
  "process_batch env k onFixMessage [] peerIndex srv = Inr srv"
| "process_batch env k onFixMessage (msg # msgs) peerIndex srv =
     res_bind (processMessage env (env_fix env k) (onFixMessage k) msg peerIndex srv)
       (process_batch env (Suc k) onFixMessage msgs peerIndex)"

definition checkErrors :: "reactor_env \<Rightarrow> int \<Rightarrow> nat \<Rightarrow> 'a FixServerReactor_scheme \<Rightarrow> 'a FixServerReactor_scheme result" where
  "checkErrors env recvSize peerIndex srv =
     res_bind (vec_at (Sessions srv) peerIndex) (\<lambda>session. case m_tcpConnection session of
       None \<Rightarrow> Inl Null_dereference
     | Some peer \<Rightarrow> res_bind (vec_at (m_peerSockets srv) peer) (\<lambda>sock.
         let (lost, sock') = isConnectionLost (env_errno env) recvSize sock;
             srv1 = srv\<lparr>m_peerSockets := (m_peerSockets srv)[peer := sock']\<rparr>
         in if lost then onClientDisconnected env peerIndex srv1 else Inr srv1))"

definition handleClient ::
  "reactor_env \<Rightarrow> (nat \<Rightarrow> FixMessage \<Rightarrow> nat \<Rightarrow> 'a FixServerReactor_scheme \<Rightarrow> 'a FixServerReactor_scheme result) \<Rightarrow>
   nat \<Rightarrow> 'a FixServerReactor_scheme \<Rightarrow> 'a FixServerReactor_scheme result" where
  "handleClient env onFixMessage peerIndex srv =
     res_bind (getSession peerIndex srv) (\<lambda>p. case p of
       None \<Rightarrow> Inr srv
     | Some session \<Rightarrow>
         if m_tcpConnection session = None then Inr srv
         else if m_receiveCacheSize srv = 0
         then res_bind (FixSession_receive (env_fix env 0) (env_recv1 env) (env_recv2 env)
                         (fresh_message (env_fix env 0)) session) (\<lambda>(receivedSize, msg, session').
              let srv1 = srv\<lparr>Sessions := (Sessions srv)[peerIndex := session']\<rparr>
              in if receivedSize \<le> 0 then checkErrors env receivedSize peerIndex srv1
                 else process_batch env 0 onFixMessage [msg] peerIndex srv1)
         else res_bind (receiveWithCaching (env_fix env 0) (env_recv1 env) session) (\<lambda>(msgs, session').
              let srv1 = srv\<lparr>Sessions := (Sessions srv)[peerIndex := session']\<rparr>
              in if length msgs = 0 then checkErrors env 0 peerIndex srv1
                 else process_batch env 0 onFixMessage msgs peerIndex srv1))"

definition FixServerReactor_stop :: "(string \<Rightarrow> bool) \<Rightarrow> 'a FixServerReactor_scheme \<Rightarrow> 'a FixServerReactor_scheme" where
  "FixServerReactor_stop writable srv =
     (let srv1 = TCPServer_stop srv
      in srv1\<lparr>store_files := fold (\<lambda>session fs. if connected session
            then saveSequenceNumbersToStore writable (COMPID srv1) session fs else fs) (Sessions srv1) (store_files srv1)\<rparr>)"

text \<open>One event of the reactor thread, with the virtual functions of this class.\<close>

definition fix_event ::
  "reactor_env \<Rightarrow> (nat \<Rightarrow> FixMessage \<Rightarrow> nat \<Rightarrow> 'a FixServerReactor_scheme \<Rightarrow> 'a FixServerReactor_scheme result) \<Rightarrow>
   int \<times> bool \<times> int option \<Rightarrow> 'a FixServerReactor_scheme \<Rightarrow> 'a FixServerReactor_scheme result" where
  "fix_event env onFixMessage =
     reactor_event (onClientConnected env) (onClientDisconnected env) (handleClient env onFixMessage)"

text \<open>
  The unused local session of \<open>onClientConnected\<close> goes without effect; a session of the table never
  closes a connection when it is replaced, but a copy of it may when the copy goes.
\<close>

lemma destroyed_sessions:
  "FixSession_destroy FixSession_new srv = Inr srv"
  "FixSession_destroy (FixSession_initialise mem c p n (session\<lparr>m_isUsingExternalTCPConnectionManager := True\<rparr>)) srv = Inr srv"
  "m_tcpConnection session = Some peer \<Longrightarrow> FixSession_destroy (FixSession_copy False session) srv = close_peer peer srv"
  by (simp_all add: FixSession_destroy_def FixSession_close_def FixSession_new_def FixSession_initialise_def FixSession_copy_def)

section \<open>Slots of sessions and peers in step\<close>

interpretation session_slots: slot_table SessionFlags "\<lambda>srv i. Sessions srv ! i"
  "\<lambda>session srv. (session_slot srv, addSession session srv)" removeSession
  "\<lambda>srv. length (Sessions srv) = length (SessionFlags srv)"
  "\<lambda>srv i. case m_tcpConnection (Sessions srv ! i) of None \<Rightarrow> True | Some p \<Rightarrow> p < length (m_peerSockets srv)"
proof
  fix t :: "'a FixServerReactor_scheme" and e :: FixSession and i j :: nat
  assume wf: "length (Sessions t) = length (SessionFlags t)"
  have lt: "find_index Not (SessionFlags t) = Some k \<Longrightarrow> k < length (SessionFlags t)" for k
    using find_index_SomeD[of Not "SessionFlags t"] by blast
  show "fst (session_slot t, addSession e t) = (case find_index Not (SessionFlags t) of Some i \<Rightarrow> i | None \<Rightarrow> length (SessionFlags t))"
    using wf by (simp add: session_slot_def split: option.split)
  show "length (Sessions (snd (session_slot t, addSession e t))) = length (SessionFlags (snd (session_slot t, addSession e t)))"
    using wf by (simp add: addSession_def split: option.split)
  show "SessionFlags (snd (session_slot t, addSession e t)) =
      (if fst (session_slot t, addSession e t) < length (SessionFlags t)
       then (SessionFlags t)[fst (session_slot t, addSession e t) := True] else SessionFlags t @ [True])"
    using wf lt by (auto simp: addSession_def session_slot_def split: option.split)
  show "Sessions (snd (session_slot t, addSession e t)) ! fst (session_slot t, addSession e t) = e"
    using wf lt by (auto simp: addSession_def session_slot_def nth_append split: option.split)
  show "j < length (SessionFlags t) \<Longrightarrow> j \<noteq> fst (session_slot t, addSession e t) \<Longrightarrow>
      Sessions (snd (session_slot t, addSession e t)) ! j = Sessions t ! j"
    using wf by (auto simp: addSession_def session_slot_def nth_append split: option.splits)
  assume "i < length (SessionFlags t)"
    "case m_tcpConnection (Sessions t ! i) of None \<Rightarrow> True | Some p \<Rightarrow> p < length (m_peerSockets t)"
  then show "\<exists>t'. removeSession i t = Inr t' \<and> length (Sessions t') = length (SessionFlags t') \<and>
      SessionFlags t' = (SessionFlags t)[i := False]"
    using wf by (auto simp: removeSession_def FixSession_close_def close_peer_def split_beta Let_def split: option.splits)
qed

definition session_ok :: "nat \<Rightarrow> FixSession \<Rightarrow> bool" where
  "session_ok i session \<longleftrightarrow> m_tcpConnection session = Some i \<and> m_locksAllocated session \<and> m_receiveCache session \<noteq> None"

definition reactor_inv :: "'a FixServerReactor_scheme \<Rightarrow> bool" where
  "reactor_inv srv \<longleftrightarrow> peers_ok srv \<and> length (Sessions srv) = length (SessionFlags srv) \<and>
     SessionFlags srv = m_peerSocketsConnectionFlags srv \<and>
     (\<forall>i < length (Sessions srv). session_ok i (Sessions srv ! i))"

named_theorems reactor_fields

lemma close_peer_Inr [reactor_fields]:
  "i < length (m_peerSockets srv) \<Longrightarrow> close_peer i srv =
     Inr (srv\<lparr>m_peerSockets := (m_peerSockets srv)[i := fst (Socket_close (m_peerSockets srv ! i) (open_fds srv))],
              open_fds := snd (Socket_close (m_peerSockets srv ! i) (open_fds srv))\<rparr>)"
  by (simp add: close_peer_def split_beta Let_def)

lemma disconnect_used:
  assumes "reactor_inv srv" "i < length (SessionFlags srv)" "SessionFlags srv ! i"
  shows "\<exists>srv'. onClientDisconnected env i srv = Inr srv' \<and> reactor_inv srv' \<and>
    SessionFlags srv' = (SessionFlags srv)[i := False] \<and> Sessions srv' = Sessions srv \<and>
    store_files srv' = saveSequenceNumbersToStore (env_writable env) (COMPID srv) (Sessions srv ! i) (store_files srv) \<and>
    FixServerReactor.more srv' = FixServerReactor.more srv \<and> handed srv' = handed srv \<and> COMPID srv' = COMPID srv \<and>
    m_sequenceNumberValidation srv' = m_sequenceNumberValidation srv"
proof -
  have "session_ok i (Sessions srv ! i)" "length (Sessions srv) = length (SessionFlags srv)"
    "length (m_peerSockets srv) = length (SessionFlags srv)" "SessionFlags srv = m_peerSocketsConnectionFlags srv"
    using assms by (auto simp: reactor_inv_def peers_ok_def)
  then show ?thesis
    using assms by (auto simp: onClientDisconnected_def getSession_def removeSession_def FixSession_close_def session_ok_def
        TCPServer_onClientDisconnected_def removePeer_def reactor_fields reactor_inv_def peers_ok_def Let_def)
qed

lemma disconnect_unused:
  assumes "i < length (SessionFlags srv)" "\<not> SessionFlags srv ! i"
  shows "onClientDisconnected env i srv = Inl Null_dereference"
  using assms by (simp add: onClientDisconnected_def getSession_def)

lemma disconnect_inv:
  assumes "reactor_inv srv" "onClientDisconnected env i srv = Inr srv'"
  shows "reactor_inv srv'"
proof -
  have "i < length (SessionFlags srv) \<and> SessionFlags srv ! i"
    using assms(2) disconnect_unused[of i srv env]
    by (cases "i < length (SessionFlags srv)") (auto simp: onClientDisconnected_def getSession_def vec_at_def split: if_splits option.splits)
  then show ?thesis using disconnect_used[of srv i env] assms by auto
qed

lemma addSession_fields [simp]:
  "m_peerSockets (addSession e srv) = m_peerSockets srv"
  "m_peerSocketsConnectionFlags (addSession e srv) = m_peerSocketsConnectionFlags srv"
  "FixServerReactor.more (addSession e srv) = FixServerReactor.more srv"
  "reactor_timePrecision (addSession e srv) = reactor_timePrecision srv"
  "m_receiveCacheSize (addSession e srv) = m_receiveCacheSize srv"
  by (simp_all add: addSession_def split: option.splits)

lemma session_ok_initialise [simp]: "session_ok i (FixSession_initialise mem (Some i) prec n session)"
  by (simp add: session_ok_def FixSession_initialise_def)

text \<open>The two tables pick the same slot, because their flags agree.\<close>

lemma accept_inv:
  assumes "reactor_inv srv"
  shows "\<exists>srv'. acceptNewConnection (onClientConnected env) desc srv = Inr srv' \<and> reactor_inv srv' \<and>
    FixServerReactor.more srv' = FixServerReactor.more srv"
proof (cases "Socket_accept desc (m_socket srv)")
  case (Pair peer listener)
  show ?thesis
  proof (cases peer)
    case None
    then show ?thesis
      using Pair assms by (auto simp: acceptNewConnection_def reactor_inv_def peers_ok_def)
  next
    case (Some sock)
    have inv: "peers_ok srv" "length (Sessions srv) = length (SessionFlags srv)"
      "SessionFlags srv = m_peerSocketsConnectionFlags srv" "\<forall>i < length (Sessions srv). session_ok i (Sessions srv ! i)"
      using assms by (simp_all add: reactor_inv_def)
    show ?thesis
    proof (cases "find_index Not (SessionFlags srv)")
      case None
      show ?thesis
        using Pair Some inv None
        by (auto simp: acceptNewConnection_def addPeer_def onClientConnected_def TCPServer_onClientConnected_def
            addSession_def getSession_def reactor_inv_def peers_ok_def nth_append list_update_append less_Suc_eq Let_def)
    next
      case (Some i)
      then have "i < length (SessionFlags srv)" using find_index_SomeD[of Not "SessionFlags srv" i] by blast
      then show ?thesis
        using Pair \<open>peer = Some sock\<close> inv Some
        by (auto simp: acceptNewConnection_def addPeer_def onClientConnected_def TCPServer_onClientConnected_def
            addSession_def getSession_def reactor_inv_def peers_ok_def nth_list_update Let_def split_beta)
    qed
  qed
qed

section \<open>Handling messages keeps the slots in step\<close>

lemma session_ok_update [simp]:
  "session_ok i (session\<lparr>m_outgoingSequenceNumber := a\<rparr>) = session_ok i session"
  "session_ok i (session\<lparr>m_incomingSequenceNumber := a\<rparr>) = session_ok i session"
  "session_ok i (session\<lparr>m_lastSentTime := t\<rparr>) = session_ok i session"
  "session_ok i (session\<lparr>m_lastReceivedTime := t\<rparr>) = session_ok i session"
  "session_ok i (session\<lparr>m_heartBeatInterval := h\<rparr>) = session_ok i session"
  "session_ok i (session\<lparr>m_encryptionMethod := h\<rparr>) = session_ok i session"
  "session_ok i (session\<lparr>session_fixVersion := h\<rparr>) = session_ok i session"
  "session_ok i (session\<lparr>session_targetCompId := c\<rparr>) = session_ok i session"
  by (simp_all add: session_ok_def)

lemma send_reply_ok: "send_reply env msg session = Inr (session', bytes) \<Longrightarrow> session_ok i session' = session_ok i session"
  by (auto simp: send_reply_def elim!: send_Inr)

lemma handleAdminMessage_ok:
  "handleAdminMessage env compid msg session = Inr (session', bytes) \<Longrightarrow> session_ok i session' = session_ok i session"
  by (auto simp: handleAdminMessage_def Let_def elim!: send_Inr split: if_splits prod.splits)

lemma handleLogonMessage_ok:
  "handleLogonMessage env compid fs msg session = Inr (session', bytes) \<Longrightarrow> session_ok i session' = session_ok i session"
  by (auto simp: handleLogonMessage_def restoreSequenceNumbersFromStore_def Let_def elim!: send_Inr split: prod.splits)

lemma receive_ok:
  "FixSession_receive env r1 r2 msg session = Inr (n, msg', session') \<Longrightarrow> session_ok i session' = session_ok i session"
  by (auto simp: FixSession_receive_def Let_def split: option.splits recv_result.splits prod.splits if_splits)

lemma receiveWithCaching_ok:
  "receiveWithCaching env r session = Inr (msgs, session') \<Longrightarrow> session_ok i session \<Longrightarrow> session_ok i session'"
  by (auto simp: receiveWithCaching_def session_ok_def Let_def split: option.splits recv_result.splits prod.splits)

lemma reactor_inv_session:
  assumes "reactor_inv srv" "session_ok i session"
  shows "reactor_inv (srv\<lparr>Sessions := (Sessions srv)[i := session]\<rparr>)"
  using assms by (cases "i < length (Sessions srv)") (auto simp: reactor_inv_def peers_ok_def nth_list_update)

lemma session_call_inv:
  assumes "reactor_inv srv" "session_call i f srv = Inr srv'"
    "\<And>session session' bytes. f session = Inr (session', bytes) \<Longrightarrow> session_ok i session' = session_ok i session"
  shows "reactor_inv srv'"
proof -
  obtain session' bytes where "i < length (Sessions srv)" "f (Sessions srv ! i) = Inr (session', bytes)"
    "srv' = srv\<lparr>Sessions := (Sessions srv)[i := session'],
       handed := (if bytes = [] then handed srv else handed srv @ [(i, bytes)])\<rparr>"
    using assms(2) by (auto simp: session_call_def vec_at_def split: if_splits)
  then show ?thesis using assms(1) assms(3)[of "Sessions srv ! i" session' bytes]
    by (auto simp: reactor_inv_def peers_ok_def nth_list_update)
qed

lemma drop_client_used:
  assumes "reactor_inv srv" "i < length (SessionFlags srv)" "SessionFlags srv ! i"
  shows "\<exists>srv'. drop_client env i srv = Inr srv' \<and> reactor_inv srv' \<and>
    SessionFlags srv' = (SessionFlags srv)[i := False] \<and> Sessions srv' = Sessions srv \<and>
    store_files srv' = saveSequenceNumbersToStore (env_writable env) (COMPID srv) (Sessions srv ! i) (store_files srv) \<and>
    FixServerReactor.more srv' = FixServerReactor.more srv \<and> handed srv' = handed srv \<and> COMPID srv' = COMPID srv \<and>
    m_sequenceNumberValidation srv' = m_sequenceNumberValidation srv"
proof -
  have ok: "m_tcpConnection (Sessions srv ! i) = Some i" "i < length (Sessions srv)" "i < length (m_peerSockets srv)"
    using assms by (auto simp: reactor_inv_def peers_ok_def session_ok_def)
  then obtain srv1 where srv1: "FixSession_close (Sessions srv ! i) srv = Inr srv1" "reactor_inv srv1"
    "SessionFlags srv1 = SessionFlags srv" "Sessions srv1 = Sessions srv" "store_files srv1 = store_files srv"
    "FixServerReactor.more srv1 = FixServerReactor.more srv" "handed srv1 = handed srv" "COMPID srv1 = COMPID srv"
    "m_sequenceNumberValidation srv1 = m_sequenceNumberValidation srv"
    using assms(1) by (auto simp: FixSession_close_def reactor_fields reactor_inv_def peers_ok_def)
  then show ?thesis
    using disconnect_used[of srv1 i env] assms ok by (auto simp: drop_client_def)
qed

lemma drop_client_inv:
  assumes "reactor_inv srv" "drop_client env i srv = Inr srv'"
  shows "reactor_inv srv'"
proof -
  obtain session srv1 where c: "i < length (Sessions srv)" "FixSession_close (Sessions srv ! i) srv = Inr srv1"
    "onClientDisconnected env i srv1 = Inr srv'"
    using assms(2) by (auto simp: drop_client_def vec_at_def split: if_splits)
  moreover have "reactor_inv srv1"
    using c(1,2) assms(1)
    by (auto simp: FixSession_close_def close_peer_def reactor_inv_def peers_ok_def vec_at_def split_beta Let_def
        split: option.splits if_splits)
  ultimately show ?thesis using disconnect_inv by blast
qed

text \<open>What is assumed of the hook of the derived class.\<close>

definition hook_keeps :: "(FixMessage \<Rightarrow> nat \<Rightarrow> 'a FixServerReactor_scheme \<Rightarrow> 'a FixServerReactor_scheme result) \<Rightarrow> bool" where
  "hook_keeps onFixMessage \<longleftrightarrow>
     (\<forall>msg i srv srv'. reactor_inv srv \<longrightarrow> onFixMessage msg i srv = Inr srv' \<longrightarrow> reactor_inv srv')"

lemma process_sequenced_inv:
  assumes "reactor_inv srv" "hook_keeps hook" "process_sequenced env fenv hook msg i srv = Inr srv'"
  shows "reactor_inv srv'"
proof -
  define session1 where "session1 = (Sessions srv ! i)\<lparr>m_incomingSequenceNumber := ucast (m_sequenceNumber msg)\<rparr>"
  let ?srv1 = "srv\<lparr>Sessions := (Sessions srv)[i := session1]\<rparr>"
  have i: "i < length (Sessions srv)"
    using assms(3) by (auto simp: process_sequenced_def vec_at_def split: if_splits)
  then have inv1: "reactor_inv ?srv1"
    using assms(1) by (intro reactor_inv_session) (auto simp: session1_def reactor_inv_def)
  consider "drop_client env i srv = Inr srv'" | "hook msg i ?srv1 = Inr srv'"
    | srv2 where "session_call i (handleAdminMessage fenv (COMPID srv) msg) ?srv1 = Inr srv2"
        "srv' = srv2 \<or> onClientDisconnected env i srv2 = Inr srv'"
    using assms(3) i by (auto simp: process_sequenced_def session1_def Let_def split: if_splits)
  then show ?thesis
  proof cases
    case 1
    then show ?thesis using drop_client_inv assms(1) by blast
  next
    case 2
    then show ?thesis using assms(2) inv1 unfolding hook_keeps_def by blast
  next
    case 3
    then have "reactor_inv srv2" using session_call_inv[OF inv1] handleAdminMessage_ok by blast
    then show ?thesis using 3(2) disconnect_inv by blast
  qed
qed

lemma processMessage_inv:
  assumes "reactor_inv srv" "hook_keeps hook" "processMessage env fenv hook msg i srv = Inr srv'"
  shows "reactor_inv srv'"
proof -
  obtain valid missingTag where v: "validateRequiredTags msg 0 = (valid, missingTag)" by fastforce
  let ?reject = "\<lambda>session. res_bind (missing_tag_reject (COMPID srv) session msg missingTag (fresh_message fenv)) (\<lambda>m.
                  send_reply fenv m session)"
  consider "session_call i ?reject srv = Inr srv'" | "drop_client env i srv = Inr srv'"
    | srv1 where "session_call i (handleLogonMessage fenv (COMPID srv) (store_files srv) msg) srv = Inr srv1"
        "process_sequenced env fenv hook msg i srv1 = Inr srv'"
    | "process_sequenced env fenv hook msg i srv = Inr srv'"
    using assms(3) v by (auto simp: processMessage_def split: if_splits)
  then show ?thesis
  proof cases
    case 1
    show ?thesis by (rule session_call_inv[OF assms(1) 1]) (auto dest: send_reply_ok[of _ _ _ _ _ i])
  next
    case 2
    then show ?thesis using drop_client_inv assms(1) by blast
  next
    case 3
    have "reactor_inv srv1" by (rule session_call_inv[OF assms(1) 3(1)]) (rule handleLogonMessage_ok)
    then show ?thesis using process_sequenced_inv assms(2) 3(2) by blast
  next
    case 4
    then show ?thesis using process_sequenced_inv assms by blast
  qed
qed

lemma process_batch_inv:
  assumes "reactor_inv srv" "\<forall>k. hook_keeps (hook k)" "process_batch env k hook msgs i srv = Inr srv'"
  shows "reactor_inv srv'"
  using assms(1,3)
proof (induction msgs arbitrary: k srv)
  case (Cons msg msgs)
  from Cons.prems(2) obtain srv1 where
    "processMessage env (env_fix env k) (hook k) msg i srv = Inr srv1" "process_batch env (Suc k) hook msgs i srv1 = Inr srv'"
    by auto
  then show ?case using processMessage_inv[OF Cons.prems(1)] assms(2) Cons.IH by blast
qed simp

lemma checkErrors_inv:
  assumes "reactor_inv srv" "checkErrors env n i srv = Inr srv'"
  shows "reactor_inv srv'"
proof -
  obtain sock p where "srv' = srv\<lparr>m_peerSockets := (m_peerSockets srv)[p := sock]\<rparr> \<or>
      onClientDisconnected env i (srv\<lparr>m_peerSockets := (m_peerSockets srv)[p := sock]\<rparr>) = Inr srv'"
    using assms(2) by (auto simp: checkErrors_def Let_def split_beta split: option.splits if_splits)
  moreover have "reactor_inv (srv\<lparr>m_peerSockets := (m_peerSockets srv)[p := sock]\<rparr>)"
    using assms(1) by (simp add: reactor_inv_def peers_ok_def)
  ultimately show ?thesis using disconnect_inv by blast
qed

lemma process_batch_done: "res_bind r (process_batch env k hook [] i) = r"
  by (cases r) simp_all

text \<open>A read that completes one message is the processing of that message.\<close>

lemma handleClient_completes_message:
  assumes "reactor_inv srv" "i < length (SessionFlags srv)" "SessionFlags srv ! i" "m_receiveCacheSize srv \<noteq> 0"
    "m_receiveCache (Sessions srv ! i) = Some cache" "cache_inv cache" "sendable msg" "is_iteration hash_order"
    "FixMessage_toString hash_order msg = Inr (cached_bytes cache @ chunk)" "length chunk < getRemainingBufferSize cache"
    "env_recv1 env (getRemainingBufferSize cache) = Recv_data chunk"
  shows "\<exists>m' cache'. received_as msg m' \<and> handleClient env hook i srv = processMessage env (env_fix env 0) (hook 0) m' i
    (srv\<lparr>Sessions := (Sessions srv)[i := (Sessions srv ! i)
      \<lparr>m_lastReceivedTime := clock_seconds (env_clock (env_fix env 0)), m_receiveCache := Some cache'\<rparr>]\<rparr>)"
proof -
  let ?cache = "incrementSize (length chunk) (cache_write chunk cache)"
  have c: "cache_inv ?cache" "cached_bytes ?cache = cached_bytes cache @ chunk"
    using cache_receive[OF assms(6)] assms(10) by simp_all
  have "cache_size ?cache < cache_capacity ?cache"
    using assms(10) by (simp add: incrementSize_def cache_write_def getRemainingBufferSize_def)
  from parse_completed[OF assms(7-9) c this] obtain m' where
    m': "FixReceiveCache_parse (env_message_type (env_fix env 0)) [] ?cache = Inr (1, [m'], ?cache\<lparr>cache_size := 0\<rparr>)" "received_as msg m'"
    by blast
  have i: "i < length (Sessions srv)" and tcp: "m_tcpConnection (Sessions srv ! i) = Some i"
    using assms(1,2) by (simp_all add: reactor_inv_def session_ok_def)
  then have "getSession i srv = Inr (Some (Sessions srv ! i))"
    using assms(2,3) by (simp add: getSession_def)
  then have "handleClient env hook i srv = processMessage env (env_fix env 0) (hook 0) m' i
    (srv\<lparr>Sessions := (Sessions srv)[i := (Sessions srv ! i)
      \<lparr>m_lastReceivedTime := clock_seconds (env_clock (env_fix env 0)), m_receiveCache := Some (?cache\<lparr>cache_size := 0\<rparr>)\<rparr>]\<rparr>)"
    using assms(4,5,11) tcp m'(1) by (simp add: handleClient_def receiveWithCaching_def process_batch_done Let_def)
  with m'(2) show ?thesis by blast
qed

lemma handleClient_inv:
  assumes "reactor_inv srv" "\<forall>k. hook_keeps (hook k)" "handleClient env hook i srv = Inr srv'"
  shows "reactor_inv srv'"
proof -
  have get: "session_ok i session" if "getSession i srv = Inr (Some session)" for session
    using that assms(1) by (auto simp: getSession_def reactor_inv_def vec_at_def split: if_splits)
  let ?set = "\<lambda>session. srv\<lparr>Sessions := (Sessions srv)[i := session]\<rparr>"
  have handled: ?thesis if "session_ok i session" "checkErrors env n i (?set session) = Inr srv' \<or>
      process_batch env 0 hook msgs i (?set session) = Inr srv'" for session n msgs
    using that reactor_inv_session[OF assms(1)] checkErrors_inv process_batch_inv assms(2) by blast
  from assms(3) obtain p where p: "getSession i srv = Inr p" by (cases "getSession i srv") (auto simp: handleClient_def)
  show ?thesis
  proof (cases "p = None \<or> m_tcpConnection (the p) = None")
    case True
    then show ?thesis using assms(1,3) p by (cases p) (auto simp: handleClient_def)
  next
    case False
    then obtain session peer where s: "p = Some session" "m_tcpConnection session = Some peer" by auto
    have ok: "session_ok i session" using get p s by simp
    show ?thesis
    proof (cases "m_receiveCacheSize srv = 0")
      case True
      then obtain n msg session' where r:
        "FixSession_receive (env_fix env 0) (env_recv1 env) (env_recv2 env) (fresh_message (env_fix env 0)) session = Inr (n, msg, session')"
        "(if n \<le> 0 then checkErrors env n i (?set session') else process_batch env 0 hook [msg] i (?set session')) = Inr srv'"
        using assms(3) p s by (auto simp: handleClient_def Let_def simp del: process_batch.simps)
      show ?thesis
        by (rule handled[of session' n "[msg]"])
          (use receive_ok[OF r(1)] ok r(2) in \<open>simp_all split: if_splits del: process_batch.simps\<close>)
    next
      case False
      then obtain msgs session' where r: "receiveWithCaching (env_fix env 0) (env_recv1 env) session = Inr (msgs, session')"
        "(if length msgs = 0 then checkErrors env 0 i (?set session') else process_batch env 0 hook msgs i (?set session')) = Inr srv'"
        using assms(3) p s by (auto simp: handleClient_def Let_def simp del: process_batch.simps)
      show ?thesis
        by (rule handled[of session' 0 msgs])
          (use receiveWithCaching_ok[OF r(1) ok] r(2) in \<open>simp_all split: if_splits del: process_batch.simps\<close>)
    qed
  qed
qed

lemma fix_event_inv:
  assumes "reactor_inv srv" "\<forall>k. hook_keeps (hook k)" "fix_event env hook event srv = Inr srv'"
  shows "reactor_inv srv'"
proof -
  obtain i srv1 desc where "reactor_inv srv1"
    "acceptNewConnection (onClientConnected env) desc srv1 = Inr srv' \<or> handleClient env hook i srv1 = Inr srv' \<or>
     onClientDisconnected env i srv1 = Inr srv'"
  proof -
    obtain fd valid desc where e: "event = (fd, valid, desc)" by (cases event)
    obtain i table where u: "umap_index 0 fd (m_peerSocketIndexTable srv) = (i, table)" by fastforce
    have "reactor_inv (srv\<lparr>m_peerSocketIndexTable := table\<rparr>)"
      using assms(1) by (simp add: reactor_inv_def peers_ok_def)
    then show ?thesis
      using that assms(3) e u by (auto simp: fix_event_def reactor_event_def Let_def split: if_splits)
  qed
  then show ?thesis
    using accept_inv[of srv1 env desc] handleClient_inv[OF _ assms(2)] disconnect_inv by fastforce
qed

section \<open>What the reactor keeps\<close>

text \<open>
  Everything but the hook leaves the fields that a derived class adds as they are, never shrinks the
  table of sessions and keeps the versions of the sessions in the table of versions. A predicate that is stable under such changes, and that the hook keeps for
  every slot of the table, is therefore kept by every event.
\<close>

abbreviation (input) derived :: "'a FixServerReactor_scheme \<Rightarrow> 'a" where
  "derived \<equiv> FixServerReactor.more"

definition sessions_known :: "'a FixServerReactor_scheme \<Rightarrow> bool" where
  "sessions_known srv \<longleftrightarrow> (\<forall>session \<in> set (Sessions srv). session_known session)"

definition keeps :: "'a FixServerReactor_scheme \<Rightarrow> 'a FixServerReactor_scheme \<Rightarrow> bool" where
  "keeps srv srv' \<longleftrightarrow> derived srv' = derived srv \<and> length (Sessions srv) \<le> length (Sessions srv') \<and>
     (sessions_known srv \<longrightarrow> sessions_known srv')"

named_theorems keeping

lemma keeps_refl [simp]: "keeps srv srv"
  by (simp add: keeps_def)

lemma keeps_trans: "keeps a b \<Longrightarrow> keeps b c \<Longrightarrow> keeps a c"
  by (simp add: keeps_def)

lemma keeps_same: "derived srv' = derived srv \<Longrightarrow> Sessions srv' = Sessions srv \<Longrightarrow> keeps srv srv'"
  by (simp add: keeps_def sessions_known_def)

text \<open>Replacing a session object by one with the same version, or with one of the table.\<close>

lemma keeps_session:
  assumes "i < length (Sessions srv) \<Longrightarrow> session_fixVersion session = session_fixVersion (Sessions srv ! i) \<or> session_known session"
    "derived srv' = derived srv" "Sessions srv' = (Sessions srv)[i := session]"
  shows "keeps srv srv'"
proof -
  have "session_known s" if known: "sessions_known srv" and s: "s \<in> set ((Sessions srv)[i := session])" for s
  proof (cases "i < length (Sessions srv)")
    case True
    then have "s = session \<or> s \<in> set (Sessions srv)" using set_update_subset_insert s by fastforce
    then show ?thesis using assms(1)[OF True] known nth_mem[OF True] by (fastforce simp: sessions_known_def)
  next
    case False
    then show ?thesis using s known by (simp add: sessions_known_def list_update_beyond)
  qed
  then show ?thesis using assms(2,3) by (simp add: keeps_def sessions_known_def)
qed

lemma close_peer_keeps [keeping]: "close_peer i srv = Inr srv' \<Longrightarrow> keeps srv srv'"
  by (auto simp: close_peer_def Let_def split_beta intro: keeps_same)

lemma session_call_keeps:
  assumes "session_call i f srv = Inr srv'"
    "\<And>session session' bytes. f session = Inr (session', bytes) \<Longrightarrow>
       session_fixVersion session' = session_fixVersion session \<or> session_known session'"
  shows "keeps srv srv'"
proof -
  obtain session' bytes where f: "i < length (Sessions srv)" "f (Sessions srv ! i) = Inr (session', bytes)"
    "derived srv' = derived srv" "Sessions srv' = (Sessions srv)[i := session']"
    using assms(1) by (auto simp: session_call_def vec_at_def split: if_splits)
  show ?thesis by (rule keeps_session[OF _ f(3,4)]) (use assms(2)[OF f(2)] in simp)
qed

lemma send_reply_version: "send_reply env msg session = Inr (session', bytes) \<Longrightarrow> session_fixVersion session' = session_fixVersion session"
  by (auto simp: send_reply_def dest: version_send)

lemma FixSession_close_keeps [keeping]: "FixSession_close session srv = Inr srv' \<Longrightarrow> keeps srv srv'"
  by (auto simp: FixSession_close_def close_peer_keeps split: option.splits)

lemma onClientDisconnected_keeps [keeping]: "onClientDisconnected env i srv = Inr srv' \<Longrightarrow> keeps srv srv'"
  by (auto simp: onClientDisconnected_def removeSession_def TCPServer_onClientDisconnected_def removePeer_def Let_def keeps_def
      sessions_known_def dest!: FixSession_close_keeps close_peer_keeps split: option.splits)

lemma addSession_keeps: "session_known session \<Longrightarrow> keeps srv (addSession session srv)"
proof (cases "find_index Not (SessionFlags srv)")
  case None
  then show "session_known session \<Longrightarrow> ?thesis" by (simp add: addSession_def keeps_def sessions_known_def)
next
  case (Some i)
  then show "session_known session \<Longrightarrow> ?thesis"
    by (intro keeps_session[of i srv session]) (simp_all add: addSession_def)
qed

lemma onClientConnected_keeps [keeping]:
  assumes "onClientConnected env i srv = Inr srv'"
  shows "keeps srv srv'"
proof -
  obtain srv1 where 1: "TCPServer_onClientConnected i srv = Inr srv1" using assms by (auto simp: onClientConnected_def)
  then have "keeps srv srv1" by (intro keeps_same) (auto simp: TCPServer_onClientConnected_def Let_def)
  moreover have "keeps srv1 (addSession FixSession_new srv1)"
    by (rule addSession_keeps) (simp add: FixSession_new_def version_known_def FIX_VERSION_STRINGS_def)
  moreover have "keeps (addSession FixSession_new srv1) srv'"
  proof -
    let ?srv2 = "addSession FixSession_new srv1"
    obtain old where old: "vec_at (Sessions ?srv2) i = Inr old"
      "srv' = ?srv2\<lparr>Sessions := (Sessions ?srv2)[i := FixSession_initialise (env_storage env) (Some i) (reactor_timePrecision ?srv2)
         (m_receiveCacheSize ?srv2) (old\<lparr>m_isUsingExternalTCPConnectionManager := True\<rparr>)]\<rparr>"
      using assms 1 unfolding onClientConnected_def getSession_def Let_def by (auto split: if_splits)
    show ?thesis
      by (rule keeps_session[of i]) (use old in \<open>auto simp: vec_at_def FixSession_initialise_def split: if_splits\<close>)
  qed
  ultimately show ?thesis using keeps_trans by blast
qed

lemma addPeer_keeps: "keeps srv (snd (addPeer peer srv))"
  by (rule keeps_same) (simp_all add: addPeer_def Let_def split: option.split prod.split)

lemma drop_client_keeps [keeping]: "drop_client env i srv = Inr srv' \<Longrightarrow> keeps srv srv'"
  by (auto simp: drop_client_def intro: keeps_trans dest!: FixSession_close_keeps onClientDisconnected_keeps)

lemma checkErrors_keeps [keeping]: "checkErrors env n i srv = Inr srv' \<Longrightarrow> keeps srv srv'"
  by (auto simp: checkErrors_def Let_def split_beta keeps_def sessions_known_def
      dest!: onClientDisconnected_keeps split: option.splits if_splits)

lemma accept_keeps [keeping]:
  assumes "acceptNewConnection (onClientConnected env) desc srv = Inr srv'"
  shows "keeps srv srv'"
proof -
  obtain srv1 where 1: "derived srv1 = derived srv" "Sessions srv1 = Sessions srv"
    "srv' = srv1 \<or> (\<exists>peer. onClientConnected env (fst (addPeer peer srv1)) (snd (addPeer peer srv1)) = Inr srv')"
  proof (cases "Socket_accept desc (m_socket srv)")
    case (Pair peer listener)
    show ?thesis
    proof (cases peer)
      case None
      show ?thesis
        by (rule that[of "srv\<lparr>m_socket := listener\<rparr>"]) (use None Pair assms in \<open>auto simp: acceptNewConnection_def\<close>)
    next
      case (Some p)
      show ?thesis
        by (rule that[of "srv\<lparr>m_socket := listener, open_fds := open_fds srv @ [m_socketDescriptor p]\<rparr>"])
          (use Some Pair assms in \<open>auto simp: acceptNewConnection_def Let_def split_beta\<close>)
    qed
  qed
  then have "keeps srv1 srv'" using addPeer_keeps onClientConnected_keeps keeps_trans keeps_refl by blast
  then show ?thesis using 1(1,2) by (simp add: keeps_def sessions_known_def)
qed

text \<open>The replies of the server itself.\<close>

lemma missing_tag_keeps:
  assumes "session_call i (\<lambda>session. res_bind (missing_tag_reject compid session msg t m) (\<lambda>m. send_reply fenv m session)) srv = Inr srv'"
  shows "keeps srv srv'"
  by (rule session_call_keeps[OF assms]) (auto dest: send_reply_version)

lemma logon_keeps:
  assumes "session_call i (handleLogonMessage fenv compid fs msg) srv = Inr srv'" "version_known (m_fixVersion msg)"
  shows "keeps srv srv'"
  by (rule session_call_keeps[OF assms(1)]) (use assms(2) in \<open>auto dest: version_handleLogonMessage\<close>)

lemma admin_keeps: "session_call i (handleAdminMessage fenv compid msg) srv = Inr srv' \<Longrightarrow> keeps srv srv'"
  by (rule session_call_keeps) (auto dest: version_handleAdminMessage)

definition stable :: "('a FixServerReactor_scheme \<Rightarrow> bool) \<Rightarrow> bool" where
  "stable J \<longleftrightarrow> (\<forall>srv srv'. J srv \<longrightarrow> keeps srv srv' \<longrightarrow> J srv')"

definition hook_preserves ::
  "('a FixServerReactor_scheme \<Rightarrow> bool) \<Rightarrow>
   (FixMessage \<Rightarrow> nat \<Rightarrow> 'a FixServerReactor_scheme \<Rightarrow> 'a FixServerReactor_scheme result) \<Rightarrow> bool" where
  "hook_preserves J onFixMessage \<longleftrightarrow>
     (\<forall>msg i srv srv'. J srv \<longrightarrow> i < length (Sessions srv) \<longrightarrow> onFixMessage msg i srv = Inr srv' \<longrightarrow> J srv')"

lemma stableD: "stable J \<Longrightarrow> J srv \<Longrightarrow> keeps srv srv' \<Longrightarrow> J srv'"
  by (simp add: stable_def)

lemma process_sequenced_preserves:
  assumes "stable J" "hook_preserves J hook" "J srv" "process_sequenced env fenv hook msg i srv = Inr srv'"
  shows "J srv'"
proof -
  let ?srv1 = "\<lambda>n. srv\<lparr>Sessions := (Sessions srv)[i := (Sessions srv ! i)\<lparr>m_incomingSequenceNumber := n\<rparr>]\<rparr>"
  have i: "i < length (Sessions srv)" using assms(4) by (auto simp: process_sequenced_def vec_at_def split: if_splits)
  have 1: "keeps srv (?srv1 n)" for n by (rule keeps_session[of i]) simp_all
  consider "drop_client env i srv = Inr srv'" | n where "hook msg i (?srv1 n) = Inr srv'"
    | n srv2 where "session_call i (handleAdminMessage fenv (COMPID srv) msg) (?srv1 n) = Inr srv2"
        "srv' = srv2 \<or> onClientDisconnected env i srv2 = Inr srv'"
    using assms(4) i by (auto simp: process_sequenced_def Let_def split: if_splits)
  then show ?thesis
  proof cases
    case 1
    then show ?thesis using stableD[OF assms(1,3)] drop_client_keeps by blast
  next
    case (2 n)
    have "i < length (Sessions (?srv1 n))" using i by simp
    then show ?thesis using 2 assms(2) stableD[OF assms(1,3) 1] unfolding hook_preserves_def by blast
  next
    case (3 n srv2)
    have "keeps srv srv2" using keeps_trans[OF 1 admin_keeps[OF 3(1)]] .
    moreover have "srv' = srv2 \<or> keeps srv2 srv'" using 3(2) onClientDisconnected_keeps by blast
    ultimately show ?thesis using stableD[OF assms(1,3)] keeps_trans by blast
  qed
qed

lemma processMessage_preserves:
  assumes "stable J" "hook_preserves J hook" "J srv" "processMessage env fenv hook msg i srv = Inr srv'"
    and "version_known (m_fixVersion msg)"
  shows "J srv'"
proof -
  consider "keeps srv srv'" | srv1 where "keeps srv srv1" "process_sequenced env fenv hook msg i srv1 = Inr srv'"
  proof -
    consider compid t m where "session_call i (\<lambda>session. res_bind (missing_tag_reject compid session msg t m)
        (\<lambda>m. send_reply fenv m session)) srv = Inr srv'"
      | "drop_client env i srv = Inr srv'" | "process_sequenced env fenv hook msg i srv = Inr srv'"
      | srv1 where "session_call i (handleLogonMessage fenv (COMPID srv) (store_files srv) msg) srv = Inr srv1"
          "process_sequenced env fenv hook msg i srv1 = Inr srv'"
      using assms(4) by (auto simp: processMessage_def split_beta Let_def split: if_splits)
    then show thesis
      using that missing_tag_keeps drop_client_keeps logon_keeps[OF _ assms(5)] keeps_refl by cases blast+
  qed
  then show ?thesis using stableD[OF assms(1,3)] process_sequenced_preserves[OF assms(1,2)] by cases blast+
qed

lemma process_batch_preserves:
  assumes "stable J" "\<forall>k. hook_preserves J (hook k)" "J srv" "process_batch env k hook msgs i srv = Inr srv'"
    and "\<forall>m \<in> set msgs. version_known (m_fixVersion m)"
  shows "J srv'"
  using assms(3-5)
proof (induction msgs arbitrary: k srv)
  case (Cons msg msgs)
  from Cons.prems(2) obtain srv1 where
    p: "processMessage env (env_fix env k) (hook k) msg i srv = Inr srv1" "process_batch env (Suc k) hook msgs i srv1 = Inr srv'"
    by auto
  have "J srv1" using processMessage_preserves[OF assms(1), of "hook k" srv] Cons.prems(1,3) p(1) assms(2) by simp
  then show ?case using Cons.IH p(2) Cons.prems(3) by simp
qed simp

lemma handleClient_preserves:
  assumes "stable J" "\<forall>k. hook_preserves J (hook k)" "J srv" "handleClient env hook i srv = Inr srv'"
  shows "J srv'"
proof -
  let ?srv1 = "\<lambda>session. srv\<lparr>Sessions := (Sessions srv)[i := session]\<rparr>"
  have fresh: "version_known (m_fixVersion (fresh_message fenv))" for fenv
    by (simp add: fresh_message_def FixMessage_new_def version_known_def FIX_VERSION_STRINGS_def)
  have "srv' = srv \<or> (\<exists>session msgs n. session_fixVersion session = session_fixVersion (Sessions srv ! i) \<and>
      (\<forall>m \<in> set msgs. version_known (m_fixVersion m)) \<and>
      (checkErrors env n i (?srv1 session) = Inr srv' \<or> process_batch env 0 hook msgs i (?srv1 session) = Inr srv'))"
  proof (cases "getSession i srv = Inr None \<or> m_tcpConnection (Sessions srv ! i) = None")
    case True
    moreover have "getSession i srv = Inr (Some session) \<Longrightarrow> session = Sessions srv ! i" for session
      by (auto simp: getSession_def vec_at_def split: if_splits)
    ultimately show ?thesis
      using assms(4) by (auto simp: handleClient_def split: option.splits)
  next
    case False
    obtain p where "getSession i srv = Inr p" using assms(4) by (auto simp: handleClient_def)
    then have session: "getSession i srv = Inr (Some (Sessions srv ! i))" "m_tcpConnection (Sessions srv ! i) \<noteq> None"
      using False by (auto simp: getSession_def vec_at_def split: if_splits)
    show ?thesis
    proof (cases "m_receiveCacheSize srv = 0")
      case True
      obtain n msg session where r: "FixSession_receive (env_fix env 0) (env_recv1 env) (env_recv2 env)
          (fresh_message (env_fix env 0)) (Sessions srv ! i) = Inr (n, msg, session)"
        "(if n \<le> 0 then checkErrors env n i (?srv1 session) else process_batch env 0 hook [msg] i (?srv1 session)) = Inr srv'"
        using assms(4) session True by (auto simp: handleClient_def Let_def simp del: process_batch.simps split del: if_split)
      then show ?thesis using version_receive[OF r(1) fresh]
        by (intro disjI2 exI[of _ session] exI[of _ "[msg]"] exI[of _ n]) (simp del: process_batch.simps split: if_splits)
    next
      case False
      obtain msgs session where r: "receiveWithCaching (env_fix env 0) (env_recv1 env) (Sessions srv ! i) = Inr (msgs, session)"
        "(if length msgs = 0 then checkErrors env 0 i (?srv1 session) else process_batch env 0 hook msgs i (?srv1 session)) = Inr srv'"
        using assms(4) session False by (auto simp: handleClient_def Let_def simp del: process_batch.simps split del: if_split)
      then show ?thesis using version_receiveWithCaching[OF r(1)]
        by (intro disjI2 exI[of _ session] exI[of _ msgs] exI[of _ 0]) (simp del: process_batch.simps split: if_splits)
    qed
  qed
  then consider "srv' = srv" | session msgs n where "keeps srv (?srv1 session)" "\<forall>m \<in> set msgs. version_known (m_fixVersion m)"
      "checkErrors env n i (?srv1 session) = Inr srv' \<or> process_batch env 0 hook msgs i (?srv1 session) = Inr srv'"
  proof -
    have "keeps srv (?srv1 session)" if "session_fixVersion session = session_fixVersion (Sessions srv ! i)" for session
      by (rule keeps_session[of i]) (simp_all add: that)
    with \<open>srv' = srv \<or> _\<close> that show thesis by blast
  qed
  then show ?thesis
  proof cases
    case (2 session msgs n)
    have J: "J (?srv1 session)" by (rule stableD[OF assms(1,3) 2(1)])
    show ?thesis
      using 2(3) stableD[OF assms(1) J] checkErrors_keeps process_batch_preserves[OF assms(1,2) J _ 2(2)] by blast
  qed (use assms(3) in simp)
qed

lemma fix_event_preserves:
  assumes "stable J" "\<forall>k. hook_preserves J (hook k)" "J srv" "fix_event env hook event srv = Inr srv'"
  shows "J srv'"
proof -
  obtain i srv1 desc where 1: "keeps srv srv1"
    "acceptNewConnection (onClientConnected env) desc srv1 = Inr srv' \<or> handleClient env hook i srv1 = Inr srv' \<or>
     onClientDisconnected env i srv1 = Inr srv'"
  proof -
    obtain fd valid desc where e: "event = (fd, valid, desc)" by (cases event)
    obtain i table where u: "umap_index 0 fd (m_peerSocketIndexTable srv) = (i, table)" by fastforce
    show ?thesis
      using that[of "srv\<lparr>m_peerSocketIndexTable := table\<rparr>"] assms(4) e u
      by (auto simp: fix_event_def reactor_event_def Let_def keeps_same split: if_splits)
  qed
  have J: "J srv1" by (rule stableD[OF assms(1,3) 1(1)])
  show ?thesis
    using 1(2) accept_keeps onClientDisconnected_keeps stableD[OF assms(1) J] handleClient_preserves[OF assms(1,2) J] by blast
qed

section \<open>Sending succeeds\<close>

lemma setTag_header [simp]:
  "m_fixVersion (setTag t v msg) = m_fixVersion msg" "m_messageType (setTag t v msg) = m_messageType msg"
  "m_senderCompId (setTag t v msg) = m_senderCompId msg" "m_targetCompId (setTag t v msg) = m_targetCompId msg"
  by (simp_all add: setTag_def)

lemma toString_total:
  assumes "table_at FIX_VERSION_STRINGS (m_fixVersion msg) = Inr v" "table_at FIX_MESSAGE_TYPE_STRINGS (m_messageType msg) = Inr t"
  shows "\<exists>out. FixMessage_toString hash_order msg = Inr out"
  using assms by (simp add: FixMessage_toString_def calculateBodyLength_def calculateHeaderLength_def Let_def)

lemma send_reply_total:
  assumes "session_ok i session" "table_at FIX_VERSION_STRINGS (m_fixVersion msg) = Inr v"
    "table_at FIX_MESSAGE_TYPE_STRINGS (m_messageType msg) = Inr t"
  shows "\<exists>ret session' bytes. FixSession_send env msg session = Inr (ret, session', bytes)"
proof -
  let ?msg = "msg\<lparr>m_sequenceNumber := scast (m_outgoingSequenceNumber session),
      m_sendingTime := getUtcDatetime (env_clock env) (m_timePrecision session)\<rparr>"
  let ?msg2 = "if \<not> isAdminMessage msg then setTag FIX_TAG_TRANSACTION_TIME
      (getUtcDatetime (env_clock env) (m_timePrecision session)) ?msg else ?msg"
  have send_header: "m_fixVersion ?msg2 = m_fixVersion msg" "m_messageType ?msg2 = m_messageType msg" by simp_all
  obtain out where "FixMessage_toString (env_hash_order env) ?msg2 = Inr out"
    using toString_total[of ?msg2 v t "env_hash_order env"] assms(2,3) unfolding send_header by blast
  then show ?thesis using assms(1) by (auto simp: FixSession_send_def session_ok_def Let_def)
qed

section \<open>A sample server\<close>

definition sample_reactor :: FixServerReactor where
  "sample_reactor = \<lparr>m_peerSockets = [\<lparr>m_socketDescriptor = 5, m_state = CONNECTED\<rparr>],
     m_peerSocketsConnectionFlags = [True], m_socket = \<lparr>m_socketDescriptor = 3, m_state = LISTENING\<rparr>,
     m_isStopping = False, m_peerSocketIndexTable = [(5, 0)], epoll_fds = [3, 5], open_fds = [3, 5],
     Sessions = [sample_session], SessionFlags = [True], m_receiveCacheSize = 0, m_sequenceNumberValidation = True,
     m_port = 5001, m_address = ''127.0.0.1'', reactor_timePrecision = SECONDS, COMPID = ''S'',
     store_files = (\<lambda>_. None), handed = []\<rparr>"

definition sample_renv :: reactor_env where
  "sample_renv = \<lparr>env_fix = (\<lambda>_. sample_env), env_writable = (\<lambda>_. True), env_recv1 = (\<lambda>_. Recv_none 0),
     env_recv2 = (\<lambda>_. Recv_none 0), env_errno = 0, env_storage = []\<rparr>"

text \<open>A heart beat and a logon as the parser delivers them.\<close>

definition sample_heartbeat :: FixMessage where
  "sample_heartbeat = sample_message\<lparr>m_bodyTagValuePairs := [(9, ''31''), (10, ''212'')]\<rparr>"

definition sample_logon :: FixMessage where
  "sample_logon = sample_message\<lparr>m_messageType := MessageType_value LOGON,
     m_bodyTagValuePairs := [(9, ''31''), (10, ''212''), (98, to_string 0), (108, to_string 30)]\<rparr>"

lemma sample_reactor_ok: "reactor_inv sample_reactor" "SessionFlags sample_reactor = [True]"
  "Sessions sample_reactor = [sample_session]" "COMPID sample_reactor = ''S''" "m_sequenceNumberValidation sample_reactor"
  by (simp_all add: sample_reactor_def reactor_inv_def peers_ok_def session_ok_def sample_session_def FixSession_initialise_def)

lemma sample_session_fields:
  "m_outgoingSequenceNumber sample_session = 7" "m_incomingSequenceNumber sample_session = 5"
  "session_targetCompId sample_session = ''C''" "session_fixVersion sample_session = FixVersion_value FIX_4_2"
  by (simp_all add: sample_session_def)

lemma sample_heartbeat_valid: "fst (validateRequiredTags sample_heartbeat 0)"
  "m_messageType sample_heartbeat = MessageType_value HEARTBEAT" "m_sequenceNumber sample_heartbeat = 2"
  by (simp_all add: sample_heartbeat_def sample_message_def validateRequiredTags_def hasTag_def)

lemma sample_logon_handled:
  assumes "loadFromSequenceStore fs ''S'' ''C'' = Inr (7, 5)"
  shows "\<exists>session' bytes. handleLogonMessage sample_env ''S'' fs sample_logon sample_session = Inr (session', bytes)"
proof -
  let ?s = "sample_session\<lparr>session_targetCompId := ''C'', m_outgoingSequenceNumber := 7, m_incomingSequenceNumber := 5,
      m_heartBeatInterval := 30, session_fixVersion := FixVersion_value FIX_4_2, m_encryptionMethod := 0\<rparr>"
  let ?reply = "getLogonMessage ''S'' ?s (fresh_message sample_env)"
  have tags: "getTagValueAsInt 108 sample_logon = Inr (30, sample_logon)" "getTagValueAsInt 98 sample_logon = Inr (0, sample_logon)"
    by (simp_all add: getTagValueAsInt_def getTagValue_def sample_logon_def stoi_to_string)
  have ok: "session_ok 0 ?s" by (simp add: session_ok_def sample_session_def FixSession_initialise_def)
  have reply: "m_fixVersion ?reply = FixVersion_value FIX_4_2" "m_messageType ?reply = MessageType_value LOGON"
    by (simp_all add: getLogonMessage_def getBaseMessage_def setTag_int_def sample_session_fields)
  have "table_at FIX_VERSION_STRINGS (m_fixVersion ?reply) = Inr ''FIX.4.2''"
    "table_at FIX_MESSAGE_TYPE_STRINGS (m_messageType ?reply) = Inr ''A''"
    unfolding reply by (simp_all add: table_at_def FIX_VERSION_STRINGS_def FIX_MESSAGE_TYPE_STRINGS_def)
  from send_reply_total[OF ok this, of sample_env] obtain ret session' bytes where
    "FixSession_send sample_env ?reply ?s = Inr (ret, session', bytes)" by blast
  moreover have "m_senderCompId sample_logon = ''C''" "m_fixVersion sample_logon = FixVersion_value FIX_4_2"
    by (simp_all add: sample_logon_def sample_message_def)
  ultimately show ?thesis
    using tags assms by (simp add: handleLogonMessage_def restoreSequenceNumbersFromStore_def)
qed

section \<open>Properties\<close>

lemma out_of_sequence:
  assumes "reactor_inv srv" "i < length (SessionFlags srv)" "SessionFlags srv ! i"
    "fst (validateRequiredTags msg 0)" "m_messageType msg \<noteq> MessageType_value LOGON"
    "m_sequenceNumberValidation srv" "ucast (m_sequenceNumber msg) \<noteq> m_incomingSequenceNumber (Sessions srv ! i) + 1"
  shows "processMessage env fenv hook msg i srv = drop_client env i srv"
proof -
  have "i < length (Sessions srv)" using assms(1,2) by (simp add: reactor_inv_def)
  then show ?thesis
    using assms(4-7) by (auto simp: processMessage_def process_sequenced_def validateSequenceNumber_def split_beta)
qed

text \<open>C26: The sequence number gate. For a connected peer with validation on, a complete message that is no
  logon and does not carry the next sequence number frees the slot of the peer, saves the sequence
  numbers of its session to the store and reaches neither the application nor the socket; an
  application message with the next number is passed to the application once, with the number recorded.\<close>

theorem sequence_number_gate:
  assumes "reactor_inv srv" "i < length (SessionFlags srv)" "SessionFlags srv ! i"
    "fst (validateRequiredTags msg 0)" "m_messageType msg \<noteq> MessageType_value LOGON" "m_sequenceNumberValidation srv"
  shows "if ucast (m_sequenceNumber msg) \<noteq> m_incomingSequenceNumber (Sessions srv ! i) + 1
    then \<exists>srv'. processMessage env fenv hook msg i srv = Inr srv' \<and> reactor_inv srv' \<and>
      SessionFlags srv' = (SessionFlags srv)[i := False] \<and>
      store_files srv' = updateSequenceStore (env_writable env) (COMPID srv) (session_targetCompId (Sessions srv ! i))
        (m_outgoingSequenceNumber (Sessions srv ! i)) (m_incomingSequenceNumber (Sessions srv ! i)) (store_files srv) \<and>
      FixServerReactor.more srv' = FixServerReactor.more srv \<and> handed srv' = handed srv
    else isAdminMessage msg \<or> processMessage env fenv hook msg i srv = hook msg i
      (srv\<lparr>Sessions := (Sessions srv)[i := (Sessions srv ! i)\<lparr>m_incomingSequenceNumber := ucast (m_sequenceNumber msg)\<rparr>]\<rparr>)"
proof (cases "ucast (m_sequenceNumber msg) = m_incomingSequenceNumber (Sessions srv ! i) + 1")
  case True
  have "i < length (Sessions srv)" using assms(1,2) by (simp add: reactor_inv_def)
  then show ?thesis
    using assms(4,5) True by (auto simp: processMessage_def process_sequenced_def validateSequenceNumber_def split_beta Let_def)
next
  case False
  then have "processMessage env fenv hook msg i srv = drop_client env i srv"
    using out_of_sequence assms by blast
  then show ?thesis
    using drop_client_used[OF assms(1-3), of env] False by (auto simp: saveSequenceNumbersToStore_def)
qed

theorem sequence_number_gate_witness:
  "\<exists>srv'. processMessage sample_renv sample_env (\<lambda>_ _ srv. Inr srv) sample_heartbeat 0 sample_reactor = Inr srv' \<and>
     SessionFlags srv' = [False] \<and> handed srv' = []"
proof -
  have "handed sample_reactor = []" by (simp add: sample_reactor_def)
  then show ?thesis
    using sequence_number_gate[of sample_reactor 0 sample_heartbeat sample_renv sample_env "\<lambda>_ _ srv. Inr srv"]
      sample_reactor_ok sample_heartbeat_valid sample_session_fields by (auto split: if_splits)
qed

text \<open>C27: A session resumes. When a peer is disconnected and its counterparty logs on again, with the store
  as the disconnect left it, the new session continues with the numbers of the old one: the reply to
  the logon takes the next outgoing number and the incoming number is the one that was reached.\<close>

theorem logon_resumes_session:
  assumes "reactor_inv srv" "i < length (SessionFlags srv)" "SessionFlags srv ! i"
    "onClientDisconnected env i srv = Inr srv1"
    "env_writable env (store_path (COMPID srv, session_targetCompId (Sessions srv ! i)))"
    "m_senderCompId msg = session_targetCompId (Sessions srv ! i)"
    "handleLogonMessage fenv (COMPID srv) (store_files srv1) msg session = Inr (session', bytes)"
  shows "m_outgoingSequenceNumber session' = m_outgoingSequenceNumber (Sessions srv ! i) + 1 \<and>
    m_incomingSequenceNumber session' = m_incomingSequenceNumber (Sessions srv ! i)"
proof -
  have "store_files srv1 = updateSequenceStore (env_writable env) (COMPID srv) (session_targetCompId (Sessions srv ! i))
        (m_outgoingSequenceNumber (Sessions srv ! i)) (m_incomingSequenceNumber (Sessions srv ! i)) (store_files srv)"
    using disconnect_used[OF assms(1-3), of env] assms(4) by (auto simp: saveSequenceNumbersToStore_def)
  then have "loadFromSequenceStore (store_files srv1) (COMPID srv) (m_senderCompId msg) =
      Inr (m_outgoingSequenceNumber (Sessions srv ! i), m_incomingSequenceNumber (Sessions srv ! i))"
    using load_after_update[of "env_writable env" "(COMPID srv, session_targetCompId (Sessions srv ! i))"] assms(5,6) by simp
  then show ?thesis
    using assms(7) by (auto simp: handleLogonMessage_def restoreSequenceNumbersFromStore_def Let_def elim!: send_Inr)
qed

theorem logon_resumes_session_witness:
  "\<exists>srv1 session' bytes. onClientDisconnected sample_renv 0 sample_reactor = Inr srv1 \<and>
     handleLogonMessage sample_env ''S'' (store_files srv1) sample_logon sample_session = Inr (session', bytes) \<and>
     m_outgoingSequenceNumber session' = 8 \<and> m_incomingSequenceNumber session' = 5"
proof -
  have w: "env_writable sample_renv p" for p by (simp add: sample_renv_def)
  obtain srv1 where d: "onClientDisconnected sample_renv 0 sample_reactor = Inr srv1"
    "store_files srv1 = updateSequenceStore (env_writable sample_renv) ''S'' ''C'' 7 5 (store_files sample_reactor)"
    using disconnect_used[of sample_reactor 0 sample_renv] sample_reactor_ok sample_session_fields
    by (auto simp: saveSequenceNumbersToStore_def)
  then obtain session' bytes where l: "handleLogonMessage sample_env ''S'' (store_files srv1) sample_logon sample_session = Inr (session', bytes)"
    using sample_logon_handled load_after_update[of "env_writable sample_renv" "(''S'', ''C'')"] w by fastforce
  moreover have "m_senderCompId sample_logon = ''C''" by (simp add: sample_logon_def sample_message_def)
  ultimately show ?thesis
    using logon_resumes_session[of sample_reactor 0 sample_renv srv1 sample_logon sample_env sample_session session' bytes] d(1) w
      sample_reactor_ok sample_session_fields by auto
qed

text \<open>A second out-of-sequence message in one read crashes the server: the first one frees the slot, and
  disconnecting the free slot dereferences a null session pointer.\<close>

theorem batch_after_disconnect_null:
  assumes "reactor_inv srv" "i < length (SessionFlags srv)" "SessionFlags srv ! i" "m_sequenceNumberValidation srv"
    "\<forall>msg \<in> {m1, m2}. fst (validateRequiredTags msg 0) \<and> m_messageType msg \<noteq> MessageType_value LOGON \<and>
       ucast (m_sequenceNumber msg) \<noteq> m_incomingSequenceNumber (Sessions srv ! i) + 1"
  shows "process_batch env k hook [m1, m2] i srv = Inl Null_dereference"
proof -
  obtain srv1 where d: "drop_client env i srv = Inr srv1" "reactor_inv srv1" "SessionFlags srv1 = (SessionFlags srv)[i := False]"
    "Sessions srv1 = Sessions srv" "m_sequenceNumberValidation srv1 = m_sequenceNumberValidation srv"
    using drop_client_used[OF assms(1-3), of env] by blast
  have len: "i < length (SessionFlags srv1)" using d(3) assms(2) by simp
  have i: "i < length (Sessions srv1)" "i < length (m_peerSockets srv1)" "m_tcpConnection (Sessions srv1 ! i) = Some i"
    using d(2) len by (auto simp: reactor_inv_def peers_ok_def session_ok_def)
  have "processMessage env (env_fix env (Suc k)) (hook (Suc k)) m2 i srv1 = drop_client env i srv1"
    using assms(4,5) i(1) d(4,5)
    by (auto simp: processMessage_def process_sequenced_def validateSequenceNumber_def split_beta)
  moreover have "drop_client env i srv1 = Inl Null_dereference"
    using i d(3) assms(2) by (simp add: drop_client_def FixSession_close_def reactor_fields onClientDisconnected_def getSession_def)
  moreover have "processMessage env (env_fix env k) (hook k) m1 i srv = Inr srv1"
    using out_of_sequence[OF assms(1-3), of m1 env "env_fix env k" "hook k"] assms(4,5) d(1) by simp
  ultimately show ?thesis by simp
qed

theorem batch_after_disconnect_null_witness:
  "process_batch sample_renv 0 (\<lambda>_ _ _ srv. Inr srv) [sample_heartbeat, sample_heartbeat] 0 sample_reactor = Inl Null_dereference"
  by (rule batch_after_disconnect_null)
    (use sample_reactor_ok sample_heartbeat_valid sample_session_fields in simp_all)

end
