(* ===== verification/Fix_Message_Converter.thy ===== *)
theory Fix_Message_Converter
  imports Orders Fix_Parser
begin

text \<open>
  \<open>FixMessageConverter\<close> (\<open>source/server/fix_message_converter.h\<close>): FIX messages to orders. The
  setters of an order that the code calls are record updates. Reading a tag of a message may insert
  the tag into it, so the message is returned too.
\<close>

definition convertCommonOrder :: "SecurityManager \<Rightarrow> FixMessage \<Rightarrow> Order \<Rightarrow> (Order \<times> FixMessage) result" where
  "convertCommonOrder sm msg ord =
     (let (symbol, msg1) = getTagValue FIX_TAG_SYMBOL msg
      in res_bind (getSecurityId sm symbol) (\<lambda>securityId.
         let (clientOrderId, msg2) = getTagValue FIX_TAG_CLIENT_ORDER_ID msg1
         in Inr (ord\<lparr>m_securityId := securityId, m_clientOrderID := clientOrderId\<rparr>, msg2)))"

definition convertNewOrder :: "SecurityManager \<Rightarrow> FixMessage \<Rightarrow> Order \<Rightarrow> (Order \<times> FixMessage) result" where
  "convertNewOrder sm msg ord =
     res_bind (convertCommonOrder sm msg ord) (\<lambda>(ord1, msg1).
     res_bind (getTagValueAsInt FIX_TAG_ORDER_TYPE msg1) (\<lambda>(orderType, msg2).
     let ord2 = (if orderType = FIX_ORDER_TYPE_LIMIT then ord1\<lparr>m_orderType := LIMIT\<rparr> else ord1)
     in res_bind (getTagValueAsInt FIX_TAG_ORDER_SIDE msg2) (\<lambda>(side, msg3).
     let ord3 = (if side = FIX_ORDER_SIDE_BUY then ord2\<lparr>m_side := BUY\<rparr>
                 else if side = FIX_ORDER_SIDE_SELL then ord2\<lparr>m_side := SELL\<rparr> else ord2)
     in res_bind (getTagValueAsLong FIX_TAG_ORDER_QUANTITY msg3) (\<lambda>(quantity, msg4).
        res_bind (getTagValueAsLong FIX_TAG_ORDER_PRICE msg4) (\<lambda>(price, msg5).
        Inr (setPrice (double_of_long (word_of_int price)) (setQuantity (word_of_int quantity) ord3), msg5))))))"

definition convertCancelOrder :: "SecurityManager \<Rightarrow> FixMessage \<Rightarrow> Order \<Rightarrow> (Order \<times> FixMessage) result" where
  "convertCancelOrder sm msg ord = convertCommonOrder sm msg ord"

definition convertOrderStatusToFixOrderStatus :: "OrderStatus \<Rightarrow> int" where
  "convertOrderStatusToFixOrderStatus status = OrderStatus_value status"

section \<open>Lemmas\<close>

lemma getTagValue_present:
  "map_of (m_bodyTagValuePairs msg) t = Some v \<Longrightarrow> getTagValue t msg = (v, msg)"
  by (simp add: getTagValue_def)

lemma stol_to_string_append:
  assumes "- (2 ^ 63) \<le> i" "i < 2 ^ 63" "case rest of [] \<Rightarrow> True | c # _ \<Rightarrow> \<not> is_digit c"
  shows "stol (to_string i @ rest) = Inr i"
  using strtol10_to_string_append[OF assms(3), of i] assms by (simp add: stol_def)

text \<open>
  An order message as a client writes it. The price is an integer, possibly followed by a decimal
  point and a \<open>fraction\<close>.
\<close>

definition order_message ::
  "string \<Rightarrow> string \<Rightarrow> int \<Rightarrow> int \<Rightarrow> clong \<Rightarrow> clong \<Rightarrow> string \<Rightarrow> FixMessage \<Rightarrow> bool" where
  "order_message symbol clientId type side quantity price fraction msg \<longleftrightarrow>
     (let tags = map_of (m_bodyTagValuePairs msg)
      in tags FIX_TAG_SYMBOL = Some symbol \<and> tags FIX_TAG_CLIENT_ORDER_ID = Some clientId \<and>
         tags FIX_TAG_ORDER_TYPE = Some (to_string type) \<and> tags FIX_TAG_ORDER_SIDE = Some (to_string side) \<and>
         tags FIX_TAG_ORDER_QUANTITY = Some (to_string (sint quantity)) \<and>
         tags FIX_TAG_ORDER_PRICE = Some (to_string (sint price) @ fraction) \<and>
         - (2 ^ 31) \<le> type \<and> type < 2 ^ 31 \<and> - (2 ^ 31) \<le> side \<and> side < 2 ^ 31 \<and>
         (case fraction of [] \<Rightarrow> True | c # _ \<Rightarrow> c = CHR ''.''))"

lemma convertNewOrder_order_message:
  assumes "order_message symbol clientId type side quantity price fraction msg" "getSecurityId sm symbol = Inr s"
  shows "convertNewOrder sm msg ord = Inr (ord\<lparr>m_securityId := s, m_clientOrderID := clientId,
      m_orderType := (if type = FIX_ORDER_TYPE_LIMIT then LIMIT else m_orderType ord),
      m_side := (if side = FIX_ORDER_SIDE_BUY then BUY else if side = FIX_ORDER_SIDE_SELL then SELL else m_side ord),
      m_price := double_of_long price, m_quantity := quantity, m_openQuantity := quantity\<rparr>, msg)"
proof -
  have "case fraction of [] \<Rightarrow> True | c # _ \<Rightarrow> \<not> is_digit c"
    using assms(1) by (auto simp: order_message_def is_digit_def Let_def split: list.splits)
  then have "stol (to_string (sint price) @ fraction) = Inr (sint price)"
    using sint_range_64[of price] by (intro stol_to_string_append) simp_all
  moreover have "stol (to_string (sint quantity)) = Inr (sint quantity)"
    using sint_range_64[of quantity] by (intro stol_to_string) simp_all
  moreover have "stoi (to_string type) = Inr type" "stoi (to_string side) = Inr side"
    using assms(1) by (auto simp: order_message_def Let_def intro!: stoi_to_string)
  ultimately show ?thesis using assms
    by (simp add: convertNewOrder_def convertCommonOrder_def order_message_def getTagValueAsInt_def
        getTagValueAsLong_def getTagValue_present setQuantity_def setPrice_def Let_def)
qed

section \<open>Properties\<close>

text \<open>The order a message stands for. From an order message for a known symbol the converter takes the
  security, the client order id, the quantity at full 64-bit width and the side of a buy or sell order;
  the price is truncated to its integer part. An unknown symbol is an exception, whatever else the
  message holds.\<close>

theorem convertNewOrder_reads_message:
  assumes "order_message symbol clientId type side quantity price fraction msg"
  shows "case getSecurityId sm symbol of
      Inl e \<Rightarrow> convertNewOrder sm msg ord = Inl Std_out_of_range
    | Inr s \<Rightarrow> \<exists>ord'. convertNewOrder sm msg ord = Inr (ord', msg) \<and> m_securityId ord' = s \<and>
        m_clientOrderID ord' = clientId \<and> m_quantity ord' = quantity \<and> m_openQuantity ord' = quantity \<and>
        m_price ord' = double_of_long price \<and> m_sessionId ord' = m_sessionId ord \<and>
        (side = 1 \<longrightarrow> m_side ord' = BUY) \<and> (side = 2 \<longrightarrow> m_side ord' = SELL) \<and>
        (side \<noteq> 1 \<and> side \<noteq> 2 \<longrightarrow> m_side ord' = m_side ord)"
proof (cases "getSecurityId sm symbol")
  case (Inl e)
  then show ?thesis
    using assms by (auto simp: convertNewOrder_def convertCommonOrder_def order_message_def getTagValue_present
        getSecurityId_def umap_at_def Let_def split: option.splits)
next
  case (Inr s)
  then show ?thesis using convertNewOrder_order_message[OF assms Inr, of ord] by simp
qed

theorem convertNewOrder_reads_message_witness:
  "\<exists>ord'. convertNewOrder (snd (addSecurity ''ABC'' SecurityManager_init))
     ((FixMessage_new 10)\<lparr>m_bodyTagValuePairs := [(55, ''ABC''), (11, ''B1''), (40, to_string 2), (54, to_string 1),
        (38, to_string 100), (44, to_string 12 @ ''.75'')]\<rparr>) (Order_new 0 [] 0 3 SELL LIMIT (Fin 0) 0) =
     Inr (ord', (FixMessage_new 10)\<lparr>m_bodyTagValuePairs := [(55, ''ABC''), (11, ''B1''), (40, to_string 2), (54, to_string 1),
        (38, to_string 100), (44, to_string 12 @ ''.75'')]\<rparr>) \<and>
     m_side ord' = BUY \<and> m_quantity ord' = 100 \<and> m_price ord' = double_of_long 12"
proof -
  let ?msg = "(FixMessage_new 10)\<lparr>m_bodyTagValuePairs := [(55, ''ABC''), (11, ''B1''), (40, to_string 2), (54, to_string 1),
        (38, to_string 100), (44, to_string 12 @ ''.75'')]\<rparr>"
  have "order_message ''ABC'' ''B1'' 2 1 100 12 ''.75'' ?msg" by (simp add: order_message_def)
  moreover have "getSecurityId (snd (addSecurity ''ABC'' SecurityManager_init)) ''ABC'' = Inr 0"
    by (simp add: getSecurityId_def addSecurity_def SecurityManager_init_def umap_insert_def umap_at_def Let_def)
  ultimately show ?thesis
    using convertNewOrder_reads_message[of "''ABC''" "''B1''" 2 1 100 12 "''.75''" ?msg
        "snd (addSecurity ''ABC'' SecurityManager_init)" "Order_new 0 [] 0 3 SELL LIMIT (Fin 0) 0"] by auto
qed

end
