(* ===== verification/Outgoing_Message_Processor.thy ===== *)
theory Outgoing_Message_Processor
  imports Central_Order_Book Fix_Server_Reactor Fix_Message_Converter
begin

text \<open>
  \<open>OutgoingMessageProcessor\<close> (\<open>source/server/server_outgoing_message_processor.h\<close>, \<open>.cpp\<close>): the
  thread that turns the messages of the central order book into execution reports and sends them to
  the session that owns the order, or appends them to a file in offline mode. The state of the whole
  server is one record: the sessions are static members of \<open>FixServerReactor\<close> and the queues belong
  to the central order book. A session is used under its lock, so each use is one step.
\<close>

record OutgoingMessageProcessor =
  m_messageQueue :: bool
  m_numberOfQueues :: int
  m_execID :: cint
  m_offlineMode :: bool
  m_offlineModeOutputFile :: string
  m_outgoingMessage :: OutgoingMessage

text \<open>\<open>m_messageQueue\<close> is whether the pointer to the queues of the central order book is set.\<close>

record Server = FixServerReactor +
  m_centralOrderBook :: CentralOrderBook
  m_outgoingMessageProcessor :: OutgoingMessageProcessor
  securityManager :: SecurityManager

definition OutgoingMessageProcessor_new :: "OutgoingMessage \<Rightarrow> OutgoingMessageProcessor" where
  "OutgoingMessageProcessor_new mem = \<lparr>m_messageQueue = False, m_numberOfQueues = 0, m_execID = 0,
     m_offlineMode = False, m_offlineModeOutputFile = [], m_outgoingMessage = mem\<rparr>"

definition enableOfflineMode :: "string \<Rightarrow> OutgoingMessageProcessor \<Rightarrow> OutgoingMessageProcessor" where
  "enableOfflineMode offlineModeOutputFile p = p\<lparr>m_offlineMode := True, m_offlineModeOutputFile := offlineModeOutputFile\<rparr>"

definition setMessageQueue :: "bool \<Rightarrow> int \<Rightarrow> OutgoingMessageProcessor \<Rightarrow> OutgoingMessageProcessor result" where
  "setMessageQueue queue numberOfQueues p =
     (if \<not> queue then Inl Assertion_failed
      else Inr (p\<lparr>m_messageQueue := True, m_numberOfQueues := numberOfQueues\<rparr>))"

definition generateExecID :: "OutgoingMessageProcessor \<Rightarrow> cint \<times> OutgoingMessageProcessor" where
  "generateExecID p = (m_execID p + 1, p\<lparr>m_execID := m_execID p + 1\<rparr>)"

text \<open>The offline branch at the end of both message builders.\<close>

definition write_offline :: "(string \<Rightarrow> bool) \<Rightarrow> fix_env \<Rightarrow> FixMessage \<Rightarrow> 'a Server_scheme \<Rightarrow> 'a Server_scheme result" where
  "write_offline writable env msg srv =
     res_bind (FixMessage_toString (env_hash_order env)
       (setSendingAndTransactionTimeAsCurrent (getUtcDatetime (env_clock env) MICROSECONDS) msg)) (\<lambda>content.
     Inr (srv\<lparr>store_files := snd (appendTextToFile writable (m_offlineModeOutputFile (m_outgoingMessageProcessor srv))
       (content @ [CHR 0x0A]) True (store_files srv))\<rparr>))"

definition reject_tags :: "string \<Rightarrow> FixMessage \<Rightarrow> FixMessage" where
  "reject_tags rejectionMessage msg =
     setTag FIX_TAG_FREE_TEXT rejectionMessage (setTag_int FIX_TAG_EXEC_TYPE FIX_ORDER_STATUS_REJECTED
       (setTag_int FIX_TAG_ORDER_STATUS FIX_ORDER_STATUS_REJECTED msg))"

definition processor_rejectOrder ::
  "(string \<Rightarrow> bool) \<Rightarrow> fix_env \<Rightarrow> nat \<Rightarrow> string \<Rightarrow> 'a Server_scheme \<Rightarrow> 'a Server_scheme result" where
  "processor_rejectOrder writable env sessionId rejectionMessage srv =
     (if m_offlineMode (m_outgoingMessageProcessor srv)
      then write_offline writable env (reject_tags rejectionMessage
             ((fresh_message env)\<lparr>m_messageType := MessageType_value BUSINESS_REJECT\<rparr>)) srv
      else res_bind (getSession sessionId srv) (\<lambda>p. case p of
             None \<Rightarrow> Inr srv
           | Some _ \<Rightarrow> session_call sessionId (\<lambda>session. send_reply env (reject_tags rejectionMessage
               (getBaseMessage (COMPID srv) session BUSINESS_REJECT (fresh_message env))) session) srv))"

text \<open>The tags of an execution report.\<close>

definition execution_report_tags :: "string \<Rightarrow> cint \<Rightarrow> Order \<Rightarrow> FixMessage \<Rightarrow> FixMessage" where
  "execution_report_tags symbol execID ord msg =
     (let orderStatus = convertOrderStatusToFixOrderStatus (m_orderStatus ord);
          executionType = convertOrderStatusToFixOrderStatus (m_lastExecution ord);
          r1 = setTag_int FIX_TAG_ORDER_SIDE (if m_side ord = BUY then FIX_ORDER_SIDE_BUY else FIX_ORDER_SIDE_SELL) msg;
          r2 = setTag FIX_TAG_CLIENT_ORDER_ID (m_clientOrderID ord) r1;
          r3 = setTag FIX_TAG_ORDER_ID (m_clientOrderID ord) r2;
          r4 = setTag_int FIX_TAG_EXEC_ID (sint execID) r3;
          r5 = setTag_int FIX_TAG_ORDER_STATUS orderStatus r4;
          r6 = setTag_int FIX_TAG_EXEC_TYPE executionType r5;
          r7 = setTag_long FIX_TAG_ORDER_QUANTITY (m_quantity ord) r6;
          r8 = setTag_long FIX_TAG_LEAVES_QTY (m_openQuantity ord) r7;
          r9 = setTag_long FIX_TAG_CUMULATIVE_QUANTITY (m_executedQuantity ord) r8;
          r10 = setTag_double FIX_TAG_AVERAGE_PRICE (m_averageExecutedPrice ord) r9;
          r11 = setTag FIX_TAG_SYMBOL symbol r10;
          r12 = (if orderStatus = FIX_ORDER_STATUS_FILLED \<or> orderStatus = FIX_ORDER_STATUS_PARTIALLY_FILLED
                 then setTag_double FIX_TAG_LAST_PRICE (m_lastExecutedPrice ord)
                        (setTag_long FIX_TAG_LAST_QUANTITY (m_lastExecutedQuantity ord) r11)
                 else r11)
      in if m_fixVersion r12 = FixVersion_value FIX_4_2 then setTag_int FIX_TAG_EXEC_TRANSTYPE 0 r12 else r12)"

text \<open>The report for an outgoing message: the next execution id is taken, then the symbol is looked up.\<close>

definition send_report :: "(string \<Rightarrow> bool) \<Rightarrow> fix_env \<Rightarrow> Order \<Rightarrow> 'a Server_scheme \<Rightarrow> 'a Server_scheme result" where
  "send_report writable env ord srv =
     (let (execID, p) = generateExecID (m_outgoingMessageProcessor srv);
          srv1 = srv\<lparr>m_outgoingMessageProcessor := p\<rparr>
      in res_bind (getSecurityName (securityManager srv) (m_securityId ord)) (\<lambda>symbol.
         if m_offlineMode (m_outgoingMessageProcessor srv)
         then write_offline writable env (execution_report_tags symbol execID ord
                ((fresh_message env)\<lparr>m_messageType := MessageType_value EXECUTION_REPORT\<rparr>)) srv1
         else session_call (m_sessionId ord) (\<lambda>session. send_reply env (execution_report_tags symbol execID ord
                (getExecutionReportMessage (COMPID srv) session (fresh_message env))) session) srv1))"

text \<open>One poll of queue \<open>i\<close>.\<close>

definition poll_queue :: "(string \<Rightarrow> bool) \<Rightarrow> fix_env \<Rightarrow> nat \<Rightarrow> 'a Server_scheme \<Rightarrow> 'a Server_scheme result" where
  "poll_queue writable env i srv =
     (let cob = m_centralOrderBook srv
      in res_bind (vec_at (m_outgoingMessages cob) i) (\<lambda>q. case tryPop q of
           (None, _) \<Rightarrow> Inr srv
         | (Some message, q') \<Rightarrow>
             let srv1 = srv\<lparr>m_centralOrderBook := cob\<lparr>m_outgoingMessages := (m_outgoingMessages cob)[i := q']\<rparr>,
                            m_outgoingMessageProcessor := (m_outgoingMessageProcessor srv)\<lparr>m_outgoingMessage := message\<rparr>\<rparr>;
                 ord = out_order message
             in if m_offlineMode (m_outgoingMessageProcessor srv) then send_report writable env ord srv1
                else res_bind (getSession (m_sessionId ord) srv1) (\<lambda>p. case p of
                       None \<Rightarrow> Inr srv1
                     | Some _ \<Rightarrow> send_report writable env ord srv1)))"

text \<open>
  One round of the main loop of \<open>run\<close>: every queue is polled once, in order, each poll in an
  environment of its own. Before the queues are set the thread sleeps.
\<close>

definition processor_round :: "(string \<Rightarrow> bool) \<Rightarrow> (nat \<Rightarrow> fix_env) \<Rightarrow> 'a Server_scheme \<Rightarrow> 'a Server_scheme result" where
  "processor_round writable env srv =
     (if \<not> m_messageQueue (m_outgoingMessageProcessor srv) then Inr srv
      else res_fold (\<lambda>i. poll_queue writable (env i) i) [0..<nat (m_numberOfQueues (m_outgoingMessageProcessor srv))] srv)"

section \<open>Reports are well-formed messages\<close>

text \<open>A body that can be printed and read back.\<close>

definition body_ok :: "FixMessage \<Rightarrow> bool" where
  "body_ok msg \<longleftrightarrow> distinct (map fst (m_bodyTagValuePairs msg)) \<and>
     (\<forall>(t, v) \<in> set (m_bodyTagValuePairs msg). int_tag t \<and> field_value v \<and> t \<notin> header_tags \<union> {9, 10})"

lemma body_ok_setTag:
  assumes "body_ok msg" "int_tag t" "field_value v" "t \<notin> header_tags \<union> {9, 10}"
  shows "body_ok (setTag t v msg)"
proof -
  have "int_tag t' \<and> field_value v' \<and> t' \<notin> header_tags \<union> {9, 10}"
    if "(t', v') \<in> set (AList.update t v (m_bodyTagValuePairs msg))" for t' v'
    using alist_update_cases[OF that] assms by (auto simp: body_ok_def)
  then show ?thesis using assms(1) by (auto simp: body_ok_def setTag_def distinct_update)
qed

lemma field_value_parts [simp]:
  "field_value []"
  "field_value (c # s) \<longleftrightarrow> c \<noteq> FIX_EQUALS \<and> c \<noteq> FIX_DELIMITER \<and> field_value s"
  "field_value (s @ s') \<longleftrightarrow> field_value s \<and> field_value s'"
  by (auto simp: field_value_def)

lemma field_value_show_nat [simp]: "field_value (show_nat n)"
  using field_value_to_string[of "int n"] by (simp add: to_string_def del: field_value_to_string)

lemma field_value_show_fixed6 [simp]: "field_value (show_fixed6 x)"
proof -
  have "field_value (replicate n (CHR ''0''))" for n by (induction n) simp_all
  then show ?thesis by (simp add: show_fixed6_def padLeft_def Let_def)
qed

lemma field_value_double_to_string [simp]: "field_value (double_to_string d)"
  by (simp add: double_to_string_def split: double.splits)

lemma tag_of_setTag:
  "map_of (m_bodyTagValuePairs (setTag t v msg)) k = (if k = t then Some v else map_of (m_bodyTagValuePairs msg) k)"
  by (simp add: setTag_def)

lemma tag_of_if:
  "map_of (m_bodyTagValuePairs (if b then m else m')) k =
   (if b then map_of (m_bodyTagValuePairs m) k else map_of (m_bodyTagValuePairs m') k)"
  by simp

lemmas set_tag_defs = setTag_int_def setTag_long_def setTag_double_def

lemma execution_report_header [simp]:
  "m_fixVersion (execution_report_tags symbol execID ord msg) = m_fixVersion msg"
  "m_messageType (execution_report_tags symbol execID ord msg) = m_messageType msg"
  "m_senderCompId (execution_report_tags symbol execID ord msg) = m_senderCompId msg"
  "m_targetCompId (execution_report_tags symbol execID ord msg) = m_targetCompId msg"
  by (simp_all add: execution_report_tags_def set_tag_defs Let_def)

lemma execution_report_body_ok:
  assumes "body_ok msg" "field_value symbol" "field_value (m_clientOrderID ord)"
  shows "body_ok (execution_report_tags symbol execID ord msg)"
  using assms by (simp add: execution_report_tags_def set_tag_defs body_ok_setTag int_tag_def header_tags_def Let_def)

lemma execution_report_tag_values:
  fixes symbol execID ord
  assumes "m_bodyTagValuePairs msg = []"
  defines "tags \<equiv> map_of (m_bodyTagValuePairs (execution_report_tags symbol execID ord msg))"
  shows "tags 11 = Some (m_clientOrderID ord)" "tags 17 = Some (to_string (sint execID))"
    "tags 39 = Some (to_string (OrderStatus_value (m_orderStatus ord)))"
    "tags 150 = Some (to_string (OrderStatus_value (m_lastExecution ord)))"
    "tags 38 = Some (to_string (sint (m_quantity ord)))" "tags 151 = Some (to_string (sint (m_openQuantity ord)))"
    "tags 14 = Some (to_string (sint (m_executedQuantity ord)))" "tags 55 = Some symbol"
    "tags 54 = Some (to_string (if m_side ord = BUY then 1 else 2))"
  by (simp_all only: tags_def execution_report_tags_def set_tag_defs tag_of_setTag tag_of_if
      convertOrderStatusToFixOrderStatus_def Let_def) simp_all

text \<open>The server after the report for session \<open>j\<close> has been sent.\<close>

definition report_sent :: "nat \<Rightarrow> string \<Rightarrow> fix_env \<Rightarrow> 'a Server_scheme \<Rightarrow> 'a Server_scheme" where
  "report_sent j bytes env srv = srv\<lparr>m_outgoingMessageProcessor := (m_outgoingMessageProcessor srv)
       \<lparr>m_execID := m_execID (m_outgoingMessageProcessor srv) + 1\<rparr>,
     Sessions := (Sessions srv)[j := (Sessions srv ! j)\<lparr>m_outgoingSequenceNumber := m_outgoingSequenceNumber (Sessions srv ! j) + 1,
       m_lastSentTime := clock_seconds (env_clock env)\<rparr>], handed := handed srv @ [(j, bytes)]\<rparr>"

lemma send_report_online:
  assumes inv: "reactor_inv srv" and sid: "m_sessionId ord < length (SessionFlags srv)"
    and online: "\<not> m_offlineMode (m_outgoingMessageProcessor srv)"
    and name: "getSecurityName (securityManager srv) (m_securityId ord) = Inr symbol"
    and version: "table_at FIX_VERSION_STRINGS (session_fixVersion (Sessions srv ! m_sessionId ord)) = Inr v"
    and wire: "is_iteration (env_hash_order env)" "0 \<le> sint (m_outgoingSequenceNumber (Sessions srv ! m_sessionId ord))"
      "field_value (COMPID srv)" "field_value (session_targetCompId (Sessions srv ! m_sessionId ord))"
      "field_value (clock_text (env_clock env))" "field_value (m_clientOrderID ord)" "field_value symbol"
  shows "\<exists>srv' bytes m'. send_report writable env ord srv = Inr srv' \<and> reactor_inv srv' \<and>
    srv' = report_sent (m_sessionId ord) bytes env srv \<and>
    handed srv' = handed srv @ [(m_sessionId ord, bytes)] \<and> parseFromBuffer (FixMessage_new mem) bytes = Inr m' \<and>
    m_messageType m' = MessageType_value EXECUTION_REPORT \<and>
    (\<forall>t. t \<notin> {9, 10, 60} \<longrightarrow> map_of (m_bodyTagValuePairs m') t = map_of (m_bodyTagValuePairs
       (execution_report_tags symbol (m_execID (m_outgoingMessageProcessor srv) + 1) ord
         (getExecutionReportMessage (COMPID srv) (Sessions srv ! m_sessionId ord) (fresh_message env)))) t) \<and>
    m_outgoingSequenceNumber (Sessions srv' ! m_sessionId ord) = m_outgoingSequenceNumber (Sessions srv ! m_sessionId ord) + 1 \<and>
    m_centralOrderBook srv' = m_centralOrderBook srv \<and>
    m_execID (m_outgoingMessageProcessor srv') = m_execID (m_outgoingMessageProcessor srv) + 1"
proof -
  let ?i = "m_sessionId ord" and ?p = "m_outgoingMessageProcessor srv"
  let ?session = "Sessions srv ! ?i"
  let ?base = "getExecutionReportMessage (COMPID srv) ?session (fresh_message env)"
  let ?msg = "execution_report_tags symbol (m_execID ?p + 1) ord ?base"
  have ok: "?i < length (Sessions srv)" "session_ok ?i ?session" using inv sid by (auto simp: reactor_inv_def)
  have base: "m_fixVersion ?base = session_fixVersion ?session" "m_messageType ?base = MessageType_value EXECUTION_REPORT"
    "m_senderCompId ?base = COMPID srv" "m_targetCompId ?base = session_targetCompId ?session" "body_ok ?base"
    by (simp_all add: getExecutionReportMessage_def getBaseMessage_def fresh_message_def FixMessage_new_def body_ok_def)
  have "table_at FIX_MESSAGE_TYPE_STRINGS (m_messageType ?msg) = Inr ''8''"
    using base(2) by (simp add: table_at_def FIX_MESSAGE_TYPE_STRINGS_def)
  then obtain ret session' bytes where send: "FixSession_send env ?msg ?session = Inr (ret, session', bytes)"
    using send_reply_total[OF ok(2), of ?msg v "''8''" env] version base(1) by auto
  have "body_ok ?msg" using execution_report_body_ok[OF base(5) wire(7,6)] .
  from send_received[OF send wire(1,2), where mem = mem] this wire(3-5) base
  obtain m' where m': "parseFromBuffer (FixMessage_new mem) bytes = Inr m'" "m_messageType m' = MessageType_value EXECUTION_REPORT"
    "\<forall>t. t \<notin> {9, 10, 60} \<longrightarrow> map_of (m_bodyTagValuePairs m') t = map_of (m_bodyTagValuePairs ?msg) t"
    and s': "session' = ?session\<lparr>m_outgoingSequenceNumber := m_outgoingSequenceNumber ?session + 1,
       m_lastSentTime := clock_seconds (env_clock env)\<rparr>"
    unfolding body_ok_def by auto
  have "bytes \<noteq> []" using send printed_not_Nil by (auto elim!: send_Inr)
  have reply: "send_reply env ?msg ?session = Inr (session', bytes)" using send by (simp add: send_reply_def)
  let ?srv' = "report_sent ?i bytes env srv"
  have "send_report writable env ord srv = Inr ?srv'"
    using reply ok(1) name online s' \<open>bytes \<noteq> []\<close>
    by (simp add: send_report_def generateExecID_def session_call_def report_sent_def Let_def)
  moreover have "reactor_inv ?srv'"
    using reactor_inv_session[OF inv, of ?i session'] s' ok(2) by (simp add: report_sent_def reactor_inv_def peers_ok_def)
  moreover have "handed ?srv' = handed srv @ [(?i, bytes)]" "m_centralOrderBook ?srv' = m_centralOrderBook srv"
    "m_outgoingSequenceNumber (Sessions ?srv' ! ?i) = m_outgoingSequenceNumber ?session + 1"
    "m_execID (m_outgoingMessageProcessor ?srv') = m_execID ?p + 1"
    using ok(1) by (simp_all add: report_sent_def)
  ultimately show ?thesis using m' by blast
qed

text \<open>The message a poll takes, and the server after it.\<close>

definition popped :: "nat \<Rightarrow> OutgoingMessage \<Rightarrow> 'a Server_scheme \<Rightarrow> 'a Server_scheme" where
  "popped i message srv = srv\<lparr>m_centralOrderBook := (m_centralOrderBook srv)\<lparr>m_outgoingMessages :=
       (m_outgoingMessages (m_centralOrderBook srv))[i := snd (tryPop (m_outgoingMessages (m_centralOrderBook srv) ! i))]\<rparr>,
     m_outgoingMessageProcessor := (m_outgoingMessageProcessor srv)\<lparr>m_outgoingMessage := message\<rparr>\<rparr>"

lemma poll_queue_pops:
  assumes "i < length (m_outgoingMessages (m_centralOrderBook srv))" "outgoing_ok (m_centralOrderBook srv)"
    "out_view (m_centralOrderBook srv) ! i = message # rest" "\<not> m_offlineMode (m_outgoingMessageProcessor srv)"
  shows "poll_queue writable env i srv = res_bind (getSession (m_sessionId (out_order message)) srv) (\<lambda>p. case p of
      None \<Rightarrow> Inr (popped i message srv) | Some _ \<Rightarrow> send_report writable env (out_order message) (popped i message srv))"
    "out_view (m_centralOrderBook (popped i message srv)) = (out_view (m_centralOrderBook srv))[i := rest]"
proof -
  let ?q = "m_outgoingMessages (m_centralOrderBook srv) ! i"
  have "rb_inv ?q" "rb_list ?q = message # rest" using assms(1-3) by (auto simp: outgoing_ok_def out_view_def)
  from tryPop_some[OF this] obtain q' where q': "tryPop ?q = (Some message, q')" "rb_list q' = rest"
    by (cases "tryPop ?q") auto
  let ?srv1 = "srv\<lparr>m_centralOrderBook := (m_centralOrderBook srv)\<lparr>m_outgoingMessages :=
        (m_outgoingMessages (m_centralOrderBook srv))[i := q']\<rparr>,
      m_outgoingMessageProcessor := (m_outgoingMessageProcessor srv)\<lparr>m_outgoingMessage := message\<rparr>\<rparr>"
  have p: "popped i message srv = ?srv1" using q' by (simp add: popped_def)
  have "getSession j ?srv1 = getSession j srv" for j
    by (cases "vec_at (SessionFlags srv) j") (simp_all add: getSession_def)
  then show "poll_queue writable env i srv = res_bind (getSession (m_sessionId (out_order message)) srv) (\<lambda>p. case p of
      None \<Rightarrow> Inr (popped i message srv) | Some _ \<Rightarrow> send_report writable env (out_order message) (popped i message srv))"
    unfolding p using assms(1,4) q' by (simp add: poll_queue_def Let_def)
  show "out_view (m_centralOrderBook (popped i message srv)) = (out_view (m_centralOrderBook srv))[i := rest]"
    unfolding p using q' by (simp add: out_view_def map_update)
qed

text \<open>The poll that finds a message for a connected session.\<close>

lemma poll_queue_connected:
  assumes "i < length (m_outgoingMessages (m_centralOrderBook srv))" "outgoing_ok (m_centralOrderBook srv)"
    "out_view (m_centralOrderBook srv) ! i = message # rest" "\<not> m_offlineMode (m_outgoingMessageProcessor srv)"
    "reactor_inv srv" "ord = out_order message" "j = m_sessionId ord" "j < length (SessionFlags srv)" "SessionFlags srv ! j"
    "getSecurityName (securityManager srv) (m_securityId ord) = Inr symbol"
    "table_at FIX_VERSION_STRINGS (session_fixVersion (Sessions srv ! j)) = Inr v"
    "is_iteration (env_hash_order env)" "0 \<le> sint (m_outgoingSequenceNumber (Sessions srv ! j))"
    "field_value (COMPID srv)" "field_value (session_targetCompId (Sessions srv ! j))"
    "field_value (clock_text (env_clock env))" "field_value (m_clientOrderID ord)" "field_value symbol"
  shows "\<exists>srv' bytes m'. poll_queue writable env i srv = Inr srv' \<and> reactor_inv srv' \<and>
    srv' = report_sent j bytes env (popped i message srv) \<and>
    out_view (m_centralOrderBook srv') = (out_view (m_centralOrderBook srv))[i := rest] \<and>
    handed srv' = handed srv @ [(j, bytes)] \<and> parseFromBuffer (FixMessage_new mem) bytes = Inr m' \<and>
    m_messageType m' = MessageType_value EXECUTION_REPORT \<and>
    (let tags = map_of (m_bodyTagValuePairs m')
     in tags 11 = Some (m_clientOrderID ord) \<and> tags 55 = Some symbol \<and>
        tags 17 = Some (to_string (sint (m_execID (m_outgoingMessageProcessor srv) + 1))) \<and>
        tags 54 = Some (to_string (if m_side ord = BUY then 1 else 2)) \<and>
        tags 39 = Some (to_string (OrderStatus_value (m_orderStatus ord))) \<and>
        tags 150 = Some (to_string (OrderStatus_value (m_lastExecution ord))) \<and>
        tags 38 = Some (to_string (sint (m_quantity ord))) \<and>
        tags 151 = Some (to_string (sint (m_openQuantity ord))) \<and>
        tags 14 = Some (to_string (sint (m_executedQuantity ord)))) \<and>
    m_outgoingSequenceNumber (Sessions srv' ! j) = m_outgoingSequenceNumber (Sessions srv ! j) + 1"
proof -
  let ?srv1 = "popped i message srv"
  note pop = poll_queue_pops[OF assms(1-4)]
  have same: "reactor_inv ?srv1" "SessionFlags ?srv1 = SessionFlags srv" "Sessions ?srv1 = Sessions srv" "handed ?srv1 = handed srv"
    "COMPID ?srv1 = COMPID srv" "securityManager ?srv1 = securityManager srv" "\<not> m_offlineMode (m_outgoingMessageProcessor ?srv1)"
    "m_execID (m_outgoingMessageProcessor ?srv1) = m_execID (m_outgoingMessageProcessor srv)"
    using assms(4,5) by (auto simp: popped_def reactor_inv_def peers_ok_def)
  have len: "length (Sessions srv) = length (SessionFlags srv)" using assms(5) by (simp add: reactor_inv_def)
  have poll: "poll_queue writable env i srv = send_report writable env ord ?srv1"
    using pop(1)[of writable env] assms(6-9) len by (simp add: getSession_def)
  have body: "m_bodyTagValuePairs (getExecutionReportMessage c s (fresh_message env)) = []" for c s
    by (simp add: getExecutionReportMessage_def getBaseMessage_def fresh_message_def FixMessage_new_def)
  from send_report_online[of ?srv1 ord symbol v env writable mem] obtain srv' bytes m' where
    r: "send_report writable env ord ?srv1 = Inr srv'" "reactor_inv srv'" "srv' = report_sent j bytes env ?srv1"
    "handed srv' = handed srv @ [(j, bytes)]" "parseFromBuffer (FixMessage_new mem) bytes = Inr m'"
    "m_messageType m' = MessageType_value EXECUTION_REPORT"
    "\<forall>t. t \<notin> {9, 10, 60} \<longrightarrow> map_of (m_bodyTagValuePairs m') t = map_of (m_bodyTagValuePairs
       (execution_report_tags symbol (m_execID (m_outgoingMessageProcessor srv) + 1) ord
         (getExecutionReportMessage (COMPID srv) (Sessions srv ! j) (fresh_message env)))) t"
    "m_outgoingSequenceNumber (Sessions srv' ! j) = m_outgoingSequenceNumber (Sessions srv ! j) + 1"
    "m_centralOrderBook srv' = m_centralOrderBook ?srv1"
    using same assms(7-) by auto
  note tags = execution_report_tag_values[OF body, of symbol _ ord]
  show ?thesis
    by (rule exI[of _ srv'], rule exI[of _ bytes], rule exI[of _ m'])
      (use poll r(1,2,4-6,8,9) r(3)[symmetric] pop(2) r(7) tags in \<open>simp add: Let_def\<close>)
qed

section \<open>Emptying a queue\<close>

text \<open>A message that can be reported as the first of \<open>n\<close>: its session and symbol exist, what goes into
  the report is free of separators, and the sequence numbers of the session do not run out.\<close>

definition deliverable :: "nat \<Rightarrow> 'a Server_scheme \<Rightarrow> OutgoingMessage \<Rightarrow> bool" where
  "deliverable n srv message \<longleftrightarrow>
     (let ord = out_order message; j = m_sessionId ord; session = Sessions srv ! j
      in j < length (SessionFlags srv) \<and>
         (\<exists>symbol. getSecurityName (securityManager srv) (m_securityId ord) = Inr symbol \<and> field_value symbol) \<and>
         (\<exists>v. table_at FIX_VERSION_STRINGS (session_fixVersion session) = Inr v) \<and>
         0 \<le> sint (m_outgoingSequenceNumber session) \<and> sint (m_outgoingSequenceNumber session) + int n < 2 ^ 31 \<and>
         field_value (session_targetCompId session) \<and> field_value (m_clientOrderID ord))"

text \<open>Bytes for session \<open>j\<close> that parse to the report of a message.\<close>

definition reports :: "int \<Rightarrow> OutgoingMessage \<Rightarrow> nat \<times> string \<Rightarrow> bool" where
  "reports mem message sent \<longleftrightarrow>
     fst sent = m_sessionId (out_order message) \<and>
     (\<exists>m'. parseFromBuffer (FixMessage_new mem) (snd sent) = Inr m' \<and> m_messageType m' = MessageType_value EXECUTION_REPORT \<and>
       (let tags = map_of (m_bodyTagValuePairs m'); ord = out_order message
        in tags 11 = Some (m_clientOrderID ord) \<and> tags 39 = Some (to_string (OrderStatus_value (m_orderStatus ord))) \<and>
           tags 38 = Some (to_string (sint (m_quantity ord))) \<and> tags 151 = Some (to_string (sint (m_openQuantity ord))) \<and>
           tags 14 = Some (to_string (sint (m_executedQuantity ord)))))"

lemma next_sequence_number:
  fixes n :: cint
  assumes "0 \<le> sint n" "sint n + int (Suc k) < 2 ^ 31"
  shows "0 \<le> sint (n + 1) \<and> sint (n + 1) + int k < 2 ^ 31"
proof -
  have "sint (n + 1) = sint n + 1"
    using assms sint_word_of_int_32[of "sint n + 1"] by simp
  with assms show ?thesis by simp
qed

text \<open>One poll with a deliverable message at the front, and what is deliverable afterwards.\<close>

lemma poll_delivers:
  assumes "reactor_inv srv" "i < length (m_outgoingMessages (m_centralOrderBook srv))" "outgoing_ok (m_centralOrderBook srv)"
    "\<not> m_offlineMode (m_outgoingMessageProcessor srv)" "field_value (COMPID srv)"
    "is_iteration (env_hash_order env)" "field_value (clock_text (env_clock env))"
    "out_view (m_centralOrderBook srv) ! i = message # rest" "deliverable (Suc n) srv message"
  shows "\<exists>srv' sent. poll_queue writable env i srv = Inr srv' \<and> reactor_inv srv' \<and>
    out_view (m_centralOrderBook srv') = (out_view (m_centralOrderBook srv))[i := rest] \<and> outgoing_ok (m_centralOrderBook srv') \<and>
    \<not> m_offlineMode (m_outgoingMessageProcessor srv') \<and> COMPID srv' = COMPID srv \<and> SessionFlags srv' = SessionFlags srv \<and>
    (\<forall>message'. deliverable (Suc n) srv message' \<longrightarrow> deliverable n srv' message') \<and>
    handed srv' = handed srv @ sent \<and>
    list_all2 (reports mem) (filter (\<lambda>m. SessionFlags srv ! m_sessionId (out_order m)) [message]) sent"
proof -
  let ?ord = "out_order message" and ?srv1 = "popped i message srv"
  let ?j = "m_sessionId ?ord"
  note pop = poll_queue_pops[OF assms(2,3,8,4)]
  have j: "?j < length (SessionFlags srv)" "length (Sessions srv) = length (SessionFlags srv)"
    using assms(1,9) by (simp_all add: deliverable_def reactor_inv_def Let_def)
  have "rb_inv (m_outgoingMessages (m_centralOrderBook srv) ! i)" "rb_list (m_outgoingMessages (m_centralOrderBook srv) ! i) = message # rest"
    using assms(2,3,8) by (auto simp: outgoing_ok_def out_view_def)
  then have "rb_inv (snd (tryPop (m_outgoingMessages (m_centralOrderBook srv) ! i)))" using ring_queue.pop_some by fastforce
  then have ok: "outgoing_ok (m_centralOrderBook ?srv1)"
    using assms(3) by (auto simp: popped_def outgoing_ok_def dest!: set_update_subset_insert[THEN subsetD])
  show ?thesis
  proof (cases "SessionFlags srv ! ?j")
    case False
    have "poll_queue writable env i srv = Inr ?srv1" using False pop(1)[of writable env] j(1) by (simp add: getSession_def)
    moreover have "deliverable n ?srv1 m" if "deliverable (Suc n) srv m" for m
      using that by (auto simp: deliverable_def popped_def Let_def)
    moreover have "reactor_inv ?srv1" using assms(1) by (simp add: popped_def reactor_inv_def peers_ok_def)
    ultimately show ?thesis using False pop(2) ok assms(4)
      by (intro exI[of _ ?srv1] exI[of _ "[]"]) (simp add: popped_def)
  next
    case True
    obtain symbol v where d: "getSecurityName (securityManager srv) (m_securityId ?ord) = Inr symbol" "field_value symbol"
      "table_at FIX_VERSION_STRINGS (session_fixVersion (Sessions srv ! ?j)) = Inr v"
      "0 \<le> sint (m_outgoingSequenceNumber (Sessions srv ! ?j))" "field_value (session_targetCompId (Sessions srv ! ?j))"
      "field_value (m_clientOrderID ?ord)"
      using assms(9) by (auto simp: deliverable_def Let_def)
    obtain srv' bytes m' where r: "poll_queue writable env i srv = Inr srv'" "reactor_inv srv'" "srv' = report_sent ?j bytes env ?srv1"
      "out_view (m_centralOrderBook srv') = (out_view (m_centralOrderBook srv))[i := rest]" "handed srv' = handed srv @ [(?j, bytes)]"
      "reports mem message (?j, bytes)"
      using poll_queue_connected[OF assms(2,3,8,4,1) refl refl j(1) True d(1,3) assms(6) d(4) assms(5) d(5) assms(7) d(6,2),
          of writable mem] by (auto simp: reports_def Let_def)
    have "deliverable n srv' m" if "deliverable (Suc n) srv m" for m
    proof (cases "m_sessionId (out_order m) = ?j")
      case True
      then show ?thesis using that next_sequence_number[of "m_outgoingSequenceNumber (Sessions srv ! ?j)" n] j
        by (auto simp: r(3) deliverable_def report_sent_def popped_def Let_def)
    next
      case False
      then show ?thesis using that by (auto simp: r(3) deliverable_def report_sent_def popped_def Let_def)
    qed
    moreover have "outgoing_ok (m_centralOrderBook srv')" "COMPID srv' = COMPID srv" "SessionFlags srv' = SessionFlags srv"
      "\<not> m_offlineMode (m_outgoingMessageProcessor srv')"
      using ok assms(4) by (simp_all add: r(3) report_sent_def popped_def)
    ultimately show ?thesis using r True by (intro exI[of _ srv'] exI[of _ "[(?j, bytes)]"]) simp
  qed
qed

lemma polls_deliver:
  assumes "reactor_inv srv" "i < length (m_outgoingMessages (m_centralOrderBook srv))" "outgoing_ok (m_centralOrderBook srv)"
    "\<not> m_offlineMode (m_outgoingMessageProcessor srv)" "field_value (COMPID srv)"
    "\<forall>env \<in> set envs. is_iteration (env_hash_order env) \<and> field_value (clock_text (env_clock env))"
    "out_view (m_centralOrderBook srv) ! i = ms" "length envs = length ms"
    "\<forall>message \<in> set ms. deliverable (length ms) srv message"
  shows "\<exists>srv' sent. res_fold (\<lambda>env. poll_queue writable env i) envs srv = Inr srv' \<and>
    out_view (m_centralOrderBook srv') = (out_view (m_centralOrderBook srv))[i := []] \<and> handed srv' = handed srv @ sent \<and>
    list_all2 (reports mem) (filter (\<lambda>m. SessionFlags srv ! m_sessionId (out_order m)) ms) sent"
  using assms
proof (induction ms arbitrary: envs srv)
  case Nil
  then show ?case using list_update_id[of "out_view (m_centralOrderBook srv)" i] by simp
next
  case (Cons message rest)
  from Cons.prems(8) obtain env envs' where envs: "envs = env # envs'" "length envs' = length rest" by (cases envs) auto
  have e: "is_iteration (env_hash_order env)" "field_value (clock_text (env_clock env))" using Cons.prems(6) envs by simp_all
  have d: "deliverable (Suc (length rest)) srv message" using Cons.prems(9) by simp
  obtain srv1 sent1 where 1: "poll_queue writable env i srv = Inr srv1" "reactor_inv srv1"
    "out_view (m_centralOrderBook srv1) = (out_view (m_centralOrderBook srv))[i := rest]" "outgoing_ok (m_centralOrderBook srv1)"
    "\<not> m_offlineMode (m_outgoingMessageProcessor srv1)" "COMPID srv1 = COMPID srv" "SessionFlags srv1 = SessionFlags srv"
    "\<forall>m. deliverable (Suc (length rest)) srv m \<longrightarrow> deliverable (length rest) srv1 m" "handed srv1 = handed srv @ sent1"
    "list_all2 (reports mem) (filter (\<lambda>m. SessionFlags srv ! m_sessionId (out_order m)) [message]) sent1"
    using poll_delivers[OF Cons.prems(1-5) e Cons.prems(7) d, of writable mem] by blast
  have len: "length (m_outgoingMessages (m_centralOrderBook srv1)) = length (m_outgoingMessages (m_centralOrderBook srv))"
    using arg_cong[OF 1(3), of length] by (simp add: out_view_def)
  have "i < length (out_view (m_centralOrderBook srv))" using Cons.prems(2) by (simp add: out_view_def)
  then have "out_view (m_centralOrderBook srv1) ! i = rest" using 1(3) by simp
  moreover have "field_value (COMPID srv1)" using Cons.prems(5) 1(6) by simp
  ultimately obtain srv' sent where 2: "res_fold (\<lambda>env. poll_queue writable env i) envs' srv1 = Inr srv'"
    "out_view (m_centralOrderBook srv') = (out_view (m_centralOrderBook srv1))[i := []]" "handed srv' = handed srv1 @ sent"
    "list_all2 (reports mem) (filter (\<lambda>m. SessionFlags srv1 ! m_sessionId (out_order m)) rest) sent"
    using Cons.IH[of srv1 envs'] 1(2,4,5,8) len Cons.prems(2,6,9) envs by auto
  have "list_all2 (reports mem) (filter (\<lambda>m. SessionFlags srv ! m_sessionId (out_order m)) (message # rest)) (sent1 @ sent)"
    using list_all2_appendI[OF 1(10) 2(4)[unfolded 1(7)]] by (simp split: if_splits)
  with 1(1,3,9) 2 envs show ?case by (intro exI[of _ srv'] exI[of _ "sent1 @ sent"]) simp
qed

section \<open>A sample server\<close>

definition sample_report :: OutgoingMessage where
  "sample_report = OutgoingMessage_new (sample_bid\<lparr>m_sessionId := 0\<rparr>) OrderStatus.ACCEPTED []"

definition sample_server :: Server where
  "sample_server = \<lparr>m_peerSockets = [\<lparr>m_socketDescriptor = 5, m_state = CONNECTED\<rparr>],
     m_peerSocketsConnectionFlags = [True], m_socket = \<lparr>m_socketDescriptor = 3, m_state = LISTENING\<rparr>,
     m_isStopping = False, m_peerSocketIndexTable = [(5, 0)], epoll_fds = [3, 5], open_fds = [3, 5],
     Sessions = [sample_session], SessionFlags = [True], m_receiveCacheSize = 0, m_sequenceNumberValidation = True,
     m_port = 5001, m_address = ''127.0.0.1'', reactor_timePrecision = SECONDS, COMPID = ''S'',
     store_files = (\<lambda>_. None), handed = [],
     m_centralOrderBook = sample_engine\<lparr>m_outgoingMessages := [\<lparr>m_write = 1, m_read = 0, m_capacity = 4,
       m_buffer = [sample_report, sample_report, sample_report, sample_report]\<rparr>]\<rparr>,
     m_outgoingMessageProcessor = OutgoingMessageProcessor_new sample_report,
     securityManager = snd (addSecurity ''ABC'' SecurityManager_init)\<rparr>"

lemma sample_server_ok:
  "reactor_inv sample_server" "outgoing_ok (m_centralOrderBook sample_server)"
  "length (m_outgoingMessages (m_centralOrderBook sample_server)) = 1"
  "out_view (m_centralOrderBook sample_server) = [[sample_report]]"
  "SessionFlags sample_server = [True]" "Sessions sample_server = [sample_session]" "COMPID sample_server = ''S''"
  "handed sample_server = []" "\<not> m_offlineMode (m_outgoingMessageProcessor sample_server)"
  "m_execID (m_outgoingMessageProcessor sample_server) = 0"
  "getSecurityName (securityManager sample_server) 0 = Inr ''ABC''"
  by (simp_all add: sample_server_def reactor_inv_def peers_ok_def session_ok_def sample_session_def FixSession_initialise_def
      outgoing_ok_def out_view_def rb_inv_def rb_list_def slot_int OutgoingMessageProcessor_new_def getSecurityName_def
      addSecurity_def SecurityManager_init_def umap_insert_def umap_at_def Let_def)

lemma sample_report_order:
  "m_sessionId (out_order sample_report) = 0" "m_securityId (out_order sample_report) = 0"
  "m_clientOrderID (out_order sample_report) = ''B1''" "m_quantity (out_order sample_report) = 100"
  by (simp_all add: sample_report_def OutgoingMessage_new_def sample_bid_def Order_new_def)

section \<open>Properties\<close>

text \<open>Execution reports reach the session that owns the order. A poll of a queue takes its oldest message.
  If the session of the order is connected, exactly one execution report is handed to its socket; the
  bytes parse to a report with the order's id, symbol, side, status, quantities and a fresh execution
  id, and the session has used up one sequence number. If the slot of the session is free, the
  message is taken and nothing is sent.\<close>

theorem report_reaches_owner:
  assumes "i < length (m_outgoingMessages (m_centralOrderBook srv))" "outgoing_ok (m_centralOrderBook srv)"
    "out_view (m_centralOrderBook srv) ! i = message # rest" "\<not> m_offlineMode (m_outgoingMessageProcessor srv)"
    "reactor_inv srv" "m_sessionId (out_order message) < length (SessionFlags srv)"
    "getSecurityName (securityManager srv) (m_securityId (out_order message)) = Inr symbol"
    "table_at FIX_VERSION_STRINGS (session_fixVersion (Sessions srv ! m_sessionId (out_order message))) = Inr v"
    "is_iteration (env_hash_order env)" "0 \<le> sint (m_outgoingSequenceNumber (Sessions srv ! m_sessionId (out_order message)))"
    "field_value (COMPID srv)" "field_value (session_targetCompId (Sessions srv ! m_sessionId (out_order message)))"
    "field_value (clock_text (env_clock env))" "field_value (m_clientOrderID (out_order message))" "field_value symbol"
  shows "\<exists>srv'. poll_queue writable env i srv = Inr srv' \<and> reactor_inv srv' \<and>
    out_view (m_centralOrderBook srv') = (out_view (m_centralOrderBook srv))[i := rest] \<and>
    (if SessionFlags srv ! m_sessionId (out_order message)
     then (\<exists>bytes m'. handed srv' = handed srv @ [(m_sessionId (out_order message), bytes)] \<and>
       parseFromBuffer (FixMessage_new mem) bytes = Inr m' \<and> m_messageType m' = MessageType_value EXECUTION_REPORT \<and>
       (let tags = map_of (m_bodyTagValuePairs m'); ord = out_order message
        in tags 11 = Some (m_clientOrderID ord) \<and> tags 55 = Some symbol \<and>
           tags 17 = Some (to_string (sint (m_execID (m_outgoingMessageProcessor srv) + 1))) \<and>
           tags 54 = Some (to_string (if m_side ord = BUY then 1 else 2)) \<and>
           tags 39 = Some (to_string (OrderStatus_value (m_orderStatus ord))) \<and>
           tags 150 = Some (to_string (OrderStatus_value (m_lastExecution ord))) \<and>
           tags 38 = Some (to_string (sint (m_quantity ord))) \<and>
           tags 151 = Some (to_string (sint (m_openQuantity ord))) \<and>
           tags 14 = Some (to_string (sint (m_executedQuantity ord))))) \<and>
       m_outgoingSequenceNumber (Sessions srv' ! m_sessionId (out_order message)) =
         m_outgoingSequenceNumber (Sessions srv ! m_sessionId (out_order message)) + 1
     else handed srv' = handed srv \<and> Sessions srv' = Sessions srv)"
proof -
  show ?thesis
  proof (cases "SessionFlags srv ! m_sessionId (out_order message)")
    case False
    note pop = poll_queue_pops[OF assms(1-4)]
    have "poll_queue writable env i srv = Inr (popped i message srv)"
      using False pop(1)[of writable env] assms(6) by (simp add: getSession_def)
    then show ?thesis using False pop(2) assms(5) by (auto simp: popped_def reactor_inv_def peers_ok_def)
  next
    case True
    show ?thesis
      unfolding if_P[OF True] using poll_queue_connected[OF assms(1-5) refl refl assms(6) True assms(7-15), of writable mem]
      by (elim exE conjE) (intro exI conjI, assumption+, unfold Let_def, assumption+)
  qed
qed

theorem report_reaches_owner_witness:
  "\<exists>srv' bytes m'. poll_queue (\<lambda>_. True) sample_env 0 sample_server = Inr srv' \<and> handed srv' = [(0, bytes)] \<and>
     parseFromBuffer (FixMessage_new 0) bytes = Inr m' \<and> m_messageType m' = MessageType_value EXECUTION_REPORT \<and>
     map_of (m_bodyTagValuePairs m') 11 = Some ''B1'' \<and> map_of (m_bodyTagValuePairs m') 38 = Some (to_string 100)"
proof -
  have "table_at FIX_VERSION_STRINGS (session_fixVersion sample_session) = Inr ''FIX.4.2''"
    unfolding sample_session_fields by (simp add: table_at_def FIX_VERSION_STRINGS_def)
  moreover have "is_iteration (env_hash_order sample_env)" "field_value (clock_text (env_clock sample_env))"
    using is_iteration_id by (simp_all add: sample_env_def sample_clock_def)
  ultimately show ?thesis
    using report_reaches_owner[of 0 sample_server sample_report "[]" "''ABC''" "''FIX.4.2''" sample_env "\<lambda>_. True" 0]
      sample_server_ok sample_report_order sample_session_fields by (fastforce simp: Let_def)
qed

text \<open>C28: Everything in a queue is delivered. As many polls as a queue holds messages empty it, in whatever
  environments they run: each message whose session is connected is handed to the socket of that
  session exactly once, in the order of the queue, as bytes that parse to its execution report;
  messages for free slots are dropped, and nothing else is sent. (The symbols and sessions of the
  messages exist, their texts contain no separators, and no sequence number reaches 2^31.)\<close>

theorem queue_is_delivered:
  assumes "reactor_inv srv" "i < length (m_outgoingMessages (m_centralOrderBook srv))" "outgoing_ok (m_centralOrderBook srv)"
    "\<not> m_offlineMode (m_outgoingMessageProcessor srv)" "field_value (COMPID srv)"
    "\<forall>env \<in> set envs. is_iteration (env_hash_order env) \<and> field_value (clock_text (env_clock env))"
    "out_view (m_centralOrderBook srv) ! i = queued" "length envs = length queued"
    "\<forall>message \<in> set queued. deliverable (length queued) srv message"
  shows "\<exists>srv' sent. res_fold (\<lambda>env. poll_queue writable env i) envs srv = Inr srv' \<and>
    out_view (m_centralOrderBook srv') = (out_view (m_centralOrderBook srv))[i := []] \<and> handed srv' = handed srv @ sent \<and>
    list_all2 (reports mem) (filter (\<lambda>m. SessionFlags srv ! m_sessionId (out_order m)) queued) sent"
  using polls_deliver[OF assms] .

theorem queue_is_delivered_witness:
  "\<exists>srv' bytes. res_fold (\<lambda>env. poll_queue (\<lambda>_. True) env 0) [sample_env] sample_server = Inr srv' \<and>
     out_view (m_centralOrderBook srv') = [[]] \<and> handed srv' = [(0, bytes)] \<and> reports 0 sample_report (0, bytes)"
proof -
  have "table_at FIX_VERSION_STRINGS (session_fixVersion sample_session) = Inr ''FIX.4.2''"
    unfolding sample_session_fields by (simp add: table_at_def FIX_VERSION_STRINGS_def)
  then have "deliverable 1 sample_server sample_report"
    using sample_server_ok sample_report_order sample_session_fields by (simp add: deliverable_def Let_def)
  moreover have "is_iteration (env_hash_order sample_env)" "field_value (clock_text (env_clock sample_env))"
    using is_iteration_id by (simp_all add: sample_env_def sample_clock_def)
  ultimately obtain srv' sent where "res_fold (\<lambda>env. poll_queue (\<lambda>_. True) env 0) [sample_env] sample_server = Inr srv'"
    "out_view (m_centralOrderBook srv') = [[]]" "handed srv' = sent" "list_all2 (reports 0) [sample_report] sent"
    using queue_is_delivered[of sample_server 0 "[sample_env]" "[sample_report]" "\<lambda>_. True" 0] sample_server_ok sample_report_order
    by auto
  moreover from this(4) obtain bytes where "sent = [(0, bytes)]" "reports 0 sample_report (0, bytes)"
    using sample_report_order(1) by (auto simp: list_all2_Cons1 reports_def)
  ultimately show ?thesis by blast
qed

end
