(* ===== verification/Configuration.thy ===== *)
theory Configuration
  imports File_Utility Unordered_Map
begin

text \<open>
  \<open>core::Configuration\<close> (\<open>source/core/configuration.h\<close>, \<open>configuration.cpp\<close>): an ini file as a
  \<open>std::unordered_multimap\<close>. The dictionary is the list of its entries in the order of insertion;
  the order in which the hash table keeps entries with equal keys is the parameter \<open>key_order\<close>, the
  order of an iteration the parameter \<open>hash_order\<close>.
\<close>

type_synonym Configuration = "(string \<times> string) list"

definition addAttribute :: "string \<Rightarrow> string \<Rightarrow> Configuration \<Rightarrow> Configuration" where
  "addAttribute attribute value config = config @ [(attribute, value)]"

text \<open>
  One line of the file. \<open>line.c_str()[0]\<close> is the NUL of an empty line. A line that ends in its only
  equals sign has one token.
\<close>

definition load_line :: "nat \<Rightarrow> string \<Rightarrow> Configuration \<Rightarrow> Configuration result" where
  "load_line lineNumber text config =
     (let line = trim text; number = to_string (int lineNumber)
      in if startsWith line (CHR ''#'') \<or> length line = 0 then Inr config
         else if length line < 3
         then res_bind (format (''Line is too short , line number : '' @ number)) (\<lambda>t. Inl (Runtime_error t))
         else case find_index (\<lambda>c. c = CHR ''='') line of
                None \<Rightarrow> res_bind (format (''Line doesn`t contain equals sign , line number : '' @ number)) (\<lambda>t. Inl (Runtime_error t))
              | Some equalsPos \<Rightarrow>
                  if CHR ''='' \<in> set (drop (equalsPos + 1) line)
                  then res_bind (format (''Line contains more than one equals sign , line number : '' @ number))
                         (\<lambda>t. Inl (Runtime_error t))
                  else let tokens = split line (CHR ''='')
                       in res_bind (vec_at tokens 0) (\<lambda>attribute. res_bind (vec_at tokens 1) (\<lambda>value.
                            Inr (addAttribute attribute value config))))"

text \<open>The lines with their numbers, from 1.\<close>

fun load_lines :: "nat \<Rightarrow> string list \<Rightarrow> Configuration \<Rightarrow> Configuration result" where
  "load_lines n [] config = Inr config"
| "load_lines n (line # lines) config = res_bind (load_line n line config) (load_lines (Suc n) lines)"

definition Configuration_loadFromFile :: "files \<Rightarrow> string \<Rightarrow> Configuration result" where
  "Configuration_loadFromFile fs fileName = (case fs (c_str fileName) of
       None \<Rightarrow> res_bind (format (''File '' @ c_str fileName @ '' could not be opened'')) (\<lambda>t. Inl (Runtime_error t))
     | Some text \<Rightarrow> load_lines 1 (split text (CHR 0x0A)) [])"

definition doesAttributeExist :: "string \<Rightarrow> Configuration \<Rightarrow> bool" where
  "doesAttributeExist attribute config = (\<exists>e \<in> set config. fst e = attribute)"

text \<open>The entries with one key, in the order the hash table keeps them.\<close>

definition equal_range :: "(string list \<Rightarrow> string list) \<Rightarrow> string \<Rightarrow> Configuration \<Rightarrow> string list" where
  "equal_range key_order attribute config = key_order (map snd (filter (\<lambda>e. fst e = attribute) config))"

definition getStringValue :: "(string list \<Rightarrow> string list) \<Rightarrow> string \<Rightarrow> string \<Rightarrow> Configuration \<Rightarrow> string" where
  "getStringValue key_order attribute defaultVal config =
     (if \<not> doesAttributeExist attribute config then defaultVal else hd (equal_range key_order attribute config))"

definition getBoolValue :: "(string list \<Rightarrow> string list) \<Rightarrow> string \<Rightarrow> bool \<Rightarrow> Configuration \<Rightarrow> bool" where
  "getBoolValue key_order attribute defaultVal config =
     (if \<not> doesAttributeExist attribute config then defaultVal
      else toLower (getStringValue key_order attribute [] config) = ''true'')"

definition getIntValue :: "(string list \<Rightarrow> string list) \<Rightarrow> string \<Rightarrow> int \<Rightarrow> Configuration \<Rightarrow> int result" where
  "getIntValue key_order attribute defaultVal config =
     (if \<not> doesAttributeExist attribute config then Inr defaultVal
      else stoi (getStringValue key_order attribute [] config))"

definition getArray :: "(string list \<Rightarrow> string list) \<Rightarrow> string \<Rightarrow> Configuration \<Rightarrow> string list" where
  "getArray key_order attribute config = equal_range key_order (attribute @ ''[]'') config"

definition getSubConfiguration ::
  "((string \<times> string) list \<Rightarrow> (string \<times> string) list) \<Rightarrow> string \<Rightarrow> Configuration \<Rightarrow> Configuration" where
  "getSubConfiguration hash_order attributeSubString config =
     fold (\<lambda>attribute sub. if contains (fst attribute) attributeSubString
             then addAttribute (fst attribute) (snd attribute) sub else sub) (hash_order config) []"

section \<open>Lemmas\<close>

text \<open>
  The lines a file can hold: a line that is skipped (blank or a comment), or an attribute and its
  value, with white space before and after, which is trimmed. White space around the equals sign belongs to the
  attribute and to the value.
\<close>

datatype ini_line = Skipped string | Entry string "string \<times> string" string

fun ini_line_ok :: "ini_line \<Rightarrow> bool" where
  "ini_line_ok (Skipped t) \<longleftrightarrow> CHR 0x0A \<notin> set t \<and> (trim t = [] \<or> hd (trim t) = CHR ''#'')"
| "ini_line_ok (Entry p (a, v) q) \<longleftrightarrow> list_all is_space (p @ q) \<and> a \<noteq> [] \<and> v \<noteq> [] \<and>
     CHR ''='' \<notin> set (a @ v) \<and> CHR 0x0A \<notin> set (p @ a @ v @ q) \<and>
     \<not> is_space (hd a) \<and> hd a \<noteq> CHR ''#'' \<and> \<not> is_space (last v)"

fun ini_line_text :: "ini_line \<Rightarrow> string" where
  "ini_line_text (Skipped t) = t"
| "ini_line_text (Entry p (a, v) q) = p @ a @ ''='' @ v @ q"

fun ini_line_entries :: "ini_line \<Rightarrow> (string \<times> string) list" where
  "ini_line_entries (Skipped t) = []"
| "ini_line_entries (Entry p e q) = [e]"

definition ini_text :: "ini_line list \<Rightarrow> string" where
  "ini_text lines = concat (map (\<lambda>l. ini_line_text l @ [CHR 0x0A]) lines)"

definition ini_entries :: "ini_line list \<Rightarrow> (string \<times> string) list" where
  "ini_entries lines = concat (map ini_line_entries lines)"

lemma trim_pad:
  assumes "list_all is_space (p @ q)" "s \<noteq> []" "\<not> is_space (hd s)" "\<not> is_space (last s)"
  shows "trim (p @ s @ q) = s"
proof -
  have p: "\<forall>c \<in> set p. is_space c" and q: "\<forall>c \<in> set (rev q). is_space c" using assms(1) by (simp_all add: list_all_iff)
  have "dropWhile is_space (p @ s @ q) = s @ q"
    using p assms(2,3) by (subst dropWhile_append2) (cases s; simp)+
  moreover have "dropWhile is_space (rev q @ rev s) = rev s"
    using q assms(2,4) by (subst dropWhile_append2) (simp_all add: dropWhile_eq_self_iff hd_rev)
  ultimately show ?thesis by (simp add: trim_def trimLeft_def trimRight_def)
qed

lemma load_line_ok:
  assumes "ini_line_ok l"
  shows "load_line n (ini_line_text l) config = Inr (config @ ini_line_entries l)"
  using assms
proof (induction l rule: ini_line_ok.induct)
  case (1 t)
  then show ?case by (cases "trim t") (auto simp: load_line_def startsWith_def Let_def)
next
  case (2 p a v q)
  let ?line = "a @ ''='' @ v"
  have ne: "a \<noteq> []" "v \<noteq> []" "CHR ''='' \<notin> set a" "CHR ''='' \<notin> set v" using 2 by auto
  have "trim (p @ ?line @ q) = ?line" using 2 by (intro trim_pad) auto
  then have "trim (ini_line_text (Entry p (a, v) q)) = ?line" by simp
  moreover have "\<not> startsWith ?line (CHR ''#'')" using 2 by (cases a) (auto simp: startsWith_def)
  moreover have "3 \<le> length ?line" using ne(1,2) by (cases a; cases v) auto
  moreover have "find_index (\<lambda>c. c = CHR ''='') ?line = Some (length a)"
    using ne(3) by (induction a) auto
  moreover have "split ?line (CHR ''='') = [a, v]" using split_token[OF ne(3), of v] ne(2,4) by simp
  ultimately show ?case using ne(4) by (simp add: load_line_def addAttribute_def Let_def)
qed

lemma load_lines_entries:
  assumes "\<forall>l \<in> set lines. ini_line_ok l"
  shows "load_lines n (split (ini_text lines) (CHR 0x0A)) config = Inr (config @ ini_entries lines)"
  using assms
proof (induction lines arbitrary: n config)
  case Nil
  then show ?case by (simp add: ini_text_def ini_entries_def)
next
  case (Cons l lines)
  then have ok: "ini_line_ok l" by simp
  then have "CHR 0x0A \<notin> set (ini_line_text l)" by (cases l rule: ini_line_ok.cases) auto
  from split_token[OF this, of "ini_text lines"]
  have "split (ini_text (l # lines)) (CHR 0x0A) = ini_line_text l # split (ini_text lines) (CHR 0x0A)"
    by (simp add: ini_text_def)
  then show ?case using load_line_ok[OF ok] Cons by (simp add: ini_entries_def)
qed

lemma equal_range_values:
  assumes "is_iteration key_order"
  shows "mset (equal_range key_order a config) = mset (map snd (filter (\<lambda>e. fst e = a) config))"
  using assms by (simp add: equal_range_def is_iteration_def)

lemma getStringValue_once:
  assumes "is_iteration key_order" "filter (\<lambda>e. fst e = a) config = [(a, v)]"
  shows "getStringValue key_order a d config = v"
proof -
  have "mset (equal_range key_order a config) = mset (map snd [(a, v)])"
    by (simp only: equal_range_values[OF assms(1)] assms(2))
  then have "equal_range key_order a config = [v]" by simp
  moreover have "(a, v) \<in> set (filter (\<lambda>e. fst e = a) config)" unfolding assms(2) by simp
  then have "(a, v) \<in> set config" by simp
  ultimately show ?thesis by (auto simp: getStringValue_def doesAttributeExist_def intro: bexI)
qed

lemma getStringValue_one_of:
  assumes "is_iteration key_order" "a \<in> fst ` set config"
  shows "(a, getStringValue key_order a d config) \<in> set config"
proof -
  obtain v where v: "(a, v) \<in> set config" using assms(2) by auto
  let ?r = "equal_range key_order a config"
  have s: "set ?r = set (map snd (filter (\<lambda>e. fst e = a) config))"
    using equal_range_values[OF assms(1), of a config] by (metis set_mset_mset)
  moreover have "v \<in> set (map snd (filter (\<lambda>e. fst e = a) config))" using v by force
  ultimately have "?r \<noteq> []" by (metis empty_iff list.set(1))
  then have "hd ?r \<in> set (map snd (filter (\<lambda>e. fst e = a) config))" using s hd_in_set by metis
  then have "(a, hd ?r) \<in> set config" by auto
  then show ?thesis using v by (auto simp: getStringValue_def doesAttributeExist_def intro: bexI)
qed

section \<open>Properties\<close>

text \<open>C33: Reading back a configuration. A file of lines \<open>attribute=value\<close>, blank lines and comments
  loads to exactly the entries of its lines: an attribute that occurs once reads as its value, whatever
  the other lines say; one that occurs more than once reads as one of its values, one that does not occur as
  the default; an array attribute reads as all its values, in some order. The lines are those the
  loader accepts: an attribute and a value are not empty and hold no equals sign and no line end, the
  attribute does not start with \<open>#\<close>, and white space at both ends of a line is dropped.\<close>

theorem configuration_reads_back:
  assumes "\<forall>l \<in> set lines. ini_line_ok l" "is_iteration key_order" "fs (c_str fileName) = Some (ini_text lines)"
  shows "\<exists>config. Configuration_loadFromFile fs fileName = Inr config \<and>
    (\<forall>a v d. filter (\<lambda>e. fst e = a) (ini_entries lines) = [(a, v)] \<longrightarrow> getStringValue key_order a d config = v) \<and>
    (\<forall>a d. a \<in> fst ` set (ini_entries lines) \<longrightarrow> (a, getStringValue key_order a d config) \<in> set (ini_entries lines)) \<and>
    (\<forall>a d. a \<notin> fst ` set (ini_entries lines) \<longrightarrow> getStringValue key_order a d config = d) \<and>
    (\<forall>a. mset (getArray key_order a config) = mset (map snd (filter (\<lambda>e. fst e = a @ ''[]'') (ini_entries lines))))"
proof -
  let ?e = "ini_entries lines"
  have load: "Configuration_loadFromFile fs fileName = Inr (ini_entries lines)"
    using load_lines_entries[OF assms(1)] assms(3) by (simp add: Configuration_loadFromFile_def)
  show ?thesis
  proof (intro exI[of _ ?e] conjI allI impI)
    show "getStringValue key_order a d ?e = d" if "a \<notin> fst ` set ?e" for a d
      using that by (auto simp: getStringValue_def doesAttributeExist_def)
    show "mset (getArray key_order a ?e) = mset (map snd (filter (\<lambda>e. fst e = a @ ''[]'') ?e))" for a
      unfolding getArray_def by (rule equal_range_values[OF assms(2)])
  qed (rule load, erule getStringValue_once[OF assms(2)], erule getStringValue_one_of[OF assms(2)])
qed

text \<open>A comment, two symbols and a port whose line is indented and ends in a carriage return.\<close>

definition sample_ini :: "ini_line list" where
  "sample_ini = [Skipped ''# symbols'', Entry [] (''SYMBOL[]'', ''X'') [], Entry [] (''SYMBOL[]'', ''Y'') [], Skipped [],
     Entry '' '' (''PORT'', ''5'') [CHR 0x0D]]"

theorem configuration_reads_back_witness:
  "\<exists>config. Configuration_loadFromFile (\<lambda>_. Some (ini_text sample_ini)) ''f.ini'' = Inr config \<and>
     getStringValue (\<lambda>vs. vs) ''PORT'' [] config = ''5'' \<and> mset (getArray (\<lambda>vs. vs) ''SYMBOL'' config) = {#''X'', ''Y''#}"
proof -
  have "\<forall>l \<in> set sample_ini. ini_line_ok l"
    by (simp add: sample_ini_def is_space_def trim_def trimLeft_def trimRight_def)
  from configuration_reads_back[OF this is_iteration_id, of "\<lambda>_. Some (ini_text sample_ini)" "''f.ini''"]
  obtain config where c: "Configuration_loadFromFile (\<lambda>_. Some (ini_text sample_ini)) ''f.ini'' = Inr config"
    "\<forall>a v d. filter (\<lambda>e. fst e = a) (ini_entries sample_ini) = [(a, v)] \<longrightarrow> getStringValue (\<lambda>vs. vs) a d config = v"
    "\<forall>a. mset (getArray (\<lambda>vs. vs) a config) = mset (map snd (filter (\<lambda>e. fst e = a @ ''[]'') (ini_entries sample_ini)))"
    by blast
  have "getStringValue (\<lambda>vs. vs) ''PORT'' [] config = ''5''" using c(2) by (simp add: sample_ini_def ini_entries_def)
  moreover have "mset (getArray (\<lambda>vs. vs) ''SYMBOL'' config) = {#''X'', ''Y''#}" using c(3) by (simp add: sample_ini_def ini_entries_def)
  ultimately show ?thesis using c(1) by blast
qed

end
