(* ===== verification/Server_Configuration.thy ===== *)
theory Server_Configuration
  imports Configuration Fix_Server_Reactor
begin

text \<open>
  \<open>ServerConfiguration\<close> (\<open>source/server/server_configuration.h\<close>) with the attribute names and
  defaults of \<open>server_constants.h\<close>, the logger's arguments and log levels
  (\<open>source/core/logger/logger_arguments.h\<close>, \<open>log_levels.h\<close>).
\<close>

section \<open>Logger arguments\<close>

datatype LogLevel = LEVEL_FATAL | LEVEL_ERROR | LEVEL_WARNING | LEVEL_INFO | LEVEL_DEBUG

primrec logLevelToString :: "LogLevel \<Rightarrow> string" where
  "logLevelToString LEVEL_FATAL = ''FATAL''"
| "logLevelToString LEVEL_INFO = ''INFO''"
| "logLevelToString LEVEL_WARNING = ''WARNING''"
| "logLevelToString LEVEL_ERROR = ''ERROR''"
| "logLevelToString LEVEL_DEBUG = ''DEBUG''"

definition logLevelFromString :: "string \<Rightarrow> LogLevel result" where
  "logLevelFromString logLevelString =
     (if compare logLevelString ''INFO'' then Inr LEVEL_INFO
      else if compare logLevelString ''WARNING'' then Inr LEVEL_WARNING
      else if compare logLevelString ''ERROR'' then Inr LEVEL_ERROR
      else if compare logLevelString ''DEBUG'' then Inr LEVEL_DEBUG
      else if compare logLevelString ''FATAL'' then Inr LEVEL_FATAL
      else Inl (Runtime_error ''Invalid log level type''))"

record LoggerArguments =
  m_bufferSize :: csize
  m_rotationSizeInBytes :: csize
  m_writePeriodInMilliSeconds :: csize
  m_logLevel :: LogLevel
  m_copyToStdout :: bool
  m_memoryMappedFileName :: string

definition LoggerArguments_new :: LoggerArguments where
  "LoggerArguments_new = \<lparr>m_bufferSize = 819200, m_rotationSizeInBytes = 10240000,
     m_writePeriodInMilliSeconds = 1000, m_logLevel = LEVEL_ERROR, m_copyToStdout = False,
     m_memoryMappedFileName = []\<rparr>"

section \<open>\<open>server_constants\<close>\<close>

abbreviation (input) CONFIGURATION_FILE :: string where "CONFIGURATION_FILE \<equiv> ''liteExchange.ini''"
abbreviation (input) CONFIGURATION_FILE_PROCESS_PRIORITY :: string where "CONFIGURATION_FILE_PROCESS_PRIORITY \<equiv> ''PROCESS_PRIORITY''"
abbreviation (input) CONFIGURATION_FILE_ORDER_ENTRY_MODE :: string where "CONFIGURATION_FILE_ORDER_ENTRY_MODE \<equiv> ''ORDER_ENTRY_MODE''"
abbreviation (input) CONFIGURATION_FILE_TCP_DISABLE_NAGLE :: string where "CONFIGURATION_FILE_TCP_DISABLE_NAGLE \<equiv> ''TCP_DISABLE_NAGLE''"
abbreviation (input) CONFIGURATION_FILE_TCP_QUICK_ACK :: string where "CONFIGURATION_FILE_TCP_QUICK_ACK \<equiv> ''TCP_QUICK_ACK''"
abbreviation (input) CONFIGURATION_FILE_TCP_PENDING_CONNECTION_SIZE :: string where "CONFIGURATION_FILE_TCP_PENDING_CONNECTION_SIZE \<equiv> ''TCP_PENDING_CONNECTION_SIZE''"
abbreviation (input) CONFIGURATION_FILE_TCP_SOCKET_OPTION_SEND_BUFFER_SIZE :: string where "CONFIGURATION_FILE_TCP_SOCKET_OPTION_SEND_BUFFER_SIZE \<equiv> ''TCP_SOCKET_OPTION_SEND_BUFFER_SIZE''"
abbreviation (input) CONFIGURATION_FILE_TCP_SOCKET_OPTION_RECEIVE_BUFFER_SIZE :: string where "CONFIGURATION_FILE_TCP_SOCKET_OPTION_RECEIVE_BUFFER_SIZE \<equiv> ''TCP_SOCKET_OPTION_RECV_BUFFER_SIZE''"
abbreviation (input) CONFIGURATION_FILE_TCP_POLL_TIMEOUT_MICROSECONDS :: string where "CONFIGURATION_FILE_TCP_POLL_TIMEOUT_MICROSECONDS \<equiv> ''TCP_POLL_TIMEOUT_MICROSECONDS''"
abbreviation (input) CONFIGURATION_FILE_TCP_POLL_MAX_EVENTS :: string where "CONFIGURATION_FILE_TCP_POLL_MAX_EVENTS \<equiv> ''TCP_POLL_MAX_EVENTS''"
abbreviation (input) CONFIGURATION_FILE_REACTOR_THREAD_CPU_ID :: string where "CONFIGURATION_FILE_REACTOR_THREAD_CPU_ID \<equiv> ''REACTOR_THREAD_CPU_ID''"
abbreviation (input) CONFIGURATION_FILE_REACTOR_THREAD_PRIORITY :: string where "CONFIGURATION_FILE_REACTOR_THREAD_PRIORITY \<equiv> ''REACTOR_THREAD_PRIORITY''"
abbreviation (input) CONFIGURATION_FILE_REACTOR_THREAD_STACK_SIZE :: string where "CONFIGURATION_FILE_REACTOR_THREAD_STACK_SIZE \<equiv> ''REACTOR_THREAD_STACK_SIZE''"
abbreviation (input) CONFIGURATION_FILE_FIX_SERVER_COMP_ID :: string where "CONFIGURATION_FILE_FIX_SERVER_COMP_ID \<equiv> ''FIX_SERVER_COMP_ID''"
abbreviation (input) CONFIGURATION_FILE_FIX_SERVER_PORT :: string where "CONFIGURATION_FILE_FIX_SERVER_PORT \<equiv> ''FIX_SERVER_PORT''"
abbreviation (input) CONFIGURATION_FILE_FIX_SERVER_ADDRESS :: string where "CONFIGURATION_FILE_FIX_SERVER_ADDRESS \<equiv> ''FIX_SERVER_ADDRESS''"
abbreviation (input) CONFIGURATION_FILE_FIX_SERVER_TIME_PRECISION :: string where "CONFIGURATION_FILE_FIX_SERVER_TIME_PRECISION \<equiv> ''FIX_SERVER_TIME_PRECISION''"
abbreviation (input) CONFIGURATION_FILE_FIX_SERVER_RECEIVE_CACHE_SIZE :: string where "CONFIGURATION_FILE_FIX_SERVER_RECEIVE_CACHE_SIZE \<equiv> ''FIX_RECEIVE_CACHE_SIZE''"
abbreviation (input) CONFIGURATION_FILE_FIX_SERVER_SEQUENCE_NUMBER_VALIDATION :: string where "CONFIGURATION_FILE_FIX_SERVER_SEQUENCE_NUMBER_VALIDATION \<equiv> ''FIX_SERVER_SEQUENCE_NUMBER_VALIDATION''"
abbreviation (input) CONFIGURATION_FILE_OFFLINE_ORDER_ENTRY_FILE :: string where "CONFIGURATION_FILE_OFFLINE_ORDER_ENTRY_FILE \<equiv> ''OFFLINE_ORDER_ENTRY_FILE''"
abbreviation (input) CONFIGURATION_FILE_OFFLINE_ORDER_ENTRY_OUTPUT_FILE :: string where "CONFIGURATION_FILE_OFFLINE_ORDER_ENTRY_OUTPUT_FILE \<equiv> ''OFFLINE_ORDER_ENTRY_OUTPUT_FILE''"
abbreviation (input) CONFIGURATION_FILE_CENTRAL_ORDER_BOOK_MULTITHREADED_ORDER_MATCHING :: string where "CONFIGURATION_FILE_CENTRAL_ORDER_BOOK_MULTITHREADED_ORDER_MATCHING \<equiv> ''CENTRAL_ORDER_BOOK_MULTITHREADED_ORDER_MATCHING''"
abbreviation (input) CONFIGURATION_FILE_CENTRAL_ORDER_BOOK_PIN_THREADS_TO_CORES :: string where "CONFIGURATION_FILE_CENTRAL_ORDER_BOOK_PIN_THREADS_TO_CORES \<equiv> ''CENTRAL_ORDER_BOOK_PIN_THREADS_TO_CORES''"
abbreviation (input) CONFIGURATION_FILE_CENTRAL_ORDER_BOOK_WORK_QUEUE_SIZE_PER_THREAD :: string where "CONFIGURATION_FILE_CENTRAL_ORDER_BOOK_WORK_QUEUE_SIZE_PER_THREAD \<equiv> ''CENTRAL_ORDER_BOOK_WORK_QUEUE_SIZE_PER_THREAD''"
abbreviation (input) CONFIGURATION_FILE_CENTRAL_ORDER_BOOK_THREAD_STACK_SIZE :: string where "CONFIGURATION_FILE_CENTRAL_ORDER_BOOK_THREAD_STACK_SIZE \<equiv> ''CENTRAL_ORDER_BOOK_THREAD_STACK_SIZE''"
abbreviation (input) CONFIGURATION_FILE_CENTRAL_ORDER_BOOK_THREAD_PRIORITY :: string where "CONFIGURATION_FILE_CENTRAL_ORDER_BOOK_THREAD_PRIORITY \<equiv> ''CENTRAL_ORDER_BOOK_THREAD_PRIORITY''"
abbreviation (input) CONFIGURATION_FILE_CENTRAL_ORDER_BOOK_HYPER_THREADING :: string where "CONFIGURATION_FILE_CENTRAL_ORDER_BOOK_HYPER_THREADING \<equiv> ''CENTRAL_ORDER_BOOK_HYPER_THREADING''"
abbreviation (input) CONFIGURATION_FILE_SYMBOL_ARRAY :: string where "CONFIGURATION_FILE_SYMBOL_ARRAY \<equiv> ''SYMBOL''"
abbreviation (input) CONFIGURATION_FILE_OUTGOING_MESSAGE_QUEUE_SIZE_PER_THREAD :: string where "CONFIGURATION_FILE_OUTGOING_MESSAGE_QUEUE_SIZE_PER_THREAD \<equiv> ''OUTGOING_MESSAGE_QUEUE_SIZE_PER_THREAD''"
abbreviation (input) CONFIGURATION_FILE_OUTGOING_MESSAGE_QUEUE_THREAD_STACK_SIZE :: string where "CONFIGURATION_FILE_OUTGOING_MESSAGE_QUEUE_THREAD_STACK_SIZE \<equiv> ''OUTGOING_MESSAGE_PROCESSOR_THREAD_STACK_SIZE''"
abbreviation (input) CONFIGURATION_FILE_OUTGOING_MESSAGE_QUEUE_THREAD_PRIORITY :: string where "CONFIGURATION_FILE_OUTGOING_MESSAGE_QUEUE_THREAD_PRIORITY \<equiv> ''OUTGOING_MESSAGE_PROCESSOR_THREAD_PRIORITY''"
abbreviation (input) CONFIGURATION_FILE_OUTGOING_MESSAGE_QUEUE_THREAD_CPU_ID :: string where "CONFIGURATION_FILE_OUTGOING_MESSAGE_QUEUE_THREAD_CPU_ID \<equiv> ''OUTGOING_MESSAGE_PROCESSOR_CPU_ID''"
abbreviation (input) CONFIGURATION_FILE_LOGGER_COPY_TO_STDOUT :: string where "CONFIGURATION_FILE_LOGGER_COPY_TO_STDOUT \<equiv> ''LOGGER_COPY_TO_STDOUT''"
abbreviation (input) CONFIGURATION_FILE_LOGGER_BUFFER_SIZE :: string where "CONFIGURATION_FILE_LOGGER_BUFFER_SIZE \<equiv> ''LOGGER_BUFFER_SIZE''"
abbreviation (input) CONFIGURATION_FILE_LOGGER_WRITE_PERIOD_MILLISECONDS :: string where "CONFIGURATION_FILE_LOGGER_WRITE_PERIOD_MILLISECONDS \<equiv> ''LOGGER_WRITE_PERIOD_MILLISECONDS''"
abbreviation (input) CONFIGURATION_FILE_LOGGER_ROTATION_SIZE_IN_BYTES :: string where "CONFIGURATION_FILE_LOGGER_ROTATION_SIZE_IN_BYTES \<equiv> ''LOGGER_ROTATION_SIZE_IN_BYTES''"
abbreviation (input) CONFIGURATION_FILE_LOGGER_MEMORY_MAPPED_FILE :: string where "CONFIGURATION_FILE_LOGGER_MEMORY_MAPPED_FILE \<equiv> ''LOGGER_MEMORY_MAPPED_FILE''"
abbreviation (input) CONFIGURATION_FILE_LOGGER_LOG_LEVEL :: string where "CONFIGURATION_FILE_LOGGER_LOG_LEVEL \<equiv> ''LOGGER_LOG_LEVEL''"
abbreviation (input) CONFIGURATION_DEFAULT_PROCESS_PRIORITY :: string where "CONFIGURATION_DEFAULT_PROCESS_PRIORITY \<equiv> ''NORMAL''"
abbreviation (input) CONFIGURATION_DEFAULT_CENTRAL_ORDER_BOOK_MULTITHREADED_ORDER_MATCHING_ENGINE :: bool where "CONFIGURATION_DEFAULT_CENTRAL_ORDER_BOOK_MULTITHREADED_ORDER_MATCHING_ENGINE \<equiv> True"
abbreviation (input) CONFIGURATION_DEFAULT_CENTRAL_ORDER_BOOK_PIN_THREADS_TO_CORES :: bool where "CONFIGURATION_DEFAULT_CENTRAL_ORDER_BOOK_PIN_THREADS_TO_CORES \<equiv> True"
abbreviation (input) CONFIGURATION_DEFAULT_CENTRAL_ORDER_BOOK_HYPER_THREADING :: bool where "CONFIGURATION_DEFAULT_CENTRAL_ORDER_BOOK_HYPER_THREADING \<equiv> True"
abbreviation (input) CONFIGURATION_DEFAULT_CENTRAL_ORDER_BOOK_WORK_QUEUE_SIZE_PER_THREAD :: int where "CONFIGURATION_DEFAULT_CENTRAL_ORDER_BOOK_WORK_QUEUE_SIZE_PER_THREAD \<equiv> 128"
abbreviation (input) CONFIGURATION_DEFAULT_CENTRAL_ORDER_BOOK_THREAD_PRIORITY :: string where "CONFIGURATION_DEFAULT_CENTRAL_ORDER_BOOK_THREAD_PRIORITY \<equiv> ''NORMAL''"
abbreviation (input) CONFIGURATION_DEFAULT_CENTRAL_ORDER_BOOK_THREAD_STACK_SIZE :: int where "CONFIGURATION_DEFAULT_CENTRAL_ORDER_BOOK_THREAD_STACK_SIZE \<equiv> 0"
abbreviation (input) CONFIGURATION_DEFAULT_OUTGOING_MESSAGE_QUEUE_SIZE_PER_THREAD :: int where "CONFIGURATION_DEFAULT_OUTGOING_MESSAGE_QUEUE_SIZE_PER_THREAD \<equiv> 128"
abbreviation (input) SERVER_THREAD_SLEEP_DURATION_MICROSECONDS :: int where "SERVER_THREAD_SLEEP_DURATION_MICROSECONDS \<equiv> 1000"

section \<open>The server's configuration\<close>

record ServerConfiguration =
  m_outgoingMessageQueueSizePerThread :: int
  m_outgoingMessageThreadCpuId :: int
  outgoingMessageThreadStackSize :: int
  m_outgoingMessageThreadPriority :: ThreadPriority
  m_orderEntryMode :: string
  m_processPriority :: string
  m_offlineOrderEntryFile :: string
  m_offlineOrderEntryOutputFile :: string
  conf_isMatchingMultithreaded :: bool
  m_threadPoolArguments :: ThreadPoolArguments
  m_symbols :: "string list"
  m_loggerConfiguration :: LoggerArguments
  m_fixServerConfiguration :: FixServerConfiguration

text \<open>The parts of \<open>load\<close>, in the order of the code.\<close>

definition load_fix_server ::
  "(string list \<Rightarrow> string list) \<Rightarrow> Configuration \<Rightarrow> FixServerConfiguration result" where
  "load_fix_server ord c =
     res_bind (getIntValue ord CONFIGURATION_FILE_TCP_PENDING_CONNECTION_SIZE 32 c) (\<lambda>pending.
     res_bind (getIntValue ord CONFIGURATION_FILE_TCP_SOCKET_OPTION_RECEIVE_BUFFER_SIZE 102400 c) (\<lambda>recv_size.
     res_bind (getIntValue ord CONFIGURATION_FILE_TCP_SOCKET_OPTION_SEND_BUFFER_SIZE 102400 c) (\<lambda>send_size.
     res_bind (getIntValue ord CONFIGURATION_FILE_TCP_POLL_TIMEOUT_MICROSECONDS 1000 c) (\<lambda>poll_timeout.
     res_bind (getIntValue ord CONFIGURATION_FILE_TCP_POLL_MAX_EVENTS 1024 c) (\<lambda>max_events.
     res_bind (getThreadPriorityFromString (getStringValue ord CONFIGURATION_FILE_REACTOR_THREAD_PRIORITY [] c)) (\<lambda>priority.
     res_bind (getIntValue ord CONFIGURATION_FILE_REACTOR_THREAD_CPU_ID (- 1) c) (\<lambda>cpu.
     res_bind (getIntValue ord CONFIGURATION_FILE_REACTOR_THREAD_STACK_SIZE 0 c) (\<lambda>stack.
     res_bind (getIntValue ord CONFIGURATION_FILE_FIX_SERVER_PORT 0 c) (\<lambda>port.
     res_bind (getIntValue ord CONFIGURATION_FILE_FIX_SERVER_RECEIVE_CACHE_SIZE 0 c) (\<lambda>cache.
     Inr \<lparr>m_tcpDisableNagle = getBoolValue ord CONFIGURATION_FILE_TCP_DISABLE_NAGLE True c,
          m_tcpQuickAck = getBoolValue ord CONFIGURATION_FILE_TCP_QUICK_ACK True c,
          m_tcpPendingConnectionSize = pending, m_tcpSocketOptionSendBufferSize = send_size,
          m_tcpSocketOptionReceiveBufferSize = recv_size, m_tcpPollTimeoutMicroseconds = poll_timeout,
          m_tcpPollMaxEvents = max_events, m_reactorThreadCpuId = cpu, m_reactorThreadStackSize = stack,
          m_reactorThreadPriority = priority,
          m_fixSequenceNumberValidation = getBoolValue ord CONFIGURATION_FILE_FIX_SERVER_SEQUENCE_NUMBER_VALIDATION True c,
          m_fixCompId = getStringValue ord CONFIGURATION_FILE_FIX_SERVER_COMP_ID [] c,
          m_fixAddress = getStringValue ord CONFIGURATION_FILE_FIX_SERVER_ADDRESS [] c, m_fixReceiveCacheSize = cache, m_fixPort = port,
          m_fixTimePrecision = getSubsecondsFromString (getStringValue ord CONFIGURATION_FILE_FIX_SERVER_TIME_PRECISION ''MICROSECONDS'' c)\<rparr>))))))))))"

definition load_logger :: "(string list \<Rightarrow> string list) \<Rightarrow> Configuration \<Rightarrow> LoggerArguments result" where
  "load_logger ord c =
     res_bind (getIntValue ord CONFIGURATION_FILE_LOGGER_BUFFER_SIZE 819200 c) (\<lambda>bufferSize.
     res_bind (getIntValue ord CONFIGURATION_FILE_LOGGER_WRITE_PERIOD_MILLISECONDS 1000 c) (\<lambda>writePeriod.
     res_bind (getIntValue ord CONFIGURATION_FILE_LOGGER_ROTATION_SIZE_IN_BYTES 10240000 c) (\<lambda>rotationSize.
     res_bind (logLevelFromString (getStringValue ord CONFIGURATION_FILE_LOGGER_LOG_LEVEL [] c)) (\<lambda>logLevel.
     Inr \<lparr>m_bufferSize = word_of_int bufferSize, m_rotationSizeInBytes = word_of_int rotationSize,
          m_writePeriodInMilliSeconds = word_of_int writePeriod, m_logLevel = logLevel,
          m_copyToStdout = getBoolValue ord CONFIGURATION_FILE_LOGGER_COPY_TO_STDOUT False c,
          m_memoryMappedFileName = getStringValue ord CONFIGURATION_FILE_LOGGER_MEMORY_MAPPED_FILE [] c\<rparr>))))"

definition load_thread_pool :: "(string list \<Rightarrow> string list) \<Rightarrow> Configuration \<Rightarrow> ThreadPoolArguments result" where
  "load_thread_pool ord c =
     res_bind (getIntValue ord CONFIGURATION_FILE_CENTRAL_ORDER_BOOK_WORK_QUEUE_SIZE_PER_THREAD
       CONFIGURATION_DEFAULT_CENTRAL_ORDER_BOOK_WORK_QUEUE_SIZE_PER_THREAD c) (\<lambda>queueSize.
     res_bind (getIntValue ord CONFIGURATION_FILE_CENTRAL_ORDER_BOOK_THREAD_STACK_SIZE
       CONFIGURATION_DEFAULT_CENTRAL_ORDER_BOOK_THREAD_STACK_SIZE c) (\<lambda>stackSize.
     res_bind (getThreadPriorityFromString (getStringValue ord CONFIGURATION_FILE_CENTRAL_ORDER_BOOK_THREAD_PRIORITY CONFIGURATION_DEFAULT_CENTRAL_ORDER_BOOK_THREAD_PRIORITY c)) (\<lambda>priority.
     Inr (ThreadPoolArguments_default\<lparr>
       m_pinThreadsToCores := getBoolValue ord CONFIGURATION_FILE_CENTRAL_ORDER_BOOK_PIN_THREADS_TO_CORES
         CONFIGURATION_DEFAULT_CENTRAL_ORDER_BOOK_PIN_THREADS_TO_CORES c,
       m_hyperThreading := getBoolValue ord CONFIGURATION_FILE_CENTRAL_ORDER_BOOK_HYPER_THREADING
         CONFIGURATION_DEFAULT_CENTRAL_ORDER_BOOK_HYPER_THREADING c,
       m_workQueueSizePerThread := word_of_int queueSize, m_threadStackSize := word_of_int stackSize,
       m_threadPriority := priority\<rparr>))))"

text \<open>
  \<open>load\<close>. The parameter \<open>key_order\<close> is the order in which the hash table keeps equal keys.
\<close>

definition ServerConfiguration_load ::
  "(string list \<Rightarrow> string list) \<Rightarrow> files \<Rightarrow> string \<Rightarrow> ServerConfiguration result" where
  "ServerConfiguration_load key_order fs configurationFile =
     res_bind (Configuration_loadFromFile fs configurationFile) (\<lambda>c.
     res_bind (load_fix_server key_order c) (\<lambda>fix_server.
     res_bind (load_logger key_order c) (\<lambda>logger.
     let symbols = getArray key_order CONFIGURATION_FILE_SYMBOL_ARRAY c
     in if length symbols = 0 then Inl (Runtime_error ''No symbol found in the ini file'')
        else let multithreaded = getBoolValue key_order CONFIGURATION_FILE_CENTRAL_ORDER_BOOK_MULTITHREADED_ORDER_MATCHING
               CONFIGURATION_DEFAULT_CENTRAL_ORDER_BOOK_MULTITHREADED_ORDER_MATCHING_ENGINE c
             in res_bind (if multithreaded then load_thread_pool key_order c else Inr ThreadPoolArguments_default) (\<lambda>pool.
                res_bind (getIntValue key_order CONFIGURATION_FILE_OUTGOING_MESSAGE_QUEUE_SIZE_PER_THREAD
                  CONFIGURATION_DEFAULT_OUTGOING_MESSAGE_QUEUE_SIZE_PER_THREAD c) (\<lambda>queueSize.
                res_bind (getIntValue key_order CONFIGURATION_FILE_OUTGOING_MESSAGE_QUEUE_THREAD_CPU_ID (- 1) c) (\<lambda>cpu.
                res_bind (getIntValue key_order CONFIGURATION_FILE_OUTGOING_MESSAGE_QUEUE_THREAD_STACK_SIZE 0 c) (\<lambda>stack.
                res_bind (getThreadPriorityFromString
                  (getStringValue key_order CONFIGURATION_FILE_OUTGOING_MESSAGE_QUEUE_THREAD_PRIORITY ''NORMAL'' c)) (\<lambda>priority.
                Inr \<lparr>m_outgoingMessageQueueSizePerThread = queueSize, m_outgoingMessageThreadCpuId = cpu,
                     outgoingMessageThreadStackSize = stack, m_outgoingMessageThreadPriority = priority,
                     m_orderEntryMode = getStringValue key_order CONFIGURATION_FILE_ORDER_ENTRY_MODE ''FIX'' c,
                     m_processPriority = getStringValue key_order CONFIGURATION_FILE_PROCESS_PRIORITY CONFIGURATION_DEFAULT_PROCESS_PRIORITY c,
                     m_offlineOrderEntryFile = getStringValue key_order CONFIGURATION_FILE_OFFLINE_ORDER_ENTRY_FILE [] c,
                     m_offlineOrderEntryOutputFile = getStringValue key_order CONFIGURATION_FILE_OFFLINE_ORDER_ENTRY_OUTPUT_FILE [] c,
                     conf_isMatchingMultithreaded = multithreaded, m_threadPoolArguments = pool, m_symbols = symbols,
                     m_loggerConfiguration = logger, m_fixServerConfiguration = fix_server\<rparr>)))))))) "

section \<open>Properties\<close>

lemma log_level_roundtrip: "logLevelFromString (logLevelToString level) = Inr level"
  by (cases level; hypsubst_thin; code_simp)

lemma priority_missing: "getThreadPriorityFromString [] = Inl Std_invalid_argument"
  by (simp add: getThreadPriorityFromString_def)

text \<open>A configuration without \<open>REACTOR_THREAD_PRIORITY\<close> cannot be loaded. The default of the attribute is the
  empty text, which is not the name of a priority, so loading ends in \<open>std::invalid_argument\<close> or an
  earlier error, although the configuration structure has a default priority.\<close>

lemma load_needs_reactor_priority:
  assumes "Configuration_loadFromFile fs fileName = Inr c" "\<not> doesAttributeExist ''REACTOR_THREAD_PRIORITY'' c"
  shows "\<exists>e. ServerConfiguration_load key_order fs fileName = Inl e"
proof -
  have "\<exists>e. load_fix_server key_order c = Inl e"
    using assms(2) by (auto simp: load_fix_server_def getStringValue_def priority_missing res_bind_def split: sum.splits)
  then show ?thesis using assms(1) by (auto simp: ServerConfiguration_load_def)
qed

end
