(* ===== verification/Process_Services.thy ===== *)
theory Process_Services
  imports File_Utility
begin

text \<open>
  The services of the process around the exchange, Linux build: \<open>source/core/self_process.h\<close>,
  \<open>console_utility.h\<close>, \<open>callstack.h\<close>, \<open>pretty_exception.h\<close>, \<open>trace.h\<close>, \<open>environment.h\<close> and
  \<open>stopwatch.cpp\<close>, and what \<open>main.cpp\<close> does with them before it loads its configuration. The answers of
  the operating system are arguments.
\<close>

section \<open>Priorities\<close>

datatype ProcessPriority = PROCESS_IDLE | PROCESS_BELOW_NORMAL | PROCESS_NORMAL | PROCESS_ABOVE_NORMAL | PROCESS_CRITICAL

definition NATIVE_PROCESS_PRIORITIES :: "(ProcessPriority \<times> int) list" where
  "NATIVE_PROCESS_PRIORITIES =
     [(PROCESS_IDLE, 19), (PROCESS_BELOW_NORMAL, 1), (PROCESS_NORMAL, 0), (PROCESS_ABOVE_NORMAL, - 1), (PROCESS_CRITICAL, - 20)]"

text \<open>The value of the enumerator, with which the table is indexed.\<close>

primrec ProcessPriority_index :: "ProcessPriority \<Rightarrow> nat" where
  "ProcessPriority_index PROCESS_IDLE = 0"
| "ProcessPriority_index PROCESS_BELOW_NORMAL = 1"
| "ProcessPriority_index PROCESS_NORMAL = 2"
| "ProcessPriority_index PROCESS_ABOVE_NORMAL = 3"
| "ProcessPriority_index PROCESS_CRITICAL = 4"

definition getProcessPriorityFromString :: "string \<Rightarrow> ProcessPriority result" where
  "getProcessPriorityFromString input =
     (if input = ''IDLE'' then Inr PROCESS_IDLE
      else if input = ''BELOW_NORMAL'' then Inr PROCESS_BELOW_NORMAL
      else if input = ''NORMAL'' then Inr PROCESS_NORMAL
      else if input = ''ABOVE_NORMAL'' then Inr PROCESS_ABOVE_NORMAL
      else if input = ''CRITICAL'' then Inr PROCESS_CRITICAL
      else Inl Std_invalid_argument)"

text \<open>\<open>setpriority\<close> is the call of the system for this process: the nice value to its status.\<close>

definition SelfProcess_setPriority :: "(int \<Rightarrow> int) \<Rightarrow> ProcessPriority \<Rightarrow> bool result" where
  "SelfProcess_setPriority setpriority priority =
     res_bind (vec_at NATIVE_PROCESS_PRIORITIES (ProcessPriority_index priority)) (\<lambda>(_, nativePriorityValue).
     Inr (setpriority nativePriorityValue \<noteq> - 1))"

definition SelfProcess_getPriority :: "int \<Rightarrow> int" where
  "SelfProcess_getPriority getpriority = getpriority"

definition amIAdmin :: "nat \<Rightarrow> bool" where
  "amIAdmin uid = (uid = 0)"

section \<open>Directories\<close>

text \<open>The current directory changes when \<open>chdir\<close> accepts the name; its status is not looked at.\<close>

definition setCurrentWorkingDirectory :: "(string \<Rightarrow> bool) \<Rightarrow> string \<Rightarrow> string \<Rightarrow> string" where
  "setCurrentWorkingDirectory chdir dir cwd = (if chdir (c_str dir) then c_str dir else cwd)"

definition tempBufferLength :: nat where
  "tempBufferLength = 1024"

text \<open>
  \<open>readlink\<close> gives the target of the link, cut to the length of the buffer, or -1; the NUL is written
  at the index it returned. \<open>beyond\<close> is what follows the vector of \<open>getDirectoryNameFromPath\<close> in memory.
\<close>

definition getCurrentExecutableDirectory :: "string \<Rightarrow> string option \<Rightarrow> string result" where
  "getCurrentExecutableDirectory beyond link =
     (case link of
        None \<Rightarrow> Inl Out_of_bounds
      | Some target \<Rightarrow>
          let bytes = min tempBufferLength (length target)
          in if bytes < tempBufferLength then getDirectoryNameFromPath beyond (c_str (take bytes target))
             else Inl Out_of_bounds)"

definition getCurrentWorkingDirectory :: "(string \<Rightarrow> string option) \<Rightarrow> string result" where
  "getCurrentWorkingDirectory getenv = (case getenv ''PATH'' of None \<Rightarrow> Inl Null_dereference | Some temp \<Rightarrow> Inr (c_str temp))"

section \<open>The console\<close>

text \<open>
  \<open>printf\<close> without arguments: \<open>%%\<close> stands for the percent sign, any other directive reads an argument
  that was not passed.
\<close>

fun printf_plain :: "string \<Rightarrow> string result" where
  "printf_plain [] = Inr []"
| "printf_plain [c] = (if c = CHR ''%'' then Inl Indeterminate_read else Inr [c])"
| "printf_plain (c # d # cs) =
     (if c = CHR ''%''
      then if d = CHR ''%'' then res_bind (printf_plain cs) (\<lambda>t. Inr (CHR ''%'' # t)) else Inl Indeterminate_read
      else res_bind (printf_plain (d # cs)) (\<lambda>t. Inr (c # t)))"

text \<open>\<open>core::format\<close> on a message alone.\<close>

definition format_message :: "string \<Rightarrow> string result" where
  "format_message message = res_bind (printf_plain (c_str message)) format"

datatype ConsoleColor = FG_DEFAULT | FG_RED | FG_GREEN | FG_BLUE

definition NATIVE_CONSOLE_COLORS :: "(ConsoleColor \<times> nat) list" where
  "NATIVE_CONSOLE_COLORS = [(FG_DEFAULT, 0), (FG_RED, 31), (FG_GREEN, 32), (FG_BLUE, 34)]"

abbreviation ESC :: char where "ESC \<equiv> CHR 0x1B"
abbreviation LF :: char where "LF \<equiv> CHR 0x0A"

primrec getAnsiColorCode :: "ConsoleColor \<Rightarrow> string" where
  "getAnsiColorCode FG_DEFAULT = ESC # ''[0;31m''"
| "getAnsiColorCode FG_RED = ESC # ''[0;31m''"
| "getAnsiColorCode FG_GREEN = ESC # ''[0;32m''"
| "getAnsiColorCode FG_BLUE = ESC # ''[0;34m''"

text \<open>What is written to the standard output.\<close>

definition consoleOutputWithColor :: "ConsoleColor \<Rightarrow> string \<Rightarrow> string result" where
  "consoleOutputWithColor foregroundColor message =
     res_bind (format_message message) (\<lambda>buffer.
     Inr (getAnsiColorCode foregroundColor @ buffer @ ESC # ''[0m'' @ [LF]))"

definition pressAnyKeyToContinue :: string where
  "pressAnyKeyToContinue = LF # ''Press any key to continue...'' @ [LF]"

text \<open>What reaches the system log, which takes the formatted text for a format again.\<close>

definition trace :: "string \<Rightarrow> string result" where
  "trace message = res_bind (format_message message) printf_plain"

definition Environment_getLastError :: "(int \<Rightarrow> string) \<Rightarrow> int \<Rightarrow> string" where
  "Environment_getLastError strerror errno = c_str (strerror errno)"

section \<open>Exceptions with a call stack\<close>

definition MAX_FRAME_NUMBER :: int where
  "MAX_FRAME_NUMBER = 128"

definition EXCEPTION_CALLSTACK_DEPTH :: int where
  "EXCEPTION_CALLSTACK_DEPTH = 16"

definition NEW_LINE :: string where
  "NEW_LINE = [LF]"

text \<open>\<open>stack\<close> holds the symbols of the frames, this function first.\<close>

definition getCallStack :: "int \<Rightarrow> string list \<Rightarrow> string list result" where
  "getCallStack frameNumber stack =
     (if \<not> MAX_FRAME_NUMBER \<ge> frameNumber then Inl Assertion_failed
      else if frameNumber < 0 then Inl Std_length_error
      else let messages = take (nat frameNumber) stack; frameCount = length messages
           in Inr (map (\<lambda>i. show_nat (frameCount - i) @ '' : '' @ messages ! i) [1..<frameCount]))"

definition getCallstackAsString :: "int \<Rightarrow> string list \<Rightarrow> string result" where
  "getCallstackAsString frameNumber stack =
     res_bind (getCallStack frameNumber stack) (\<lambda>callstack. Inr (concat (map (\<lambda>frame. frame @ NEW_LINE) callstack)))"

definition pretty_message :: "string \<Rightarrow> string \<Rightarrow> string \<Rightarrow> nat \<Rightarrow> string list \<Rightarrow> string result" where
  "pretty_message exceptionType msg fileName line stack =
     res_bind (getCallstackAsString EXCEPTION_CALLSTACK_DEPTH stack) (\<lambda>callstack. Inr
       (''Exception type : '' @ exceptionType @ NEW_LINE @ NEW_LINE @
        ''Message : '' @ msg @ NEW_LINE @ NEW_LINE @
        ''File : '' @ fileName @ ''Line : '' @ show_nat line @ NEW_LINE @ NEW_LINE @
        ''Callstack : '' @ NEW_LINE @ NEW_LINE @ callstack @ NEW_LINE @ NEW_LINE))"

text \<open>What is written to the console, the text of the exception and the exception; or a failure before it is thrown.\<close>

definition THROW_PRETTY_EXCEPTION ::
  "cpp_error \<Rightarrow> string \<Rightarrow> string \<Rightarrow> string \<Rightarrow> nat \<Rightarrow> string list \<Rightarrow> (string \<times> string \<times> cpp_error) result" where
  "THROW_PRETTY_EXCEPTION exn exceptionType msg fileName line stack =
     res_bind (pretty_message exceptionType msg fileName line stack) (\<lambda>message.
     res_bind (consoleOutputWithColor FG_RED message) (\<lambda>out. Inr (out, c_str message, exn)))"

section \<open>Stop watches\<close>

text \<open>Points in time in nanoseconds.\<close>

record StopWatch =
  m_startTime :: int
  m_endTime :: int

definition StopWatch_start :: "int \<Rightarrow> StopWatch \<Rightarrow> StopWatch" where
  "StopWatch_start now w = w\<lparr>m_startTime := now\<rparr>"

definition StopWatch_stop :: "int \<Rightarrow> StopWatch \<Rightarrow> StopWatch" where
  "StopWatch_stop now w = w\<lparr>m_endTime := now\<rparr>"

text \<open>\<open>duration_cast\<close> rounds towards zero.\<close>

definition duration_cast :: "int \<Rightarrow> int \<Rightarrow> int" where
  "duration_cast unit d = sgn d * (\<bar>d\<bar> div unit)"

definition getElapsedTimeMilliseconds :: "StopWatch \<Rightarrow> int" where
  "getElapsedTimeMilliseconds w = duration_cast 1000000 (m_endTime w - m_startTime w)"

definition getElapsedTimeMicroseconds :: "StopWatch \<Rightarrow> int" where
  "getElapsedTimeMicroseconds w = duration_cast 1000 (m_endTime w - m_startTime w)"

section \<open>The start of \<open>main\<close>\<close>

definition admin_warning :: string where
  "admin_warning = '' WARNING : Program didn`t start with admin/root rights. Therefore will not be able to modify thread priorities.'' @ [LF]"

text \<open>The output and the current directory after the warning and the change of the directory.\<close>

definition main_prepare :: "nat \<Rightarrow> string \<Rightarrow> string option \<Rightarrow> (string \<Rightarrow> bool) \<Rightarrow> string \<Rightarrow> (string \<times> string) result" where
  "main_prepare uid beyond link chdir cwd =
     res_bind (if \<not> amIAdmin uid then consoleOutputWithColor FG_RED admin_warning else Inr []) (\<lambda>out.
     res_bind (getCurrentExecutableDirectory beyond link) (\<lambda>dir.
     Inr (out, setCurrentWorkingDirectory chdir dir cwd)))"

section \<open>Lemmas\<close>

lemma priority_table: "fst (NATIVE_PROCESS_PRIORITIES ! ProcessPriority_index p) = p" "ProcessPriority_index p < length NATIVE_PROCESS_PRIORITIES"
  by (cases p; simp add: NATIVE_PROCESS_PRIORITIES_def)+

text \<open>Setting a priority asks for its own nice value, and more urgent priorities ask for smaller ones.\<close>

lemma setPriority_native:
  "SelfProcess_setPriority setpriority p = Inr (setpriority (the (map_of NATIVE_PROCESS_PRIORITIES p)) \<noteq> - 1)"
  by (cases p) (simp_all add: SelfProcess_setPriority_def NATIVE_PROCESS_PRIORITIES_def)

lemma native_priorities_descend: "sorted_wrt (>) (map snd NATIVE_PROCESS_PRIORITIES)"
  by (simp add: NATIVE_PROCESS_PRIORITIES_def)

text \<open>The codes of the console are those of its table, but for the default color, which is printed red.\<close>

lemma ansi_code_of_table:
  "getAnsiColorCode c = ESC # ''[0;'' @ show_nat (the (map_of NATIVE_CONSOLE_COLORS c)) @ ''m'' \<longleftrightarrow> c \<noteq> FG_DEFAULT"
  by (cases c) (simp_all add: NATIVE_CONSOLE_COLORS_def show_nat.simps digit_char_def)

lemma c_str_id: "NUL \<notin> set s \<Longrightarrow> c_str s = s"
  by (auto simp: c_str_def takeWhile_eq_all_conv)

lemma printf_plain_id [simp]: "CHR ''%'' \<notin> set s \<Longrightarrow> printf_plain s = Inr s"
  by (induction s rule: printf_plain.induct) auto

lemma printf_plain_directive:
  "CHR ''%'' \<notin> set a \<Longrightarrow> d \<noteq> CHR ''%'' \<Longrightarrow> printf_plain (a @ CHR ''%'' # d # b) = Inl Indeterminate_read"
proof (induction a)
  case (Cons c a)
  then show ?case by (cases a) auto
qed simp

lemma format_plain: "NUL \<notin> set s \<Longrightarrow> format s = Inr (take 2047 s)"
  by (auto simp: format_def formatImplementation_def MAX_BUFFER_SIZE_def c_str_def takeWhile_eq_all_conv dest: in_set_takeD)

lemma format_message_plain: "NUL \<notin> set s \<Longrightarrow> CHR ''%'' \<notin> set s \<Longrightarrow> format_message s = Inr (take 2047 s)"
  by (simp add: format_message_def c_str_id format_plain)

text \<open>A percent sign that was doubled for the first formatting is a directive in the second.\<close>

lemma trace_formats_twice:
  assumes "CHR ''%'' \<notin> set a" "NUL \<notin> set a" "length a < 2045" "d \<noteq> CHR ''%''" "d \<noteq> NUL"
  shows "format_message (a @ ''%%'' @ [d]) = Inr (a @ CHR ''%'' # [d])" "trace (a @ ''%%'' @ [d]) = Inl Indeterminate_read"
proof -
  have "printf_plain (a @ CHR ''%'' # CHR ''%'' # [d]) = Inr (a @ CHR ''%'' # [d])"
    using assms(1,4)
  proof (induction a)
    case (Cons c a)
    then show ?case by (cases a) auto
  qed simp
  then show "format_message (a @ ''%%'' @ [d]) = Inr (a @ CHR ''%'' # [d])"
    using assms by (simp add: format_message_def c_str_id format_plain)
  then show "trace (a @ ''%%'' @ [d]) = Inl Indeterminate_read"
    using assms printf_plain_directive[of a d "[]"] by (simp add: trace_def)
qed

text \<open>The call stack lists the frames below the one of \<open>getCallStack\<close>, numbered down to 1.\<close>

lemma getCallStack_frames:
  assumes "0 \<le> n" "n \<le> MAX_FRAME_NUMBER"
  shows "\<exists>frames. getCallStack n stack = Inr frames \<and> length frames = min (nat n) (length stack) - 1 \<and>
    (\<forall>i < length frames. frames ! i = show_nat (length frames - i) @ '' : '' @ stack ! Suc i)"
proof -
  define messages where "messages = take (nat n) stack"
  have "getCallStack n stack = Inr (map (\<lambda>i. show_nat (length messages - i) @ '' : '' @ messages ! i) [1..<length messages])"
    using assms by (simp add: getCallStack_def messages_def Let_def)
  moreover have "messages ! Suc i = stack ! Suc i" if "i < length messages - 1" for i
    using that by (simp add: messages_def)
  moreover have "[1..<length messages] ! i = Suc i" if "i < length messages - 1" for i using that by (simp add: nth_upt)
  moreover have "length messages = min (nat n) (length stack)" by (simp add: messages_def min.commute)
  ultimately show ?thesis by auto
qed

text \<open>A stop watch that is stopped after it was started never shows a negative time, and its two scales agree.\<close>

lemma stop_watch_scales:
  assumes "0 \<le> d" "w' = StopWatch_stop (now + d) (StopWatch_start now w)"
  shows "getElapsedTimeMilliseconds w' = getElapsedTimeMicroseconds w' div 1000" "0 \<le> getElapsedTimeMilliseconds w'"
  using assms by (auto simp: StopWatch_stop_def StopWatch_start_def getElapsedTimeMilliseconds_def getElapsedTimeMicroseconds_def
      duration_cast_def sgn_if div_mult2_eq[symmetric] zdiv_zmult2_eq[symmetric])

lemma getDirectoryNameFromPath_split:
  assumes "CHR ''/'' \<notin> set name" "NUL \<notin> set (dir @ CHR ''/'' # name)" "c_str beyond = []"
  shows "getDirectoryNameFromPath beyond (dir @ CHR ''/'' # name) = Inr dir"
proof -
  have "c_str ((dir @ CHR ''/'' # name) @ beyond) = dir @ CHR ''/'' # name" using c_str_append[OF assms(2)] assms(3) by simp
  moreover have "dropWhile (\<lambda>c. c \<noteq> CHR ''/'') (rev name @ CHR ''/'' # rev dir) = CHR ''/'' # rev dir"
    by (rule dropWhile_append_stop) (use assms(1) in auto)
  ultimately show ?thesis by (simp add: getDirectoryNameFromPath_def)
qed

text \<open>A path that fills the buffer, or a link that cannot be read, makes the NUL land outside of it.\<close>

lemma executable_directory_overruns:
  "getCurrentExecutableDirectory beyond None = Inl Out_of_bounds"
  "1024 \<le> length target \<Longrightarrow> getCurrentExecutableDirectory beyond (Some target) = Inl Out_of_bounds"
  by (simp_all add: getCurrentExecutableDirectory_def tempBufferLength_def)

text \<open>
  \<open>main\<close> enters the directory of its executable and warns an ordinary user. When the executable lies in
  the root directory the name is empty, which \<open>chdir\<close> does not accept, and it stays where it is.
\<close>

lemma main_enters_directory:
  assumes "link = Some (dir @ CHR ''/'' # name)" "CHR ''/'' \<notin> set name" "NUL \<notin> set (dir @ CHR ''/'' # name)"
    "length dir + length name < 1023" "c_str beyond = []"
  shows "main_prepare uid beyond link chdir cwd =
    Inr (if uid = 0 then [] else getAnsiColorCode FG_RED @ admin_warning @ ESC # ''[0m'' @ [LF],
         if chdir dir then dir else cwd)"
proof -
  have "getCurrentExecutableDirectory beyond link = Inr dir"
    using assms getDirectoryNameFromPath_split[OF assms(2,3,5)]
    by (simp add: getCurrentExecutableDirectory_def tempBufferLength_def c_str_id)
  moreover have "format_message admin_warning = Inr admin_warning"
    by (subst format_message_plain) (simp_all add: admin_warning_def)
  moreover have "NUL \<notin> set dir" using assms(3) by simp
  ultimately show ?thesis
    by (simp add: main_prepare_def amIAdmin_def setCurrentWorkingDirectory_def consoleOutputWithColor_def c_str_id)
qed

section \<open>Exceptions and percent signs\<close>

lemma pretty_message_shape:
  "\<exists>rest. pretty_message exceptionType msg fileName line stack =
     Inr (''Exception type : '' @ exceptionType @ NEW_LINE @ NEW_LINE @ ''Message : '' @ msg @ NEW_LINE @ rest)"
proof -
  obtain frames where "getCallStack EXCEPTION_CALLSTACK_DEPTH stack = Inr frames"
    using getCallStack_frames[of EXCEPTION_CALLSTACK_DEPTH stack] by (auto simp: EXCEPTION_CALLSTACK_DEPTH_def MAX_FRAME_NUMBER_def)
  then show ?thesis by (simp add: pretty_message_def getCallstackAsString_def)
qed

text \<open>
  The message of an exception is printed as a format: if it contains a directive, as it may when it
  quotes a file name, the exception is never thrown and the behaviour is undefined.
\<close>

lemma percent_in_exception:
  assumes "CHR ''%'' \<notin> set exceptionType \<union> set a" "NUL \<notin> set exceptionType \<union> set a" "d \<noteq> CHR ''%''" "d \<noteq> NUL"
  shows "THROW_PRETTY_EXCEPTION exn exceptionType (a @ CHR ''%'' # d # b) fileName line stack = Inl Indeterminate_read"
proof -
  obtain rest where m: "pretty_message exceptionType (a @ CHR ''%'' # d # b) fileName line stack =
      Inr ((''Exception type : '' @ exceptionType @ NEW_LINE @ NEW_LINE @ ''Message : '' @ a @ [CHR ''%'', d]) @ b @ NEW_LINE @ rest)"
    (is "_ = Inr (?pre @ ?post)")
    using pretty_message_shape[of exceptionType "a @ CHR ''%'' # d # b" fileName line stack] by auto
  have "c_str (?pre @ ?post) = ?pre @ c_str ?post" by (rule c_str_append) (use assms in \<open>auto simp: NEW_LINE_def\<close>)
  moreover have "printf_plain (?pre @ c_str ?post) = Inl Indeterminate_read"
    using printf_plain_directive[of "''Exception type : '' @ exceptionType @ NEW_LINE @ NEW_LINE @ ''Message : '' @ a" d "c_str ?post"] assms
    by (simp add: NEW_LINE_def)
  ultimately have "format_message (?pre @ ?post) = Inl Indeterminate_read" by (simp add: format_message_def)
  then show ?thesis by (simp add: THROW_PRETTY_EXCEPTION_def m consoleOutputWithColor_def)
qed

text \<open>Without one the exception is thrown with the whole message, of which the console shows 2047 characters.\<close>

lemma exception_without_percent:
  assumes "pretty_message exceptionType msg fileName line stack = Inr message" "CHR ''%'' \<notin> set message" "NUL \<notin> set message"
  shows "THROW_PRETTY_EXCEPTION exn exceptionType msg fileName line stack =
    Inr (getAnsiColorCode FG_RED @ take 2047 message @ ESC # ''[0m'' @ [LF], message, exn)"
  using assms by (simp add: THROW_PRETTY_EXCEPTION_def consoleOutputWithColor_def format_message_plain c_str_id)

end
