(* ===== verification/Server.thy ===== *)
theory Server
  imports Outgoing_Message_Processor Server_Configuration Process_Services
begin

text \<open>
  The server (\<open>source/server/server_base.h\<close>, \<open>server_fix.cpp\<close>, \<open>server_offline.cpp\<close>,
  \<open>command_line_interface.h\<close>, \<open>server_error.h\<close>, \<open>source/main.cpp\<close>): the parts put together, order
  entry over FIX and from a file, the administrator's console, start-up and the exit status.
\<close>

section \<open>Start-up\<close>

text \<open>
  The members and static variables before the constructors run: all tables are empty, and the
  socket of the listener has been created.
\<close>

definition Server_static :: "Socket \<Rightarrow> files \<Rightarrow> OutgoingMessage \<Rightarrow> Server" where
  "Server_static listener fs mem = \<lparr>m_peerSockets = [], m_peerSocketsConnectionFlags = [], m_socket = listener,
     m_isStopping = False, m_peerSocketIndexTable = [], epoll_fds = [m_socketDescriptor listener],
     open_fds = [m_socketDescriptor listener], Sessions = [], SessionFlags = [], m_receiveCacheSize = 0,
     m_sequenceNumberValidation = True, m_port = 0, m_address = [], reactor_timePrecision = MICROSECONDS,
     COMPID = [], store_files = fs, handed = [], m_centralOrderBook = CentralOrderBook_new,
     m_outgoingMessageProcessor = OutgoingMessageProcessor_new mem, securityManager = SecurityManager_init\<rparr>"

definition ServerBase_new ::
  "OutgoingMessage \<Rightarrow> nat \<Rightarrow> bool \<Rightarrow> ServerConfiguration \<Rightarrow> 'a Server_scheme \<Rightarrow> 'a Server_scheme result" where
  "ServerBase_new mem cores ht conf srv =
     (let symbols = m_symbols conf;
          (sm, cob) = setSymbols symbols (securityManager srv) (m_centralOrderBook srv)
      in res_bind (if conf_isMatchingMultithreaded conf
                   then initialiseMultithreadedMatching cores ht ((m_threadPoolArguments conf)\<lparr>m_threadNames := symbols\<rparr>) cob
                   else Inr cob) (\<lambda>cob1.
         res_bind (initialiseOutgoingMessageQueues mem (of_nat (length symbols))
                     (word_of_int (m_outgoingMessageQueueSizePerThread conf)) cob1) (\<lambda>cob2.
         res_bind (setMessageQueue True (sint (of_nat (length symbols) :: cint)) (m_outgoingMessageProcessor srv)) (\<lambda>p.
         Inr (srv\<lparr>securityManager := sm, m_centralOrderBook := cob2, m_outgoingMessageProcessor := p\<rparr>)))))"

definition ServerFix_new ::
  "OutgoingMessage \<Rightarrow> nat \<Rightarrow> bool \<Rightarrow> ServerConfiguration \<Rightarrow> 'a Server_scheme \<Rightarrow> 'a Server_scheme result" where
  "ServerFix_new mem cores ht conf srv =
     res_bind (ServerBase_new mem cores ht conf srv) (\<lambda>srv1.
       Inr (FixServerReactor_initialise (m_fixServerConfiguration conf) srv1))"

text \<open>The offline server is its base and the name of the file with the orders.\<close>

definition ServerOffline_new ::
  "OutgoingMessage \<Rightarrow> nat \<Rightarrow> bool \<Rightarrow> ServerConfiguration \<Rightarrow> 'a Server_scheme \<Rightarrow> (string \<times> 'a Server_scheme) result" where
  "ServerOffline_new mem cores ht conf srv =
     res_bind (ServerBase_new mem cores ht conf srv) (\<lambda>srv1.
       Inr (m_offlineOrderEntryFile conf,
            srv1\<lparr>m_outgoingMessageProcessor :=
              enableOfflineMode (m_offlineOrderEntryOutputFile conf) (m_outgoingMessageProcessor srv1)\<rparr>))"

section \<open>Order entry over FIX\<close>

text \<open>\<open>mem\<close> is the storage the local variable \<open>order\<close> is constructed in.\<close>

definition onNewOrder ::
  "Order \<Rightarrow> (string \<Rightarrow> bool) \<Rightarrow> fix_env \<Rightarrow> FixMessage \<Rightarrow> nat \<Rightarrow> 'a Server_scheme \<Rightarrow> 'a Server_scheme result" where
  "onNewOrder mem writable fenv msg sessionId srv =
     (let ord = (Order_default mem)\<lparr>m_sessionId := sessionId\<rparr>
      in res_bind (convertNewOrder (securityManager srv) msg ord) (\<lambda>(ord1, msg1).
         res_bind (getTagValueAsInt FIX_TAG_ORDER_TYPE msg1) (\<lambda>(orderType, _).
         if orderType \<noteq> FIX_ORDER_TYPE_LIMIT
         then processor_rejectOrder writable fenv sessionId ''Non supported order type'' srv
         else if \<not> isSecuritySupported_id (securityManager srv) (m_securityId ord1)
         then processor_rejectOrder writable fenv sessionId ''Non supported symbol'' srv
         else res_bind (addOrder ord1 (m_centralOrderBook srv)) (\<lambda>(_, _, cob).
              Inr (srv\<lparr>m_centralOrderBook := cob\<rparr>)))))"

definition onCancelOrder ::
  "Order \<Rightarrow> cint \<Rightarrow> FixMessage \<Rightarrow> nat \<Rightarrow> 'a Server_scheme \<Rightarrow> 'a Server_scheme result" where
  "onCancelOrder mem address msg sessionId srv =
     (let ord = (Order_default mem)\<lparr>m_sessionId := sessionId\<rparr>
      in res_bind (convertCancelOrder (securityManager srv) msg ord) (\<lambda>(ord1, msg1).
         res_bind (cancelOrder address ord1 (fst (getTagValue FIX_TAG_ORIG_CLIENT_ORDER_ID msg1)) (m_centralOrderBook srv)) (\<lambda>cob.
         Inr (srv\<lparr>m_centralOrderBook := cob\<rparr>))))"

definition onFixMessage ::
  "Order \<Rightarrow> cint \<Rightarrow> (string \<Rightarrow> bool) \<Rightarrow> fix_env \<Rightarrow> FixMessage \<Rightarrow> nat \<Rightarrow> 'a Server_scheme \<Rightarrow> 'a Server_scheme result" where
  "onFixMessage mem address writable fenv msg sessionId srv =
     (if m_messageType msg = MessageType_value NEW_ORDER then onNewOrder mem writable fenv msg sessionId srv
      else if m_messageType msg = MessageType_value CANCEL then onCancelOrder mem address msg sessionId srv
      else processor_rejectOrder writable fenv sessionId ''Only new and cancel orders accepted'' srv)"

section \<open>Order entry from a file\<close>

text \<open>\<open>loadOrders\<close>: the orders of the file, each with its kind; other messages are skipped.\<close>

definition loadOrder :: "Order \<Rightarrow> SecurityManager \<Rightarrow> FixMessage \<Rightarrow> IncomingMessage list \<Rightarrow> IncomingMessage list result" where
  "loadOrder mem sm msg orders =
     (if m_messageType msg = MessageType_value NEW_ORDER
      then res_bind (convertNewOrder sm msg (Order_default mem)) (\<lambda>(ord, _).
             Inr (orders @ [IncomingMessage_new ord IN_NEW_ORDER []]))
      else if m_messageType msg = MessageType_value CANCEL
      then res_bind (convertCancelOrder sm msg (Order_default mem)) (\<lambda>(ord, _).
             Inr (orders @ [IncomingMessage_new ord IN_CANCEL_ORDER []]))
      else Inr orders)"

definition loadOrders :: "int \<Rightarrow> Order \<Rightarrow> SecurityManager \<Rightarrow> files \<Rightarrow> string \<Rightarrow> IncomingMessage list result" where
  "loadOrders mem_type mem sm fs file =
     (if \<not> doesFileExist fs file then Inr []
      else res_bind (loadFromFile mem_type fs file []) (\<lambda>msgs. res_fold (loadOrder mem sm) msgs []))"

text \<open>\<open>ServerOffline::run\<close> up to its supervision loop.\<close>

definition ServerOffline_submit :: "IncomingMessage list \<Rightarrow> 'a Server_scheme \<Rightarrow> 'a Server_scheme result" where
  "ServerOffline_submit orders srv =
     res_fold (\<lambda>message srv. res_bind (addOrder (in_order message) (m_centralOrderBook srv)) (\<lambda>(_, _, cob).
       Inr (srv\<lparr>m_centralOrderBook := cob\<rparr>))) orders srv"

definition ServerOffline_run :: "int \<Rightarrow> Order \<Rightarrow> string \<Rightarrow> 'a Server_scheme \<Rightarrow> 'a Server_scheme result" where
  "ServerOffline_run mem_type mem file srv =
     res_bind (loadOrders mem_type mem (securityManager srv) (store_files srv) file) (\<lambda>orders.
       ServerOffline_submit orders srv)"

section \<open>The administrator's console\<close>

definition displayUsage :: "string list" where
  "displayUsage = [[], ''Available commands :'', [],
     CHR 0x09 # ''display : Shows all order books in the central order book'',
     CHR 0x09 # ''quit : Shutdowns the server'', []]"

text \<open>\<open>m_parentCentralOrderBook\<close> is \<open>None\<close> until \<open>setParentCentralOrderbook\<close> is called.\<close>

definition getAllOrderBookAsString ::
  "((nat \<times> OrderBook) list \<Rightarrow> (nat \<times> OrderBook) list) \<Rightarrow> SecurityManager \<Rightarrow> CentralOrderBook option \<Rightarrow> string result" where
  "getAllOrderBookAsString hash_order sm parent = (case parent of
       None \<Rightarrow> Inl Null_dereference
     | Some cob \<Rightarrow> CentralOrderBook_accept hash_order (visitor_visit sm) cob [])"

text \<open>
  The loop of \<open>run\<close> over the words of the standard input: the lines it prints, and its end by
  \<open>quit\<close>. At the end of the input \<open>std::cin >> value\<close> leaves \<open>value\<close> empty for ever.
\<close>

fun CommandLineInterface_loop ::
  "((nat \<times> OrderBook) list \<Rightarrow> (nat \<times> OrderBook) list) \<Rightarrow> SecurityManager \<Rightarrow> CentralOrderBook option \<Rightarrow>
   string list \<Rightarrow> string list \<Rightarrow> string list result" where
  "CommandLineInterface_loop hash_order sm parent out [] = Inl Not_terminating"
| "CommandLineInterface_loop hash_order sm parent out (word # input) =
     (let value = toLower word
      in if value = ''display''
         then res_bind (getAllOrderBookAsString hash_order sm parent) (\<lambda>books.
                CommandLineInterface_loop hash_order sm parent
                  (out @ [''All orders in the central order book :'', [], books, []]) input)
         else if value = ''quit'' then Inr (out @ [''Quit message received''])
         else CommandLineInterface_loop hash_order sm parent (out @ ''Invalid user command'' # displayUsage @ [[]]) input)"

definition CommandLineInterface_run ::
  "((nat \<times> OrderBook) list \<Rightarrow> (nat \<times> OrderBook) list) \<Rightarrow> SecurityManager \<Rightarrow> CentralOrderBook option \<Rightarrow>
   string list \<Rightarrow> string list result" where
  "CommandLineInterface_run hash_order sm parent input =
     CommandLineInterface_loop hash_order sm parent displayUsage input"

section \<open>Supervision and exit status\<close>

text \<open>
  One iteration of the loop at the end of \<open>run\<close>: finish when the console has finished, otherwise
  rethrow the first exception that a thread has ended with.
\<close>

datatype supervision = Finish | Keep_running | Rethrow cpp_error

definition supervise :: "bool \<Rightarrow> cpp_error option list \<Rightarrow> supervision" where
  "supervise isFinishing exceptions =
     (if isFinishing then Finish
      else case List.find (\<lambda>e. e \<noteq> None) exceptions of Some (Some e) \<Rightarrow> Rethrow e | _ \<Rightarrow> Keep_running)"

datatype ServerError = ALREADY_RUNNING | RUNTIME_ERROR | INSUFFICIENT_MEMORY | NON_SUPPORTED_EXECUTION | UNKNOWN_PROBLEM

primrec exit_code :: "ServerError \<Rightarrow> int" where
  "exit_code ALREADY_RUNNING = 0"
| "exit_code RUNTIME_ERROR = 1"
| "exit_code INSUFFICIENT_MEMORY = 2"
| "exit_code NON_SUPPORTED_EXECUTION = 3"
| "exit_code UNKNOWN_PROBLEM = 4"

text \<open>\<open>onError\<close>: the line on the standard error output and the exit status.\<close>

definition onError :: "ServerError \<Rightarrow> string \<Rightarrow> string \<times> int" where
  "onError error detail =
     (case error of
        ALREADY_RUNNING \<Rightarrow> ''Process is already running''
      | RUNTIME_ERROR \<Rightarrow> detail
      | INSUFFICIENT_MEMORY \<Rightarrow> ''Insufficient memory''
      | NON_SUPPORTED_EXECUTION \<Rightarrow> detail
      | UNKNOWN_PROBLEM \<Rightarrow> ''Unknown exception occured'', exit_code error)"

text \<open>The handlers of \<open>main\<close>; \<open>std::out_of_range\<close> is neither of the first two.\<close>

fun main_catch :: "cpp_error \<Rightarrow> ServerError" where
  "main_catch Std_invalid_argument = RUNTIME_ERROR"
| "main_catch (Runtime_error _) = RUNTIME_ERROR"
| "main_catch Std_bad_alloc = INSUFFICIENT_MEMORY"
| "main_catch _ = UNKNOWN_PROBLEM"

text \<open>
  \<open>main\<close> up to \<open>server->run()\<close>: it exits with a status, starts one of the two servers, or ends in a
  failure that is not an exception. The cache line sizes, the single instance check and the
  operating system's part of the construction are parameters.
\<close>

datatype startup = Exit ServerError | Crash cpp_error | Start_fix Server | Start_offline string Server

definition main_start ::
  "nat \<Rightarrow> nat \<Rightarrow> bool \<Rightarrow> (string list \<Rightarrow> string list) \<Rightarrow> OutgoingMessage \<Rightarrow> nat \<Rightarrow> bool \<Rightarrow> Server \<Rightarrow> startup" where
  "main_start CACHE_LINE_SIZE cpuCacheLineSize singleInstance key_order mem cores ht srv =
     (if cpuCacheLineSize \<noteq> CACHE_LINE_SIZE then Exit NON_SUPPORTED_EXECUTION
      else if \<not> singleInstance then Exit ALREADY_RUNNING
      else case res_bind (ServerConfiguration_load key_order (store_files srv) CONFIGURATION_FILE) (\<lambda>conf.
                res_bind (getProcessPriorityFromString (m_processPriority conf)) (\<lambda>_.
                if m_orderEntryMode conf = ''FIX''
                then res_bind (ServerFix_new mem cores ht conf srv) (\<lambda>srv'. Inr (Start_fix srv'))
                else res_bind (ServerOffline_new mem cores ht conf srv) (\<lambda>(file, srv'). Inr (Start_offline file srv')))) of
             Inr s \<Rightarrow> s
           | Inl e \<Rightarrow> if is_exception e then Exit (main_catch e) else Crash e)"

section \<open>The hook keeps the invariants\<close>

lemma derived_book: "derived srv = derived srv' \<Longrightarrow> m_centralOrderBook srv = m_centralOrderBook srv'"
  by (cases srv; cases srv') simp

lemma session_call_book: "session_call i f srv = Inr srv' \<Longrightarrow> m_centralOrderBook srv' = m_centralOrderBook srv"
  using derived_book[of srv' srv] by (auto simp: session_call_def)

lemma write_offline_effect:
  "write_offline writable env msg srv = Inr srv' \<Longrightarrow> \<exists>fs. srv' = srv\<lparr>store_files := fs\<rparr>"
  by (auto simp: write_offline_def)

lemma reactor_inv_files [simp]: "reactor_inv (srv\<lparr>store_files := fs\<rparr>) = reactor_inv srv"
  by (simp add: reactor_inv_def peers_ok_def)

lemma reactor_inv_server [simp]:
  "reactor_inv (srv\<lparr>m_centralOrderBook := cob\<rparr>) = reactor_inv srv"
  "reactor_inv (srv\<lparr>m_outgoingMessageProcessor := p\<rparr>) = reactor_inv srv"
  by (simp_all add: reactor_inv_def peers_ok_def)

lemma send_message_inv:
  assumes "reactor_inv srv" "session_call i (\<lambda>session. send_reply env (msg session) session) srv = Inr srv'"
  shows "reactor_inv srv'"
  by (rule session_call_inv[OF assms]) (rule send_reply_ok)

lemma processor_rejectOrder_keeps:
  assumes "processor_rejectOrder writable env i reason srv = Inr srv'"
  shows "m_centralOrderBook srv' = m_centralOrderBook srv" "reactor_inv srv \<Longrightarrow> reactor_inv srv'"
  using assms by (auto simp: processor_rejectOrder_def dest: write_offline_effect session_call_book
      intro: send_message_inv split: if_splits option.splits)

lemma convertNewOrder_fit:
  assumes "convertNewOrder sm msg ord = Inr (ord', msg')" "m_executedQuantity ord = 0"
  shows "order_fit ord'"
proof -
  obtain q ord1 p where "ord' = setPrice (double_of_long p) (setQuantity q ord1)" "m_executedQuantity ord1 = 0"
    using assms by (auto simp: convertNewOrder_def convertCommonOrder_def Let_def split_beta split: if_splits)
  then show ?thesis
    using double_of_long_finite[of p] by (auto simp: order_fit_def order_balanced_def finite_price_def setPrice_def setQuantity_def)
qed

lemma onNewOrder_cases:
  assumes "onNewOrder mem writable fenv msg i srv = Inr srv'"
  obtains reason where "processor_rejectOrder writable fenv i reason srv = Inr srv'"
  | ord r ord' cob where "order_fit ord" "addOrder ord (m_centralOrderBook srv) = Inr (r, ord', cob)"
      "srv' = srv\<lparr>m_centralOrderBook := cob\<rparr>"
proof -
  let ?ord = "(Order_default mem)\<lparr>m_sessionId := i\<rparr>"
  obtain ord1 msg1 where c: "convertNewOrder (securityManager srv) msg ?ord = Inr (ord1, msg1)"
    using assms by (auto simp: onNewOrder_def Let_def)
  then have fit: "order_fit ord1" by (rule convertNewOrder_fit) (simp add: Order_default_def)
  have "(\<exists>reason. processor_rejectOrder writable fenv i reason srv = Inr srv') \<or>
    (\<exists>r ord' cob. addOrder ord1 (m_centralOrderBook srv) = Inr (r, ord', cob) \<and> srv' = srv\<lparr>m_centralOrderBook := cob\<rparr>)"
    using assms by (auto simp: onNewOrder_def c split: if_splits)
  then show thesis using that fit by blast
qed

text \<open>The run of the server up to the 2^31st order.\<close>

definition up_to_limit ::
  "(FixMessage \<Rightarrow> nat \<Rightarrow> 'a Server_scheme \<Rightarrow> 'a Server_scheme result) \<Rightarrow> FixMessage \<Rightarrow> nat \<Rightarrow> 'a Server_scheme \<Rightarrow> 'a Server_scheme result" where
  "up_to_limit hook msg i srv =
     (if sint (m_orderNumber (m_centralOrderBook srv)) < 2 ^ 31 - 1 then hook msg i srv else Inl Not_terminating)"

lemma onFixMessage_engine:
  assumes "engine_inv (m_centralOrderBook srv)" "up_to_limit (onFixMessage mem address writable fenv) msg i srv = Inr srv'"
  shows "engine_inv (m_centralOrderBook srv')"
proof -
  have lim: "sint (m_orderNumber (m_centralOrderBook srv)) < 2 ^ 31 - 1" and
    hook: "onFixMessage mem address writable fenv msg i srv = Inr srv'"
    using assms(2) by (auto simp: up_to_limit_def split: if_splits)
  consider "onNewOrder mem writable fenv msg i srv = Inr srv'"
    | reason where "processor_rejectOrder writable fenv i reason srv = Inr srv'"
    | ord orig cob where "cancelOrder address ord orig (m_centralOrderBook srv) = Inr cob" "srv' = srv\<lparr>m_centralOrderBook := cob\<rparr>"
    using hook by (auto simp: onFixMessage_def onCancelOrder_def Let_def split: if_splits)
  then show ?thesis
  proof cases
    case 1
    then show ?thesis
    proof (rule onNewOrder_cases)
      fix reason assume "processor_rejectOrder writable fenv i reason srv = Inr srv'"
      from processor_rejectOrder_keeps(1)[OF this] assms(1) show ?thesis by simp
    qed (use engine_inv_addOrder[OF assms(1)] lim in simp)
  next
    case (2 reason)
    from processor_rejectOrder_keeps(1)[OF this] assms(1) show ?thesis by simp
  next
    case (3 ord orig cob)
    then show ?thesis using engine_inv_cancelOrder[OF assms(1)] by simp
  qed
qed

lemma onFixMessage_reactor:
  assumes "reactor_inv srv" "onFixMessage mem address writable fenv msg i srv = Inr srv'"
  shows "reactor_inv srv'"
proof -
  consider "onNewOrder mem writable fenv msg i srv = Inr srv'"
    | reason where "processor_rejectOrder writable fenv i reason srv = Inr srv'"
    | cob where "srv' = srv\<lparr>m_centralOrderBook := cob\<rparr>"
    using assms(2) by (auto simp: onFixMessage_def onCancelOrder_def Let_def split: if_splits)
  then show ?thesis
  proof cases
    case 1
    then show ?thesis
      by (rule onNewOrder_cases) (use assms(1) processor_rejectOrder_keeps(2) in \<open>simp_all (no_asm_simp)\<close>)
  qed (use assms(1) processor_rejectOrder_keeps(2) in auto)
qed

lemma send_report_keeps:
  assumes "send_report writable env ord srv = Inr srv'"
  shows "m_centralOrderBook srv' = m_centralOrderBook srv" "reactor_inv srv \<Longrightarrow> reactor_inv srv'"
proof -
  let ?e = "generateExecID (m_outgoingMessageProcessor srv)"
  let ?srv1 = "srv\<lparr>m_outgoingMessageProcessor := snd ?e\<rparr>"
  let ?report = "\<lambda>symbol session. execution_report_tags symbol (fst ?e) ord (getExecutionReportMessage (COMPID srv) session (fresh_message env))"
  consider msg where "write_offline writable env msg ?srv1 = Inr srv'"
    | symbol where "session_call (m_sessionId ord) (\<lambda>session. send_reply env (?report symbol session) session) ?srv1 = Inr srv'"
    using assms by (auto simp: send_report_def Let_def split_beta split: if_splits)
  then have "m_centralOrderBook srv' = m_centralOrderBook srv \<and> (reactor_inv srv \<longrightarrow> reactor_inv srv')"
  proof cases
    case (1 msg)
    then show ?thesis using write_offline_effect by fastforce
  next
    case (2 symbol)
    then show ?thesis using session_call_book send_message_inv[of ?srv1] by fastforce
  qed
  then show "m_centralOrderBook srv' = m_centralOrderBook srv" "reactor_inv srv \<Longrightarrow> reactor_inv srv'" by simp_all
qed

lemma poll_queue_keeps:
  assumes "poll_queue writable env i srv = Inr srv'" "engine_inv (m_centralOrderBook srv)"
  shows "engine_inv (m_centralOrderBook srv')" "reactor_inv srv \<Longrightarrow> reactor_inv srv'"
proof -
  let ?cob = "m_centralOrderBook srv"
  let ?srv1 = "\<lambda>q p. srv\<lparr>m_centralOrderBook := ?cob\<lparr>m_outgoingMessages := (m_outgoingMessages ?cob)[i := q]\<rparr>,
    m_outgoingMessageProcessor := p\<rparr>"
  have i: "i < length (m_outgoingMessages ?cob)"
    using assms(1) by (auto simp: poll_queue_def vec_at_def Let_def split: if_splits)
  have "engine_inv ?cob \<and> srv' = srv \<or> (\<exists>m q p ord. tryPop (m_outgoingMessages ?cob ! i) = (Some m, q) \<and>
      (srv' = ?srv1 q p \<or> send_report writable env ord (?srv1 q p) = Inr srv'))"
    using assms i by (auto simp: poll_queue_def Let_def split: prod.splits option.splits if_splits)
  then show "engine_inv (m_centralOrderBook srv')" "reactor_inv srv \<Longrightarrow> reactor_inv srv'"
    using engine_inv_drain[OF assms(2) i] by (auto simp: send_report_keeps dest: send_report_keeps(2))
qed

section \<open>The FIX server as a transition system\<close>

text \<open>
  After start-up with queue sizes that are powers of two, any sequence of events of the reactor
  thread, polls of the message processor and turns of the matching workers. What the outside world
  contributes to a step (the environment of the event, the storage of the local variables) may
  differ from step to step.
\<close>

inductive server_reachable :: "Server \<Rightarrow> bool" where
  start: "queue_size_ok (word_of_int (m_outgoingMessageQueueSizePerThread conf)) \<Longrightarrow>
    conf_isMatchingMultithreaded conf \<longrightarrow> queue_size_ok (m_workQueueSizePerThread (m_threadPoolArguments conf)) \<Longrightarrow>
    ServerFix_new mem cores ht conf (Server_static listener fs mem) = Inr srv \<Longrightarrow> server_reachable srv"
| event: "server_reachable srv \<Longrightarrow>
    fix_event env (\<lambda>k. up_to_limit (onFixMessage (mem k) (address k) (env_writable env) (env_fix env k))) ev srv = Inr srv' \<Longrightarrow>
    server_reachable srv'"
| poll: "server_reachable srv \<Longrightarrow> poll_queue writable env i srv = Inr srv' \<Longrightarrow> server_reachable srv'"
| worker: "server_reachable srv \<Longrightarrow> i < length (m_threadQueues (m_orderBookThreadPool (m_centralOrderBook srv))) \<Longrightarrow>
    matching_worker address i (m_centralOrderBook srv) = Inr (Some cob) \<Longrightarrow>
    server_reachable (srv\<lparr>m_centralOrderBook := cob\<rparr>)"

lemma ServerFix_new_parts:
  assumes "ServerFix_new mem cores ht conf (Server_static listener fs mem) = Inr srv"
  obtains sm cob cob1 cob2 p where
    "setSymbols (m_symbols conf) SecurityManager_init CentralOrderBook_new = (sm, cob)"
    "(if conf_isMatchingMultithreaded conf
      then initialiseMultithreadedMatching cores ht ((m_threadPoolArguments conf)\<lparr>m_threadNames := m_symbols conf\<rparr>) cob
      else Inr cob) = Inr cob1"
    "initialiseOutgoingMessageQueues mem (of_nat (length (m_symbols conf)))
       (word_of_int (m_outgoingMessageQueueSizePerThread conf)) cob1 = Inr cob2"
    "p = (OutgoingMessageProcessor_new mem)\<lparr>m_messageQueue := True, m_numberOfQueues := sint (of_nat (length (m_symbols conf)) :: cint)\<rparr>"
    "srv = FixServerReactor_initialise (m_fixServerConfiguration conf)
       ((Server_static listener fs mem)\<lparr>securityManager := sm, m_centralOrderBook := cob2, m_outgoingMessageProcessor := p\<rparr>)"
proof -
  obtain sm cob where "setSymbols (m_symbols conf) SecurityManager_init CentralOrderBook_new = (sm, cob)" by fastforce
  then show thesis
    using that assms by (auto simp: ServerFix_new_def ServerBase_new_def Server_static_def setMessageQueue_def Let_def split del: if_split)
qed

lemma ServerFix_new_start:
  assumes "queue_size_ok (word_of_int (m_outgoingMessageQueueSizePerThread conf))"
    "conf_isMatchingMultithreaded conf \<longrightarrow> queue_size_ok (m_workQueueSizePerThread (m_threadPoolArguments conf))"
    "ServerFix_new mem cores ht conf (Server_static listener fs mem) = Inr srv"
  shows "reactor_inv srv \<and> engine_reachable 0 (m_centralOrderBook srv)"
proof -
  obtain sm cob cob1 cob2 p where
    0: "setSymbols (m_symbols conf) SecurityManager_init CentralOrderBook_new = (sm, cob)" and
    1: "(if conf_isMatchingMultithreaded conf
         then initialiseMultithreadedMatching cores ht ((m_threadPoolArguments conf)\<lparr>m_threadNames := m_symbols conf\<rparr>) cob
         else Inr cob) = Inr cob1" and
    2: "initialiseOutgoingMessageQueues mem (of_nat (length (m_symbols conf)))
          (word_of_int (m_outgoingMessageQueueSizePerThread conf)) cob1 = Inr cob2" and
    3: "srv = FixServerReactor_initialise (m_fixServerConfiguration conf)
          ((Server_static listener fs mem)\<lparr>securityManager := sm, m_centralOrderBook := cob2, m_outgoingMessageProcessor := p\<rparr>)"
    by (rule ServerFix_new_parts[OF assms(3)])
  have cob: "cob = snd (setSymbols (m_symbols conf) SecurityManager_init CentralOrderBook_new)" using 0 by simp
  have "engine_reachable 0 cob2"
  proof (cases "conf_isMatchingMultithreaded conf")
    case True
    then have "queue_size_ok (m_workQueueSizePerThread ((m_threadPoolArguments conf)\<lparr>m_threadNames := m_symbols conf\<rparr>))"
      using assms(2) by simp
    from engine_reachable.start_multi[OF assms(1) this _ 2] show ?thesis using 1 True cob by simp
  next
    case False
    then show ?thesis using engine_reachable.start_single[OF assms(1)] 1 2 cob by fastforce
  qed
  moreover have "reactor_inv srv"
    by (simp add: 3 FixServerReactor_initialise_def Server_static_def reactor_inv_def peers_ok_def)
  moreover have "m_centralOrderBook srv = cob2" by (simp add: 3 FixServerReactor_initialise_def)
  ultimately show ?thesis by simp
qed

lemma server_reachable_inv: "server_reachable srv \<Longrightarrow> reactor_inv srv \<and> engine_inv (m_centralOrderBook srv)"
proof (induction rule: server_reachable.induct)
  case (start conf mem cores ht listener fs srv)
  then show ?case using ServerFix_new_start engine_reachable_inv by blast
next
  case (event srv env mem address ev srv')
  let ?hook = "\<lambda>k. up_to_limit (onFixMessage (mem k) (address k) (env_writable env) (env_fix env k))"
  let ?engine_ok = "\<lambda>srv :: Server. engine_inv (m_centralOrderBook srv)"
  have "stable ?engine_ok" unfolding stable_def keeps_def using derived_book by metis
  moreover have "\<forall>k. hook_preserves ?engine_ok (?hook k)" unfolding hook_preserves_def using onFixMessage_engine by blast
  ultimately have "engine_inv (m_centralOrderBook srv')"
    using fix_event_preserves[of ?engine_ok ?hook srv, OF _ _ _ event.hyps(2)] event.IH by blast
  moreover have "\<forall>k. hook_keeps (?hook k)"
    unfolding hook_keeps_def up_to_limit_def using onFixMessage_reactor by (auto split: if_splits)
  then have "reactor_inv srv'" using fix_event_inv[OF _ _ event.hyps(2)] event.IH by blast
  ultimately show ?case by simp
next
  case (poll srv writable env i srv')
  then show ?case using poll_queue_keeps by blast
next
  case (worker srv i address cob)
  then show ?case using engine_inv_worker[of "m_centralOrderBook srv" address i cob] by (simp add: pending_def)
qed

section \<open>Order messages\<close>

lemma known_symbol_supported:
  assumes "sm_inv sm" "getSecurityId sm symbol = Inr s"
  shows "isSecuritySupported_id sm s"
proof (rule ccontr)
  assume "\<not> isSecuritySupported_id sm s"
  then have "map_of (m_securitiesById sm) s = None"
    using sm_inv_fresh[OF assms(1)] by (simp add: isSecuritySupported_id_def)
  moreover have "map_of (m_securitiesBySymbol sm) symbol = Some s"
    using assms(2) by (auto simp: getSecurityId_def umap_at_def split: option.splits)
  ultimately show False using assms(1) unfolding sm_inv_def by fastforce
qed

text \<open>The order that \<open>onNewOrder\<close> builds from a limit order message.\<close>

definition entered_order :: "Order \<Rightarrow> nat \<Rightarrow> nat \<Rightarrow> string \<Rightarrow> int \<Rightarrow> clong \<Rightarrow> clong \<Rightarrow> Order" where
  "entered_order mem sessionId s clientId side quantity price = (Order_default mem)\<lparr>m_sessionId := sessionId, m_securityId := s,
     m_clientOrderID := clientId, m_orderType := LIMIT,
     m_side := (if side = FIX_ORDER_SIDE_BUY then BUY else if side = FIX_ORDER_SIDE_SELL then SELL else m_side mem),
     m_price := double_of_long price, m_quantity := quantity, m_openQuantity := quantity\<rparr>"

lemma entered_order_fit: "order_fit (entered_order mem i s clientId side quantity price)"
  using double_of_long_finite[of price]
  by (auto simp: entered_order_def order_fit_def order_balanced_def finite_price_def Order_default_def)

lemma onNewOrder_limit:
  assumes "order_message symbol clientId FIX_ORDER_TYPE_LIMIT side quantity price fraction msg"
    "sm_inv (securityManager srv)" "getSecurityId (securityManager srv) symbol = Inr s"
  shows "onNewOrder mem writable fenv msg i srv =
    res_bind (addOrder (entered_order mem i s clientId side quantity price) (m_centralOrderBook srv)) (\<lambda>(_, _, cob).
      Inr (srv\<lparr>m_centralOrderBook := cob\<rparr>))"
proof -
  let ?mem = "(Order_default mem)\<lparr>m_sessionId := i\<rparr>"
  have "convertNewOrder (securityManager srv) msg ?mem = Inr (entered_order mem i s clientId side quantity price, msg)"
    using convertNewOrder_order_message[OF assms(1,3), of ?mem]
    by (simp add: entered_order_def) (simp add: Order_default_def)
  moreover have "getTagValueAsInt FIX_TAG_ORDER_TYPE msg = Inr (FIX_ORDER_TYPE_LIMIT, msg)"
    using assms(1) stoi_to_string[of FIX_ORDER_TYPE_LIMIT]
    by (simp add: order_message_def getTagValueAsInt_def getTagValue_present Let_def)
  moreover have "m_securityId (entered_order mem i s clientId side quantity price) = s" by (simp add: entered_order_def)
  ultimately show ?thesis
    using known_symbol_supported[OF assms(2,3)] by (simp add: onNewOrder_def)
qed

text \<open>An application message with the next sequence number reaches the hook.\<close>

lemma in_sequence:
  assumes "reactor_inv srv" "i < length (SessionFlags srv)" "fst (validateRequiredTags msg 0)"
    "m_messageType msg \<noteq> MessageType_value LOGON" "\<not> isAdminMessage msg"
    "ucast (m_sequenceNumber msg) = m_incomingSequenceNumber (Sessions srv ! i) + 1"
  shows "processMessage env fenv hook msg i srv =
    hook msg i (srv\<lparr>Sessions := (Sessions srv)[i := (Sessions srv ! i)\<lparr>m_incomingSequenceNumber := ucast (m_sequenceNumber msg)\<rparr>]\<rparr>)"
proof -
  have "i < length (Sessions srv)" using assms(1,2) by (simp add: reactor_inv_def)
  then show ?thesis
    using assms(3-6) by (auto simp: processMessage_def process_sequenced_def validateSequenceNumber_def split_beta Let_def)
qed

lemma new_order_type: "m_messageType msg = MessageType_value NEW_ORDER \<Longrightarrow> \<not> isAdminMessage msg \<and> m_messageType msg \<noteq> MessageType_value LOGON"
  by (simp add: isAdminMessage_def)

section \<open>A sample server\<close>

definition sample_fix_conf :: FixServerConfiguration where
  "sample_fix_conf = (FixServerConfiguration_new 5001)\<lparr>m_fixCompId := ''S'', m_fixReceiveCacheSize := 256\<rparr>"

definition sample_conf :: ServerConfiguration where
  "sample_conf = \<lparr>m_outgoingMessageQueueSizePerThread = 8, m_outgoingMessageThreadCpuId = - 1,
     outgoingMessageThreadStackSize = 0, m_outgoingMessageThreadPriority = NORMAL, m_orderEntryMode = ''FIX'',
     m_processPriority = ''NORMAL'', m_offlineOrderEntryFile = [], m_offlineOrderEntryOutputFile = [],
     conf_isMatchingMultithreaded = False, m_threadPoolArguments = ThreadPoolArguments_default, m_symbols = [''ABC''],
     m_loggerConfiguration = LoggerArguments_new, m_fixServerConfiguration = sample_fix_conf\<rparr>"

definition sample_started :: Server where
  "sample_started = FixServerReactor_initialise sample_fix_conf
     ((Server_static \<lparr>m_socketDescriptor = 3, m_state = LISTENING\<rparr> (\<lambda>_. None) (OutgoingMessage_new sample_bid OrderStatus.ACCEPTED []))
      \<lparr>securityManager := snd (addSecurity ''ABC'' SecurityManager_init), m_centralOrderBook := sample_engine,
       m_outgoingMessageProcessor := (OutgoingMessageProcessor_new (OutgoingMessage_new sample_bid OrderStatus.ACCEPTED []))
         \<lparr>m_messageQueue := True, m_numberOfQueues := 1\<rparr>\<rparr>)"

lemma sample_started_reachable: "server_reachable sample_started"
proof (rule server_reachable.start[of sample_conf])
  let ?mem = "OutgoingMessage_new sample_bid OrderStatus.ACCEPTED []"
  obtain cob where sym: "setSymbols [''ABC''] SecurityManager_init CentralOrderBook_new =
      (snd (addSecurity ''ABC'' SecurityManager_init), cob)"
    using setSymbols_new[of "[''ABC'']"] by simp
  then have "initialiseOutgoingMessageQueues ?mem 1 8 cob = Inr sample_engine"
    using sample_engine_start by simp
  then show "ServerFix_new ?mem 1 False sample_conf
      (Server_static \<lparr>m_socketDescriptor = 3, m_state = LISTENING\<rparr> (\<lambda>_. None) ?mem) = Inr sample_started"
    using sym by (simp add: ServerFix_new_def ServerBase_new_def sample_conf_def sample_started_def Server_static_def setMessageQueue_def
        OutgoingMessageProcessor_new_def)
qed (use queue_size_ok_samples in \<open>simp_all add: sample_conf_def\<close>)

text \<open>A connected client and an order of it, as the parser delivers it.\<close>

definition sample_entry :: Server where
  "sample_entry = sample_server\<lparr>m_centralOrderBook := sample_engine\<rparr>"

definition sample_order :: "string \<Rightarrow> FixMessage" where
  "sample_order symbol = sample_message\<lparr>m_sequenceNumber := 6, m_messageType := MessageType_value NEW_ORDER,
     m_bodyTagValuePairs := [(9, ''31''), (10, ''212''), (55, symbol), (11, ''B7''), (40, to_string 2), (54, to_string 1),
        (38, to_string 100), (44, to_string 12), (60, ''T'')]\<rparr>"

lemma sample_entry_fields:
  "reactor_inv sample_entry" "SessionFlags sample_entry = [True]" "Sessions sample_entry = [sample_session]"
  "m_centralOrderBook sample_entry = sample_engine" "securityManager sample_entry = snd (addSecurity ''ABC'' SecurityManager_init)"
  using sample_server_ok(1,5,6) by (simp_all add: sample_entry_def) (simp add: sample_server_def)

lemma sample_order_valid:
  "fst (validateRequiredTags (sample_order symbol) 0)" "m_messageType (sample_order symbol) = MessageType_value NEW_ORDER"
  "ucast (m_sequenceNumber (sample_order symbol)) = m_incomingSequenceNumber sample_session + 1"
  "order_message symbol ''B7'' FIX_ORDER_TYPE_LIMIT 1 100 12 [] (sample_order symbol)"
  by (simp_all add: sample_order_def sample_message_def sample_session_fields order_message_def validateRequiredTags_def
      verifyTags_def hasTag_def Let_def)

text \<open>A cancel task whose order has neither side finds nothing.\<close>

lemma cancel_of_no_side:
  assumes "m_side ord \<noteq> BUY" "m_side ord \<noteq> SELL" "outgoing_ok cob" "q = queue_index cob (m_securityId ord)" "0 < out_room cob q"
  shows "\<exists>cob' report. taskCancelOrder address ord orig cob = Inr cob' \<and> book_at cob' = book_at cob \<and>
    out_view cob' = (out_view cob)[q := out_view cob ! q @ [report]] \<and>
    m_orderStatus (out_order report) = REJECTED \<and> m_sessionId (out_order report) = m_sessionId ord"
proof -
  obtain cob' where t: "taskCancelOrder address ord orig cob = Inr cob'"
    using taskCancelOrder_progress[OF assms(3), of ord address orig] assms(4,5) by auto
  have "OrderBook_find (book_at cob (m_securityId ord)) orig (m_sessionId ord) (m_side ord) = None"
    using assms(1,2) by (simp add: OrderBook_find_def)
  then show ?thesis
    using t taskCancelOrder_effect[OF t assms(3)] assms(4) by (auto simp: cancel_reject_message_def OutgoingMessage_new_def)
qed

section \<open>An order that is entered\<close>

lemma order_entered:
  assumes "reactor_inv srv" "i < length (SessionFlags srv)" "fst (validateRequiredTags msg 0)"
    "m_messageType msg = MessageType_value NEW_ORDER"
    "ucast (m_sequenceNumber msg) = m_incomingSequenceNumber (Sessions srv ! i) + 1"
    "order_message symbol clientId FIX_ORDER_TYPE_LIMIT side quantity price fraction msg"
    "sm_inv (securityManager srv)" "getSecurityId (securityManager srv) symbol = Inr s"
    "cob = m_centralOrderBook srv" "engine_inv cob" "\<not> m_isMatchingMultithreaded cob"
    "sint (m_orderNumber cob) < 2 ^ 31 - 1" "q = queue_index cob s"
    "3 + 2 * book_size (book_at cob s) \<le> out_room cob q"
    "ord = (entered_order mem i s clientId side quantity price)\<lparr>m_orderID := scast (m_orderNumber cob + 1)\<rparr>"
  shows "\<exists>cob' ps book'.
    processMessage env fenv (onFixMessage mem address writable fenv) msg i srv = Inr (srv\<lparr>Sessions := (Sessions srv)
      [i := (Sessions srv ! i)\<lparr>m_incomingSequenceNumber := m_incomingSequenceNumber (Sessions srv ! i) + 1\<rparr>],
      m_centralOrderBook := cob'\<rparr>) \<and>
    engine_inv cob' \<and> processMatching (OrderBook_insert ord (book_at cob s)) [] = Some (ps \<noteq> [], book', ps) \<and>
    book_at cob' = (book_at cob)(s := book') \<and>
    out_view cob' = (out_view cob)[q := out_view cob ! q @ OutgoingMessage_new ord OrderStatus.ACCEPTED [] # map fill_message ps]"
proof -
  let ?n = "m_incomingSequenceNumber (Sessions srv ! i) + 1"
  let ?srv1 = "srv\<lparr>Sessions := (Sessions srv)[i := (Sessions srv ! i)\<lparr>m_incomingSequenceNumber := ?n\<rparr>]\<rparr>"
  let ?ord = "entered_order mem i s clientId side quantity price"
  have "processMessage env fenv (onFixMessage mem address writable fenv) msg i srv = onNewOrder mem writable fenv msg i ?srv1"
    using in_sequence[OF assms(1-3)] new_order_type[OF assms(4)] assms(4,5) by (simp add: onFixMessage_def)
  also have "\<dots> = res_bind (addOrder ?ord cob) (\<lambda>(_, _, cob). Inr (?srv1\<lparr>m_centralOrderBook := cob\<rparr>))"
    using onNewOrder_limit[OF assms(6), of ?srv1] assms(7-9) by simp
  finally have p: "processMessage env fenv (onFixMessage mem address writable fenv) msg i srv = \<dots>" .
  have s: "m_securityId ?ord = s" by (simp add: entered_order_def)
  from addOrder_accepted[OF assms(10,11) entered_order_fit assms(12) s[symmetric] assms(13,14)] obtain cob' ps book' where
    a: "addOrder ?ord cob = Inr (True, ord, cob')"
      "processMatching (OrderBook_insert ord (book_at cob s)) [] = Some (ps \<noteq> [], book', ps)"
      "out_view cob' = (out_view cob)[q := out_view cob ! q @ OutgoingMessage_new ord OrderStatus.ACCEPTED [] # map fill_message ps]"
      "book_at cob' = (book_at cob)(s := book')" unfolding assms(15) by blast
  have "engine_inv cob'" by (rule engine_inv_addOrder[OF assms(10) a(1) entered_order_fit assms(12)])
  with p a show ?thesis by auto
qed

text \<open>The order is in the book and its report has been sent.\<close>

lemma order_acknowledged:
  assumes "reactor_inv srv" "i < length (SessionFlags srv)" "fst (validateRequiredTags msg 0)"
    "m_messageType msg = MessageType_value NEW_ORDER"
    "ucast (m_sequenceNumber msg) = m_incomingSequenceNumber (Sessions srv ! i) + 1"
    "order_message symbol clientId FIX_ORDER_TYPE_LIMIT side quantity price fraction msg"
    "sm_inv (securityManager srv)" "getSecurityId (securityManager srv) symbol = Inr s"
    "cob = m_centralOrderBook srv" "engine_inv cob" "\<not> m_isMatchingMultithreaded cob"
    "sint (m_orderNumber cob) < 2 ^ 31 - 1" "q = queue_index cob s"
    "3 + 2 * book_size (book_at cob s) \<le> out_room cob q" and
    "SessionFlags srv ! i" "out_view cob ! q = []" "\<not> m_offlineMode (m_outgoingMessageProcessor srv)"
    "table_at FIX_VERSION_STRINGS (session_fixVersion (Sessions srv ! i)) = Inr v"
    "is_iteration (env_hash_order penv)" "0 \<le> sint (m_outgoingSequenceNumber (Sessions srv ! i))"
    "field_value (COMPID srv)" "field_value (session_targetCompId (Sessions srv ! i))"
    "field_value (clock_text (env_clock penv))" "field_value clientId" "field_value symbol"
  shows "\<exists>srv1 srv2 bytes report.
    processMessage env fenv (onFixMessage mem address writable fenv) msg i srv = Inr srv1 \<and>
    poll_queue pwritable penv q srv1 = Inr srv2 \<and> handed srv2 = handed srv @ [(i, bytes)] \<and>
    parseFromBuffer (FixMessage_new mem_type) bytes = Inr report \<and>
    m_messageType report = MessageType_value EXECUTION_REPORT \<and>
    (let tags = map_of (m_bodyTagValuePairs report)
     in tags FIX_TAG_CLIENT_ORDER_ID = Some clientId \<and> tags FIX_TAG_SYMBOL = Some symbol \<and>
        tags FIX_TAG_ORDER_STATUS = Some (to_string FIX_ORDER_STATUS_NEW) \<and>
        (side = 1 \<or> side = 2 \<longrightarrow> tags FIX_TAG_ORDER_SIDE = Some (to_string side)) \<and>
        tags FIX_TAG_ORDER_QUANTITY = Some (to_string (sint quantity)) \<and>
        tags FIX_TAG_CUMULATIVE_QUANTITY = Some (to_string 0)) \<and>
    (\<exists>ord ps book'. m_orderID ord = scast (m_orderNumber cob + 1) \<and> m_sessionId ord = i \<and> m_securityId ord = s \<and>
       m_clientOrderID ord = clientId \<and> m_quantity ord = quantity \<and> m_openQuantity ord = quantity \<and>
       m_price ord = double_of_long price \<and> (side = 1 \<longrightarrow> m_side ord = BUY) \<and> (side = 2 \<longrightarrow> m_side ord = SELL) \<and>
       processMatching (OrderBook_insert ord (book_at cob s)) [] = Some (ps \<noteq> [], book', ps) \<and>
       book_at (m_centralOrderBook srv1) = (book_at cob)(s := book') \<and>
       book_at (m_centralOrderBook srv2) = (book_at cob)(s := book') \<and>
       out_view (m_centralOrderBook srv2) = (out_view cob)[q := map fill_message ps])"
proof -
  let ?S = "(Sessions srv)[i := (Sessions srv ! i)\<lparr>m_incomingSequenceNumber := m_incomingSequenceNumber (Sessions srv ! i) + 1\<rparr>]"
  let ?ord = "(entered_order mem i s clientId side quantity price)\<lparr>m_orderID := scast (m_orderNumber cob + 1)\<rparr>"
  let ?message = "OutgoingMessage_new ?ord OrderStatus.ACCEPTED []"
  obtain cob' ps book' where p: "processMessage env fenv (onFixMessage mem address writable fenv) msg i srv =
      Inr (srv\<lparr>Sessions := ?S, m_centralOrderBook := cob'\<rparr>)" "engine_inv cob'"
      "out_view cob' = (out_view cob)[q := out_view cob ! q @ ?message # map fill_message ps]"
      "processMatching (OrderBook_insert ?ord (book_at cob s)) [] = Some (ps \<noteq> [], book', ps)" "book_at cob' = (book_at cob)(s := book')"
    using order_entered[OF assms(1-14) refl, where mem = mem and env = env and fenv = fenv and address = address and writable = writable] by blast
  let ?srv1 = "srv\<lparr>Sessions := ?S, m_centralOrderBook := cob'\<rparr>"
  have len: "length (Sessions srv) = length (SessionFlags srv)" using assms(1) by (simp add: reactor_inv_def)
  have q: "q < length (m_outgoingMessages cob)" using assms(14) by (auto simp: out_room_def split: if_splits)
  have "length (out_view cob') = length (out_view cob)" using p(3) by simp
  then have q': "q < length (m_outgoingMessages cob')" "outgoing_ok cob'"
    using q p(2) by (simp_all add: out_view_def engine_inv_def)
  have view: "out_view cob' ! q = ?message # map fill_message ps" using p(3) assms(16) q by (simp add: out_view_def)
  have sym: "getSecurityName (securityManager srv) s = Inr symbol" by (rule security_directory.name_of_id[OF assms(7,8)])
  have inv: "reactor_inv ?srv1" using assms(1,2) len
    by (auto simp: reactor_inv_def peers_ok_def session_ok_def nth_list_update)
  have ord: "m_sessionId ?ord = i" "m_securityId ?ord = s" "m_clientOrderID ?ord = clientId" "m_quantity ?ord = quantity"
    "m_executedQuantity ?ord = 0" "side = 1 \<Longrightarrow> m_side ?ord = BUY" "side = 2 \<Longrightarrow> m_side ?ord = SELL"
    by (simp_all add: entered_order_def Order_default_def)
  have "i < length (Sessions srv)" using assms(2) len by simp
  have "\<exists>srv2 bytes report. poll_queue pwritable penv q ?srv1 = Inr srv2 \<and> srv2 = report_sent i bytes penv (popped q ?message ?srv1) \<and>
    out_view (m_centralOrderBook srv2) = (out_view cob)[q := map fill_message ps] \<and> handed srv2 = handed srv @ [(i, bytes)] \<and>
    parseFromBuffer (FixMessage_new mem_type) bytes = Inr report \<and>
    m_messageType report = MessageType_value EXECUTION_REPORT \<and>
    (let tags = map_of (m_bodyTagValuePairs report)
     in tags FIX_TAG_CLIENT_ORDER_ID = Some clientId \<and> tags FIX_TAG_SYMBOL = Some symbol \<and>
        tags FIX_TAG_ORDER_STATUS = Some (to_string FIX_ORDER_STATUS_NEW) \<and>
        (side = 1 \<or> side = 2 \<longrightarrow> tags FIX_TAG_ORDER_SIDE = Some (to_string side)) \<and>
        tags FIX_TAG_ORDER_QUANTITY = Some (to_string (sint quantity)) \<and>
        tags FIX_TAG_CUMULATIVE_QUANTITY = Some (to_string 0))"
    using poll_queue_connected[of q ?srv1 ?message "map fill_message ps" "out_order ?message" i symbol v penv pwritable mem_type]
      q' view inv assms(2,15,17-) sym ord len p(3)
    by (auto simp: OutgoingMessage_new_def Let_def)
  then obtain srv2 bytes report where r: "poll_queue pwritable penv q ?srv1 = Inr srv2"
    "srv2 = report_sent i bytes penv (popped q ?message ?srv1)" "out_view (m_centralOrderBook srv2) = (out_view cob)[q := map fill_message ps]"
    "handed srv2 = handed srv @ [(i, bytes)]" "parseFromBuffer (FixMessage_new mem_type) bytes = Inr report"
    "m_messageType report = MessageType_value EXECUTION_REPORT"
    "let tags = map_of (m_bodyTagValuePairs report)
     in tags FIX_TAG_CLIENT_ORDER_ID = Some clientId \<and> tags FIX_TAG_SYMBOL = Some symbol \<and>
        tags FIX_TAG_ORDER_STATUS = Some (to_string FIX_ORDER_STATUS_NEW) \<and>
        (side = 1 \<or> side = 2 \<longrightarrow> tags FIX_TAG_ORDER_SIDE = Some (to_string side)) \<and>
        tags FIX_TAG_ORDER_QUANTITY = Some (to_string (sint quantity)) \<and>
        tags FIX_TAG_CUMULATIVE_QUANTITY = Some (to_string 0)" by blast
  have "book_at (m_centralOrderBook srv2) = book_at cob'"
    by (simp add: r(2) report_sent_def popped_def book_at_def fun_eq_iff)
  then have book: "book_at (m_centralOrderBook srv2) = (book_at cob)(s := book')" "book_at (m_centralOrderBook ?srv1) = (book_at cob)(s := book')"
    using p(5) by simp_all
  have entry: "m_orderID ?ord = scast (m_orderNumber cob + 1) \<and> m_sessionId ?ord = i \<and> m_securityId ?ord = s \<and> m_clientOrderID ?ord = clientId \<and>
       m_quantity ?ord = quantity \<and> m_openQuantity ?ord = quantity \<and> m_price ?ord = double_of_long price \<and>
       (side = 1 \<longrightarrow> m_side ?ord = BUY) \<and> (side = 2 \<longrightarrow> m_side ?ord = SELL)"
    by (simp add: entered_order_def)
  show ?thesis
    by (rule exI[of _ ?srv1], rule exI[of _ srv2], rule exI[of _ bytes], rule exI[of _ report])
      (use p(1,4) r book entry in blast)
qed

text \<open>A new order as a client composes it, with the fields the server requires.\<close>

definition client_order :: "string \<Rightarrow> string \<Rightarrow> int \<Rightarrow> clong \<Rightarrow> clong \<Rightarrow> string \<Rightarrow> FixMessage \<Rightarrow> bool" where
  "client_order symbol clientId side quantity price fraction msg \<longleftrightarrow>
     sendable msg \<and> m_messageType msg = MessageType_value NEW_ORDER \<and> m_fixVersion msg \<noteq> FixVersion_value FIX_VERSION_NONE \<and>
     m_sequenceNumber msg \<noteq> 0 \<and> m_senderCompId msg \<noteq> [] \<and> m_targetCompId msg \<noteq> [] \<and> m_sendingTime msg \<noteq> [] \<and>
     hasTag FIX_TAG_TRANSACTION_TIME msg \<and> order_message symbol clientId FIX_ORDER_TYPE_LIMIT side quantity price fraction msg"

lemma client_order_received:
  assumes "client_order symbol clientId side quantity price fraction msg" "received_as msg m'"
  shows "fst (validateRequiredTags m' 0)" "m_messageType m' = MessageType_value NEW_ORDER" "m_sequenceNumber m' = m_sequenceNumber msg"
    "order_message symbol clientId FIX_ORDER_TYPE_LIMIT side quantity price fraction m'"
  using assms
  by (simp_all add: client_order_def received_as_def order_message_def validateRequiredTags_def verifyTags_def hasTag_def Let_def)

lemma client_order_values:
  assumes "client_order symbol clientId side quantity price fraction msg"
  shows "field_value clientId" "field_value symbol"
  using assms by (fastforce simp: client_order_def sendable_def order_message_def Let_def dest!: map_of_SomeD)+

text \<open>An order as its client prints it, and the sample server with a receive cache.\<close>

definition sample_client_order :: FixMessage where
  "sample_client_order = sample_message\<lparr>m_sequenceNumber := 6, m_messageType := MessageType_value NEW_ORDER,
     m_bodyTagValuePairs := [(55, ''ABC''), (11, ''B7''), (40, to_string 2), (54, to_string 1), (38, to_string 100),
        (44, to_string 12), (60, ''T'')]\<rparr>"

definition printed_text :: "FixMessage \<Rightarrow> string" where
  "printed_text msg = (case FixMessage_toString (\<lambda>es. es) msg of Inl _ \<Rightarrow> [] | Inr text \<Rightarrow> text)"

definition sample_client_text :: string where
  "sample_client_text = printed_text sample_client_order"

text \<open>The same order as the first message of a client.\<close>

definition sample_first_order :: FixMessage where
  "sample_first_order = sample_client_order\<lparr>m_sequenceNumber := 2\<rparr>"

definition sample_first_text :: string where
  "sample_first_text = printed_text sample_first_order"

definition sample_wire :: Server where
  "sample_wire = sample_entry\<lparr>m_receiveCacheSize := 256,
     Sessions := [sample_session\<lparr>m_receiveCache := Some (FixReceiveCache_initialise [] 256 FixReceiveCache_new)\<rparr>]\<rparr>"

lemma sample_client_text_length: "length sample_client_text < 256"
  by code_simp

lemma sample_first_text_length: "length sample_first_text < 256"
  by code_simp

lemma sample_client_printed:
  "FixMessage_toString (\<lambda>es. es) (sample_client_order\<lparr>m_sequenceNumber := n\<rparr>) =
     Inr (printed_text (sample_client_order\<lparr>m_sequenceNumber := n\<rparr>))"
proof -
  have "\<exists>out. FixMessage_toString (\<lambda>es. es) (sample_client_order\<lparr>m_sequenceNumber := n\<rparr>) = Inr out"
    by (simp add: FixMessage_toString_def sample_client_order_def sample_message_def table_at_def FIX_VERSION_STRINGS_def
        FIX_MESSAGE_TYPE_STRINGS_def calculateBodyLength_def calculateHeaderLength_def Let_def)
  then show ?thesis by (auto simp: printed_text_def)
qed

lemma sample_client_order_ok:
  "FixMessage_toString (\<lambda>es. es) sample_client_order = Inr sample_client_text"
  "client_order ''ABC'' ''B7'' 1 100 12 [] sample_client_order" "m_sequenceNumber sample_client_order = 6"
  "FixMessage_toString (\<lambda>es. es) sample_first_order = Inr sample_first_text"
  "client_order ''ABC'' ''B7'' 1 100 12 [] sample_first_order" "m_sequenceNumber sample_first_order = 2"
proof -
  have same: "sample_client_order\<lparr>m_sequenceNumber := 6\<rparr> = sample_client_order" by (simp add: sample_client_order_def)
  show "FixMessage_toString (\<lambda>es. es) sample_client_order = Inr sample_client_text"
    using sample_client_printed[of 6] by (simp add: same sample_client_text_def)
  show "FixMessage_toString (\<lambda>es. es) sample_first_order = Inr sample_first_text"
    using sample_client_printed[of 2] by (simp add: sample_first_order_def sample_first_text_def)
  show "client_order ''ABC'' ''B7'' 1 100 12 [] sample_client_order" "client_order ''ABC'' ''B7'' 1 100 12 [] sample_first_order"
    by (simp_all add: client_order_def sendable_def sample_first_order_def sample_client_order_def sample_message_def order_message_def
        hasTag_def Let_def int_tag_def field_value_to_string header_tags_def)
qed (simp_all add: sample_client_order_def sample_first_order_def)

lemma sample_wire_fields:
  "reactor_inv sample_wire" "SessionFlags sample_wire = [True]" "m_receiveCacheSize sample_wire = 256"
  "Sessions sample_wire = [sample_session\<lparr>m_receiveCache := Some (FixReceiveCache_initialise [] 256 FixReceiveCache_new)\<rparr>]"
  "m_centralOrderBook sample_wire = sample_engine" "securityManager sample_wire = snd (addSecurity ''ABC'' SecurityManager_init)"
  "COMPID sample_wire = ''S''" "handed sample_wire = []" "\<not> m_offlineMode (m_outgoingMessageProcessor sample_wire)"
proof -
  show "reactor_inv sample_wire"
    by (simp add: sample_wire_def sample_entry_def sample_server_def reactor_inv_def peers_ok_def session_ok_def
        sample_session_def FixSession_initialise_def)
qed (use sample_entry_fields sample_server_ok in \<open>simp_all add: sample_wire_def sample_entry_def\<close>)

section \<open>A sample run\<close>

text \<open>A client connects to the server that has just started and sends its first order.\<close>

definition sample_peer :: Server where
  "sample_peer = sample_started\<lparr>m_peerSockets := [\<lparr>m_socketDescriptor = 5, m_state = CONNECTED\<rparr>],
     m_peerSocketsConnectionFlags := [True], m_socket := \<lparr>m_socketDescriptor = 3, m_state = SOCKET_STATE.ACCEPTED\<rparr>,
     m_peerSocketIndexTable := [(3, 0), (5, 0)], epoll_fds := [3, 5], open_fds := [3, 5],
     Sessions := [FixSession_initialise [] (Some 0) MICROSECONDS 256 (FixSession_new\<lparr>m_isUsingExternalTCPConnectionManager := True\<rparr>)],
     SessionFlags := [True]\<rparr>"

lemma sample_peer_reachable: "server_reachable sample_peer"
proof (rule server_reachable.event[OF sample_started_reachable])
  show "fix_event sample_renv (\<lambda>k. up_to_limit (onFixMessage sample_ask 0 (env_writable sample_renv) (env_fix sample_renv k)))
      (3, True, Some 5) sample_started = Inr sample_peer"
    by (simp add: fix_event_def reactor_event_def umap_index_def sample_started_def Server_static_def FixServerReactor_initialise_def
        acceptNewConnection_def Socket_accept_def addPeer_def onClientConnected_def TCPServer_onClientConnected_def addSession_def
        getSession_def sample_fix_conf_def FixServerConfiguration_new_def sample_renv_def sample_peer_def Let_def)
qed

lemma sample_peer_fields:
  "SessionFlags sample_peer = [True]" "m_receiveCacheSize sample_peer = 256" "m_peerSocketIndexTable sample_peer = [(3, 0), (5, 0)]"
  "m_socket sample_peer = \<lparr>m_socketDescriptor = 3, m_state = SOCKET_STATE.ACCEPTED\<rparr>"
  "Sessions sample_peer = [FixSession_initialise [] (Some 0) MICROSECONDS 256 (FixSession_new\<lparr>m_isUsingExternalTCPConnectionManager := True\<rparr>)]"
  "m_centralOrderBook sample_peer = sample_engine" "securityManager sample_peer = snd (addSecurity ''ABC'' SecurityManager_init)"
  by (simp_all add: sample_peer_def sample_started_def FixServerReactor_initialise_def sample_fix_conf_def FixServerConfiguration_new_def)

lemma sample_run:
  "\<exists>srv ord. server_reachable srv \<and> m_sessionId ord = 0 \<and> m_securityId ord = 0 \<and> m_clientOrderID ord = ''B7'' \<and> m_side ord = BUY \<and>
     m_bidOrders (book_at (m_centralOrderBook srv) 0) = [(m_price ord, ord)] \<and>
     out_view (m_centralOrderBook srv) = [[OutgoingMessage_new ord OrderStatus.ACCEPTED []]]"
proof -
  let ?cache = "FixReceiveCache_initialise [] 256 FixReceiveCache_new"
  let ?env = "sample_renv\<lparr>env_recv1 := \<lambda>_. Recv_data sample_first_text\<rparr>"
  let ?hook = "\<lambda>k. up_to_limit (onFixMessage sample_ask 0 (env_writable ?env) (env_fix ?env k))"
  have inv: "reactor_inv sample_peer" "engine_inv sample_engine"
    using server_reachable_inv[OF sample_peer_reachable] sample_peer_fields(6) by simp_all
  have cache: "m_receiveCache (Sessions sample_peer ! 0) = Some ?cache" "cache_inv ?cache" "cached_bytes ?cache = []"
    "length sample_first_text < getRemainingBufferSize ?cache"
    using sample_first_text_length
    by (simp_all add: sample_peer_fields cache_inv_def cached_bytes_def getRemainingBufferSize_def FixSession_initialise_def
        FixReceiveCache_initialise_def FixReceiveCache_new_def)
  have it: "is_iteration (\<lambda>es. es)" by (rule is_iteration_id)
  have send: "sendable sample_first_order" using sample_client_order_ok(5) by (simp add: client_order_def)
  have recv: "env_recv1 ?env (getRemainingBufferSize ?cache) = Recv_data sample_first_text" by simp
  have printed: "FixMessage_toString (\<lambda>es. es) sample_first_order = Inr (cached_bytes ?cache @ sample_first_text)"
    using sample_client_order_ok(4) cache(3) by simp
  obtain m' cache' where m': "received_as sample_first_order m'"
    "handleClient ?env ?hook 0 sample_peer = processMessage ?env (env_fix ?env 0) (?hook 0) m' 0
      (sample_peer\<lparr>Sessions := (Sessions sample_peer)[0 := (Sessions sample_peer ! 0)
        \<lparr>m_lastReceivedTime := clock_seconds (env_clock (env_fix ?env 0)), m_receiveCache := Some cache'\<rparr>]\<rparr>)"
    using handleClient_completes_message[OF inv(1) _ _ _ cache(1,2) send it printed cache(4) recv, of ?hook] sample_peer_fields
    by auto
  define srv0 where "srv0 = sample_peer\<lparr>Sessions := (Sessions sample_peer)[0 := (Sessions sample_peer ! 0)
        \<lparr>m_lastReceivedTime := clock_seconds (env_clock (env_fix ?env 0)), m_receiveCache := Some cache'\<rparr>]\<rparr>"
  have inv0: "reactor_inv srv0"
    unfolding srv0_def
    by (rule reactor_inv_session[OF inv(1)]) (simp add: session_ok_def FixSession_initialise_def sample_peer_fields)
  have f0: "SessionFlags srv0 = [True]" "m_incomingSequenceNumber (Sessions srv0 ! 0) = 1" "m_centralOrderBook srv0 = sample_engine"
    "securityManager srv0 = snd (addSecurity ''ABC'' SecurityManager_init)"
    by (simp_all add: srv0_def sample_peer_fields FixSession_initialise_def FixSession_new_def)
  define ord where "ord = (entered_order sample_ask 0 0 ''B7'' 1 100 12)\<lparr>m_orderID := scast (m_orderNumber sample_engine + 1)\<rparr>"
  note r = client_order_received[OF sample_client_order_ok(5) m'(1)]
  have id: "getSecurityId (snd (addSecurity ''ABC'' SecurityManager_init)) ''ABC'' = Inr 0"
    by (simp add: getSecurityId_def addSecurity_def SecurityManager_init_def umap_insert_def umap_at_def Let_def)
  have seq: "ucast (m_sequenceNumber m') = m_incomingSequenceNumber (Sessions srv0 ! 0) + 1"
    using r(3) f0(2) by (simp add: sample_client_order_ok(6))
  have size: "book_size OrderBook_empty = 0" by (simp add: book_size_def OrderBook_empty_def)
  obtain cob' ps book' where e: "processMessage ?env (env_fix ?env 0) (onFixMessage sample_ask 0 (env_writable ?env) (env_fix ?env 0)) m' 0 srv0 =
      Inr (srv0\<lparr>Sessions := (Sessions srv0)[0 := (Sessions srv0 ! 0)\<lparr>m_incomingSequenceNumber := m_incomingSequenceNumber (Sessions srv0 ! 0) + 1\<rparr>],
      m_centralOrderBook := cob'\<rparr>)"
    "processMatching (OrderBook_insert ord (book_at sample_engine 0)) [] = Some (ps \<noteq> [], book', ps)"
    "book_at cob' = (book_at sample_engine)(0 := book')"
    "out_view cob' = (out_view sample_engine)[0 := out_view sample_engine ! 0 @ OutgoingMessage_new ord OrderStatus.ACCEPTED [] # map fill_message ps]"
    using order_entered[OF inv0 _ r(1,2) seq r(4) _ _ f0(3)[symmetric] inv(2) _ _ _ _ ord_def, where env = ?env and fenv = "env_fix ?env 0"
        and address = 0 and writable = "env_writable ?env"]
      f0(1,4) sm_inv_addSecurity[OF sm_inv_init] id size sample_engine_view by auto
  have side: "m_side ord = BUY" "m_clientOrderID ord = ''B7''" "m_sessionId ord = 0" "m_securityId ord = 0"
    by (simp_all add: ord_def entered_order_def)
  have "OrderBook_insert ord (book_at sample_engine 0) = \<lparr>m_bidOrders = [(m_price ord, ord)], m_askOrders = []\<rparr>"
    using side(1) sample_engine_view by (simp add: OrderBook_insert_def OrderBook_empty_def)
  moreover have "processMatching \<lparr>m_bidOrders = [(m_price ord, ord)], m_askOrders = []\<rparr> [] =
      Some (False, \<lparr>m_bidOrders = [(m_price ord, ord)], m_askOrders = []\<rparr>, [])"
    by (simp add: processMatching.simps match_step_def)
  ultimately have b: "ps = []" "book' = \<lparr>m_bidOrders = [(m_price ord, ord)], m_askOrders = []\<rparr>" using e(2) by auto
  have lim: "sint (m_orderNumber sample_engine) < 2 ^ 31 - 1" using sample_engine_view by simp
  have "processMessage ?env (env_fix ?env 0) (?hook 0) m' 0 srv0 =
      processMessage ?env (env_fix ?env 0) (onFixMessage sample_ask 0 (env_writable ?env) (env_fix ?env 0)) m' 0 srv0"
    using in_sequence[OF inv0 _ r(1) _ _ seq, of ?env "env_fix ?env 0"] new_order_type[OF r(2)] f0(1,3) lim by (simp add: up_to_limit_def)
  then have h: "handleClient ?env ?hook 0 sample_peer = Inr (srv0\<lparr>Sessions := (Sessions srv0)[0 := (Sessions srv0 ! 0)
      \<lparr>m_incomingSequenceNumber := m_incomingSequenceNumber (Sessions srv0 ! 0) + 1\<rparr>], m_centralOrderBook := cob'\<rparr>)" (is "_ = Inr ?srv")
    using m'(2) e(1) by (simp add: srv0_def)
  have same: "sample_peer\<lparr>m_peerSocketIndexTable := [(3, 0), (5, 0)]\<rparr> = sample_peer" by (simp add: sample_peer_def)
  have "fix_event ?env ?hook (5, True, None) sample_peer = Inr ?srv"
    unfolding h[symmetric] by (simp add: fix_event_def reactor_event_def umap_index_def sample_peer_fields(3,4) Let_def same)
  from server_reachable.event[where mem = "\<lambda>_. sample_ask" and address = "\<lambda>_. 0", OF sample_peer_reachable this]
  have "server_reachable ?srv" .
  moreover have "m_bidOrders (book_at cob' 0) = [(m_price ord, ord)]" "out_view cob' = [[OutgoingMessage_new ord OrderStatus.ACCEPTED []]]"
    using e(3,4) b sample_engine_view by simp_all
  ultimately show ?thesis using side by (intro exI[of _ ?srv] exI[of _ ord]) simp
qed

section \<open>Properties\<close>

text \<open>C12: The server stays consistent. In every state of the FIX server that start-up, connections,
  disconnections, client messages, the message processor and the matching workers can lead to, the
  session slots and the peer slots are in step (same length, same flags, session \<open>i\<close> talks to peer
  \<open>i\<close>), and the book of every security is sorted, balanced and uncrossed.\<close>

theorem server_stays_consistent:
  assumes "server_reachable srv"
  shows "length (Sessions srv) = length (m_peerSockets srv) \<and> SessionFlags srv = m_peerSocketsConnectionFlags srv \<and>
    (\<forall>i < length (Sessions srv). m_tcpConnection (Sessions srv ! i) = Some i) \<and>
    (\<forall>s. book_inv (book_at (m_centralOrderBook srv) s) \<and> uncrossed (book_at (m_centralOrderBook srv) s))"
  using server_reachable_inv[OF assms]
  by (auto simp: reactor_inv_def peers_ok_def session_ok_def engine_inv_def book_good_def)

theorem server_stays_consistent_witness:
  "\<exists>srv ord. server_reachable srv \<and> m_bidOrders (book_at (m_centralOrderBook srv) 0) = [(m_price ord, ord)] \<and>
     uncrossed (book_at (m_centralOrderBook srv) 0) \<and> length (Sessions srv) = length (m_peerSockets srv)"
  using sample_run server_stays_consistent by blast

text \<open>C15: Order entry from end to end, in the single threaded mode. A complete limit order with the next
  sequence number, for a listed symbol, from a connected session is entered into the book under the
  next order number, with the client's order id, side (BUY for 1, SELL for 2) and quantity, the whole part of its price
  (what follows the decimal point is dropped: 12.75 is entered as 12) and the number of the
  session; the queue of its security receives the ACCEPTED report followed by the reports of its
  fills, the session records the sequence number, and nothing is sent or rejected on the spot. The
  server is in a consistent state, the queue has room for three messages and two more for each
  resting order of the security, and fewer than 2^31 - 1 order numbers have been used.\<close>

theorem order_entry_end_to_end:
  assumes "reactor_inv srv" "i < length (SessionFlags srv)" "fst (validateRequiredTags msg 0)"
    "m_messageType msg = MessageType_value NEW_ORDER"
    "ucast (m_sequenceNumber msg) = m_incomingSequenceNumber (Sessions srv ! i) + 1"
    "order_message symbol clientId FIX_ORDER_TYPE_LIMIT side quantity price fraction msg"
    "sm_inv (securityManager srv)" "getSecurityId (securityManager srv) symbol = Inr s"
    "cob = m_centralOrderBook srv" "engine_inv cob" "\<not> m_isMatchingMultithreaded cob"
    "sint (m_orderNumber cob) < 2 ^ 31 - 1" "q = queue_index cob s"
    "3 + 2 * book_size (book_at cob s) \<le> out_room cob q"
  shows "\<exists>srv' ord ps book'. processMessage env fenv (onFixMessage mem address writable fenv) msg i srv = Inr srv' \<and>
    m_orderID ord = scast (m_orderNumber cob + 1) \<and> m_sessionId ord = i \<and> m_securityId ord = s \<and> m_clientOrderID ord = clientId \<and>
    m_quantity ord = quantity \<and> m_openQuantity ord = quantity \<and> m_price ord = double_of_long price \<and>
    (side = 1 \<longrightarrow> m_side ord = BUY) \<and> (side = 2 \<longrightarrow> m_side ord = SELL) \<and>
    processMatching (OrderBook_insert ord (book_at cob s)) [] = Some (ps \<noteq> [], book', ps) \<and>
    book_at (m_centralOrderBook srv') = (book_at cob)(s := book') \<and>
    out_view (m_centralOrderBook srv') = (out_view cob)
      [q := out_view cob ! q @ OutgoingMessage_new ord OrderStatus.ACCEPTED [] # map fill_message ps] \<and>
    m_incomingSequenceNumber (Sessions srv' ! i) = m_incomingSequenceNumber (Sessions srv ! i) + 1 \<and> handed srv' = handed srv"
proof -
  define ord where "ord = (entered_order mem i s clientId side quantity price)\<lparr>m_orderID := scast (m_orderNumber cob + 1)\<rparr>"
  have i: "i < length (Sessions srv)" using assms(1,2) by (simp add: reactor_inv_def)
  obtain cob' ps book' where a: "processMessage env fenv (onFixMessage mem address writable fenv) msg i srv = Inr (srv\<lparr>Sessions := (Sessions srv)
      [i := (Sessions srv ! i)\<lparr>m_incomingSequenceNumber := m_incomingSequenceNumber (Sessions srv ! i) + 1\<rparr>],
      m_centralOrderBook := cob'\<rparr>)"
    "processMatching (OrderBook_insert ord (book_at cob s)) [] = Some (ps \<noteq> [], book', ps)"
    "book_at cob' = (book_at cob)(s := book')"
    "out_view cob' = (out_view cob)[q := out_view cob ! q @ OutgoingMessage_new ord OrderStatus.ACCEPTED [] # map fill_message ps]"
    using order_entered[OF assms ord_def, of env fenv address writable] by blast
  show ?thesis
    by (rule exI, rule exI[of _ ord], rule exI[of _ ps], rule exI[of _ book'], rule conjI, rule a(1))
      (use a i in \<open>simp add: ord_def entered_order_def\<close>)
qed

theorem order_entry_end_to_end_witness:
  "\<exists>srv' ord ps. processMessage sample_renv sample_env (onFixMessage sample_ask 0 (\<lambda>_. True) sample_env) (sample_order ''ABC'') 0 sample_entry = Inr srv' \<and>
     m_clientOrderID ord = ''B7'' \<and> m_side ord = BUY \<and> m_quantity ord = 100 \<and>
     out_view (m_centralOrderBook srv') = [OutgoingMessage_new ord OrderStatus.ACCEPTED [] # map fill_message ps]"
proof -
  have sm: "sm_inv (snd (addSecurity ''ABC'' SecurityManager_init))" by (rule sm_inv_addSecurity[OF sm_inv_init])
  have id: "getSecurityId (snd (addSecurity ''ABC'' SecurityManager_init)) ''ABC'' = Inr 0"
    by (simp add: getSecurityId_def addSecurity_def SecurityManager_init_def umap_insert_def umap_at_def Let_def)
  have size: "book_size OrderBook_empty = 0" by (simp add: book_size_def OrderBook_empty_def)
  show ?thesis
    using order_entry_end_to_end[of sample_entry 0 "sample_order ''ABC''" "''ABC''" "''B7''" 1 100 12 "[]" 0 sample_engine 0
        sample_renv sample_env sample_ask 0 "\<lambda>_. True"] sample_entry_fields sample_order_valid[of "''ABC''"] sm id size
      engine_reachable_inv[OF sample_engine_reachable] sample_engine_view
    by auto
qed

text \<open>C17: An order travels from the wire to the book and its acknowledgement back to the wire. In the single
  threaded mode, when the last bytes of a printed limit order arrive from a connected client (in one read or
  after others in the cache), handling the client enters the order: the book of its security becomes
  the result of matching with this order in it (client's id, side, quantity, whole part of its price,
  next order number); no other book changes. The next poll of an online message processor on the queue, empty
  before, hands to that client's socket one message, whose bytes parse to a report accepting the order
  (id, symbol, side, quantity, nothing executed), leaves the reports of its fills in the queue and keeps
  the books. Conditions: the order is complete, separator-free, fits the cache, has the session's next sequence
  number and a listed symbol; the server is consistent, below its 2^31st order, its ids and clock text are
  plain, the FIX version is known, the queue has room as in C15.\<close>

theorem order_is_acknowledged:
  assumes "reactor_inv srv" "i < length (SessionFlags srv)" "SessionFlags srv ! i" "m_receiveCacheSize srv \<noteq> 0"
    "m_receiveCache (Sessions srv ! i) = Some cache" "cache_inv cache"
    "client_order symbol clientId side quantity price fraction msg" "is_iteration client_order_of_tags"
    "FixMessage_toString client_order_of_tags msg = Inr (cached_bytes cache @ chunk)"
    "length chunk < getRemainingBufferSize cache" "env_recv1 env (getRemainingBufferSize cache) = Recv_data chunk" and
    "ucast (m_sequenceNumber msg) = m_incomingSequenceNumber (Sessions srv ! i) + 1"
    "sm_inv (securityManager srv)" "getSecurityId (securityManager srv) symbol = Inr s"
    "cob = m_centralOrderBook srv" "engine_inv cob" "\<not> m_isMatchingMultithreaded cob"
    "sint (m_orderNumber cob) < 2 ^ 31 - 1" "q = queue_index cob s"
    "3 + 2 * book_size (book_at cob s) \<le> out_room cob q" "out_view cob ! q = []" and
    "\<not> m_offlineMode (m_outgoingMessageProcessor srv)"
    "table_at FIX_VERSION_STRINGS (session_fixVersion (Sessions srv ! i)) = Inr v"
    "is_iteration (env_hash_order penv)" "0 \<le> sint (m_outgoingSequenceNumber (Sessions srv ! i))"
    "field_value (COMPID srv)" "field_value (session_targetCompId (Sessions srv ! i))" "field_value (clock_text (env_clock penv))"
  shows "\<exists>srv1 srv2 bytes report.
    handleClient env (\<lambda>k. onFixMessage (mem k) (address k) (env_writable env) (env_fix env k)) i srv = Inr srv1 \<and>
    poll_queue pwritable penv q srv1 = Inr srv2 \<and> handed srv2 = handed srv @ [(i, bytes)] \<and>
    parseFromBuffer (FixMessage_new mem_type) bytes = Inr report \<and>
    m_messageType report = MessageType_value EXECUTION_REPORT \<and>
    (let tags = map_of (m_bodyTagValuePairs report)
     in tags FIX_TAG_CLIENT_ORDER_ID = Some clientId \<and> tags FIX_TAG_SYMBOL = Some symbol \<and>
        tags FIX_TAG_ORDER_STATUS = Some (to_string FIX_ORDER_STATUS_NEW) \<and>
        (side = 1 \<or> side = 2 \<longrightarrow> tags FIX_TAG_ORDER_SIDE = Some (to_string side)) \<and>
        tags FIX_TAG_ORDER_QUANTITY = Some (to_string (sint quantity)) \<and>
        tags FIX_TAG_CUMULATIVE_QUANTITY = Some (to_string 0)) \<and>
    (\<exists>ord ps book'. m_orderID ord = scast (m_orderNumber cob + 1) \<and> m_sessionId ord = i \<and> m_securityId ord = s \<and>
       m_clientOrderID ord = clientId \<and> m_quantity ord = quantity \<and> m_openQuantity ord = quantity \<and>
       m_price ord = double_of_long price \<and> (side = 1 \<longrightarrow> m_side ord = BUY) \<and> (side = 2 \<longrightarrow> m_side ord = SELL) \<and>
       processMatching (OrderBook_insert ord (book_at cob s)) [] = Some (ps \<noteq> [], book', ps) \<and>
       book_at (m_centralOrderBook srv1) = (book_at cob)(s := book') \<and>
       book_at (m_centralOrderBook srv2) = (book_at cob)(s := book') \<and>
       out_view (m_centralOrderBook srv2) = (out_view cob)[q := map fill_message ps])"
proof -
  have send: "sendable msg" using assms(7) by (simp add: client_order_def)
  obtain m' cache' where m': "received_as msg m'"
    "handleClient env (\<lambda>k. onFixMessage (mem k) (address k) (env_writable env) (env_fix env k)) i srv =
      processMessage env (env_fix env 0) (onFixMessage (mem 0) (address 0) (env_writable env) (env_fix env 0)) m' i
      (srv\<lparr>Sessions := (Sessions srv)[i := (Sessions srv ! i)
        \<lparr>m_lastReceivedTime := clock_seconds (env_clock (env_fix env 0)), m_receiveCache := Some cache'\<rparr>]\<rparr>)"
    using handleClient_completes_message[OF assms(1-6) send assms(8-11),
        of "\<lambda>k. onFixMessage (mem k) (address k) (env_writable env) (env_fix env k)"] by blast
  let ?session = "(Sessions srv ! i)\<lparr>m_lastReceivedTime := clock_seconds (env_clock (env_fix env 0)), m_receiveCache := Some cache'\<rparr>"
  let ?srv = "srv\<lparr>Sessions := (Sessions srv)[i := ?session]\<rparr>"
  have i: "i < length (Sessions srv)" using assms(1,2) by (simp add: reactor_inv_def)
  have inv: "reactor_inv ?srv"
    using assms(1) i by (auto simp: reactor_inv_def peers_ok_def session_ok_def nth_list_update)
  note r = client_order_received[OF assms(7) m'(1)]
  show ?thesis unfolding m'(2)
    using order_acknowledged[of ?srv i m' symbol clientId side quantity price fraction s cob q v penv env "env_fix env 0" "mem 0"
        "address 0" "env_writable env" pwritable mem_type]
      inv r client_order_values[OF assms(7)] i assms(2,3,12-28) by simp
qed

theorem order_is_acknowledged_witness:
  "\<exists>srv1 srv2 bytes report.
     handleClient (sample_renv\<lparr>env_recv1 := \<lambda>_. Recv_data sample_client_text\<rparr>)
       (\<lambda>k. onFixMessage sample_ask 0 (\<lambda>_. True) sample_env) 0 sample_wire = Inr srv1 \<and>
     poll_queue (\<lambda>_. True) sample_env 0 srv1 = Inr srv2 \<and> handed srv2 = [(0, bytes)] \<and>
     parseFromBuffer (FixMessage_new 0) bytes = Inr report \<and>
     map_of (m_bodyTagValuePairs report) FIX_TAG_CLIENT_ORDER_ID = Some ''B7''"
proof -
  let ?cache = "FixReceiveCache_initialise [] 256 FixReceiveCache_new"
  let ?env = "sample_renv\<lparr>env_recv1 := \<lambda>_. Recv_data sample_client_text\<rparr>"
  have id: "getSecurityId (snd (addSecurity ''ABC'' SecurityManager_init)) ''ABC'' = Inr 0"
    by (simp add: getSecurityId_def addSecurity_def SecurityManager_init_def umap_insert_def umap_at_def Let_def)
  have size: "book_size OrderBook_empty = 0" by (simp add: book_size_def OrderBook_empty_def)
  have v: "table_at FIX_VERSION_STRINGS (session_fixVersion sample_session) = Inr ''FIX.4.2''"
    unfolding sample_session_fields by (simp add: table_at_def FIX_VERSION_STRINGS_def)
  have env: "is_iteration (env_hash_order sample_env)" "field_value (clock_text (env_clock sample_env))" "is_iteration (\<lambda>es. es)"
    "env_writable ?env = (\<lambda>_. True)" "env_fix ?env = (\<lambda>_. sample_env)" "env_recv1 ?env n = Recv_data sample_client_text" for n
    using is_iteration_id by (simp_all add: sample_env_def sample_clock_def sample_renv_def)
  have cache: "cache_inv ?cache" "cached_bytes ?cache = []" "length sample_client_text < getRemainingBufferSize ?cache"
    using sample_client_text_length
    by (simp_all add: cache_inv_def cached_bytes_def getRemainingBufferSize_def FixReceiveCache_initialise_def FixReceiveCache_new_def)
  show ?thesis
    using order_is_acknowledged[where srv = sample_wire and i = 0 and cache = ?cache and symbol = "''ABC''" and clientId = "''B7''"
        and side = 1 and quantity = 100 and price = 12 and fraction = "[]" and msg = sample_client_order
        and client_order_of_tags = "\<lambda>es. es" and chunk = sample_client_text and env = ?env and s = 0 and cob = sample_engine
        and q = 0 and v = "''FIX.4.2''" and penv = sample_env and mem = "\<lambda>_. sample_ask" and address = "\<lambda>_. 0"
        and pwritable = "\<lambda>_. True" and mem_type = 0]
      sample_wire_fields sample_client_order_ok sm_inv_addSecurity[OF sm_inv_init] id size v env cache
      engine_reachable_inv[OF sample_engine_reachable] sample_engine_view sample_session_fields
    by (fastforce simp: Let_def)
qed

text \<open>C38: A cancel request does not carry its side. The converter never sets the side of the order it fills
  in, so the search uses what the storage of a local variable held: unless that happens to be the
  value of BUY or SELL, a cancel request of a client for a listed symbol is rejected and no order leaves the book,
  whatever side and order id the message names. In the single threaded mode the reactor thread
  rejects it at once; in the multithreaded mode, the shipped setting, it queues a cancel task that a worker, whatever
  the books are by then, answers with a rejection. (The queues concerned have room; a request for
  an unlisted symbol throws instead.)\<close>

theorem cancel_side_indeterminate:
  assumes "m_side mem \<noteq> BUY" "m_side mem \<noteq> SELL" "cob = m_centralOrderBook srv" "outgoing_ok cob"
    "map_of (m_bodyTagValuePairs msg) FIX_TAG_SYMBOL = Some symbol" "getSecurityId (securityManager srv) symbol = Inr s"
    "q = queue_index cob s" "\<not> m_isMatchingMultithreaded cob \<longrightarrow> 0 < out_room cob q"
    "m_isMatchingMultithreaded cob \<longrightarrow> pool_inv (m_orderBookThreadPool cob) \<and> q < length (pending cob) \<and>
       length (pending cob ! q) < m_capacity (m_threadQueues (m_orderBookThreadPool cob) ! q)"
  shows "\<exists>srv'. onFixMessage mem address writable fenv (msg\<lparr>m_messageType := MessageType_value CANCEL\<rparr>) i srv = Inr srv' \<and>
    book_at (m_centralOrderBook srv') = book_at cob \<and>
    (if \<not> m_isMatchingMultithreaded cob
     then \<exists>report. out_view (m_centralOrderBook srv') = (out_view cob)[q := out_view cob ! q @ [report]] \<and>
            m_orderStatus (out_order report) = REJECTED \<and> m_sessionId (out_order report) = i
     else out_view (m_centralOrderBook srv') = out_view cob \<and>
       (\<exists>ord orig. pending (m_centralOrderBook srv') = (pending cob)[q := pending cob ! q @ [Task_new (Task_CancelOrder ord orig)]] \<and>
          (\<forall>address cob2 q2. outgoing_ok cob2 \<and> q2 = queue_index cob2 s \<and> 0 < out_room cob2 q2 \<longrightarrow>
             (\<exists>cob3 report. run_book_task address (Task_CancelOrder ord orig) cob2 = (cob3, None) \<and>
                book_at cob3 = book_at cob2 \<and> out_view cob3 = (out_view cob2)[q2 := out_view cob2 ! q2 @ [report]] \<and>
                m_orderStatus (out_order report) = REJECTED \<and> m_sessionId (out_order report) = i))))"
proof -
  obtain clientId msg1 where g: "getTagValue FIX_TAG_CLIENT_ORDER_ID (msg\<lparr>m_messageType := MessageType_value CANCEL\<rparr>) = (clientId, msg1)"
    by fastforce
  let ?ord = "(Order_default mem)\<lparr>m_sessionId := i, m_securityId := s, m_clientOrderID := clientId\<rparr>"
  let ?orig = "fst (getTagValue FIX_TAG_ORIG_CLIENT_ORDER_ID msg1)"
  have f: "m_securityId ?ord = s" "m_side ?ord \<noteq> BUY" "m_side ?ord \<noteq> SELL" "m_sessionId ?ord = i"
    using assms(1,2) by (simp_all add: Order_default_def)
  have "convertCancelOrder (securityManager srv) (msg\<lparr>m_messageType := MessageType_value CANCEL\<rparr>)
      ((Order_default mem)\<lparr>m_sessionId := i\<rparr>) = Inr (?ord, msg1)"
    using assms(5,6) g by (simp add: convertCancelOrder_def convertCommonOrder_def getTagValue_present)
  then have c: "onFixMessage mem address writable fenv (msg\<lparr>m_messageType := MessageType_value CANCEL\<rparr>) i srv =
      res_bind (cancelOrder address ?ord ?orig cob) (\<lambda>cob'. Inr (srv\<lparr>m_centralOrderBook := cob'\<rparr>))"
    using assms(3) by (simp add: onFixMessage_def onCancelOrder_def)
  show ?thesis
  proof (cases "m_isMatchingMultithreaded cob")
    case False
    from cancel_of_no_side[OF f(2,3) assms(4), of "queue_index cob s" address ?orig] assms(7,8) f False obtain cob' report where
      "taskCancelOrder address ?ord ?orig cob = Inr cob'" "book_at cob' = book_at cob"
      "out_view cob' = (out_view cob)[q := out_view cob ! q @ [report]]" "m_orderStatus (out_order report) = REJECTED"
      "m_sessionId (out_order report) = i" by auto
    with c False show ?thesis by (auto simp: cancelOrder_def)
  next
    case True
    from cancelOrder_queued[OF True, of q ?ord address ?orig] assms(7,9) f True obtain cob' where
      q: "cancelOrder address ?ord ?orig cob = Inr cob'" "book_at cob' = book_at cob" "out_view cob' = out_view cob"
      "pending cob' = (pending cob)[q := pending cob ! q @ [Task_new (Task_CancelOrder ?ord ?orig)]]" by auto
    have "\<exists>cob3 report. run_book_task ad (Task_CancelOrder ?ord ?orig) cob2 = (cob3, None) \<and>
        book_at cob3 = book_at cob2 \<and> out_view cob3 = (out_view cob2)[q2 := out_view cob2 ! q2 @ [report]] \<and>
        m_orderStatus (out_order report) = REJECTED \<and> m_sessionId (out_order report) = i"
      if "outgoing_ok cob2" "q2 = queue_index cob2 s" "0 < out_room cob2 q2" for ad cob2 q2
      using cancel_of_no_side[OF f(2,3) that(1), of q2 ad ?orig] that f by (fastforce simp: run_book_task_def)
    then have all: "\<forall>address cob2 q2. outgoing_ok cob2 \<and> q2 = queue_index cob2 s \<and> 0 < out_room cob2 q2 \<longrightarrow>
        (\<exists>cob3 report. run_book_task address (Task_CancelOrder ?ord ?orig) cob2 = (cob3, None) \<and>
           book_at cob3 = book_at cob2 \<and> out_view cob3 = (out_view cob2)[q2 := out_view cob2 ! q2 @ [report]] \<and>
           m_orderStatus (out_order report) = REJECTED \<and> m_sessionId (out_order report) = i)" by blast
    have m: "onFixMessage mem address writable fenv (msg\<lparr>m_messageType := MessageType_value CANCEL\<rparr>) i srv =
        Inr (srv\<lparr>m_centralOrderBook := cob'\<rparr>)" using c q(1) by simp
    have b: "m_centralOrderBook (srv\<lparr>m_centralOrderBook := cob'\<rparr>) = cob'" by simp
    have neg: "(\<not> m_isMatchingMultithreaded cob) = False" using True by simp
    show ?thesis unfolding neg if_False
      by (rule exI[of _ "srv\<lparr>m_centralOrderBook := cob'\<rparr>"], unfold b, intro conjI m q(2,3), rule exI[of _ ?ord], rule exI[of _ ?orig],
          intro conjI q(4) all)
  qed
qed

theorem cancel_side_indeterminate_witness:
  "(\<exists>srv' report. onFixMessage (sample_bid\<lparr>m_side := SIDE_NON_SUPPORTED\<rparr>) 0 (\<lambda>_. True) sample_env
     ((sample_order ''ABC'')\<lparr>m_messageType := MessageType_value CANCEL\<rparr>) 0 sample_entry = Inr srv' \<and>
     out_view (m_centralOrderBook srv') = [[report]] \<and> m_orderStatus (out_order report) = REJECTED) \<and>
   (\<exists>srv'. onFixMessage (sample_bid\<lparr>m_side := SIDE_NON_SUPPORTED\<rparr>) 0 (\<lambda>_. True) sample_env
     ((sample_order ''ABC'')\<lparr>m_messageType := MessageType_value CANCEL\<rparr>) 0 (sample_entry\<lparr>m_centralOrderBook := sample_multi\<rparr>) = Inr srv' \<and>
     out_view (m_centralOrderBook srv') = [[]] \<and> length (pending (m_centralOrderBook srv') ! 0) = 1)"
proof
  have id: "getSecurityId (securityManager sample_entry) ''ABC'' = Inr 0"
    by (simp add: sample_entry_fields getSecurityId_def addSecurity_def SecurityManager_init_def umap_insert_def umap_at_def Let_def)
  have tag: "map_of (m_bodyTagValuePairs (sample_order ''ABC'')) FIX_TAG_SYMBOL = Some ''ABC''" by (simp add: sample_order_def)
  show "\<exists>srv' report. onFixMessage (sample_bid\<lparr>m_side := SIDE_NON_SUPPORTED\<rparr>) 0 (\<lambda>_. True) sample_env
     ((sample_order ''ABC'')\<lparr>m_messageType := MessageType_value CANCEL\<rparr>) 0 sample_entry = Inr srv' \<and>
     out_view (m_centralOrderBook srv') = [[report]] \<and> m_orderStatus (out_order report) = REJECTED"
    using cancel_side_indeterminate[of "sample_bid\<lparr>m_side := SIDE_NON_SUPPORTED\<rparr>" sample_engine sample_entry "sample_order ''ABC''" "''ABC''" 0 0
        0 "\<lambda>_. True" sample_env 0] id tag sample_entry_fields sample_engine_view by auto
  have m: "outgoing_ok sample_multi" "m_isMatchingMultithreaded sample_multi" "pool_inv (m_orderBookThreadPool sample_multi)"
    using engine_reachable_inv[OF sample_multi_reachable] by (simp_all add: engine_inv_def) (simp add: sample_multi_def)
  have v: "queue_index sample_multi 0 = 0" "out_view sample_multi = [[]]" "pending sample_multi = [[]]"
    "m_capacity (m_threadQueues (m_orderBookThreadPool sample_multi) ! 0) = 4"
    using sample_engine_view(1,3)
    by (simp_all add: sample_multi_def queue_index_def queueID_at_def out_view_def pending_def) (simp_all add: RingBuffer_new_def)
  have e: "m_centralOrderBook (sample_entry\<lparr>m_centralOrderBook := sample_multi\<rparr>) = sample_multi"
    "securityManager (sample_entry\<lparr>m_centralOrderBook := sample_multi\<rparr>) = securityManager sample_entry" by simp_all
  show "\<exists>srv'. onFixMessage (sample_bid\<lparr>m_side := SIDE_NON_SUPPORTED\<rparr>) 0 (\<lambda>_. True) sample_env
     ((sample_order ''ABC'')\<lparr>m_messageType := MessageType_value CANCEL\<rparr>) 0 (sample_entry\<lparr>m_centralOrderBook := sample_multi\<rparr>) = Inr srv' \<and>
     out_view (m_centralOrderBook srv') = [[]] \<and> length (pending (m_centralOrderBook srv') ! 0) = 1"
    using cancel_side_indeterminate[of "sample_bid\<lparr>m_side := SIDE_NON_SUPPORTED\<rparr>" sample_multi
        "sample_entry\<lparr>m_centralOrderBook := sample_multi\<rparr>" "sample_order ''ABC''" "''ABC''" 0 0 0 "\<lambda>_. True" sample_env 0] id tag m v e
    by auto
qed

end
