(* ===== verification/Order_Ownership.thy ===== *)
theory Order_Ownership
  imports Central_Order_Book
begin

text \<open>
  Who an order belongs to. No operation of the engine (\<open>source/order_matcher\<close>) changes the session
  or the security of an order, so what holds of both when an order enters holds of every order in the
  books, every order in a waiting task and every message in an outgoing queue. On the way the theory
  shows that each order rests in the book of its own security and each message waits in the queue of
  the security it is about.
\<close>

section \<open>Orders and books\<close>

definition owner :: "Order \<Rightarrow> nat \<times> nat" where
  "owner ord = (m_sessionId ord, m_securityId ord)"

lemma owner_simps [simp]:
  "owner (execute p q ord) = owner ord" "owner (cancel ord) = owner ord" "owner (ord\<lparr>m_orderID := n\<rparr>) = owner ord"
  "owner (out_order (OutgoingMessage_new ord status text)) = owner ord"
  by (simp_all add: owner_def execute_def cancel_def OutgoingMessage_new_def Let_def)

lemma owner_fill [simp]: "owner (out_order (fill_message ord)) = owner ord"
  by (simp add: fill_message_def)

lemma owner_security: "m_securityId ord = snd (owner ord)"
  by (simp add: owner_def)

definition book_owned :: "(nat \<times> nat \<Rightarrow> bool) \<Rightarrow> OrderBook \<Rightarrow> bool" where
  "book_owned P book \<longleftrightarrow> (\<forall>e \<in> set (m_bidOrders book) \<union> set (m_askOrders book). P (owner (snd e)))"

lemma book_owned_insert: "book_owned P book \<Longrightarrow> P (owner ord) \<Longrightarrow> book_owned P (OrderBook_insert ord book)"
  by (auto simp: book_owned_def OrderBook_insert_def)

lemma book_owned_erase: "book_owned P book \<Longrightarrow> book_owned P (OrderBook_erase ord book)"
  using set_remove_first_subset by (fastforce simp: book_owned_def OrderBook_erase_def)

lemma book_owned_entry:
  assumes "book_owned P book" "i < length (ladder_of side book)"
  shows "P (owner (fst (cancel_entry side i book)))" "book_owned P (snd (cancel_entry side i book))"
proof -
  let ?es = "ladder_of side book"
  have mem: "?es ! i \<in> set (m_bidOrders book) \<union> set (m_askOrders book)"
    using nth_mem[OF assms(2)] by (auto simp: ladder_of_def split: if_splits)
  then show e: "P (owner (fst (cancel_entry side i book)))" using assms(1) by (simp add: book_owned_def)
  have "\<forall>e \<in> set (?es[i := (fst (?es ! i), cancel (snd (?es ! i)))]). P (owner (snd e))"
  proof
    fix e assume "e \<in> set (?es[i := (fst (?es ! i), cancel (snd (?es ! i)))])"
    then have "e = (fst (?es ! i), cancel (snd (?es ! i))) \<or> e \<in> set ?es" using set_update_subset_insert by fastforce
    then show "P (owner (snd e))" using e assms(1) by (auto simp: book_owned_def ladder_of_def split: if_splits)
  qed
  then show "book_owned P (snd (cancel_entry side i book))"
    using assms(1) by (auto simp: cancel_entry_def Let_def book_owned_def ladder_of_def split: if_splits)
qed

lemma match_step_owned:
  "match_step b = Some (b', x, y) \<Longrightarrow> book_owned P b \<Longrightarrow> book_owned P b' \<and> P (owner x) \<and> P (owner y)"
  by (erule match_step_Some) (auto simp: book_owned_def split: if_splits)

lemma processMatching_owned:
  assumes "processMatching book ts = Some (r, book', ps)" "book_owned P book" "\<forall>ord \<in> set ts. P (owner ord)"
  shows "book_owned P book' \<and> (\<forall>ord \<in> set ps. P (owner ord))"
proof -
  have "book_owned P book \<longrightarrow> (\<forall>ord \<in> set ts. P (owner ord)) \<longrightarrow>
      book_owned P (fst (snd res)) \<and> (\<forall>ord \<in> set (snd (snd res)). P (owner ord))"
    if "processMatching book ts = Some res" for res
    using that
  proof (rule processMatching.raw_induct[where P = "\<lambda>book ts res. book_owned P book \<longrightarrow> (\<forall>ord \<in> set ts. P (owner ord)) \<longrightarrow>
      book_owned P (fst (snd res)) \<and> (\<forall>ord \<in> set (snd (snd res)). P (owner ord))", rotated], goal_cases)
    case (1 pm b us res)
    show ?case
    proof (cases "match_step b")
      case None
      then show ?thesis using 1(2) by auto
    next
      case (Some t)
      obtain b' x y where t: "t = (b', x, y)" by (cases t) auto
      have "pm b' (us @ [x, y]) = Some res" using 1(2) Some t by simp
      note IH = 1(1)[OF this]
      show ?thesis
      proof (intro impI)
        assume b: "book_owned P b" and us: "\<forall>ord \<in> set us. P (owner ord)"
        have "match_step b = Some (b', x, y)" using Some t by simp
        note st = match_step_owned[OF this b]
        then have "\<forall>ord \<in> set (us @ [x, y]). P (owner ord)" using us by simp
        with st IH show "book_owned P (fst (snd res)) \<and> (\<forall>ord \<in> set (snd (snd res)). P (owner ord))" by blast
      qed
    qed
  qed
  from this[OF assms(1)] show ?thesis using assms(2,3) by (elim impE conjE) simp_all
qed

section \<open>The engine\<close>

lemma nth_update_eq: "j < length xs \<Longrightarrow> xs[i := x] ! j = (if i = j then x else xs ! j)"
  by simp

definition engine_owned :: "(nat \<times> nat \<Rightarrow> bool) \<Rightarrow> CentralOrderBook \<Rightarrow> bool" where
  "engine_owned P cob \<longleftrightarrow>
     (\<forall>s. book_owned (\<lambda>w. P w \<and> snd w = s) (book_at cob s)) \<and>
     (\<forall>q < length (out_view cob). \<forall>m \<in> set (out_view cob ! q).
        P (owner (out_order m)) \<and> queue_index cob (m_securityId (out_order m)) = q) \<and>
     (\<forall>q < length (pending cob). \<forall>t \<in> set (pending cob ! q). \<forall>c. m_callback t = Some c \<longrightarrow> P (owner (task_order c)))"

lemma engine_owned_mono: "engine_owned P cob \<Longrightarrow> (\<And>w. P w \<Longrightarrow> Q w) \<Longrightarrow> engine_owned Q cob"
  unfolding engine_owned_def book_owned_def by blast

text \<open>A step that changes one book and appends messages about its security.\<close>

lemma engine_owned_step:
  assumes "engine_owned P cob" "queue_index cob' = queue_index cob" "pending cob' = pending cob"
    and "book_at cob' = (book_at cob)(s := b)" "book_owned (\<lambda>w. P w \<and> snd w = s) b"
    and "out_view cob' = (out_view cob)[queue_index cob s := out_view cob ! queue_index cob s @ ms]"
    and "\<forall>m \<in> set ms. P (owner (out_order m)) \<and> snd (owner (out_order m)) = s"
  shows "engine_owned P cob'"
  using assms by (auto simp: engine_owned_def nth_update_eq owner_security split: if_splits)

lemma engine_owned_task:
  assumes "engine_owned P cob" "taskNewOrder ord cob = Inr cob'" "outgoing_ok cob" "P (owner ord)"
  shows "engine_owned P cob'"
proof -
  let ?s = "m_securityId ord" and ?Q = "\<lambda>w. P w \<and> snd w = m_securityId ord"
  obtain r b ps where e: "processMatching (OrderBook_insert ord (book_at cob ?s)) [] = Some (r, b, ps)"
    "same_frame cob cob'" "book_at cob' = (book_at cob)(?s := b)"
    "out_view cob' = (out_view cob)[queue_index cob ?s := out_view cob ! queue_index cob ?s @ map fill_message ps]"
    using taskNewOrder_effect[OF assms(2,3)] by blast
  have "book_owned ?Q (OrderBook_insert ord (book_at cob ?s))"
    using assms(1,4) by (intro book_owned_insert) (simp_all add: engine_owned_def owner_security)
  from processMatching_owned[OF e(1) this] have "book_owned ?Q b \<and> (\<forall>ord \<in> set ps. ?Q (owner ord))" by simp
  then show ?thesis
    using engine_owned_step[OF assms(1) queue_index_frame[OF e(2)] pending_frame[OF e(2)] e(3) _ e(4)] by simp
qed

lemma engine_owned_cancel_task:
  assumes "engine_owned P cob" "taskCancelOrder address ord orig cob = Inr cob'" "outgoing_ok cob" "P (owner ord)"
  shows "engine_owned P cob'"
proof -
  let ?s = "m_securityId ord" and ?Q = "\<lambda>w. P w \<and> snd w = m_securityId ord"
  note e = taskCancelOrder_effect[OF assms(2,3)]
  note step = engine_owned_step[OF assms(1) queue_index_frame pending_frame]
  have book: "book_owned ?Q (book_at cob ?s)" using assms(1) by (simp add: engine_owned_def)
  show ?thesis
  proof (cases "OrderBook_find (book_at cob ?s) orig (m_sessionId ord) (m_side ord)")
    case None
    have "?Q (owner (out_order (cancel_reject_message address ord)))"
      using assms(4) by (simp add: cancel_reject_message_def owner_security)
    then show ?thesis using e None step[of cob' ?s "book_at cob ?s"] book by fastforce
  next
    case (Some i)
    have "i < length (ladder_of (m_side ord) (book_at cob ?s))"
      using OrderBook_find_Some[OF Some] find_index_SomeD by blast
    note ent = book_owned_entry[OF book this]
    let ?e = "cancel_entry (m_side ord) i (book_at cob ?s)"
    have "same_frame cob cob'" "book_at cob' = (book_at cob)(?s := OrderBook_erase (fst ?e) (snd ?e))"
      "out_view cob' = (out_view cob)[queue_index cob ?s := out_view cob ! queue_index cob ?s @
         [OutgoingMessage_new (fst ?e) CANCELED ''Order canceled'']]"
      using e Some by (simp_all del: cancel_entry_fst)
    from step[OF this(1,1,2) book_owned_erase[OF ent(2)] this(3)] ent(1) show ?thesis by (simp del: cancel_entry_fst)
  qed
qed

lemma engine_owned_submit:
  assumes "engine_owned P cob" "pool_inv (m_orderBookThreadPool cob)"
    "submitTask (Task_new c) q (m_orderBookThreadPool cob) = Inr pool" "P (owner (task_order c))"
  shows "engine_owned P (cob\<lparr>m_orderBookThreadPool := pool\<rparr>)"
proof -
  let ?c = "cob\<lparr>m_orderBookThreadPool := pool\<rparr>"
  note st = submitTask_Inr[OF assms(3,2)]
  have "pending ?c = (pending cob)[unat q := pending cob ! unat q @ [Task_new c]]"
    using st by (simp add: pending_def)
  moreover have "queue_index ?c = queue_index cob" "book_at ?c = book_at cob" "out_view ?c = out_view cob"
    by (simp_all add: queue_index_def queueID_at_def book_at_def out_view_def fun_eq_iff)
  ultimately show ?thesis
    using assms(1,4) by (auto simp: engine_owned_def nth_update_eq Task_new_def)
qed

lemma engine_owned_addOrder:
  assumes "engine_owned P cob" "engine_inv cob" "addOrder ord cob = Inr (r, ord', cob')" "P (owner ord)"
  shows "engine_owned P cob'"
proof -
  let ?s = "m_securityId ord"
  have ok: "outgoing_ok cob" "pool_inv (m_orderBookThreadPool cob)" using assms(2) by (simp_all add: engine_inv_def)
  obtain cob2 where o': "ord' = ord\<lparr>m_orderID := scast (m_orderNumber cob + 1)\<rparr>" and
    c2: "same_frame (cob\<lparr>m_orderNumber := m_orderNumber cob + 1\<rparr>) cob2" "outgoing_ok cob2" "book_at cob2 = book_at cob"
      "out_view cob2 = (out_view cob)[queue_index cob ?s := out_view cob ! queue_index cob ?s @ [OutgoingMessage_new ord' ACCEPTED []]]" and
    st: "if m_isMatchingMultithreaded cob
       then \<exists>pool. submitTask (Task_new (Task_NewOrder ord')) (scast (queueID_at cob ?s)) (m_orderBookThreadPool cob) = Inr pool \<and>
              cob' = cob2\<lparr>m_orderBookThreadPool := pool\<rparr>
       else taskNewOrder ord' cob2 = Inr cob'"
    using addOrder_effect[OF assms(3) ok(1)] by blast
  have own: "owner ord' = owner ord" by (simp add: o')
  have eq: "queue_index cob2 = queue_index cob" "pending cob2 = pending cob" "m_orderBookThreadPool cob2 = m_orderBookThreadPool cob"
    using c2(1) by (simp_all add: same_frame_def queue_index_def pending_def queueID_at_def fun_eq_iff)
  have "book_owned (\<lambda>w. P w \<and> snd w = ?s) (book_at cob ?s)" using assms(1) by (simp add: engine_owned_def)
  then have own2: "engine_owned P cob2"
    using engine_owned_step[OF assms(1) eq(1,2) _ _ c2(4), of "book_at cob ?s"] c2(3) assms(4) own by (simp add: owner_security)
  show ?thesis
  proof (cases "m_isMatchingMultithreaded cob")
    case True
    then show ?thesis using st engine_owned_submit[OF own2] ok(2) eq(3) assms(4) own by auto
  next
    case False
    then show ?thesis using st engine_owned_task[OF own2 _ c2(2)] assms(4) own by simp
  qed
qed

lemma engine_owned_cancelOrder:
  assumes "engine_owned P cob" "engine_inv cob" "cancelOrder address ord orig cob = Inr cob'" "P (owner ord)"
  shows "engine_owned P cob'"
proof -
  have ok: "outgoing_ok cob" "pool_inv (m_orderBookThreadPool cob)" using assms(2) by (simp_all add: engine_inv_def)
  show ?thesis
  proof (cases "m_isMatchingMultithreaded cob")
    case True
    obtain q cob1 where q: "queue_of (m_securityId ord) cob = (q, cob1)" by fastforce
    note qe = queue_of_effect[OF q]
    have eq: "queue_index cob1 = queue_index cob" "pending cob1 = pending cob" "book_at cob1 = book_at cob" "out_view cob1 = out_view cob"
      using qe queue_index_frame pending_frame by (auto simp: out_view_def)
    have "engine_owned P cob1" using assms(1) by (simp add: engine_owned_def eq)
    moreover obtain pool where "submitTask (Task_new (Task_CancelOrder ord orig)) (scast q) (m_orderBookThreadPool cob1) = Inr pool"
      "cob' = cob1\<lparr>m_orderBookThreadPool := pool\<rparr>"
      using assms(3) q True by (auto simp: cancelOrder_def)
    ultimately show ?thesis using engine_owned_submit ok(2) qe assms(4) by fastforce
  next
    case False
    then show ?thesis using assms(3) engine_owned_cancel_task[OF assms(1) _ ok(1) assms(4)] by (simp add: cancelOrder_def)
  qed
qed

lemma engine_owned_worker:
  assumes "engine_owned P cob" "engine_inv cob" "matching_worker address i cob = Inr (Some cob')" "i < length (pending cob)"
  shows "engine_owned P cob'"
proof -
  have ok: "outgoing_ok cob" "pool_inv (m_orderBookThreadPool cob)" using assms(2) by (simp_all add: engine_inv_def)
  consider (idle) "cob' = cob" |
    (task) t ts pool where "pending cob ! i = t # ts" "map rb_list (m_threadQueues pool) = (pending cob)[i := ts]"
      "\<And>c. t = Task_new c \<Longrightarrow> \<exists>e. run_book_task address c (cob\<lparr>m_orderBookThreadPool := pool\<rparr>) = (cob', e)"
    using matching_worker_cases[OF assms(3) ok(2) assms(4)] by blast
  then show ?thesis
  proof cases
    case task
    let ?c = "cob\<lparr>m_orderBookThreadPool := pool\<rparr>"
    have "queue_ok cob i (t # ts)" using assms(2,4) task(1) by (auto simp: engine_inv_def)
    then obtain c where c: "t = Task_new c" by (auto simp: queue_ok_def task_ok_def)
    have pend: "pending ?c = (pending cob)[i := ts]" using task by (simp add: pending_def)
    have eq: "queue_index ?c = queue_index cob" "book_at ?c = book_at cob" "out_view ?c = out_view cob" "outgoing_ok ?c"
      using ok(1) by (simp_all add: queue_index_def queueID_at_def book_at_def out_view_def outgoing_ok_def fun_eq_iff)
    have "t \<in> set (pending cob ! i)" "set ts \<subseteq> set (pending cob ! i)" using task(1) by auto
    then have own: "engine_owned P ?c" "P (owner (task_order c))"
      using assms(1,4) c by (auto simp: engine_owned_def eq(1-3) pend nth_update_eq Task_new_def)
    obtain e where "run_book_task address c ?c = (cob', e)" using task(3)[OF c] by blast
    then show ?thesis
      using own engine_owned_task[OF own(1) _ eq(4)] engine_owned_cancel_task[OF own(1) _ eq(4)]
      by (auto simp: run_book_task_def split: sum.splits book_task.splits)
  qed (use assms(1) in simp)
qed

lemma engine_owned_drain:
  assumes "engine_owned P cob" "outgoing_ok cob" "i < length (m_outgoingMessages cob)" "tryPop (m_outgoingMessages cob ! i) = (msg, q)"
  shows "engine_owned P (cob\<lparr>m_outgoingMessages := (m_outgoingMessages cob)[i := q]\<rparr>)"
    "msg = Some m \<Longrightarrow> m \<in> set (out_view cob ! i)"
proof -
  let ?c = "cob\<lparr>m_outgoingMessages := (m_outgoingMessages cob)[i := q]\<rparr>"
  have "rb_inv (m_outgoingMessages cob ! i)" using assms(2,3) by (simp add: outgoing_ok_def)
  then have sub: "set (rb_list q) \<subseteq> set (out_view cob ! i)" "msg = Some m \<Longrightarrow> m \<in> set (out_view cob ! i)" for m
    using ring_queue.pop_some[of "m_outgoingMessages cob ! i"] ring_queue.pop_empty[of "m_outgoingMessages cob ! i"] assms(3,4)
    by (cases "rb_list (m_outgoingMessages cob ! i)"; auto simp: out_view_def)+
  then show "msg = Some m \<Longrightarrow> m \<in> set (out_view cob ! i)" by blast
  have "out_view ?c = (out_view cob)[i := rb_list q]" by (simp add: out_view_def map_update)
  moreover have "queue_index ?c = queue_index cob" "book_at ?c = book_at cob" "pending ?c = pending cob"
    by (simp_all add: queue_index_def queueID_at_def book_at_def pending_def fun_eq_iff)
  ultimately show "engine_owned P ?c"
    using assms(1) sub(1) by (auto simp: engine_owned_def nth_update_eq subset_iff split: if_splits)
qed

text \<open>An engine without orders, tasks and messages.\<close>

lemma engine_owned_empty:
  assumes "\<And>s. book_at cob s = OrderBook_empty" "\<forall>ms \<in> set (out_view cob). ms = []" "\<forall>ts \<in> set (pending cob). ts = []"
  shows "engine_owned P cob"
proof -
  have "out_view cob ! q = []" if "q < length (out_view cob)" for q using assms(2) nth_mem[OF that] by blast
  moreover have "pending cob ! q = []" if "q < length (pending cob)" for q using assms(3) nth_mem[OF that] by blast
  ultimately show ?thesis using assms(1) by (simp add: engine_owned_def book_owned_def OrderBook_empty_def)
qed

lemma engine_owned_started:
  assumes "queue_size_ok sz" "multi \<longrightarrow> queue_size_ok (m_workQueueSizePerThread args)"
    "(if multi then initialiseMultithreadedMatching cores ht args (snd (setSymbols symbols SecurityManager_init CentralOrderBook_new))
      else Inr (snd (setSymbols symbols SecurityManager_init CentralOrderBook_new))) = Inr cob1"
    "initialiseOutgoingMessageQueues mem n sz cob1 = Inr cob"
  shows "engine_owned P cob" "length (m_outgoingMessages cob) = nat (sint n)"
proof -
  let ?c = "snd (setSymbols symbols SecurityManager_init CentralOrderBook_new)"
  have "m_outgoingMessages cob1 = [] \<and> (\<forall>s. book_at cob1 s = OrderBook_empty) \<and> (\<forall>ts \<in> set (pending cob1). ts = [])"
  proof (cases multi)
    case True
    then obtain pool where pool: "ThreadPool_initialise cores ht args ThreadPool_new = Inr pool"
      and c1: "cob1 = ?c\<lparr>m_isMatchingMultithreaded := True, m_orderBookDictionary :=
        fold (\<lambda>s. umap_insert s OrderBook_empty) (m_securityIds ?c) [], m_orderBookThreadPool := pool\<rparr>"
      using assms(3) by (auto simp: initialiseMultithreadedMatching_def Let_def)
    have "book_at cob1 s = OrderBook_empty" for s
      using empty_books[of "[]" _ "m_securityIds ?c"] by (force simp: book_at_def c1 dest: map_of_SomeD split: option.splits)
    moreover have "pending cob1 = replicate (length (m_threadNames args)) []"
      using pool_inv_initialise[OF pool] assms(2) True by (simp add: pending_def c1)
    ultimately show ?thesis by (simp add: c1)
  next
    case False
    then have "cob1 = ?c" using assms(3) by simp
    then show ?thesis by (simp add: book_at_def pending_def ThreadPool_new_def)
  qed
  moreover obtain out where out: "cob = cob1\<lparr>m_outgoingMessages := out\<rparr>" "map rb_list out = replicate (nat (sint n)) []"
    using outgoing_queues_started[OF assms(4,1)] calculation by blast
  ultimately have e: "book_at cob s = OrderBook_empty" "\<forall>ts \<in> set (pending cob). ts = []" for s
    by (simp_all add: book_at_def pending_def)
  have "\<forall>ms \<in> set (out_view cob). ms = []" using out by (simp add: out_view_def)
  from engine_owned_empty[OF e(1) this e(2)] show "engine_owned P cob" .
  show "length (m_outgoingMessages cob) = nat (sint n)" using length_map[of rb_list out] unfolding out by simp
qed

end
