(* ===== verification/Server_Ownership.thy ===== *)
theory Server_Ownership
  imports Server Order_Ownership
begin

text \<open>
  The owners of the orders that a running FIX server holds (\<open>source/server\<close>, \<open>source/fix\<close>): they are
  slots of the table of sessions and securities of the security manager, so the message processor can
  always do its work. What the slot number does not say is which client it meant: slots are reused.
\<close>

section \<open>Converted orders\<close>

lemma convertCommonOrder_owner:
  assumes "convertCommonOrder sm msg ord = Inr (ord', msg')"
  shows "m_sessionId ord' = m_sessionId ord \<and> (\<exists>symbol. getSecurityId sm symbol = Inr (m_securityId ord'))"
  using assms by (auto simp: convertCommonOrder_def Let_def split_beta)

lemma convertNewOrder_owner:
  assumes "convertNewOrder sm msg ord = Inr (ord', msg')"
  shows "m_sessionId ord' = m_sessionId ord \<and> (\<exists>symbol. getSecurityId sm symbol = Inr (m_securityId ord'))"
proof -
  obtain ord1 msg1 where c: "convertCommonOrder sm msg ord = Inr (ord1, msg1)"
    using assms by (auto simp: convertNewOrder_def)
  have "m_sessionId ord' = m_sessionId ord1 \<and> m_securityId ord' = m_securityId ord1"
    using assms by (auto simp: convertNewOrder_def c setPrice_def setQuantity_def Let_def split_beta)
  then show ?thesis using convertCommonOrder_owner[OF c] by simp
qed

section \<open>Well-typed servers\<close>

definition owned_by :: "Server \<Rightarrow> nat \<times> nat \<Rightarrow> bool" where
  "owned_by srv = (\<lambda>(i, s). i < length (Sessions srv) \<and> isSecuritySupported_id (securityManager srv) s)"

definition well_typed :: "Server \<Rightarrow> bool" where
  "well_typed srv \<longleftrightarrow> sm_inv (securityManager srv) \<and> sessions_known srv \<and> engine_inv (m_centralOrderBook srv) \<and>
     engine_owned (owned_by srv) (m_centralOrderBook srv) \<and> \<not> m_offlineMode (m_outgoingMessageProcessor srv) \<and>
     m_messageQueue (m_outgoingMessageProcessor srv) \<and>
     nat (m_numberOfQueues (m_outgoingMessageProcessor srv)) = length (m_outgoingMessages (m_centralOrderBook srv))"

text \<open>Steps that leave the engine and the settings as they are.\<close>

definition same_engine :: "Server \<Rightarrow> Server \<Rightarrow> bool" where
  "same_engine srv srv' \<longleftrightarrow> m_centralOrderBook srv' = m_centralOrderBook srv \<and> securityManager srv' = securityManager srv \<and>
     m_offlineMode (m_outgoingMessageProcessor srv') = m_offlineMode (m_outgoingMessageProcessor srv) \<and>
     m_messageQueue (m_outgoingMessageProcessor srv') = m_messageQueue (m_outgoingMessageProcessor srv) \<and>
     m_numberOfQueues (m_outgoingMessageProcessor srv') = m_numberOfQueues (m_outgoingMessageProcessor srv) \<and>
     length (Sessions srv) \<le> length (Sessions srv') \<and> (sessions_known srv \<longrightarrow> sessions_known srv')"

lemma keeps_same_engine: "keeps srv srv' \<Longrightarrow> same_engine srv srv'"
  by (cases srv; cases srv') (simp add: keeps_def same_engine_def)

lemma well_typed_same:
  assumes "well_typed srv" "same_engine srv srv'"
  shows "well_typed srv'"
proof -
  have "engine_owned (owned_by srv') (m_centralOrderBook srv)"
    by (rule engine_owned_mono[of "owned_by srv"]) (use assms in \<open>auto simp: well_typed_def same_engine_def owned_by_def\<close>)
  then show ?thesis using assms by (simp add: well_typed_def same_engine_def)
qed

lemma well_typed_stable: "stable well_typed"
  unfolding stable_def using well_typed_same keeps_same_engine by blast

lemma well_typed_engine:
  assumes "well_typed srv" "engine_inv cob" "engine_owned (owned_by srv) cob"
    "length (m_outgoingMessages cob) = length (m_outgoingMessages (m_centralOrderBook srv))"
  shows "well_typed (srv\<lparr>m_centralOrderBook := cob\<rparr>)"
proof -
  have "owned_by (srv\<lparr>m_centralOrderBook := cob\<rparr>) = owned_by srv" by (simp add: owned_by_def)
  then show ?thesis using assms by (simp add: well_typed_def sessions_known_def)
qed

section \<open>The number of queues\<close>

lemma push_outgoing_queues: "push_outgoing q m cob = Inr cob' \<Longrightarrow> length (m_outgoingMessages cob') = length (m_outgoingMessages cob)"
  by (auto simp: push_outgoing_def Let_def)

lemma out_view_length: "length (m_outgoingMessages cob) = length (out_view cob)"
  by (simp add: out_view_def)

lemma taskNewOrder_queues:
  assumes "taskNewOrder ord cob = Inr cob'" "outgoing_ok cob"
  shows "length (m_outgoingMessages cob') = length (m_outgoingMessages cob)"
  using taskNewOrder_effect[OF assms] by (auto simp: out_view_length)

lemma taskCancelOrder_queues:
  assumes "taskCancelOrder address ord orig cob = Inr cob'" "outgoing_ok cob"
  shows "length (m_outgoingMessages cob') = length (m_outgoingMessages cob)"
  using taskCancelOrder_effect[OF assms] by (auto simp: out_view_length)

lemma addOrder_queues:
  assumes "addOrder ord cob = Inr (r, ord', cob')" "outgoing_ok cob"
  shows "length (m_outgoingMessages cob') = length (m_outgoingMessages cob)"
proof -
  obtain cob2 where 2: "outgoing_ok cob2" "out_view cob2 = (out_view cob)[queue_index cob (m_securityId ord) :=
      out_view cob ! queue_index cob (m_securityId ord) @ [OutgoingMessage_new ord' OrderStatus.ACCEPTED []]]"
    "if m_isMatchingMultithreaded cob
     then \<exists>pool. submitTask (Task_new (Task_NewOrder ord')) (scast (queueID_at cob (m_securityId ord))) (m_orderBookThreadPool cob) = Inr pool \<and>
            cob' = cob2\<lparr>m_orderBookThreadPool := pool\<rparr>
     else taskNewOrder ord' cob2 = Inr cob'"
    using addOrder_effect[OF assms] by blast
  have len: "length (m_outgoingMessages cob2) = length (m_outgoingMessages cob)" using 2(2) by (simp add: out_view_length)
  show ?thesis
  proof (cases "m_isMatchingMultithreaded cob")
    case True
    then show ?thesis using 2(3) len by auto
  next
    case False
    then show ?thesis using 2(3) taskNewOrder_queues[OF _ 2(1)] len by simp
  qed
qed

lemma cancelOrder_queues:
  assumes "cancelOrder address ord orig cob = Inr cob'" "outgoing_ok cob"
  shows "length (m_outgoingMessages cob') = length (m_outgoingMessages cob)"
proof (cases "m_isMatchingMultithreaded cob")
  case True
  obtain q cob1 where q: "queue_of (m_securityId ord) cob = (q, cob1)" by fastforce
  then show ?thesis using assms(1) True queue_of_effect[OF q] by (auto simp: cancelOrder_def)
next
  case False
  then show ?thesis using assms taskCancelOrder_queues by (simp add: cancelOrder_def)
qed

lemma worker_queues:
  assumes "engine_inv cob" "matching_worker address i cob = Inr (Some cob')" "i < length (pending cob)"
  shows "length (m_outgoingMessages cob') = length (m_outgoingMessages cob)"
proof -
  have ok: "outgoing_ok cob" "pool_inv (m_orderBookThreadPool cob)" using assms(1) by (simp_all add: engine_inv_def)
  consider "cob' = cob" | t ts pool where "pending cob ! i = t # ts"
      "\<And>c. t = Task_new c \<Longrightarrow> \<exists>e. run_book_task address c (cob\<lparr>m_orderBookThreadPool := pool\<rparr>) = (cob', e)"
    using matching_worker_cases[OF assms(2) ok(2) assms(3)] by blast
  then show ?thesis
  proof cases
    case (2 t ts pool)
    let ?c = "cob\<lparr>m_orderBookThreadPool := pool\<rparr>"
    have "queue_ok cob i (t # ts)" using assms(1,3) 2(1) by (auto simp: engine_inv_def)
    then obtain c where "t = Task_new c" by (auto simp: queue_ok_def task_ok_def)
    then obtain e where "run_book_task address c ?c = (cob', e)" using 2(2) by blast
    moreover have "outgoing_ok ?c" using ok(1) by (simp add: outgoing_ok_def)
    ultimately show ?thesis using taskNewOrder_queues[of _ ?c] taskCancelOrder_queues[of _ _ _ ?c]
      by (auto simp: run_book_task_def split: sum.splits book_task.splits)
  qed simp
qed

section \<open>Every step keeps the server well-typed\<close>

lemma write_offline_keeps: "write_offline writable env msg srv = Inr srv' \<Longrightarrow> keeps srv srv'"
  by (rule keeps_same) (auto dest: write_offline_effect)

lemma processor_rejectOrder_typed:
  assumes "processor_rejectOrder writable env i reason srv = Inr srv'"
  shows "keeps srv srv'"
proof -
  consider msg where "write_offline writable env msg srv = Inr srv'" | "srv' = srv"
    | f where "session_call i (\<lambda>session. send_reply env (f session) session) srv = Inr srv'"
    using assms by (auto simp: processor_rejectOrder_def split: if_splits option.splits)
  then show ?thesis
  proof cases
    case (3 f)
    then show ?thesis by (rule session_call_keeps) (auto dest: send_reply_version)
  qed (use write_offline_keeps in simp_all)
qed

lemma onNewOrder_typed:
  assumes "well_typed srv" "i < length (Sessions srv)" "onNewOrder mem writable fenv msg i srv = Inr srv'"
    "sint (m_orderNumber (m_centralOrderBook srv)) < 2 ^ 31 - 1"
  shows "well_typed srv'"
proof -
  let ?ord = "(Order_default mem)\<lparr>m_sessionId := i\<rparr>" and ?cob = "m_centralOrderBook srv"
  obtain ord1 msg1 where c: "convertNewOrder (securityManager srv) msg ?ord = Inr (ord1, msg1)"
    using assms(3) by (auto simp: onNewOrder_def Let_def)
  have fit: "order_fit ord1" by (rule convertNewOrder_fit[OF c]) (simp add: Order_default_def)
  consider reason where "processor_rejectOrder writable fenv i reason srv = Inr srv'"
    | r ord' cob where "addOrder ord1 ?cob = Inr (r, ord', cob)" "srv' = srv\<lparr>m_centralOrderBook := cob\<rparr>"
        "isSecuritySupported_id (securityManager srv) (m_securityId ord1)"
    using assms(3) by (auto simp: onNewOrder_def c split: if_splits)
  then show ?thesis
  proof cases
    case (1 reason)
    from well_typed_same[OF assms(1) keeps_same_engine[OF processor_rejectOrder_typed[OF this]]] show ?thesis .
  next
    case (2 r ord' cob)
    have inv: "engine_inv ?cob" "engine_owned (owned_by srv) ?cob" "outgoing_ok ?cob"
      using assms(1) by (simp_all add: well_typed_def engine_inv_def)
    have "owned_by srv (owner ord1)" using convertNewOrder_owner[OF c] 2(3) assms(2) by (simp add: owned_by_def owner_def)
    from engine_owned_addOrder[OF inv(2,1) 2(1) this] engine_inv_addOrder[OF inv(1) 2(1) fit assms(4)]
      addOrder_queues[OF 2(1) inv(3)] show ?thesis unfolding 2(2) using well_typed_engine[OF assms(1)] by blast
  qed
qed

lemma onCancelOrder_typed:
  assumes "well_typed srv" "i < length (Sessions srv)" "onCancelOrder mem address msg i srv = Inr srv'"
  shows "well_typed srv'"
proof -
  let ?cob = "m_centralOrderBook srv" and ?ord = "(Order_default mem)\<lparr>m_sessionId := i\<rparr>"
  obtain ord1 msg1 orig cob where c: "convertCommonOrder (securityManager srv) msg ?ord = Inr (ord1, msg1)"
    "cancelOrder address ord1 orig ?cob = Inr cob" "srv' = srv\<lparr>m_centralOrderBook := cob\<rparr>"
    using assms(3) by (auto simp: onCancelOrder_def convertCancelOrder_def Let_def)
  have inv: "engine_inv ?cob" "engine_owned (owned_by srv) ?cob" "outgoing_ok ?cob"
    using assms(1) by (simp_all add: well_typed_def engine_inv_def)
  have "owned_by srv (owner ord1)"
    using convertCommonOrder_owner[OF c(1)] known_symbol_supported assms(1,2) by (auto simp: owned_by_def owner_def well_typed_def)
  from engine_owned_cancelOrder[OF inv(2,1) c(2) this] engine_inv_cancelOrder[OF inv(1) c(2)] cancelOrder_queues[OF c(2) inv(3)]
  show ?thesis unfolding c(3) using well_typed_engine[OF assms(1)] by blast
qed

lemma onFixMessage_typed:
  "hook_preserves well_typed (up_to_limit (onFixMessage mem address writable fenv))"
  unfolding hook_preserves_def
proof (intro allI impI)
  fix msg i and srv srv' :: Server
  assume t: "well_typed srv" "i < length (Sessions srv)" and h: "up_to_limit (onFixMessage mem address writable fenv) msg i srv = Inr srv'"
  consider "onNewOrder mem writable fenv msg i srv = Inr srv'" | "onCancelOrder mem address msg i srv = Inr srv'"
    | reason where "processor_rejectOrder writable fenv i reason srv = Inr srv'"
    using h by (auto simp: up_to_limit_def onFixMessage_def split: if_splits)
  moreover have "sint (m_orderNumber (m_centralOrderBook srv)) < 2 ^ 31 - 1" using h by (auto simp: up_to_limit_def split: if_splits)
  ultimately show "well_typed srv'"
    using onNewOrder_typed[OF t] onCancelOrder_typed[OF t] processor_rejectOrder_typed stableD[OF well_typed_stable t(1)] by cases blast+
qed

lemma send_report_same:
  assumes "send_report writable env ord srv = Inr srv'"
  shows "same_engine srv srv'"
proof -
  let ?srv1 = "srv\<lparr>m_outgoingMessageProcessor := snd (generateExecID (m_outgoingMessageProcessor srv))\<rparr>"
  let ?report = "\<lambda>symbol session. execution_report_tags symbol (fst (generateExecID (m_outgoingMessageProcessor srv))) ord
    (getExecutionReportMessage (COMPID srv) session (fresh_message env))"
  have 1: "same_engine srv ?srv1" by (simp add: same_engine_def generateExecID_def sessions_known_def)
  consider msg where "write_offline writable env msg ?srv1 = Inr srv'"
    | symbol where "session_call (m_sessionId ord) (\<lambda>session. send_reply env (?report symbol session) session) ?srv1 = Inr srv'"
    using assms by (auto simp: send_report_def Let_def split_beta split: if_splits)
  then have "keeps ?srv1 srv'"
  proof cases
    case (2 symbol)
    then show ?thesis by (rule session_call_keeps) (auto dest: send_reply_version)
  qed (use write_offline_keeps in blast)
  from keeps_same_engine[OF this] 1 show ?thesis by (simp add: same_engine_def)
qed

section \<open>The message processor never gets stuck\<close>

lemma well_typed_popped:
  assumes "well_typed srv" "i < length (m_outgoingMessages (m_centralOrderBook srv))"
  shows "well_typed (popped i message srv)"
proof -
  let ?cob = "m_centralOrderBook srv"
  obtain msg q where pop: "tryPop (m_outgoingMessages ?cob ! i) = (msg, q)" by fastforce
  have inv: "engine_inv ?cob" "engine_owned (owned_by srv) ?cob" "outgoing_ok ?cob"
    using assms(1) by (simp_all add: well_typed_def engine_inv_def)
  have "well_typed (srv\<lparr>m_centralOrderBook := ?cob\<lparr>m_outgoingMessages := (m_outgoingMessages ?cob)[i := q]\<rparr>\<rparr>)"
    by (rule well_typed_engine[OF assms(1) engine_inv_drain[OF inv(1) assms(2) pop]
        engine_owned_drain(1)[OF inv(2,3) assms(2) pop]]) simp
  then show ?thesis by (rule well_typed_same) (simp add: popped_def pop same_engine_def sessions_known_def)
qed

lemma send_report_total:
  assumes "reactor_inv srv" "well_typed srv" "owned_by srv (owner ord)"
  shows "\<exists>srv'. send_report writable env ord srv = Inr srv'"
proof -
  obtain symbol where name: "getSecurityName (securityManager srv) (m_securityId ord) = Inr symbol"
    using assms(2,3) isSecuritySupported_id_iff[of "securityManager srv"]
    by (auto simp: well_typed_def owned_by_def owner_def getSecurityName_def umap_at_def split: option.splits)
  let ?j = "m_sessionId ord"
  have j: "?j < length (Sessions srv)" using assms(3) by (simp add: owned_by_def owner_def)
  then have ok: "session_ok ?j (Sessions srv ! ?j)" using assms(1) by (simp add: reactor_inv_def)
  have "session_known (Sessions srv ! ?j)" using j assms(2) by (simp add: well_typed_def sessions_known_def)
  then obtain v where v: "table_at FIX_VERSION_STRINGS (session_fixVersion (Sessions srv ! ?j)) = Inr v"
    by (auto simp: version_known_table)
  let ?msg = "\<lambda>execID. execution_report_tags symbol execID ord (getExecutionReportMessage (COMPID srv) (Sessions srv ! ?j) (fresh_message env))"
  have t: "table_at FIX_MESSAGE_TYPE_STRINGS (m_messageType (?msg e)) = Inr ''8''" for e
    by (simp add: getExecutionReportMessage_def getBaseMessage_def table_at_def FIX_MESSAGE_TYPE_STRINGS_def)
  have "\<exists>session' bytes. send_reply env (?msg e) (Sessions srv ! ?j) = Inr (session', bytes)" for e
  proof -
    have "table_at FIX_VERSION_STRINGS (m_fixVersion (?msg e)) = Inr v" using v by (simp add: getExecutionReportMessage_def getBaseMessage_def)
    from send_reply_total[OF ok this t, of env] show ?thesis by (auto simp: send_reply_def)
  qed
  then obtain session' bytes where "send_reply env (?msg (fst (generateExecID (m_outgoingMessageProcessor srv)))) (Sessions srv ! ?j) = Inr (session', bytes)"
    by blast
  then show ?thesis using name j assms(2) by (simp add: send_report_def session_call_def well_typed_def split_beta Let_def)
qed

lemma poll_total:
  assumes "reactor_inv srv" "well_typed srv" "i < length (m_outgoingMessages (m_centralOrderBook srv))"
  shows "\<exists>srv'. poll_queue writable env i srv = Inr srv' \<and> reactor_inv srv' \<and> well_typed srv' \<and>
    out_view (m_centralOrderBook srv') = (out_view (m_centralOrderBook srv))[i := tl (out_view (m_centralOrderBook srv) ! i)] \<and>
    book_at (m_centralOrderBook srv') = book_at (m_centralOrderBook srv) \<and> pending (m_centralOrderBook srv') = pending (m_centralOrderBook srv)"
proof -
  let ?cob = "m_centralOrderBook srv"
  have inv: "engine_inv ?cob" "engine_owned (owned_by srv) ?cob" "outgoing_ok ?cob" "\<not> m_offlineMode (m_outgoingMessageProcessor srv)"
    using assms(2) by (simp_all add: well_typed_def engine_inv_def)
  have i: "i < length (out_view ?cob)" using assms(3) by (simp add: out_view_def)
  show ?thesis
  proof (cases "out_view ?cob ! i")
    case Nil
    then have "fst (tryPop (m_outgoingMessages ?cob ! i)) = None"
      using ring_queue.pop_empty[of "m_outgoingMessages ?cob ! i"] inv(3) assms(3) by (simp add: outgoing_ok_def out_view_def)
    then have "poll_queue writable env i srv = Inr srv"
      using assms(3) by (auto simp: poll_queue_def Let_def split: prod.split)
    then show ?thesis using assms Nil list_update_id[of "out_view ?cob" i] by simp
  next
    case (Cons message rest)
    let ?srv1 = "popped i message srv" and ?j = "m_sessionId (out_order message)"
    note pop = poll_queue_pops[OF assms(3) inv(3) Cons inv(4)]
    have own: "owned_by srv (owner (out_order message))" using inv(2) i Cons by (auto simp: engine_owned_def)
    then have j: "?j < length (SessionFlags srv)" using assms(1) by (simp add: owned_by_def owner_def reactor_inv_def)
    have 1: "reactor_inv ?srv1" "well_typed ?srv1" using assms(1) well_typed_popped[OF assms(2,3)]
      by (auto simp: popped_def reactor_inv_def peers_ok_def)
    have own1: "owned_by ?srv1 (owner (out_order message))" using own by (simp add: owned_by_def popped_def)
    have view: "out_view (m_centralOrderBook ?srv1) = (out_view ?cob)[i := rest]"
      "book_at (m_centralOrderBook ?srv1) = book_at ?cob" "pending (m_centralOrderBook ?srv1) = pending ?cob"
      using pop(2) by (simp_all add: popped_def book_at_def pending_def fun_eq_iff)
    obtain srv2 where 2: "send_report writable env (out_order message) ?srv1 = Inr srv2"
      using send_report_total[OF 1 own1] by blast
    have "m_centralOrderBook srv2 = m_centralOrderBook ?srv1" "reactor_inv srv2" "well_typed srv2"
      using send_report_same[OF 2] send_report_keeps(2)[OF 2 1(1)] well_typed_same[OF 1(2)] by (simp_all add: same_engine_def)
    then show ?thesis using 1 2 pop(1)[of writable env] j view Cons assms(1)
      by (cases "SessionFlags srv ! ?j") (auto simp: getSession_def reactor_inv_def)
  qed
qed

text \<open>One round over all queues takes the oldest message of each.\<close>

lemma polls_total:
  assumes "reactor_inv srv" "well_typed srv" "k \<le> length (m_outgoingMessages (m_centralOrderBook srv))"
  shows "\<exists>srv'. res_fold (\<lambda>i. poll_queue writable (env i) i) [0..<k] srv = Inr srv' \<and> reactor_inv srv' \<and> well_typed srv' \<and>
    out_view (m_centralOrderBook srv') = map tl (take k (out_view (m_centralOrderBook srv))) @ drop k (out_view (m_centralOrderBook srv)) \<and>
    book_at (m_centralOrderBook srv') = book_at (m_centralOrderBook srv) \<and> pending (m_centralOrderBook srv') = pending (m_centralOrderBook srv)"
  using assms(3)
proof (induction k)
  case (Suc k)
  let ?v = "out_view (m_centralOrderBook srv)"
  have k: "k < length ?v" using Suc.prems by (simp add: out_view_def)
  obtain srv1 where 1: "res_fold (\<lambda>i. poll_queue writable (env i) i) [0..<k] srv = Inr srv1" "reactor_inv srv1" "well_typed srv1"
    "out_view (m_centralOrderBook srv1) = map tl (take k ?v) @ drop k ?v"
    "book_at (m_centralOrderBook srv1) = book_at (m_centralOrderBook srv)" "pending (m_centralOrderBook srv1) = pending (m_centralOrderBook srv)"
    using Suc by auto
  have "length (out_view (m_centralOrderBook srv1)) = length ?v" using 1(4) k by simp
  then have "k < length (m_outgoingMessages (m_centralOrderBook srv1))" using k by (simp add: out_view_def)
  from poll_total[OF 1(2,3) this, of writable "env k"] obtain srv2 where 2: "poll_queue writable (env k) k srv1 = Inr srv2"
    "reactor_inv srv2" "well_typed srv2"
    "out_view (m_centralOrderBook srv2) = (out_view (m_centralOrderBook srv1))[k := tl (out_view (m_centralOrderBook srv1) ! k)]"
    "book_at (m_centralOrderBook srv2) = book_at (m_centralOrderBook srv)" "pending (m_centralOrderBook srv2) = pending (m_centralOrderBook srv)"
    unfolding 1(5,6) by blast
  have "out_view (m_centralOrderBook srv2) = map tl (take (Suc k) ?v) @ drop (Suc k) ?v"
    using k unfolding 2(4) 1(4) by (simp add: nth_append take_Suc_conv_app_nth list_update_append Cons_nth_drop_Suc[symmetric])
  then show ?case using 1 2 by auto
qed (use assms in simp)

lemma round_total:
  assumes "reactor_inv srv" "well_typed srv"
  shows "\<exists>srv'. processor_round writable env srv = Inr srv' \<and> reactor_inv srv' \<and> well_typed srv' \<and>
    out_view (m_centralOrderBook srv') = map tl (out_view (m_centralOrderBook srv)) \<and>
    book_at (m_centralOrderBook srv') = book_at (m_centralOrderBook srv) \<and> pending (m_centralOrderBook srv') = pending (m_centralOrderBook srv)"
  using polls_total[OF assms order_refl, of writable env] assms(2)
  by (simp add: processor_round_def well_typed_def out_view_def)

lemma rounds_total:
  assumes "reactor_inv srv" "well_typed srv"
  shows "\<exists>srv'. res_fold (processor_round writable) envs srv = Inr srv' \<and> reactor_inv srv' \<and> well_typed srv' \<and>
    out_view (m_centralOrderBook srv') = map (drop (length envs)) (out_view (m_centralOrderBook srv)) \<and>
    book_at (m_centralOrderBook srv') = book_at (m_centralOrderBook srv) \<and> pending (m_centralOrderBook srv') = pending (m_centralOrderBook srv)"
  using assms
proof (induction envs arbitrary: srv)
  case (Cons env envs)
  obtain srv1 where 1: "processor_round writable env srv = Inr srv1" "reactor_inv srv1" "well_typed srv1"
    "out_view (m_centralOrderBook srv1) = map tl (out_view (m_centralOrderBook srv))"
    "book_at (m_centralOrderBook srv1) = book_at (m_centralOrderBook srv)" "pending (m_centralOrderBook srv1) = pending (m_centralOrderBook srv)"
    using round_total[OF Cons.prems] by blast
  from Cons.IH[OF 1(2,3)] obtain srv2 where 2: "res_fold (processor_round writable) envs srv1 = Inr srv2" "reactor_inv srv2" "well_typed srv2"
    "out_view (m_centralOrderBook srv2) = map (drop (length envs)) (out_view (m_centralOrderBook srv1))"
    "book_at (m_centralOrderBook srv2) = book_at (m_centralOrderBook srv)" "pending (m_centralOrderBook srv2) = pending (m_centralOrderBook srv)"
    unfolding 1(5,6) by blast
  then show ?case using 1 by (auto simp: drop_Suc comp_def)
qed simp

section \<open>Reachable servers are well-typed\<close>

lemma sm_inv_setSymbols: "setSymbols symbols SecurityManager_init CentralOrderBook_new = (sm, cob) \<Longrightarrow> sm_inv sm"
  using security_directory.invar_fold[OF sm_inv_init, of symbols] unfolding setSymbols_new by simp

lemma ServerFix_new_typed:
  assumes "queue_size_ok (word_of_int (m_outgoingMessageQueueSizePerThread conf))"
    "conf_isMatchingMultithreaded conf \<longrightarrow> queue_size_ok (m_workQueueSizePerThread (m_threadPoolArguments conf))"
    "ServerFix_new mem cores ht conf (Server_static listener fs mem) = Inr srv"
  shows "well_typed srv"
proof -
  obtain sm cob cob1 cob2 p where
    0: "setSymbols (m_symbols conf) SecurityManager_init CentralOrderBook_new = (sm, cob)" and
    1: "(if conf_isMatchingMultithreaded conf
         then initialiseMultithreadedMatching cores ht ((m_threadPoolArguments conf)\<lparr>m_threadNames := m_symbols conf\<rparr>) cob
         else Inr cob) = Inr cob1" and
    2: "initialiseOutgoingMessageQueues mem (of_nat (length (m_symbols conf)))
          (word_of_int (m_outgoingMessageQueueSizePerThread conf)) cob1 = Inr cob2" and
    p: "p = (OutgoingMessageProcessor_new mem)\<lparr>m_messageQueue := True, m_numberOfQueues := sint (of_nat (length (m_symbols conf)) :: cint)\<rparr>" and
    3: "srv = FixServerReactor_initialise (m_fixServerConfiguration conf)
          ((Server_static listener fs mem)\<lparr>securityManager := sm, m_centralOrderBook := cob2, m_outgoingMessageProcessor := p\<rparr>)"
    by (rule ServerFix_new_parts[OF assms(3)])
  have cob: "cob = snd (setSymbols (m_symbols conf) SecurityManager_init CentralOrderBook_new)" using 0 by simp
  have "engine_inv (m_centralOrderBook srv)" using ServerFix_new_start[OF assms] engine_reachable_inv by blast
  moreover have "m_centralOrderBook srv = cob2" "securityManager srv = sm" "m_outgoingMessageProcessor srv = p" "Sessions srv = []"
    by (simp_all add: 3 FixServerReactor_initialise_def Server_static_def)
  moreover have "conf_isMatchingMultithreaded conf \<longrightarrow>
      queue_size_ok (m_workQueueSizePerThread ((m_threadPoolArguments conf)\<lparr>m_threadNames := m_symbols conf\<rparr>))"
    using assms(2) by simp
  note engine_owned_started[OF assms(1) this 1[unfolded cob] 2]
  ultimately show ?thesis
    using sm_inv_setSymbols[OF 0] by (simp add: well_typed_def sessions_known_def p OutgoingMessageProcessor_new_def)
qed

lemma reachable_typed: "server_reachable srv \<Longrightarrow> well_typed srv"
proof (induction rule: server_reachable.induct)
  case (start conf mem cores ht listener fs srv)
  then show ?case using ServerFix_new_typed by blast
next
  case (event srv env mem address ev srv')
  show ?case
    by (rule fix_event_preserves[OF well_typed_stable _ event.IH event.hyps(2)]) (use onFixMessage_typed in blast)
next
  case (poll srv writable env i srv')
  have "i < length (m_outgoingMessages (m_centralOrderBook srv))"
    using poll.hyps(2) by (auto simp: poll_queue_def vec_at_def Let_def split: if_splits)
  moreover have "reactor_inv srv" using server_reachable_inv[OF poll.hyps(1)] by blast
  ultimately show ?case using poll_total[OF _ poll.IH, of i writable env] poll.hyps(2) by auto
next
  case (worker srv i address cob)
  let ?cob = "m_centralOrderBook srv"
  have inv: "engine_inv ?cob" "engine_owned (owned_by srv) ?cob" using worker.IH by (simp_all add: well_typed_def)
  have i: "i < length (pending ?cob)" using worker.hyps(2) by (simp add: pending_def)
  show ?case
    by (rule well_typed_engine[OF worker.IH engine_inv_worker[OF inv(1) worker.hyps(3) i]
          engine_owned_worker[OF inv(2,1) worker.hyps(3) i] worker_queues[OF inv(1) worker.hyps(3) i]])
qed

lemma known_owner:
  assumes "well_typed srv" "owned_by srv (i, s)"
  shows "i < length (Sessions srv) \<and> (\<exists>symbol. getSecurityName (securityManager srv) s = Inr symbol)"
  using assms isSecuritySupported_id_iff[of "securityManager srv"]
  by (auto simp: well_typed_def owned_by_def getSecurityName_def umap_at_def split: option.splits)

section \<open>A slot that is reused\<close>

lemma accept_first_free:
  assumes "reactor_inv srv" "find_index Not (SessionFlags srv) = Some i" "m_state (m_socket srv) \<in> {LISTENING, SOCKET_STATE.ACCEPTED}"
  shows "\<exists>srv'. acceptNewConnection (onClientConnected env) (Some d) srv = Inr srv' \<and> reactor_inv srv' \<and>
    FixServerReactor.more srv' = FixServerReactor.more srv \<and> handed srv' = handed srv \<and> COMPID srv' = COMPID srv \<and>
    SessionFlags srv' = (SessionFlags srv)[i := True] \<and> m_peerSockets srv' ! i = \<lparr>m_socketDescriptor = d, m_state = CONNECTED\<rparr> \<and>
    session_fixVersion (Sessions srv' ! i) = 0 \<and> session_targetCompId (Sessions srv' ! i) = [] \<and>
    m_outgoingSequenceNumber (Sessions srv' ! i) = 1"
proof -
  have inv: "peers_ok srv" "length (Sessions srv) = length (SessionFlags srv)"
    "SessionFlags srv = m_peerSocketsConnectionFlags srv" "\<forall>i < length (Sessions srv). session_ok i (Sessions srv ! i)"
    using assms(1) by (simp_all add: reactor_inv_def)
  have "i < length (SessionFlags srv)" using find_index_SomeD[OF assms(2)] by blast
  moreover have "Socket_accept (Some d) (m_socket srv) =
      (Some \<lparr>m_socketDescriptor = d, m_state = CONNECTED\<rparr>, (m_socket srv)\<lparr>m_state := SOCKET_STATE.ACCEPTED\<rparr>)"
    using assms(3) by (auto simp: Socket_accept_def)
  ultimately show ?thesis
    using inv assms(2)
    by (auto simp: acceptNewConnection_def addPeer_def onClientConnected_def TCPServer_onClientConnected_def
        addSession_def getSession_def reactor_inv_def peers_ok_def nth_list_update Let_def split_beta
        FixSession_initialise_def FixSession_new_def session_ok_def)
qed

definition has_owner :: "Server \<Rightarrow> Order \<Rightarrow> bool" where
  "has_owner srv ord \<longleftrightarrow> m_sessionId ord < length (Sessions srv) \<and>
     (\<exists>symbol. getSecurityName (securityManager srv) (m_securityId ord) = Inr symbol)"

lemma has_owner_owned: "well_typed srv \<Longrightarrow> owned_by srv (owner ord) \<Longrightarrow> has_owner srv ord"
  using known_owner by (simp add: has_owner_def owner_def)

section \<open>Properties\<close>

text \<open>C13: Every order has an owner. In every state that the FIX server can reach, each order in a book rests in
  the book of its own security, each message waits in the outgoing queue and each task in the work
  queue that serve the security of their order, and all those orders name a slot of the session table
  and a security whose symbol the security manager knows.\<close>

theorem orders_have_owners:
  assumes "server_reachable srv" "cob = m_centralOrderBook srv"
  shows "(\<forall>s. \<forall>e \<in> set (m_bidOrders (book_at cob s)) \<union> set (m_askOrders (book_at cob s)).
      m_securityId (snd e) = s \<and> has_owner srv (snd e)) \<and>
    (\<forall>q < length (out_view cob). \<forall>m \<in> set (out_view cob ! q).
      queue_index cob (m_securityId (out_order m)) = q \<and> has_owner srv (out_order m)) \<and>
    (\<forall>q < length (pending cob). \<forall>t \<in> set (pending cob ! q). \<exists>c. t = Task_new c \<and>
      queue_index cob (m_securityId (task_order c)) = q \<and> has_owner srv (task_order c))"
proof -
  have w: "well_typed srv" by (rule reachable_typed[OF assms(1)])
  then have own: "engine_owned (owned_by srv) cob" "engine_inv cob" by (simp_all add: well_typed_def assms(2))
  have "\<exists>c. t = Task_new c \<and> queue_index cob (m_securityId (task_order c)) = q \<and> has_owner srv (task_order c)"
    if q: "q < length (pending cob)" and t: "t \<in> set (pending cob ! q)" for q t
  proof -
    obtain c where c: "t = Task_new c" "queue_index cob (m_securityId (task_order c)) = q"
      using own(2) q t unfolding engine_inv_def queue_ok_def task_ok_def by blast
    then have "owned_by srv (owner (task_order c))" using own(1) q t by (auto simp: engine_owned_def Task_new_def)
    then show ?thesis using c has_owner_owned[OF w] by blast
  qed
  then show ?thesis
    using own(1) has_owner_owned[OF w] unfolding engine_owned_def book_owned_def owner_security by blast
qed

theorem orders_have_owners_witness:
  "\<exists>srv ord. server_reachable srv \<and> m_bidOrders (book_at (m_centralOrderBook srv) 0) = [(m_price ord, ord)] \<and> has_owner srv ord"
proof -
  obtain srv ord where run: "server_reachable srv" "m_bidOrders (book_at (m_centralOrderBook srv) 0) = [(m_price ord, ord)]"
    using sample_run by blast
  then have "has_owner srv ord" using orders_have_owners[OF run(1) refl] by (metis UnI1 list.set_intros(1) snd_conv)
  with run show ?thesis by blast
qed

text \<open>C14: The message processor never gets stuck. In every state that the FIX server can reach, whatever its
  clients have sent and whatever environment each poll runs in, any number of rounds of the
  processor's loop over all queues returns: n rounds take exactly the n oldest messages of every
  queue, so enough rounds empty them all, and books and waiting tasks stay as they are.\<close>

theorem processor_never_stuck:
  assumes "server_reachable srv" "cob = m_centralOrderBook srv"
  shows "\<exists>srv'. res_fold (processor_round writable) envs srv = Inr srv' \<and>
    out_view (m_centralOrderBook srv') = map (drop (length envs)) (out_view cob) \<and>
    book_at (m_centralOrderBook srv') = book_at cob \<and> pending (m_centralOrderBook srv') = pending cob"
  using rounds_total[OF _ reachable_typed[OF assms(1)], of writable envs] server_reachable_inv[OF assms(1)] assms(2) by blast

theorem processor_never_stuck_witness:
  "\<exists>srv srv' message. server_reachable srv \<and> out_view (m_centralOrderBook srv) = [[message]] \<and>
     processor_round (\<lambda>_. True) (\<lambda>_. sample_env) srv = Inr srv' \<and> out_view (m_centralOrderBook srv') = [[]]"
proof -
  obtain srv message where run: "server_reachable srv" "out_view (m_centralOrderBook srv) = [[message]]"
    using sample_run by blast
  then show ?thesis using processor_never_stuck[OF run(1) refl, of "\<lambda>_. True" "[\<lambda>_. sample_env]"] by auto
qed

text \<open>C36: A reused slot delivers to a stranger. An order names the slot of its client, and slots are reused.
  When a client leaves while a report about its order is still queued, and the next connection gets
  the free slot (the first one, when the slots below are in use), the next poll hands the report with
  the order id and the quantity of the former client to the socket of the new connection, which has not
  even logged on: its session has no counterparty.\<close>

theorem reused_slot_leaks_report:
  assumes "reactor_inv srv" "i < length (SessionFlags srv)" "\<forall>j \<le> i. SessionFlags srv ! j"
    "onClientDisconnected denv i srv = Inr srv1" "m_state (m_socket srv1) \<in> {LISTENING, SOCKET_STATE.ACCEPTED}"
    "q < length (m_outgoingMessages (m_centralOrderBook srv))" "outgoing_ok (m_centralOrderBook srv)"
    "out_view (m_centralOrderBook srv) ! q = message # rest" "m_sessionId (out_order message) = i"
    "\<not> m_offlineMode (m_outgoingMessageProcessor srv)"
    "getSecurityName (securityManager srv) (m_securityId (out_order message)) = Inr symbol" "field_value symbol"
    "is_iteration (env_hash_order env)" "field_value (COMPID srv)" "field_value (clock_text (env_clock env))"
    "field_value (m_clientOrderID (out_order message))"
  shows "\<exists>srv2 srv3 bytes report.
    acceptNewConnection (onClientConnected aenv) (Some d) srv1 = Inr srv2 \<and> poll_queue writable env q srv2 = Inr srv3 \<and>
    m_socketDescriptor (m_peerSockets srv2 ! i) = d \<and> session_targetCompId (Sessions srv2 ! i) = [] \<and>
    handed srv3 = handed srv @ [(i, bytes)] \<and> parseFromBuffer (FixMessage_new mem) bytes = Inr report \<and>
    m_messageType report = MessageType_value EXECUTION_REPORT \<and>
    (let tags = map_of (m_bodyTagValuePairs report)
     in tags FIX_TAG_CLIENT_ORDER_ID = Some (m_clientOrderID (out_order message)) \<and>
        tags FIX_TAG_ORDER_QUANTITY = Some (to_string (sint (m_quantity (out_order message)))))"
proof -
  have 1: "reactor_inv srv1" "SessionFlags srv1 = (SessionFlags srv)[i := False]" "FixServerReactor.more srv1 = FixServerReactor.more srv"
    "handed srv1 = handed srv" "COMPID srv1 = COMPID srv"
    using disconnect_used[OF assms(1,2), of denv] assms(3,4) by auto
  have "find_index Not (SessionFlags srv1) = Some i"
  proof (cases "find_index Not (SessionFlags srv1)")
    case None
    then show ?thesis using 1(2) assms(2) set_update_memI[OF assms(2)] by (fastforce simp: find_index_None_iff)
  next
    case (Some j)
    then have "j < length (SessionFlags srv)" "\<not> (SessionFlags srv)[i := False] ! j" "\<forall>k < j. (SessionFlags srv)[i := False] ! k"
      using find_index_SomeD[OF Some] 1(2) by simp_all
    then have "\<not> j < i" "\<not> i < j" using assms(3) assms(2) by auto
    then show ?thesis using Some by simp
  qed
  from accept_first_free[OF 1(1) this assms(5), of aenv d] obtain srv2 where 2:
    "acceptNewConnection (onClientConnected aenv) (Some d) srv1 = Inr srv2" "reactor_inv srv2"
    "FixServerReactor.more srv2 = FixServerReactor.more srv" "handed srv2 = handed srv" "COMPID srv2 = COMPID srv"
    "SessionFlags srv2 = (SessionFlags srv1)[i := True]" "m_socketDescriptor (m_peerSockets srv2 ! i) = d"
    "session_fixVersion (Sessions srv2 ! i) = 0" "session_targetCompId (Sessions srv2 ! i) = []"
    "m_outgoingSequenceNumber (Sessions srv2 ! i) = 1"
    unfolding 1(3-5) by auto
  have same: "m_centralOrderBook srv2 = m_centralOrderBook srv" "securityManager srv2 = securityManager srv"
    "m_outgoingMessageProcessor srv2 = m_outgoingMessageProcessor srv"
    using 2(3) by (cases srv; cases srv2; simp)+
  have "table_at FIX_VERSION_STRINGS (session_fixVersion (Sessions srv2 ! i)) = Inr ''NONE''" "field_value []"
    unfolding 2(8) by (simp_all add: table_at_def FIX_VERSION_STRINGS_def field_value_def)
  then obtain srv3 bytes report where "poll_queue writable env q srv2 = Inr srv3" "handed srv3 = handed srv @ [(i, bytes)]"
    "parseFromBuffer (FixMessage_new mem) bytes = Inr report" "m_messageType report = MessageType_value EXECUTION_REPORT"
    "map_of (m_bodyTagValuePairs report) 11 = Some (m_clientOrderID (out_order message))"
    "map_of (m_bodyTagValuePairs report) 38 = Some (to_string (sint (m_quantity (out_order message))))"
    using poll_queue_connected[of q srv2 message rest "out_order message" i symbol "''NONE''" env writable mem]
      assms(2,6-16) 1(2) 2 by (auto simp: same Let_def)
  then show ?thesis using 2(1,7,9) by (intro exI[of _ srv2] exI[of _ srv3] exI[of _ bytes] exI[of _ report]) simp
qed

theorem reused_slot_leaks_report_witness:
  "\<exists>srv1 srv2 srv3 bytes report. onClientDisconnected sample_renv 0 sample_server = Inr srv1 \<and>
    acceptNewConnection (onClientConnected sample_renv) (Some 9) srv1 = Inr srv2 \<and> poll_queue (\<lambda>_. True) sample_env 0 srv2 = Inr srv3 \<and>
    m_socketDescriptor (m_peerSockets srv2 ! 0) = 9 \<and> handed srv3 = [(0, bytes)] \<and>
    parseFromBuffer (FixMessage_new 0) bytes = Inr report \<and>
    map_of (m_bodyTagValuePairs report) FIX_TAG_CLIENT_ORDER_ID = Some ''B1''"
proof -
  obtain srv1 where d: "onClientDisconnected sample_renv 0 sample_server = Inr srv1" "m_socket srv1 = m_socket sample_server"
    by (simp add: onClientDisconnected_def getSession_def removeSession_def FixSession_close_def close_peer_def Socket_close_def
        TCPServer_onClientDisconnected_def removePeer_def sample_server_def sample_session_def FixSession_initialise_def Let_def)
  then have "m_state (m_socket srv1) = LISTENING" by (simp add: sample_server_def)
  moreover have "is_iteration (env_hash_order sample_env)" "field_value (clock_text (env_clock sample_env))"
    using is_iteration_id by (simp_all add: sample_env_def sample_clock_def)
  ultimately show ?thesis
    using d(1) reused_slot_leaks_report[of sample_server 0 sample_renv srv1 0 sample_report "[]" "''ABC''" sample_env sample_renv 9 "\<lambda>_. True" 0]
      sample_server_ok sample_report_order by (fastforce simp: Let_def)
qed

end
