(* ===== verification/Network_Io.thy ===== *)
theory Network_Io
  imports Tcp_Server Threads
begin

text \<open>
  The calls to the operating system around the connection bookkeeping of \<open>Tcp_Server\<close>: creation,
  options and modes of sockets (\<open>source/core/network/socket.cpp\<close>), sending and receiving
  (\<open>tcp_connection.cpp\<close>), the epoll listener (\<open>io_listener_epoll.cpp\<close>) and the start of the server
  and of its reactor thread (\<open>tcp_server.cpp\<close>, \<open>tcp_server_reactor.cpp\<close>), Linux build. The results of
  the system calls are arguments.
\<close>

section \<open>Socket options\<close>

datatype SOCKET_TYPE = TCP | UDP

datatype SOCKET_OPTION =
    GET_ERROR_AND_CLEAR
  | REUSE_ADDRESS
  | REUSE_PORT
  | EXCLUSIVE_ADDRESS
  | RECEIVE_BUFFER_SIZE
  | RECEIVE_BUFFER_TIMEOUT
  | SEND_BUFFER_SIZE
  | SEND_BUFFER_TIMEOUT
  | TCP_ENABLE_CORK
  | TCP_ENABLE_QUICKACK
  | TCP_DISABLE_NAGLE
  | POLLING_INTERVAL
  | SOCKET_PRIORITY

text \<open>The numbers of the options and levels in the headers of Linux.\<close>

abbreviation (input) SOL_SOCKET :: int where "SOL_SOCKET \<equiv> 1"
abbreviation (input) IPPROTO_TCP :: int where "IPPROTO_TCP \<equiv> 6"
abbreviation (input) SO_DEBUG :: int where "SO_DEBUG \<equiv> 1"
abbreviation (input) SO_TYPE :: int where "SO_TYPE \<equiv> 3"
abbreviation (input) SO_PRIORITY :: int where "SO_PRIORITY \<equiv> 12"

primrec getSocketOptionValue :: "SOCKET_OPTION \<Rightarrow> int" where
  "getSocketOptionValue GET_ERROR_AND_CLEAR = 4"
| "getSocketOptionValue REUSE_ADDRESS = 2"
| "getSocketOptionValue EXCLUSIVE_ADDRESS = 2"
| "getSocketOptionValue REUSE_PORT = 15"
| "getSocketOptionValue RECEIVE_BUFFER_SIZE = 8"
| "getSocketOptionValue RECEIVE_BUFFER_TIMEOUT = 20"
| "getSocketOptionValue SEND_BUFFER_SIZE = 7"
| "getSocketOptionValue SEND_BUFFER_TIMEOUT = 21"
| "getSocketOptionValue TCP_DISABLE_NAGLE = 1"
| "getSocketOptionValue TCP_ENABLE_QUICKACK = 12"
| "getSocketOptionValue TCP_ENABLE_CORK = 3"
| "getSocketOptionValue SOCKET_PRIORITY = SO_PRIORITY"
| "getSocketOptionValue POLLING_INTERVAL = 46"

text \<open>The level, option and value of the call of \<open>setsockopt\<close>, if there is one.\<close>

definition setSocketOption :: "SOCKET_OPTION \<Rightarrow> int \<Rightarrow> (int \<times> int \<times> int) option" where
  "setSocketOption opt value =
     (let actualOption = getSocketOptionValue opt
      in if actualOption = 0 then None else Some (SOL_SOCKET, actualOption, value))"

text \<open>The options of TCP are passed at the level of the socket, where their numbers mean others.\<close>

lemma tcp_options_at_socket_level:
  "setSocketOption TCP_DISABLE_NAGLE v = Some (SOL_SOCKET, SO_DEBUG, v)"
  "setSocketOption TCP_ENABLE_QUICKACK v = Some (SOL_SOCKET, SO_PRIORITY, v)"
  "setSocketOption TCP_ENABLE_CORK v = Some (SOL_SOCKET, SO_TYPE, v)"
  by (simp_all add: setSocketOption_def)

section \<open>Sockets\<close>

text \<open>\<open>create\<close>: the descriptor is negative on failure; the state stays \<open>DISCONNECTED\<close>.\<close>

definition Socket_create :: "int \<Rightarrow> Socket \<Rightarrow> int list \<Rightarrow> bool \<times> Socket \<times> int list" where
  "Socket_create fd sock fds =
     (if fd < 0 then (False, sock\<lparr>m_socketDescriptor := fd\<rparr>, fds)
      else (True, sock\<lparr>m_socketDescriptor := fd\<rparr>, fds @ [fd]))"

definition Socket_listen :: "int \<Rightarrow> Socket \<Rightarrow> bool \<times> Socket" where
  "Socket_listen result sock = (if result \<noteq> 0 then (False, sock) else (True, sock\<lparr>m_state := LISTENING\<rparr>))"

definition Socket_bind :: "int \<Rightarrow> 'a Socket_scheme \<Rightarrow> bool \<times> 'a Socket_scheme" where
  "Socket_bind result sock = (if result \<noteq> 0 then (False, sock) else (True, sock\<lparr>m_state := BOUND\<rparr>))"

definition Socket_connect :: "int \<Rightarrow> 'a Socket_scheme \<Rightarrow> bool \<times> 'a Socket_scheme" where
  "Socket_connect result sock = (if result \<noteq> 0 then (False, sock) else (True, sock\<lparr>m_state := CONNECTED\<rparr>))"

definition Socket_select :: "int \<Rightarrow> bool" where
  "Socket_select result = (if result \<le> 0 then False else True)"

text \<open>\<open>connect\<close> with a timeout: without blocking, then a \<open>select\<close> for reading and writing.\<close>

definition Socket_connect_timeout :: "int \<Rightarrow> int \<Rightarrow> Socket \<Rightarrow> bool \<times> Socket" where
  "Socket_connect_timeout connectResult selectResult sock =
     (let (success, sock') = Socket_connect connectResult sock
      in if \<not> success then (Socket_select selectResult, sock') else (True, sock'))"

definition O_NONBLOCK :: "64 word" where
  "O_NONBLOCK = 0x800"

unbundle bit_operations_syntax

text \<open>The flags that \<open>setBlockingMode\<close> writes back.\<close>

definition setBlockingMode :: "bool \<Rightarrow> 64 word \<Rightarrow> 64 word" where
  "setBlockingMode blockingMode arg = (if blockingMode then arg AND NOT O_NONBLOCK else arg OR O_NONBLOCK)"

definition TCPConnection_send :: "int \<Rightarrow> int \<Rightarrow> int \<Rightarrow> int" where
  "TCPConnection_send timeout selectResult sendResult =
     (if timeout > 0 \<and> \<not> Socket_select selectResult then 0 else sendResult)"

definition TCPConnection_receive :: "int \<Rightarrow> int \<Rightarrow> int \<Rightarrow> int" where
  "TCPConnection_receive timeout selectResult recvResult =
     (if timeout > 0 \<and> \<not> Socket_select selectResult then 0 else recvResult)"

text \<open>Only the blocking bit changes, and the two modes undo each other on it.\<close>

lemma setBlockingMode_bits:
  "bit (setBlockingMode b w) n \<longleftrightarrow> (if n = 11 then \<not> b else bit w n)" if "n < 64"
proof -
  have o: "bit O_NONBLOCK n \<longleftrightarrow> n = 11"
  proof -
    have eq: "O_NONBLOCK = push_bit 11 1" by (simp add: O_NONBLOCK_def push_bit_eq_mult)
    show ?thesis unfolding eq bit_push_bit_iff using that by (auto simp: bit_1_iff)
  qed
  show ?thesis using that o by (auto simp: setBlockingMode_def bit_and_iff bit_or_iff bit_not_iff)
qed

text \<open>
  A socket that was created but never bound or connected is \<open>DISCONNECTED\<close>, and \<open>close\<close> leaves its
  descriptor open; the same happens after a \<open>connect\<close> with a timeout that returned by its \<open>select\<close>,
  which reports success whether or not there is a connection.
\<close>

lemma unconnected_socket_leaks:
  assumes "m_state sock = DISCONNECTED" "Socket_create fd sock fds = (True, sock', fds')"
  shows "fd \<in> set (snd (Socket_close sock' fds'))"
  using assms by (auto simp: Socket_create_def Socket_close_def split: if_splits)

lemma connect_timeout_not_connected:
  assumes "connectResult \<noteq> 0" "0 < selectResult"
  shows "Socket_connect_timeout connectResult selectResult sock = (True, sock)"
  using assms by (simp add: Socket_connect_timeout_def Socket_connect_def Socket_select_def)

section \<open>The epoll listener\<close>

datatype EPOLL_MODE = LEVEL_TRIGGERED | EDGE_TRIGGERED

definition EPOLLIN :: cint where "EPOLLIN = 1"
definition EPOLLERR :: cint where "EPOLLERR = 8"
definition EPOLLHUP :: cint where "EPOLLHUP = 16"
definition EPOLLET :: cint where "EPOLLET = 0x80000000"

text \<open>
  \<open>interest\<close> is the interest list of the epoll instance in the kernel: a descriptor is in it once,
  and adding it again or removing one that is not in it fails without effect.
\<close>

record IOListenerEpoll =
  m_epollMode :: EPOLL_MODE
  m_epollDescriptor :: int
  m_epollEvents :: "(int \<times> cint) list option"
  m_epollTimeout :: cint
  m_maxPollEvents :: csize
  interest :: "(int \<times> cint) list"

definition IOListenerEpoll_new :: IOListenerEpoll where
  "IOListenerEpoll_new = \<lparr>m_epollMode = LEVEL_TRIGGERED, m_epollDescriptor = - 1, m_epollEvents = None,
     m_epollTimeout = 0, m_maxPollEvents = 64, interest = []\<rparr>"

text \<open>\<open>mem\<close> is what the new array holds.\<close>

definition Epoll_start :: "int \<Rightarrow> (int \<times> cint) list \<Rightarrow> IOListenerEpoll \<Rightarrow> IOListenerEpoll" where
  "Epoll_start fd mem ep = ep\<lparr>m_epollDescriptor := fd, m_epollEvents := Some mem\<rparr>"

definition Epoll_stop :: "IOListenerEpoll \<Rightarrow> IOListenerEpoll" where
  "Epoll_stop ep = ep\<lparr>m_epollEvents := None\<rparr>"

text \<open>The division of \<open>long\<close> rounds towards zero; the quotient is converted to \<open>int\<close>.\<close>

definition Epoll_setTimeout :: "clong \<Rightarrow> IOListenerEpoll \<Rightarrow> IOListenerEpoll" where
  "Epoll_setTimeout microSeconds ep =
     ep\<lparr>m_epollTimeout := word_of_int (sgn (sint microSeconds) * (\<bar>sint microSeconds\<bar> div 1000))\<rparr>"

definition epoll_flags :: "IOListenerEpoll \<Rightarrow> cint" where
  "epoll_flags ep = (if m_epollMode ep = EDGE_TRIGGERED then EPOLLIN OR EPOLLET else EPOLLIN)"

definition addFileDescriptor :: "int \<Rightarrow> IOListenerEpoll \<Rightarrow> IOListenerEpoll" where
  "addFileDescriptor fd ep =
     (if fd \<in> fst ` set (interest ep) then ep else ep\<lparr>interest := interest ep @ [(fd, epoll_flags ep)]\<rparr>)"

definition removeFileDescriptor :: "int \<Rightarrow> IOListenerEpoll \<Rightarrow> IOListenerEpoll" where
  "removeFileDescriptor fd ep = ep\<lparr>interest := filter (\<lambda>(d, _). d \<noteq> fd) (interest ep)\<rparr>"

text \<open>\<open>epoll_wait\<close> fills the front of the array with what is ready, or fails.\<close>

definition getNumberOfReadyFileDescriptors ::
  "(int \<times> cint) list option \<Rightarrow> IOListenerEpoll \<Rightarrow> (int \<times> IOListenerEpoll) result" where
  "getNumberOfReadyFileDescriptors ready ep =
     (case m_epollEvents ep of
        None \<Rightarrow> Inl Null_dereference
      | Some events \<Rightarrow> (case ready of
            None \<Rightarrow> Inr (- 1, ep)
          | Some evs \<Rightarrow> Inr (int (length evs), ep\<lparr>m_epollEvents := Some (evs @ drop (length evs) events)\<rparr>)))"

definition epoll_event_at :: "IOListenerEpoll \<Rightarrow> nat \<Rightarrow> (int \<times> cint) result" where
  "epoll_event_at ep i = (case m_epollEvents ep of None \<Rightarrow> Inl Null_dereference | Some events \<Rightarrow> vec_at events i)"

definition isValidEvent :: "IOListenerEpoll \<Rightarrow> nat \<Rightarrow> bool result" where
  "isValidEvent ep i = res_bind (epoll_event_at ep i) (\<lambda>(_, events).
     Inr (if events AND EPOLLERR \<noteq> 0 \<or> events AND EPOLLHUP \<noteq> 0 \<or> events AND EPOLLIN = 0 then False else True))"

definition getReadyFileDescriptor :: "IOListenerEpoll \<Rightarrow> nat \<Rightarrow> int result" where
  "getReadyFileDescriptor ep i = res_bind (epoll_event_at ep i) (\<lambda>(fd, _). Inr fd)"

section \<open>The server\<close>

text \<open>\<open>TCPServer::start\<close>, with the results of \<open>bind\<close> and \<open>listen\<close>; the option that allows the
  address to be reused has no part in the bookkeeping.\<close>

definition TCPServer_start :: "int \<Rightarrow> int \<Rightarrow> 'a TCPServer_scheme \<Rightarrow> bool \<times> 'a TCPServer_scheme" where
  "TCPServer_start bindResult listenResult srv =
     (let (bound, sock1) = Socket_bind bindResult (m_socket srv)
      in if \<not> bound then (False, srv\<lparr>m_socket := sock1\<rparr>)
         else let (listening, sock2) = Socket_listen listenResult sock1
              in (listening, srv\<lparr>m_socket := sock2\<rparr>))"

text \<open>
  \<open>TCPServerReactor::start\<close>: the listener and the reactor thread. \<open>created\<close> is the id of the new
  thread, if the system gives one; a negative \<open>cpuId\<close> asks for no core.
\<close>

definition TCPServerReactor_start ::
  "int \<Rightarrow> int \<Rightarrow> int \<Rightarrow> (int \<times> cint) list \<Rightarrow> nat option \<Rightarrow> int \<Rightarrow> ThreadPriority \<Rightarrow> int \<Rightarrow> IOListenerEpoll \<Rightarrow> 'a TCPServer_scheme \<Rightarrow>
   (bool \<times> Thread option \<times> IOListenerEpoll \<times> 'a TCPServer_scheme) result" where
  "TCPServerReactor_start bindResult listenResult epollFd mem created affinityResult priority cpuId ep srv =
     (let (started, srv1) = TCPServer_start bindResult listenResult srv
      in if \<not> started then Inr (False, None, ep, srv1)
         else let ep1 = addFileDescriptor (m_socketDescriptor (m_socket srv1)) (Epoll_start epollFd mem ep);
                  srv2 = srv1\<lparr>epoll_fds := map fst (interest ep1)\<rparr>
              in res_bind (Thread_start created (Thread_new ''TCP_REACTOR'')) (\<lambda>thread1.
                 res_bind (Thread_setPriority priority thread1) (\<lambda>(_, thread2).
                 res_bind (if 0 \<le> cpuId then Thread_pinToCPUCore affinityResult cpuId thread2 else Inr 0) (\<lambda>_.
                 Inr (True, Some thread2, ep1, srv2)))))"

definition TCPServerReactor_stop :: "Thread \<Rightarrow> IOListenerEpoll \<Rightarrow> 'a TCPServer_scheme \<Rightarrow> Thread \<times> IOListenerEpoll \<times> 'a TCPServer_scheme" where
  "TCPServerReactor_stop thread ep srv = (Thread_join thread, Epoll_stop ep, TCPServer_stop srv)"

text \<open>
  One round of \<open>reactorThread\<close> as it reads the listener: the number of ready descriptors, then for
  each the descriptor and the test of its event. \<open>accepted\<close> gives for each index what \<open>accept\<close> would
  return; \<open>onUnhandledSocketError\<close> does nothing.
\<close>

definition reactor_poll ::
  "(nat \<Rightarrow> 'a TCPServer_scheme \<Rightarrow> 'a TCPServer_scheme result) \<Rightarrow>
   (nat \<Rightarrow> 'a TCPServer_scheme \<Rightarrow> 'a TCPServer_scheme result) \<Rightarrow>
   (nat \<Rightarrow> 'a TCPServer_scheme \<Rightarrow> 'a TCPServer_scheme result) \<Rightarrow>
   (int \<times> cint) list option \<Rightarrow> (nat \<Rightarrow> int option) \<Rightarrow> IOListenerEpoll \<Rightarrow> 'a TCPServer_scheme \<Rightarrow> 'a TCPServer_scheme result" where
  "reactor_poll connected disconnected handle ready accepted ep srv =
     (if m_isStopping srv then Inr srv
      else res_bind (getNumberOfReadyFileDescriptors ready ep) (\<lambda>(n, ep1).
        if n > 0
        then res_fold (\<lambda>counter s.
               res_bind (getReadyFileDescriptor ep1 counter) (\<lambda>fd.
               res_bind (isValidEvent ep1 counter) (\<lambda>valid.
               reactor_event connected disconnected handle (fd, valid, accepted counter) s))) [0..<nat n] srv
        else Inr srv))"

section \<open>Lemmas\<close>

definition valid_flags :: "cint \<Rightarrow> bool" where
  "valid_flags events \<longleftrightarrow> events AND EPOLLERR = 0 \<and> events AND EPOLLHUP = 0 \<and> events AND EPOLLIN \<noteq> 0"

lemma interest_add: "fst ` set (interest (addFileDescriptor fd ep)) = insert fd (fst ` set (interest ep))"
  by (auto simp: addFileDescriptor_def)

lemma interest_remove: "fst ` set (interest (removeFileDescriptor fd ep)) = fst ` set (interest ep) - {fd}"
  by (force simp: removeFileDescriptor_def)

lemma res_fold_map: "res_fold f (map g xs) s = res_fold (\<lambda>x. f (g x)) xs s"
  by (induction xs arbitrary: s) (simp_all add: res_bind_def split: sum.splits)

lemma res_fold_cong: "(\<And>x s. x \<in> set xs \<Longrightarrow> f x s = g x s) \<Longrightarrow> res_fold f xs s = res_fold g xs s"
  by (induction xs arbitrary: s) (simp_all add: res_bind_def split: sum.splits)

text \<open>A server whose listening socket has been created.\<close>

definition sample_listener :: TCPServer where
  "sample_listener = \<lparr>m_peerSockets = [], m_peerSocketsConnectionFlags = [], m_socket = Socket_new\<lparr>m_socketDescriptor := 3\<rparr>,
     m_isStopping = False, m_peerSocketIndexTable = [], epoll_fds = [], open_fds = [3]\<rparr>"

section \<open>Properties\<close>

text \<open>Polling is a round over the reported events. When the listener was started and the system
  reports events, the loop of the reactor thread over its indices handles exactly the reported
  descriptors, in order, and takes an event for valid exactly when it is readable without an error
  or hang-up: the round over a list of events that the server is modelled with.\<close>

theorem reactor_poll_is_round:
  assumes "m_epollEvents ep = Some events"
  shows "reactor_poll connected disconnected handle (Some ready) accepted ep srv =
    reactor_round connected disconnected handle
      (map (\<lambda>i. (fst (ready ! i), valid_flags (snd (ready ! i)), accepted i)) [0..<length ready]) srv"
proof -
  define ep1 where "ep1 = ep\<lparr>m_epollEvents := Some (ready @ drop (length ready) events)\<rparr>"
  have n: "getNumberOfReadyFileDescriptors (Some ready) ep = Inr (int (length ready), ep1)"
    using assms by (simp add: getNumberOfReadyFileDescriptors_def ep1_def)
  have ev: "getReadyFileDescriptor ep1 i = Inr (fst (ready ! i))" "isValidEvent ep1 i = Inr (valid_flags (snd (ready ! i)))"
    if "i < length ready" for i
    using that by (auto simp: ep1_def getReadyFileDescriptor_def isValidEvent_def epoll_event_at_def valid_flags_def nth_append split_beta)
  show ?thesis
    by (auto simp: reactor_poll_def reactor_round_def n res_fold_map ev intro!: res_fold_cong)
qed

theorem reactor_poll_is_round_witness:
  "reactor_poll (\<lambda>_ s. Inr s) (\<lambda>_ s. Inr s) (\<lambda>_ s. Inr s) (Some [(3, EPOLLIN), (9, EPOLLIN OR EPOLLHUP)]) (\<lambda>_. None)
     (Epoll_start 4 [] IOListenerEpoll_new) sample_listener =
   reactor_round (\<lambda>_ s. Inr s) (\<lambda>_ s. Inr s) (\<lambda>_ s. Inr s) [(3, True, None), (9, False, None)] sample_listener"
proof -
  have "valid_flags EPOLLIN" "\<not> valid_flags (EPOLLIN OR EPOLLHUP)"
    by (simp_all add: valid_flags_def EPOLLIN_def EPOLLHUP_def EPOLLERR_def)
  moreover have "m_epollEvents (Epoll_start 4 [] IOListenerEpoll_new) = Some []" by (simp add: Epoll_start_def)
  ultimately show ?thesis
    using reactor_poll_is_round[of "Epoll_start 4 [] IOListenerEpoll_new" "[]" _ _ _ "[(3, EPOLLIN), (9, EPOLLIN OR EPOLLHUP)]"] by simp
qed

text \<open>Starting the server. It is started exactly when \<open>bind\<close> and \<open>listen\<close> succeed and the system
  gives a thread; then the socket listens, its descriptor is watched, connections can be accepted
  and the reactor thread runs. When \<open>bind\<close> or \<open>listen\<close> fails no thread is started and no connection
  is accepted from the socket of a fresh server.\<close>

theorem TCPServerReactor_start_listens:
  assumes "m_state (m_socket srv) = DISCONNECTED"
  shows "if bindResult = 0 \<and> listenResult = 0
    then (case created of
        None \<Rightarrow> TCPServerReactor_start bindResult listenResult epollFd mem created affinityResult priority cpuId ep srv =
          Inl (Runtime_error ''Thread creation failed'')
      | Some tid \<Rightarrow> (\<exists>thread ep' srv'.
          TCPServerReactor_start bindResult listenResult epollFd mem created affinityResult priority cpuId ep srv =
            Inr (True, Some thread, ep', srv') \<and>
          m_started thread \<and> m_threadID thread = tid \<and> m_epollEvents ep' = Some mem \<and>
          m_socketDescriptor (m_socket srv') \<in> set (epoll_fds srv') \<and>
          fst (Socket_accept (Some d) (m_socket srv')) \<noteq> None \<and> m_peerSockets srv' = m_peerSockets srv))
    else (\<exists>srv'. TCPServerReactor_start bindResult listenResult epollFd mem created affinityResult priority cpuId ep srv =
        Inr (False, None, ep, srv') \<and> fst (Socket_accept (Some d) (m_socket srv')) = None)"
  using assms
  by (auto simp: TCPServerReactor_start_def TCPServer_start_def Socket_bind_def Socket_listen_def Thread_start_def Thread_new_def
      setThreadName_def MAX_THREAD_NAME_LENGTH_def Thread_setPriority_def Thread_pinToCPUCore_def pinToCPUCoreInternal_def Socket_accept_def
      Epoll_start_def addFileDescriptor_def Let_def image_iff split: option.split)

theorem TCPServerReactor_start_listens_witness:
  "\<exists>thread ep' srv'. TCPServerReactor_start 0 0 4 [] (Some 77) 0 NORMAL 2 IOListenerEpoll_new sample_listener =
     Inr (True, Some thread, ep', srv') \<and> m_threadID thread = 77 \<and> m_socketDescriptor (m_socket srv') \<in> set (epoll_fds srv') \<and>
     fst (Socket_accept (Some 8) (m_socket srv')) \<noteq> None"
  using TCPServerReactor_start_listens[where srv = sample_listener and bindResult = 0 and listenResult = 0 and created = "Some 77"
      and epollFd = 4 and mem = "[]" and affinityResult = 0 and priority = NORMAL and cpuId = 2 and ep = IOListenerEpoll_new and d = 8]
  by (fastforce simp: sample_listener_def Socket_new_def)

end
