(* ===== verification/Socket_Address.thy ===== *)
theory Socket_Address
  imports Network_Io File_Utility
begin

text \<open>
  \<open>core::Address\<close> (\<open>source/core/network/address.h\<close>) and the operations of \<open>core::Socket\<close> that use it:
  the structure that is passed to \<open>bind\<close> and \<open>connect\<close>, and the address and port read back from the
  structure that \<open>accept\<close> fills. The host is little-endian; a structure is a record, and where the code
  reads it through a pointer of another type it is the list of its bytes. The answers of the name
  service and of the kernel are arguments.
\<close>

section \<open>Byte order\<close>

unbundle bit_operations_syntax

definition htons :: "16 word \<Rightarrow> 16 word" where
  "htons w = push_bit 8 w OR drop_bit 8 w"

definition ntohs :: "16 word \<Rightarrow> 16 word" where
  "ntohs w = push_bit 8 w OR drop_bit 8 w"

lemma ntohs_htons [simp]: "ntohs (htons w) = w"
  by (rule bit_word_eqI) (auto simp: ntohs_def htons_def bit_or_iff bit_push_bit_iff bit_drop_bit_eq)

section \<open>Structures\<close>

type_synonym byte = "8 word"

text \<open>\<open>in_addr\<close>: four bytes in network order.\<close>

type_synonym in_addr = "byte \<times> byte \<times> byte \<times> byte"

abbreviation INADDR_ANY :: in_addr where "INADDR_ANY \<equiv> (0, 0, 0, 0)"

record sockaddr_in =
  sin_family :: "16 word"
  sin_port :: "16 word"
  sin_addr :: in_addr

abbreviation (input) PF_INET :: "16 word" where "PF_INET \<equiv> 2"

text \<open>The low and the high byte of a 16-bit field.\<close>

definition field_bytes :: "16 word \<Rightarrow> byte list" where
  "field_bytes w = [ucast w, ucast (drop_bit 8 w)]"

fun addr_bytes :: "in_addr \<Rightarrow> byte list" where
  "addr_bytes (a, b, c, d) = [a, b, c, d]"

text \<open>
  The layouts of \<open>sockaddr_in\<close> and \<open>sockaddr_in6\<close> in memory, and the four bytes that a pointer to
  \<open>sockaddr_in\<close> names \<open>sin_addr\<close>.
\<close>

definition sockaddr_in_bytes :: "sockaddr_in \<Rightarrow> byte list" where
  "sockaddr_in_bytes sa = field_bytes (sin_family sa) @ field_bytes (sin_port sa) @ addr_bytes (sin_addr sa) @ replicate 8 0"

definition sockaddr_in6_bytes :: "16 word \<Rightarrow> 16 word \<Rightarrow> in_addr \<Rightarrow> byte list \<Rightarrow> byte list \<Rightarrow> byte list" where
  "sockaddr_in6_bytes family port flowinfo addr scope = field_bytes family @ field_bytes port @ addr_bytes flowinfo @ addr @ scope"

definition sin_addr_at :: "byte list \<Rightarrow> in_addr" where
  "sin_addr_at mem = (mem ! 4, mem ! 5, mem ! 6, mem ! 7)"

lemma sin_addr_at_v4 [simp]: "sin_addr_at (sockaddr_in_bytes sa) = sin_addr sa"
  by (cases "sin_addr sa") (simp add: sin_addr_at_def sockaddr_in_bytes_def field_bytes_def)

lemma sin_addr_at_v6 [simp]: "sin_addr_at (sockaddr_in6_bytes family port flowinfo addr scope) = flowinfo"
  by (cases flowinfo) (simp add: sin_addr_at_def sockaddr_in6_bytes_def field_bytes_def)

section \<open>Dotted decimal text\<close>

text \<open>\<open>inet_ntop\<close> and \<open>inet_pton\<close> of the C library for IPv4.\<close>

fun inet_ntop :: "in_addr \<Rightarrow> string" where
  "inet_ntop (a, b, c, d) =
     show_nat (unat a) @ ''.'' @ show_nat (unat b) @ ''.'' @ show_nat (unat c) @ ''.'' @ show_nat (unat d)"

fun dotted_fields :: "string \<Rightarrow> string list" where
  "dotted_fields [] = [[]]"
| "dotted_fields (c # cs) =
     (if c = CHR ''.'' then [] # dotted_fields cs
      else case dotted_fields cs of [] \<Rightarrow> [[c]] | f # fs \<Rightarrow> (c # f) # fs)"

text \<open>One to three digits of a number up to 255, without a leading zero.\<close>

definition octet :: "string \<Rightarrow> byte option" where
  "octet s =
     (if s \<noteq> [] \<and> length s \<le> 3 \<and> list_all is_digit s \<and> (length s = 1 \<or> hd s \<noteq> CHR ''0'') \<and> digits_value s \<le> 255
      then Some (of_nat (digits_value s)) else None)"

definition inet_pton :: "string \<Rightarrow> in_addr option" where
  "inet_pton s =
     (case map octet (dotted_fields (c_str s)) of
        [Some a, Some b, Some c, Some d] \<Rightarrow> Some (a, b, c, d)
      | _ \<Rightarrow> None)"

lemma dotted_fields_not_Nil [simp]: "dotted_fields s \<noteq> []"
  by (induction s) (auto split: list.split)

lemma dotted_fields_last: "CHR ''.'' \<notin> set s \<Longrightarrow> dotted_fields s = [s]"
  by (induction s) auto

lemma dotted_fields_dot: "CHR ''.'' \<notin> set s \<Longrightarrow> dotted_fields (s @ CHR ''.'' # t) = s # dotted_fields t"
  by (induction s) (auto split: list.split)

lemma show_nat_head: "0 < n \<Longrightarrow> hd (show_nat n) \<noteq> CHR ''0''"
proof (induction n rule: show_nat.induct)
  case (1 n)
  show ?case
  proof (cases "n < 10")
    case True
    have "digit_val (CHR ''0'') = 0" by (simp add: digit_val_def)
    then have "digit_char n \<noteq> CHR ''0''" using digit_val_digit_char[OF True] 1(2) by auto
    then show ?thesis using True by (simp add: show_nat.simps[of n])
  next
    case False
    then show ?thesis using 1 by (simp add: show_nat.simps[of n])
  qed
qed

lemma show_nat_plain: "CHR ''.'' \<notin> set (show_nat n)" "NUL \<notin> set (show_nat n)"
  by (auto dest: show_nat_digits simp: is_digit_def)

lemma octet_show_nat: "octet (show_nat (unat b)) = Some b"
proof -
  have "unat b < 2 ^ LENGTH(8)" by (rule unsigned_less)
  then have lt: "unat b < 256" by simp
  have "length (show_nat (unat b)) \<le> 3" by (rule show_nat_width) (use lt in simp_all)
  moreover have "list_all is_digit (show_nat (unat b))" by (auto simp: list_all_iff dest: show_nat_digits)
  moreover have "length (show_nat (unat b)) = 1 \<or> hd (show_nat (unat b)) \<noteq> CHR ''0''"
    by (cases "unat b = 0") (simp_all add: show_nat.simps[of 0] show_nat_head del: unat_eq_0)
  ultimately show ?thesis using lt by (simp add: octet_def)
qed

lemma inet_pton_ntop [simp]: "inet_pton (inet_ntop addr) = Some addr"
proof -
  obtain a b c d where addr: "addr = (a, b, c, d)" by (cases addr) auto
  have "c_str (inet_ntop addr) = inet_ntop addr"
    by (auto simp: addr c_str_def takeWhile_eq_all_conv show_nat_plain)
  then show ?thesis by (simp add: inet_pton_def addr dotted_fields_dot dotted_fields_last show_nat_plain octet_show_nat)
qed

section \<open>Addresses\<close>

record Address =
  m_port :: cint
  m_address :: string
  m_socketAddressStruct :: sockaddr_in

definition Address_new :: "sockaddr_in \<Rightarrow> Address" where
  "Address_new mem = \<lparr>m_port = 0, m_address = [], m_socketAddressStruct = mem\<rparr>"

text \<open>
  \<open>getAddressInfo\<close>: the name service answers with the bytes of the first address it finds, of any
  family because no hints are given, and the code reads them as a \<open>sockaddr_in\<close>.
\<close>

definition getAddressInfo :: "(string \<Rightarrow> byte list option) \<Rightarrow> string \<Rightarrow> in_addr \<Rightarrow> bool \<times> in_addr" where
  "getAddressInfo getaddrinfo hostname socketAddress =
     (case getaddrinfo (c_str hostname) of
        None \<Rightarrow> (False, socketAddress)
      | Some ai_addr \<Rightarrow> (True, sin_addr_at ai_addr))"

text \<open>The address of the zeroed structure stays when neither the name service nor \<open>inet_pton\<close> knows the name.\<close>

definition Address_initialise :: "(string \<Rightarrow> byte list option) \<Rightarrow> string \<Rightarrow> cint \<Rightarrow> Address \<Rightarrow> Address" where
  "Address_initialise getaddrinfo name port ad =
     (let zero = \<lparr>sin_family = PF_INET, sin_port = htons (ucast port), sin_addr = (0, 0, 0, 0)\<rparr>
      in ad\<lparr>m_port := port, m_address := name, m_socketAddressStruct :=
           (if 0 < length name
            then (case getAddressInfo getaddrinfo name (sin_addr zero) of
                    (True, addr) \<Rightarrow> zero\<lparr>sin_addr := addr\<rparr>
                  | (False, _) \<Rightarrow> (case inet_pton name of None \<Rightarrow> zero | Some addr \<Rightarrow> zero\<lparr>sin_addr := addr\<rparr>))
            else zero\<lparr>sin_addr := INADDR_ANY\<rparr>)\<rparr>)"

text \<open>The other \<open>initialise\<close> leaves the structure of the object as it is.\<close>

definition Address_initialise_from :: "sockaddr_in \<Rightarrow> Address \<Rightarrow> Address" where
  "Address_initialise_from socketAddressStruct ad =
     ad\<lparr>m_address := inet_ntop (sin_addr socketAddressStruct), m_port := ucast (ntohs (sin_port socketAddressStruct))\<rparr>"

section \<open>Sockets with their address\<close>

record AddressedSocket = Socket +
  m_socketAddress :: Address

definition Socket_initialise :: "int \<Rightarrow> sockaddr_in \<Rightarrow> AddressedSocket \<Rightarrow> AddressedSocket" where
  "Socket_initialise socketDescriptor socketAddress sock =
     sock\<lparr>m_socketDescriptor := socketDescriptor, m_socketAddress := Address_initialise_from socketAddress (m_socketAddress sock)\<rparr>"

text \<open>\<open>bind\<close> and \<open>connect\<close> with the structure they pass: the kernel answers it with a status.\<close>

definition Socket_bind_address ::
  "(string \<Rightarrow> byte list option) \<Rightarrow> (sockaddr_in \<Rightarrow> int) \<Rightarrow> string \<Rightarrow> cint \<Rightarrow> AddressedSocket \<Rightarrow> bool \<times> AddressedSocket" where
  "Socket_bind_address getaddrinfo sysbind name port sock =
     (let ad = Address_initialise getaddrinfo name port (m_socketAddress sock)
      in Socket_bind (sysbind (m_socketAddressStruct ad)) (sock\<lparr>m_socketAddress := ad\<rparr>))"

definition Socket_connect_address ::
  "(string \<Rightarrow> byte list option) \<Rightarrow> (sockaddr_in \<Rightarrow> int) \<Rightarrow> string \<Rightarrow> cint \<Rightarrow> AddressedSocket \<Rightarrow> bool \<times> AddressedSocket" where
  "Socket_connect_address getaddrinfo sysconnect name port sock =
     (let ad = Address_initialise getaddrinfo name port (m_socketAddress sock)
      in Socket_connect (sysconnect (m_socketAddressStruct ad)) (sock\<lparr>m_socketAddress := ad\<rparr>))"

definition getAddress :: "AddressedSocket \<Rightarrow> string" where
  "getAddress sock = m_address (m_socketAddress sock)"

definition getPort :: "AddressedSocket \<Rightarrow> cint" where
  "getPort sock = m_port (m_socketAddress sock)"

section \<open>Errors\<close>

text \<open>
  The kernel's \<open>getsockopt\<close> is given the level, the option and the length found in \<open>len\<close>, which the code
  leaves uninitialised; when it fails the result stays 0.
\<close>

definition getSocketOption :: "(int \<Rightarrow> int \<Rightarrow> 32 word \<Rightarrow> cint option) \<Rightarrow> 32 word \<Rightarrow> SOCKET_OPTION \<Rightarrow> cint" where
  "getSocketOption getsockopt len opt =
     (case getsockopt SOL_SOCKET (getSocketOptionValue opt) len of None \<Rightarrow> 0 | Some value \<Rightarrow> value)"

definition getLastSocketError :: "(int \<Rightarrow> int \<Rightarrow> 32 word \<Rightarrow> cint option) \<Rightarrow> 32 word \<Rightarrow> cint" where
  "getLastSocketError getsockopt len = getSocketOption getsockopt len GET_ERROR_AND_CLEAR"

definition getCurrentThreadLastSocketError :: "cint \<Rightarrow> cint" where
  "getCurrentThreadLastSocketError errno = errno"

definition getSocketErrorAsString :: "(cint \<Rightarrow> string) \<Rightarrow> cint \<Rightarrow> string" where
  "getSocketErrorAsString strerror errorCode = c_str (strerror errorCode)"

section \<open>Lemmas\<close>

text \<open>Where a server listens, case by case.\<close>

lemma Address_initialise_address:
  "sin_addr (m_socketAddressStruct (Address_initialise getaddrinfo name port ad)) =
     (if name = [] then INADDR_ANY
      else case getaddrinfo (c_str name) of
             Some ai_addr \<Rightarrow> sin_addr_at ai_addr
           | None \<Rightarrow> (case inet_pton name of Some addr \<Rightarrow> addr | None \<Rightarrow> INADDR_ANY))"
  by (simp add: Address_initialise_def getAddressInfo_def Let_def split: option.split)

text \<open>The port is cut to 16 bits on its way into the structure.\<close>

lemma cut_port: "(ucast (ucast port :: 16 word) :: cint) = take_bit 16 port"
  by (rule bit_word_eqI) (auto simp: bit_ucast_iff bit_take_bit_iff)

lemma small_port: "unat port < 65536 \<Longrightarrow> take_bit 16 port = port" for port :: cint
  by (simp add: word_unat_eq_iff unsigned_take_bit_eq take_bit_nat_eq_self)

lemma Address_initialise_port:
  "sin_port (m_socketAddressStruct (Address_initialise getaddrinfo name port ad)) = htons (ucast port)"
  by (simp add: Address_initialise_def Let_def split: option.split prod.split bool.split)

section \<open>Properties\<close>

text \<open>The address of a client survives the way over the wire. The structure made from a dotted
  address (or from a name that the name service resolves to an IPv4 address) and a port of 16 bits,
  as the kernel hands it to the accepting side, reads back there as the same address and the same
  port; of a larger port the low 16 bits arrive.\<close>

theorem address_roundtrip:
  assumes "name \<noteq> []"
    "getaddrinfo (c_str name) = Some (sockaddr_in_bytes sa) \<and> sin_addr sa = addr \<or>
     getaddrinfo (c_str name) = None \<and> inet_pton name = Some addr"
  shows "let sent = m_socketAddressStruct (m_socketAddress (snd (Socket_connect_address getaddrinfo sysconnect name port sock)));
             peer = Socket_initialise d sent sock'
         in getAddress peer = inet_ntop addr \<and> inet_pton (getAddress peer) = Some addr \<and>
            getPort peer = take_bit 16 port \<and> (unat port < 65536 \<longrightarrow> getPort peer = port)"
  using assms
  by (auto simp: Let_def Socket_connect_address_def Socket_connect_def Socket_initialise_def getAddress_def getPort_def
      Address_initialise_from_def Address_initialise_address Address_initialise_port cut_port small_port)

theorem address_roundtrip_witness:
  "\<exists>sock sent. sent = m_socketAddressStruct (m_socketAddress (snd (Socket_connect_address (\<lambda>_. None) (\<lambda>_. 0) ''10.0.200.7'' 5001 sock))) \<and>
     getAddress (Socket_initialise 9 sent sock) = ''10.0.200.7'' \<and> getPort (Socket_initialise 9 sent sock) = 5001"
proof -
  define sock :: AddressedSocket where
    "sock = Socket.extend Socket_new \<lparr>m_socketAddress = Address_new \<lparr>sin_family = 0, sin_port = 0, sin_addr = INADDR_ANY\<rparr>\<rparr>"
  have t: "inet_ntop (10, 0, 200, 7) = ''10.0.200.7''"
    by (simp add: show_nat.simps digit_char_def)
  then have "inet_pton ''10.0.200.7'' = Some (10, 0, 200, 7)" using inet_pton_ntop[of "(10, 0, 200, 7)"] by simp
  then show ?thesis
    using address_roundtrip[where name = "''10.0.200.7''" and getaddrinfo = "\<lambda>_. None" and addr = "(10, 0, 200, 7)" and port = 5001
        and sysconnect = "\<lambda>_. 0" and sock = sock and sock' = sock and d = 9] t
    by (auto simp: Let_def)
qed

text \<open>A server whose configured host name is misspelt, unknown to the name service and no dotted
  address, does not fail to start: it listens exactly as if no address had been given, on every
  interface. The same happens when the name service answers with an IPv6 address first.\<close>

theorem unresolved_name_listens_everywhere:
  assumes "getaddrinfo (c_str name) = None \<and> inet_pton name = None \<or>
    name \<noteq> [] \<and> getaddrinfo (c_str name) = Some (sockaddr_in6_bytes 10 p6 (0, 0, 0, 0) addr scope)"
  shows "fst (Socket_bind_address getaddrinfo sysbind name port sock) = fst (Socket_bind_address getaddrinfo sysbind [] port sock) \<and>
    m_socketAddressStruct (m_socketAddress (snd (Socket_bind_address getaddrinfo sysbind name port sock))) =
      \<lparr>sin_family = PF_INET, sin_port = htons (ucast port), sin_addr = INADDR_ANY\<rparr>"
  using assms
  by (auto simp: Socket_bind_address_def Socket_bind_def Address_initialise_def getAddressInfo_def Let_def)

theorem unresolved_name_listens_everywhere_witness:
  "\<exists>sock. fst (Socket_bind_address (\<lambda>_. None) (\<lambda>sa. if sin_addr sa = INADDR_ANY then 0 else - 1) ''127.0.0.l'' 5001 sock)"
proof -
  define sock :: AddressedSocket where
    "sock = Socket.extend Socket_new \<lparr>m_socketAddress = Address_new \<lparr>sin_family = 0, sin_port = 0, sin_addr = INADDR_ANY\<rparr>\<rparr>"
  have "inet_pton ''127.0.0.l'' = None" by (simp add: inet_pton_def c_str_def octet_def is_digit_def)
  then show ?thesis
    using unresolved_name_listens_everywhere[where name = "''127.0.0.l''" and getaddrinfo = "\<lambda>_. None" and port = 5001 and sock = sock
        and sysbind = "\<lambda>sa. if sin_addr sa = INADDR_ANY then 0 else - 1"]
    by (auto simp: Socket_bind_address_def Socket_bind_def Address_initialise_def getAddressInfo_def Let_def)
qed

end
