(* ===== verification/Server_Run.thy ===== *)
theory Server_Run
  imports Server Socket_Address
begin

text \<open>
  \<open>ServerFix::run\<close> (\<open>source/server/server_fix.cpp\<close>) from \<open>start\<close> to \<open>stop\<close>, with the \<open>start\<close> and \<open>stop\<close>
  of the FIX reactor (\<open>source/fix/fix_server_reactor.cpp\<close>) and of the TCP reactor under it. What the
  threads do between them is an argument; it is modelled by \<open>server_reachable\<close>. The reactor thread as a loop of rounds
  that an exception can leave, and what such an exception does to the process, come after it.
\<close>

section \<open>Start and stop\<close>

text \<open>\<open>sysbind\<close> is what the kernel answers to the structure made of the configured address and port.\<close>

definition bind_status :: "(string \<Rightarrow> byte list option) \<Rightarrow> (sockaddr_in \<Rightarrow> int) \<Rightarrow> Address \<Rightarrow> 'a FixServerReactor_scheme \<Rightarrow> int" where
  "bind_status getaddrinfo sysbind ad srv =
     sysbind (m_socketAddressStruct
       (Address_initialise getaddrinfo (FixServerReactor.m_address srv) (word_of_int (FixServerReactor.m_port srv)) ad))"

text \<open>The result of \<open>TCPServerReactor::start\<close> is dropped; the thread is null unless it was created.\<close>

definition FixServerReactor_start ::
  "(string \<Rightarrow> byte list option) \<Rightarrow> (sockaddr_in \<Rightarrow> int) \<Rightarrow> int \<Rightarrow> int \<Rightarrow> (int \<times> cint) list \<Rightarrow> nat option \<Rightarrow> int \<Rightarrow>
   ThreadPriority \<Rightarrow> int \<Rightarrow> Address \<Rightarrow> IOListenerEpoll \<Rightarrow> 'a FixServerReactor_scheme \<Rightarrow>
   (Thread option \<times> IOListenerEpoll \<times> 'a FixServerReactor_scheme) result" where
  "FixServerReactor_start getaddrinfo sysbind listenResult epollFd mem created affinityResult priority cpuId ad ep srv =
     res_bind (TCPServerReactor_start (bind_status getaddrinfo sysbind ad srv) listenResult epollFd mem created affinityResult
       priority cpuId ep srv) (\<lambda>(_, thread, ep', srv'). Inr (thread, ep', srv'))"

definition reactor_shutdown ::
  "(string \<Rightarrow> bool) \<Rightarrow> Thread option \<Rightarrow> IOListenerEpoll \<Rightarrow> 'a FixServerReactor_scheme \<Rightarrow>
   (Thread \<times> IOListenerEpoll \<times> 'a FixServerReactor_scheme) result" where
  "reactor_shutdown writable m_reactorThread ep srv =
     (case m_reactorThread of
        None \<Rightarrow> Inl Null_dereference
      | Some thread \<Rightarrow>
          let (thread', ep', _) = TCPServerReactor_stop thread ep srv
          in Inr (thread', ep', FixServerReactor_stop writable srv))"

section \<open>The run\<close>

text \<open>The loop over the threads, with what each of its iterations finds; it goes on as long as there is nothing to do.\<close>

fun supervision_loop :: "(bool \<times> cpp_error option list) list \<Rightarrow> supervision" where
  "supervision_loop [] = Keep_running"
| "supervision_loop ((isFinishing, exceptions) # rest) =
     (case supervise isFinishing exceptions of Keep_running \<Rightarrow> supervision_loop rest | decision \<Rightarrow> decision)"

definition ServerFix_run ::
  "(string \<Rightarrow> byte list option) \<Rightarrow> (sockaddr_in \<Rightarrow> int) \<Rightarrow> int \<Rightarrow> int \<Rightarrow> (int \<times> cint) list \<Rightarrow> nat option \<Rightarrow> int \<Rightarrow>
   ThreadPriority \<Rightarrow> int \<Rightarrow> Address \<Rightarrow> nat option \<Rightarrow> (bool \<times> cpp_error option list) list \<Rightarrow> (string \<Rightarrow> bool) \<Rightarrow>
   (IOListenerEpoll \<times> Server \<Rightarrow> IOListenerEpoll \<times> Server) \<Rightarrow> IOListenerEpoll \<Rightarrow> Server \<Rightarrow>
   (Thread \<times> IOListenerEpoll \<times> Server) result" where
  "ServerFix_run getaddrinfo sysbind listenResult epollFd mem created affinityResult priority cpuId ad cliCreated turns writable threads ep srv =
     res_bind (FixServerReactor_start getaddrinfo sysbind listenResult epollFd mem created affinityResult priority cpuId ad ep srv)
       (\<lambda>(thread, ep1, srv1).
     res_bind (Thread_start cliCreated (Thread_new ''AdminInterface'')) (\<lambda>_.
     case supervision_loop turns of
       Rethrow e \<Rightarrow> Inl e
     | Keep_running \<Rightarrow> Inl Not_terminating
     | Finish \<Rightarrow> let (ep2, srv2) = threads (ep1, srv1) in reactor_shutdown writable thread ep2 srv2))"

section \<open>The reactor thread\<close>

text \<open>
  The loop of \<open>reactorThread\<close> over the rounds that are looked at; a round is what \<open>epoll_wait\<close> reports and
  the environment of its events. The thread ends with the exception that leaves a round. What the
  failing round has done to the server before is not kept.
\<close>

fun reactorThread :: "('r \<Rightarrow> 'a TCPServer_scheme \<Rightarrow> 'a TCPServer_scheme result) \<Rightarrow> 'r list \<Rightarrow> 'a TCPServer_scheme \<Rightarrow>
    'a TCPServer_scheme \<times> cpp_error option" where
  "reactorThread turn [] srv = (srv, None)"
| "reactorThread turn (r # rounds) srv =
     (if m_isStopping srv then (srv, None)
      else case turn r srv of Inl e \<Rightarrow> (srv, Some e) | Inr srv' \<Rightarrow> reactorThread turn rounds srv')"

text \<open>A round of the exchange: the virtual functions are those of \<open>FixServerReactor\<close> and \<open>ServerFix\<close>.\<close>

definition server_round ::
  "(nat \<Rightarrow> Order) \<Rightarrow> (nat \<Rightarrow> cint) \<Rightarrow> reactor_env \<times> (int \<times> bool \<times> int option) list \<Rightarrow> Server \<Rightarrow> Server result" where
  "server_round mem address r =
     (let (env, events) = r
      in reactor_round (onClientConnected env) (onClientDisconnected env)
           (handleClient env (\<lambda>k. onFixMessage (mem k) (address k) (env_writable env) (env_fix env k))) events)"

section \<open>The way out\<close>

text \<open>
  An exception that leaves \<open>run\<close> destroys the server before a handler of \<open>main\<close> runs. \<open>main\<close> holds it as a
  \<open>ServerBase\<close>, whose destructor is not virtual; the language leaves the deletion undefined, and what is modelled is
  that the destructor of \<open>ServerBase\<close> runs, as the compilers do it. Its last member goes first, the console: \<open>shutdown\<close> sends the finish
  signal and joins, and the join returns when the console's thread ends, by \<open>quit\<close> or by an exception
  of its own, because the thread does not look at the signal. \<open>input\<close> is what the console has still to read. The
  other threads look at their signals and are not modelled here.
\<close>

definition main_leave ::
  "((nat \<times> OrderBook) list \<Rightarrow> (nat \<times> OrderBook) list) \<Rightarrow> SecurityManager \<Rightarrow> CentralOrderBook \<Rightarrow> string list \<Rightarrow>
   cpp_error \<Rightarrow> string \<Rightarrow> (string \<times> int) result" where
  "main_leave hash_order sm cob input e what =
     (case CommandLineInterface_loop hash_order sm (Some cob) [] input of
        Inl e' \<Rightarrow> if is_exception e' then Inr (onError (main_catch e) what) else Inl e'
      | Inr _ \<Rightarrow> Inr (onError (main_catch e) what))"

section \<open>Lemmas\<close>

lemma console_without_display:
  assumes "''display'' \<notin> set (map toLower input)"
  shows "if ''quit'' \<in> set (map toLower input)
    then \<exists>out'. CommandLineInterface_loop hash_order sm parent out input = Inr out'
    else CommandLineInterface_loop hash_order sm parent out input = Inl Not_terminating"
  using assms by (induction input arbitrary: out) (auto simp: Let_def)

text \<open>What a message that was printed complete still has when it was received.\<close>

lemma received_complete:
  assumes "received_as msg m'" "header_complete msg" "\<forall>t \<in> set (required_tags (m_messageType msg)) - {9, 10}. hasTag t msg"
  shows "fst (validateRequiredTags m' 0)"
proof -
  have "hasTag t m'" if "t \<in> set (required_tags (m_messageType msg))" for t
    using assms(1,3) that by (cases "t \<in> {9, 10}") (auto simp: received_as_def hasTag_def)
  then show ?thesis using assms(1,2) unfolding validateRequiredTags_iff
    by (auto simp: header_complete_def received_as_def)
qed

lemma unlisted_symbol_throws:
  assumes "reactor_inv srv" "i < length (SessionFlags srv)" "fst (validateRequiredTags msg 0)"
    "m_messageType msg = MessageType_value NEW_ORDER"
    "ucast (m_sequenceNumber msg) = m_incomingSequenceNumber (Sessions srv ! i) + 1"
    "map_of (m_bodyTagValuePairs msg) FIX_TAG_SYMBOL = Some symbol"
    "\<not> isSecuritySupported_symbol (securityManager srv) symbol"
  shows "processMessage env fenv (onFixMessage mem address writable fenv) msg i srv = Inl Std_out_of_range"
proof -
  let ?srv1 = "srv\<lparr>Sessions := (Sessions srv)[i := (Sessions srv ! i)\<lparr>m_incomingSequenceNumber := ucast (m_sequenceNumber msg)\<rparr>]\<rparr>"
  have "processMessage env fenv (onFixMessage mem address writable fenv) msg i srv = onNewOrder mem writable fenv msg i ?srv1"
    using in_sequence[OF assms(1-3)] new_order_type[OF assms(4)] assms(4,5) by (simp add: onFixMessage_def)
  also have "\<dots> = Inl Std_out_of_range"
    using assms(6,7) by (simp add: onNewOrder_def convertNewOrder_def convertCommonOrder_def getTagValue_present
        getSecurityId_def umap_at_def isSecuritySupported_symbol_def)
  finally show ?thesis .
qed

text \<open>The first turn in which the console has finished or a thread has failed decides.\<close>

lemma supervision_loop_first:
  assumes "\<forall>(fin, exs) \<in> set before. \<not> fin \<and> set exs \<subseteq> {None}"
  shows "supervision_loop (before @ (fin, exs) # rest) =
    (case supervise fin exs of Keep_running \<Rightarrow> supervision_loop rest | decision \<Rightarrow> decision)"
  using assms
proof (induction before)
  case (Cons turn before)
  obtain f es where turn: "turn = (f, es)" by fastforce
  then have "List.find (\<lambda>e. e \<noteq> None) es = None" using Cons.prems by (auto simp: find_None_iff)
  then have "supervise f es = Keep_running" using Cons.prems turn by (auto simp: supervise_def)
  then show ?case using Cons turn by simp
qed simp

lemma cli_starts: "Thread_start (Some tid) (Thread_new ''AdminInterface'') = Inr ((Thread_new ''AdminInterface'')\<lparr>m_threadID := tid, m_started := True\<rparr>)"
  by (simp add: Thread_start_def Thread_new_def setThreadName_ok MAX_THREAD_NAME_LENGTH_def)

text \<open>A failed start leaves the reactor without a thread and its socket unable to accept.\<close>

lemma start_failed:
  assumes "m_state (m_socket srv) = DISCONNECTED"
    "bind_status getaddrinfo sysbind ad srv \<noteq> 0 \<or> listenResult \<noteq> 0"
  shows "\<exists>srv'. FixServerReactor_start getaddrinfo sysbind listenResult epollFd mem created affinityResult priority cpuId ad ep srv =
      Inr (None, ep, srv') \<and> fst (Socket_accept d (m_socket srv')) = None"
  using assms by (auto simp: FixServerReactor_start_def TCPServerReactor_start_def TCPServer_start_def Socket_bind_def Socket_listen_def
      Socket_accept_def Let_def)

lemma start_succeeded:
  assumes "bind_status getaddrinfo sysbind ad srv = 0"
    "listenResult = 0" "created = Some tid"
  shows "\<exists>thread ep1 srv1. FixServerReactor_start getaddrinfo sysbind listenResult epollFd mem created affinityResult priority cpuId ad ep srv =
      Inr (Some thread, ep1, srv1) \<and> m_state (m_socket srv1) = LISTENING \<and> isJoiningOk thread \<and> m_threadID thread = tid \<and> joins thread = []"
  using assms
  by (auto simp: FixServerReactor_start_def TCPServerReactor_start_def TCPServer_start_def Socket_bind_def Socket_listen_def
      Let_def Thread_start_def Thread_new_def setThreadName_def MAX_THREAD_NAME_LENGTH_def Thread_setPriority_def
      Thread_pinToCPUCore_def pinToCPUCoreInternal_def isJoiningOk_def)

text \<open>A run that was started and ended by the administrator joins the reactor thread once and stores the numbers of the sessions.\<close>

lemma run_stops:
  assumes "bind_status getaddrinfo sysbind ad srv = 0"
    "listenResult = 0" "created = Some tid" "cliCreated = Some cid" "supervision_loop turns = Finish"
  shows "\<exists>ep1 srv1 thread'. m_state (m_socket srv1) = LISTENING \<and> joins thread' = [tid] \<and>
      ServerFix_run getaddrinfo sysbind listenResult epollFd mem created affinityResult priority cpuId ad cliCreated turns writable threads ep srv =
        Inr (thread', Epoll_stop (fst (threads (ep1, srv1))), FixServerReactor_stop writable (snd (threads (ep1, srv1))))"
proof -
  obtain thread ep1 srv1 where 1: "FixServerReactor_start getaddrinfo sysbind listenResult epollFd mem created affinityResult priority cpuId ad ep srv =
      Inr (Some thread, ep1, srv1)" and 2: "m_state (m_socket srv1) = LISTENING" and
    3: "joins (Thread_join thread) = [tid]"
    using start_succeeded[where ep = ep and epollFd = epollFd and mem = mem and affinityResult = affinityResult and priority = priority
        and cpuId = cpuId, OF assms(1-3)] by (auto simp: Thread_join_def)
  show ?thesis
    using assms(4,5) 2 3
    by (intro exI[of _ ep1] exI[of _ srv1] exI[of _ "Thread_join thread"])
      (simp add: ServerFix_run_def 1 cli_starts reactor_shutdown_def TCPServerReactor_stop_def split_beta)
qed

section \<open>Properties\<close>

text \<open>C37: One order for a symbol that is not listed takes the exchange down. When the first event of a round of
  the reactor thread brings the bytes that complete a new order of a connected client, an order with all required tags, the
  session's next sequence number and an unlisted symbol, the round throws \<open>std::out_of_range\<close> (the check that would reject
  the symbol comes after the lookup that throws) and the thread ends with this exception in its
  task, whatever events and rounds would follow. The supervision loop, when no thread before it in the list has
  failed and the console has not finished, rethrows it. On the way out of \<open>main\<close>'s block the program waits for its
  console, for ever if nobody enters \<open>quit\<close>; then no handler of \<open>main\<close> names the exception and the process exits with status 4.\<close>

theorem unknown_symbol_ends_exchange:
  assumes "reactor_inv srv" "i < length (SessionFlags srv)" "SessionFlags srv ! i" "m_receiveCacheSize srv \<noteq> 0"
    "m_receiveCache (Sessions srv ! i) = Some cache" "cache_inv cache" "sendable msg" "is_iteration client_order_of_tags"
    "FixMessage_toString client_order_of_tags msg = Inr (cached_bytes cache @ chunk)"
    "length chunk < getRemainingBufferSize cache" "env_recv1 env (getRemainingBufferSize cache) = Recv_data chunk" and
    "header_complete msg" "\<forall>t \<in> set (required_tags (m_messageType msg)) - {9, 10}. hasTag t msg"
    "m_messageType msg = MessageType_value NEW_ORDER"
    "ucast (m_sequenceNumber msg) = m_incomingSequenceNumber (Sessions srv ! i) + 1"
    "map_of (m_bodyTagValuePairs msg) FIX_TAG_SYMBOL = Some symbol"
    "\<not> isSecuritySupported_symbol (securityManager srv) symbol" and
    "\<not> m_isStopping srv" "map_of (m_peerSocketIndexTable srv) fd = Some i" "fd \<noteq> m_socketDescriptor (m_socket srv)"
  shows "\<exists>task srv'. internalThreadFunction (\<lambda>_. reactorThread (server_round mem address) ((env, (fd, True, None) # events) # rounds))
        (Some (Task_new ())) srv = Inr (task, srv') \<and>
      m_taskException task = Some Std_out_of_range \<and>
      (\<forall>before after. (\<forall>t \<in> set before. m_taskException t = None) \<longrightarrow>
         supervise False (map m_taskException (before @ task # after)) = Rethrow Std_out_of_range) \<and>
      (\<forall>hash_order sm cob input. ''display'' \<notin> set (map toLower input) \<longrightarrow>
         main_leave hash_order sm cob input Std_out_of_range [] =
           (if ''quit'' \<in> set (map toLower input) then Inr (''Unknown exception occured'', 4) else Inl Not_terminating))"
proof -
  let ?hook = "\<lambda>k. onFixMessage (mem k) (address k) (env_writable env) (env_fix env k)"
  obtain m' cache' where m': "received_as msg m'"
    "handleClient env ?hook i srv = processMessage env (env_fix env 0) (?hook 0) m' i
      (srv\<lparr>Sessions := (Sessions srv)[i := (Sessions srv ! i)
        \<lparr>m_lastReceivedTime := clock_seconds (env_clock (env_fix env 0)), m_receiveCache := Some cache'\<rparr>]\<rparr>)"
    using handleClient_completes_message[OF assms(1-11), of ?hook] by blast
  let ?session = "(Sessions srv ! i)\<lparr>m_lastReceivedTime := clock_seconds (env_clock (env_fix env 0)), m_receiveCache := Some cache'\<rparr>"
  let ?srv = "srv\<lparr>Sessions := (Sessions srv)[i := ?session]\<rparr>"
  have i: "i < length (Sessions srv)" using assms(1,2) by (simp add: reactor_inv_def)
  have inv: "reactor_inv ?srv"
    using assms(1) i by (auto simp: reactor_inv_def peers_ok_def session_ok_def nth_list_update)
  have "handleClient env ?hook i srv = Inl Std_out_of_range" unfolding m'(2)
    using unlisted_symbol_throws[OF inv, of i m' symbol env "env_fix env 0" "mem 0" "address 0" "env_writable env"]
      received_complete[OF m'(1) assms(12,13)] m'(1) assms(2,14-17) i by (simp add: received_as_def)
  moreover have "umap_index 0 fd (m_peerSocketIndexTable srv) = (i, m_peerSocketIndexTable srv)"
    using assms(19) by simp
  moreover have "srv\<lparr>m_peerSocketIndexTable := m_peerSocketIndexTable srv\<rparr> = srv" by simp
  ultimately have "server_round mem address (env, (fd, True, None) # events) srv = Inl Std_out_of_range"
    using assms(18,20) by (simp add: server_round_def reactor_round_def reactor_event_def Let_def)
  then have run: "internalThreadFunction (\<lambda>_. reactorThread (server_round mem address) ((env, (fd, True, None) # events) # rounds))
      (Some (Task_new ())) srv = Inr ((Task_new ())\<lparr>m_taskException := Some Std_out_of_range\<rparr>, srv)"
    using assms(18) by (simp add: internalThreadFunction_def Task_execute_def Task_new_def)
  have rethrow: "supervise False (map m_taskException (before @ t # after)) = Rethrow Std_out_of_range"
    if "\<forall>t \<in> set before. m_taskException t = None" "m_taskException t = Some Std_out_of_range" for before after and t :: "unit Task"
  proof -
    have "List.find (\<lambda>e. e \<noteq> None) (map m_taskException (before @ t # after)) = Some (Some Std_out_of_range)"
      using that by (induction before) auto
    then show ?thesis by (simp add: supervise_def)
  qed
  have leave: "main_leave hash_order sm cob input Std_out_of_range [] =
      (if ''quit'' \<in> set (map toLower input) then Inr (''Unknown exception occured'', 4) else Inl Not_terminating)"
    if "''display'' \<notin> set (map toLower input)" for hash_order sm cob input
    using console_without_display[OF that, of hash_order sm "Some cob" "[]"]
    by (auto simp: main_leave_def onError_def split: if_splits)
  show ?thesis
    by (rule exI[of _ "(Task_new ())\<lparr>m_taskException := Some Std_out_of_range\<rparr>"], rule exI[of _ srv], intro conjI allI impI)
      (rule run, simp, rule rethrow, assumption, simp, rule leave, assumption)
qed

text \<open>The order of the sample client, for a server that lists another symbol.\<close>

theorem unknown_symbol_ends_exchange_witness:
  "\<exists>task srv'. internalThreadFunction (\<lambda>_. reactorThread (server_round (\<lambda>_. sample_ask) (\<lambda>_. 0))
       [(sample_renv\<lparr>env_recv1 := \<lambda>_. Recv_data sample_client_text\<rparr>, [(5, True, None)])])
     (Some (Task_new ())) (sample_wire\<lparr>securityManager := snd (addSecurity ''DEF'' SecurityManager_init)\<rparr>) = Inr (task, srv') \<and>
   m_taskException task = Some Std_out_of_range \<and> supervise False [None, m_taskException task] = Rethrow Std_out_of_range \<and>
   (\<forall>sm cob. main_leave (\<lambda>bs. bs) sm cob [''Quit''] Std_out_of_range [] = Inr (''Unknown exception occured'', 4))"
proof -
  let ?cache = "FixReceiveCache_initialise [] 256 FixReceiveCache_new"
  let ?env = "sample_renv\<lparr>env_recv1 := \<lambda>_. Recv_data sample_client_text\<rparr>"
  let ?srv = "sample_wire\<lparr>securityManager := snd (addSecurity ''DEF'' SecurityManager_init)\<rparr>"
  have cache: "cache_inv ?cache" "cached_bytes ?cache = []" "length sample_client_text < getRemainingBufferSize ?cache"
    using sample_client_text_length
    by (simp_all add: cache_inv_def cached_bytes_def getRemainingBufferSize_def FixReceiveCache_initialise_def FixReceiveCache_new_def)
  have srv: "reactor_inv ?srv" "SessionFlags ?srv = [True]" "m_receiveCacheSize ?srv = 256"
    "Sessions ?srv = [sample_session\<lparr>m_receiveCache := Some ?cache\<rparr>]" "\<not> m_isStopping ?srv" "m_peerSocketIndexTable ?srv = [(5, 0)]"
    "m_socketDescriptor (m_socket ?srv) = 3"
    using sample_wire_fields by (simp_all add: reactor_inv_def peers_ok_def) (simp_all add: sample_wire_def sample_entry_def sample_server_def)
  have order: "header_complete sample_client_order" "m_messageType sample_client_order = MessageType_value NEW_ORDER"
    "map_of (m_bodyTagValuePairs sample_client_order) FIX_TAG_SYMBOL = Some ''ABC''"
    "\<forall>t \<in> set (required_tags (m_messageType sample_client_order)) - {9, 10}. hasTag t sample_client_order"
    by (simp_all add: header_complete_def sample_client_order_def sample_message_def required_tags_def hasTag_def)
  have send: "sendable sample_client_order" using sample_client_order_ok(2) by (simp add: client_order_def)
  have no: "\<not> isSecuritySupported_symbol (securityManager ?srv) ''ABC''"
    by (simp add: isSecuritySupported_symbol_def addSecurity_def SecurityManager_init_def umap_insert_def Let_def)
  have bytes: "FixMessage_toString (\<lambda>es. es) sample_client_order = Inr (cached_bytes ?cache @ sample_client_text)"
    "ucast (m_sequenceNumber sample_client_order) = m_incomingSequenceNumber (Sessions ?srv ! 0) + 1"
    using sample_client_order_ok(1,3) srv(4) cache(2) sample_session_fields by simp_all
  have slot: "0 < length (SessionFlags ?srv)" "SessionFlags ?srv ! 0" "m_receiveCacheSize ?srv \<noteq> 0"
    "m_receiveCache (Sessions ?srv ! 0) = Some ?cache" "map_of (m_peerSocketIndexTable ?srv) 5 = Some 0"
    "(5::int) \<noteq> m_socketDescriptor (m_socket ?srv)"
    using srv(2-4,6,7) by simp_all
  have recv: "env_recv1 ?env (getRemainingBufferSize ?cache) = Recv_data sample_client_text" by simp
  obtain task :: "unit Task" and srv' where t: "internalThreadFunction (\<lambda>_. reactorThread (server_round (\<lambda>_. sample_ask) (\<lambda>_. 0))
       [(?env, [(5, True, None)])]) (Some (Task_new ())) ?srv = Inr (task, srv')" "m_taskException task = Some Std_out_of_range"
    "\<forall>before after. (\<forall>t \<in> set before. m_taskException t = None) \<longrightarrow>
       supervise False (map m_taskException (before @ task # after)) = Rethrow Std_out_of_range"
    "\<forall>hash_order sm cob input. ''display'' \<notin> set (map toLower input) \<longrightarrow>
         main_leave hash_order sm cob input Std_out_of_range [] =
           (if ''quit'' \<in> set (map toLower input) then Inr (''Unknown exception occured'', 4) else Inl Not_terminating)"
    using unknown_symbol_ends_exchange[where env = ?env and mem = "\<lambda>_. sample_ask" and address = "\<lambda>_. 0" and events = "[]" and rounds = "[]",
        OF srv(1) slot(1-4) cache(1) send is_iteration_id bytes(1) cache(3) recv order(1,4,2) bytes(2) order(3) no srv(5) slot(5,6)]
    by (elim exE conjE) (rule that)
  have "toLower ''Quit'' = ''quit''" by (simp add: toLower_def tolower_def)
  with t(4) have "\<forall>sm cob. main_leave (\<lambda>bs. bs) sm cob [''Quit''] Std_out_of_range [] = Inr (''Unknown exception occured'', 4)" by simp
  moreover have "supervise False [None, m_taskException task] = Rethrow Std_out_of_range"
    using t(3)[rule_format, of "[Task_new ()]" "[]"] by (simp add: Task_new_def)
  ultimately show ?thesis using t(1,2) by blast
qed

text \<open>A failed start goes unnoticed. When the address of the server cannot be bound or listened on, as when
  the port is in use, the run goes on without a reactor thread and accepts nobody; an exception of another
  thread ends it as always, and when the administrator quits it ends in a null dereference, which no
  handler catches, before any sequence number is stored.\<close>

theorem failed_start_goes_unnoticed:
  assumes "m_state (m_socket srv) = DISCONNECTED" "cliCreated = Some cid"
    "bind_status getaddrinfo sysbind ad srv \<noteq> 0 \<or> listenResult \<noteq> 0"
  shows "(\<exists>srv'. FixServerReactor_start getaddrinfo sysbind listenResult epollFd mem created affinityResult priority cpuId ad ep srv =
        Inr (None, ep, srv') \<and> fst (Socket_accept d (m_socket srv')) = None) \<and>
    ServerFix_run getaddrinfo sysbind listenResult epollFd mem created affinityResult priority cpuId ad cliCreated turns writable threads ep srv =
      (case supervision_loop turns of Rethrow e \<Rightarrow> Inl e | Keep_running \<Rightarrow> Inl Not_terminating | Finish \<Rightarrow> Inl Null_dereference) \<and>
    \<not> is_exception Null_dereference"
proof -
  obtain srv' where "FixServerReactor_start getaddrinfo sysbind listenResult epollFd mem created affinityResult priority cpuId ad ep srv =
      Inr (None, ep, srv')" "fst (Socket_accept d (m_socket srv')) = None"
    using start_failed[OF assms(1,3)] by blast
  then show ?thesis
    using assms(2) by (simp add: ServerFix_run_def cli_starts reactor_shutdown_def split_beta split: supervision.split)
qed

theorem failed_start_goes_unnoticed_witness:
  "\<exists>srv :: Server. \<forall>writable threads. ServerFix_run (\<lambda>_. None) (\<lambda>sa. if sin_port sa = htons 5001 then - 1 else 0) 0 7 [] (Some 70) 0 NORMAL (- 1)
     (Address_new \<lparr>sin_family = 0, sin_port = 0, sin_addr = INADDR_ANY\<rparr>) (Some 71) [(False, [None]), (True, [])]
     writable threads IOListenerEpoll_new srv = Inl Null_dereference"
proof -
  define srv :: Server where "srv = FixServerReactor_initialise sample_fix_conf
     (Server_static Socket_new (\<lambda>_. None) (OutgoingMessage_new sample_bid OrderStatus.ACCEPTED []))"
  have srv: "m_state (m_socket srv) = DISCONNECTED" "FixServerReactor.m_port srv = 5001"
    by (simp_all add: srv_def FixServerReactor_initialise_def Server_static_def Socket_new_def sample_fix_conf_def FixServerConfiguration_new_def)
  have "supervision_loop [(False, [None]), (True, [])] = Finish" by (simp add: supervise_def)
  moreover have "sin_port (m_socketAddressStruct (Address_initialise getaddrinfo name 5001 ad)) = htons 5001" for getaddrinfo name ad
    by (simp add: Address_initialise_port)
  ultimately show ?thesis
    using failed_start_goes_unnoticed[OF srv(1), where cliCreated = "Some 71" and cid = 71 and sysbind = "\<lambda>sa. if sin_port sa = htons 5001 then - 1 else 0"
        and getaddrinfo = "\<lambda>_. None" and listenResult = 0 and turns = "[(False, [None]), (True, [])]"] srv(2)
    by (intro exI[of _ srv]) (simp add: bind_status_def)
qed

end
