(* ===== verification/Spin_Lock.thy ===== *)
theory Spin_Lock
  imports Prelude
begin

text \<open>
  \<open>core::SpinLock\<close> (\<open>source/core/concurrency/spinlock.hpp\<close>) and the double checked locking of
  \<open>core::SingletonDCLP\<close> (\<open>source/core/design_patterns/singleton_dclp.hpp\<close>), as interleavings of the
  atomic steps of any number of threads. The atomic operations are taken to be sequentially
  consistent: the acquire and release orders and the fences of the source are there to give the
  compiled code that reading. The interface of the lock is the locale \<open>mutex\<close>; its clients are the
  threads that call \<open>lock\<close> and \<open>unlock\<close>, the singleton and the queue of the logger.
\<close>

section \<open>The lock\<close>

definition DEFAULT_SPIN_COUNT :: csize where
  "DEFAULT_SPIN_COUNT = 0x400"

text \<open>\<open>m_sleepMicroseconds\<close> is neither set nor read by the code.\<close>

record SpinLock =
  m_yielding :: bool
  m_spinCount :: csize
  m_flag :: bool

definition tryLock :: "SpinLock \<Rightarrow> bool \<times> SpinLock" where
  "tryLock l = (if m_flag l then (False, l) else (True, l\<lparr>m_flag := True\<rparr>))"

definition unlock :: "SpinLock \<Rightarrow> SpinLock" where
  "unlock l = l\<lparr>m_flag := False\<rparr>"

definition SpinLock_new :: SpinLock where
  "SpinLock_new = unlock \<lparr>m_yielding = True, m_spinCount = DEFAULT_SPIN_COUNT, m_flag = False\<rparr>"

definition setYieldingAndSpinCount :: "bool \<Rightarrow> csize \<Rightarrow> SpinLock \<Rightarrow> SpinLock" where
  "setYieldingAndSpinCount value spinCount l = l\<lparr>m_yielding := value, m_spinCount := spinCount\<rparr>"

text \<open>
  The control points of one call of \<open>lock\<close>: the head of the \<open>while\<close> loop, the \<open>for\<close> loop with its
  counter, and the attempt of the mode that does not yield. \<open>lock_turn\<close> is one atomic step of the
  call; \<open>None\<close> says that the call has returned.
\<close>

datatype lock_pc = L_Loop | L_Spin csize | L_Once

primrec lock_turn :: "lock_pc \<Rightarrow> SpinLock \<Rightarrow> lock_pc option \<times> SpinLock" where
  "lock_turn L_Loop l = (Some (if m_yielding l then L_Spin 0 else L_Once), l)"
| "lock_turn (L_Spin i) l =
     (if i < m_spinCount l
      then (case tryLock l of (True, l') \<Rightarrow> (None, l') | (False, l') \<Rightarrow> (Some (L_Spin (i + 1)), l'))
      else (Some L_Loop, l))"
| "lock_turn L_Once l = (case tryLock l of (True, l') \<Rightarrow> (None, l') | (False, l') \<Rightarrow> (Some L_Loop, l'))"

text \<open>A call of \<open>lock\<close> that nobody interrupts, for at most \<open>n\<close> steps.\<close>

fun lock_run :: "nat \<Rightarrow> lock_pc \<Rightarrow> SpinLock \<Rightarrow> lock_pc option \<times> SpinLock" where
  "lock_run 0 p l = (Some p, l)"
| "lock_run (Suc n) p l = (case lock_turn p l of (None, l') \<Rightarrow> (None, l') | (Some p', l') \<Rightarrow> lock_run n p' l')"

section \<open>The interface of a lock\<close>

text \<open>
  \<open>owned b H\<close>: the threads \<open>H\<close> hold a lock whose state is \<open>b\<close>. A lock is held by exactly one
  thread while it is locked, and by none otherwise.
\<close>

definition owned :: "bool \<Rightarrow> 'i set \<Rightarrow> bool" where
  "owned b H \<longleftrightarrow> (if b then \<exists>t. H = {t} else H = {})"

lemma owned_simps [simp]: "owned True {t}" "owned False H \<longleftrightarrow> H = {}" "owned b {} \<longleftrightarrow> \<not> b"
  by (auto simp: owned_def)

locale mutex =
  fixes turn :: "'p \<Rightarrow> 'l \<Rightarrow> 'p option \<times> 'l"
    and release :: "'l \<Rightarrow> 'l"
    and locked :: "'l \<Rightarrow> bool"
  assumes turn_acquires: "turn p l = (None, l') \<Longrightarrow> \<not> locked l \<and> locked l'"
    and turn_waits: "turn p l = (Some p', l') \<Longrightarrow> l' = l"
    and release_unlocks: "\<not> locked (release l)"
begin

lemma owned_acquire:
  assumes "owned (locked l) H" "turn p l = (None, l')"
  shows "H = {} \<and> owned (locked l') {t} \<and> locked l'"
  using assms turn_acquires by (force simp: owned_def)

lemma owned_release:
  assumes "owned (locked l) H" "t \<in> H"
  shows "H = {t}" "owned (locked (release l)) {}" "locked l"
  using assms release_unlocks by (auto simp: owned_def split: if_splits)

lemma owned_unique:
  assumes "owned (locked l) H" "t \<in> H" "u \<in> H"
  shows "t = u"
  using assms by (auto simp: owned_def split: if_splits)

end

interpretation spin: mutex lock_turn unlock m_flag
proof
  fix p p' l l'
  show "lock_turn p l = (None, l') \<Longrightarrow> \<not> m_flag l \<and> m_flag l'"
    by (cases p) (auto simp: tryLock_def split: if_splits)
  show "lock_turn p l = (Some p', l') \<Longrightarrow> l' = l"
    by (cases p) (auto simp: tryLock_def split: if_splits)
  show "\<not> m_flag (unlock l)" by (simp add: unlock_def)
qed

text \<open>The set of threads at the points \<open>P\<close>, after one thread has moved.\<close>

lemma holders_upd:
  "{t. P ((f(x := v)) t)} = (if P v then insert x {t. P (f t)} else {t. P (f t)} - {x})"
  by auto

section \<open>Threads that share a lock\<close>

datatype thread_pc = Outside | Locking lock_pc | Holding

record lock_state =
  the_lock :: SpinLock
  thread :: "nat \<Rightarrow> thread_pc"

inductive lock_step :: "lock_state \<Rightarrow> lock_state \<Rightarrow> bool" where
  call: "thread s t = Outside \<Longrightarrow> lock_step s (s\<lparr>thread := (thread s)(t := Locking L_Loop)\<rparr>)"
| wait: "thread s t = Locking p \<Longrightarrow> lock_turn p (the_lock s) = (Some p', l) \<Longrightarrow>
    lock_step s (s\<lparr>the_lock := l, thread := (thread s)(t := Locking p')\<rparr>)"
| acquire: "thread s t = Locking p \<Longrightarrow> lock_turn p (the_lock s) = (None, l) \<Longrightarrow>
    lock_step s (s\<lparr>the_lock := l, thread := (thread s)(t := Holding)\<rparr>)"
| release: "thread s t = Holding \<Longrightarrow>
    lock_step s (s\<lparr>the_lock := unlock (the_lock s), thread := (thread s)(t := Outside)\<rparr>)"

inductive lock_reachable :: "SpinLock \<Rightarrow> lock_state \<Rightarrow> bool" for l where
  start: "lock_reachable l \<lparr>the_lock = unlock l, thread = \<lambda>_. Outside\<rparr>"
| step: "lock_reachable l s \<Longrightarrow> lock_step s s' \<Longrightarrow> lock_reachable l s'"

definition lock_inv :: "lock_state \<Rightarrow> bool" where
  "lock_inv s \<longleftrightarrow> owned (m_flag (the_lock s)) {t. thread s t = Holding}"

lemma lock_step_inv:
  assumes st: "lock_step s s'" and inv: "lock_inv s"
  shows "lock_inv s'"
  using st
proof cases
  case (acquire t p l)
  with spin.owned_acquire[OF inv[unfolded lock_inv_def] acquire(3), where t = t] show ?thesis
    by (simp add: lock_inv_def holders_upd[of "\<lambda>v. v = Holding"])
next
  case (release t)
  then have "t \<in> {u. thread s u = Holding}" by simp
  with spin.owned_release[OF inv[unfolded lock_inv_def]] release show ?thesis
    by (auto simp: lock_inv_def unlock_def)
next
  case (call t)
  then have "{u. thread s' u = Holding} = {u. thread s u = Holding}" by auto
  with call inv show ?thesis by (simp add: lock_inv_def)
next
  case (wait t p p' l)
  then have "{u. thread s' u = Holding} = {u. thread s u = Holding}" by auto
  with wait spin.turn_waits[OF wait(3)] inv show ?thesis by (simp add: lock_inv_def)
qed

lemma lock_reachable_inv: "lock_reachable l s \<Longrightarrow> lock_inv s"
proof (induction rule: lock_reachable.induct)
  case start
  then show ?case by (simp add: lock_inv_def owned_def unlock_def)
qed (rule lock_step_inv)

text \<open>
  A lock that yields after no attempts at all (\<open>setYieldingAndSpinCount(true, 0)\<close>, which no caller
  uses) is never acquired: \<open>lock\<close> runs around its loops without trying.
\<close>

lemma zero_spins_never_lock:
  assumes "m_yielding l" "m_spinCount l = 0" "p \<noteq> L_Once"
  shows "\<exists>q. lock_run n p l = (Some q, l)"
  using assms(3)
proof (induction n arbitrary: p)
  case (Suc n)
  then show ?case using assms(1,2) by (cases p) auto
qed simp

section \<open>The singleton\<close>

text \<open>
  The control points of one call of \<open>getInstance\<close>. Instances are named by addresses;
  \<open>constructed\<close> records the instances that were built, in order. The allocator gives \<open>new T\<close> an
  address that no living object has.
\<close>

datatype dclp_pc =
    D_Idle
  | D_Load
  | D_Lock lock_pc
  | D_Reload
  | D_New
  | D_Store nat
  | D_Unlock nat
  | D_Done nat

record dclp_state =
  dclp_lock :: SpinLock
  m_instance :: "nat option"
  constructed :: "nat list"
  caller :: "nat \<Rightarrow> dclp_pc"

inductive getInstance_step :: "dclp_state \<Rightarrow> dclp_state \<Rightarrow> bool" where
  call: "caller s t = D_Idle \<Longrightarrow> getInstance_step s (s\<lparr>caller := (caller s)(t := D_Load)\<rparr>)"
| fast: "caller s t = D_Load \<Longrightarrow> m_instance s = Some p \<Longrightarrow>
    getInstance_step s (s\<lparr>caller := (caller s)(t := D_Done p)\<rparr>)"
| slow: "caller s t = D_Load \<Longrightarrow> m_instance s = None \<Longrightarrow>
    getInstance_step s (s\<lparr>caller := (caller s)(t := D_Lock L_Loop)\<rparr>)"
| wait: "caller s t = D_Lock q \<Longrightarrow> lock_turn q (dclp_lock s) = (Some q', l) \<Longrightarrow>
    getInstance_step s (s\<lparr>dclp_lock := l, caller := (caller s)(t := D_Lock q')\<rparr>)"
| acquire: "caller s t = D_Lock q \<Longrightarrow> lock_turn q (dclp_lock s) = (None, l) \<Longrightarrow>
    getInstance_step s (s\<lparr>dclp_lock := l, caller := (caller s)(t := D_Reload)\<rparr>)"
| present: "caller s t = D_Reload \<Longrightarrow> m_instance s = Some p \<Longrightarrow>
    getInstance_step s (s\<lparr>caller := (caller s)(t := D_Unlock p)\<rparr>)"
| absent: "caller s t = D_Reload \<Longrightarrow> m_instance s = None \<Longrightarrow>
    getInstance_step s (s\<lparr>caller := (caller s)(t := D_New)\<rparr>)"
| new: "caller s t = D_New \<Longrightarrow> p \<notin> set (constructed s) \<Longrightarrow>
    getInstance_step s (s\<lparr>constructed := constructed s @ [p], caller := (caller s)(t := D_Store p)\<rparr>)"
| store: "caller s t = D_Store p \<Longrightarrow>
    getInstance_step s (s\<lparr>m_instance := Some p, caller := (caller s)(t := D_Unlock p)\<rparr>)"
| leave: "caller s t = D_Unlock p \<Longrightarrow>
    getInstance_step s (s\<lparr>dclp_lock := unlock (dclp_lock s), caller := (caller s)(t := D_Done p)\<rparr>)"
| again: "caller s t = D_Done p \<Longrightarrow> getInstance_step s (s\<lparr>caller := (caller s)(t := D_Idle)\<rparr>)"

inductive getInstance_reachable :: "dclp_state \<Rightarrow> bool" where
  start: "getInstance_reachable
    \<lparr>dclp_lock = SpinLock_new, m_instance = None, constructed = [], caller = \<lambda>_. D_Idle\<rparr>"
| step: "getInstance_reachable s \<Longrightarrow> getInstance_step s s' \<Longrightarrow> getInstance_reachable s'"

text \<open>The points inside the critical section.\<close>

fun in_section :: "dclp_pc \<Rightarrow> bool" where
  "in_section D_Reload = True"
| "in_section D_New = True"
| "in_section (D_Store _) = True"
| "in_section (D_Unlock _) = True"
| "in_section _ = False"

text \<open>What a caller at a control point knows of the instance.\<close>

fun caller_ok :: "nat option \<Rightarrow> nat list \<Rightarrow> dclp_pc \<Rightarrow> bool" where
  "caller_ok inst made D_New \<longleftrightarrow> inst = None \<and> made = []"
| "caller_ok inst made (D_Store p) \<longleftrightarrow> inst = None \<and> made = [p]"
| "caller_ok inst made (D_Unlock p) \<longleftrightarrow> inst = Some p"
| "caller_ok inst made (D_Done p) \<longleftrightarrow> inst = Some p"
| "caller_ok inst made _ \<longleftrightarrow> True"

definition dclp_inv :: "dclp_state \<Rightarrow> bool" where
  "dclp_inv s \<longleftrightarrow> owned (m_flag (dclp_lock s)) {t. in_section (caller s t)} \<and>
     (\<forall>t. caller_ok (m_instance s) (constructed s) (caller s t)) \<and>
     (case m_instance s of Some p \<Rightarrow> constructed s = [p]
      | None \<Rightarrow> constructed s = [] \<or> (\<exists>t p. caller s t = D_Store p))"

lemma section_unique:
  assumes "dclp_inv s" "in_section (caller s t)" "in_section (caller s u)"
  shows "t = u"
  using spin.owned_unique[of "dclp_lock s" "{t. in_section (caller s t)}" t u] assms
  by (simp add: dclp_inv_def)

text \<open>
  What holds for the callers outside the critical section does not depend on the list of the
  constructed instances, and survives the publication of the instance.
\<close>

lemma caller_ok_outside:
  "\<not> in_section c \<Longrightarrow> caller_ok inst made c \<Longrightarrow> inst = None \<or> inst' = inst \<Longrightarrow> caller_ok inst' made' c"
  by (cases c) auto

lemmas dclp_sets = holders_upd[of in_section]

text \<open>A step that only moves one caller, on its side of the critical section.\<close>

lemma dclp_inv_move:
  assumes inv: "dclp_inv s" and v: "in_section v = in_section (caller s t)"
    "caller_ok (m_instance s) (constructed s) v" "\<forall>p. caller s t \<noteq> D_Store p"
  shows "dclp_inv (s\<lparr>caller := (caller s)(t := v)\<rparr>)"
proof -
  define c where "c = (caller s)(t := v)"
  have "{u. in_section (c u)} = {u. in_section (caller s u)}" using v(1) by (auto simp: c_def)
  moreover have "\<exists>u p. caller s u = D_Store p \<Longrightarrow> \<exists>u p. c u = D_Store p"
    unfolding c_def using v(3) by (metis fun_upd_apply)
  moreover have "\<forall>u. caller_ok (m_instance s) (constructed s) (c u)"
    using inv v(2) by (simp add: dclp_inv_def c_def)
  ultimately show ?thesis using inv by (auto simp: dclp_inv_def simp flip: c_def split: option.splits)
qed

lemma getInstance_step_inv:
  assumes st: "getInstance_step s s'" and inv: "dclp_inv s"
  shows "dclp_inv s'"
proof -
  note own = inv[unfolded dclp_inv_def, THEN conjunct1]
  have ok: "caller_ok (m_instance s) (constructed s) (caller s t)" for t
    using inv by (simp add: dclp_inv_def)
  have made: "constructed s = (case m_instance s of Some p \<Rightarrow> [p] | None \<Rightarrow> [])" if "caller s t \<in> {D_Reload, D_New}" for t
    proof (cases "m_instance s")
    case None
    then have "constructed s = [] \<or> (\<exists>u p. caller s u = D_Store p)" using inv by (simp add: dclp_inv_def)
    moreover have "caller s u \<noteq> D_Store p" for u p using section_unique[OF inv, of t u] that by auto
    ultimately show ?thesis using None by auto
  qed (use inv in \<open>simp add: dclp_inv_def\<close>)
  have others: "\<not> in_section (caller s u)" if "in_section (caller s t)" "u \<noteq> t" for t u
    using section_unique[OF inv] that by blast
  have keep: "caller_ok i m (caller s u)" if "in_section (caller s t)" "u \<noteq> t" "m_instance s = None \<or> i = m_instance s" for i m t u
    using caller_ok_outside[OF others[OF that(1,2)] ok that(3)] .
  have same: "{u. u \<noteq> t \<longrightarrow> in_section (caller s u)} = {u. in_section (caller s u)}" if "in_section (caller s t)" for t
    using that by auto
  show ?thesis using st
  proof cases
    case (acquire t q l)
    note aq = spin.owned_acquire[OF own acquire(3), of t]
    then have "caller s u \<noteq> D_Store p" for u p by (metis (mono_tags) empty_Collect_eq in_section.simps(3))
    with aq acquire inv show ?thesis
      by (auto simp: dclp_inv_def dclp_sets split: option.splits)
  next
    case (leave t p)
    then have "t \<in> {u. in_section (caller s u)}" by simp
    from spin.owned_release[OF own this] leave inv ok[of t] show ?thesis
      by (auto simp: dclp_inv_def split: option.splits)
  next
    case (new t p)
    then show ?thesis using inv ok[of t] keep[of t] made[of t] same[of t]
      by (auto simp: dclp_inv_def dclp_sets split: option.splits)
  next
    case (store t p)
    then show ?thesis using inv ok[of t] keep[of t] same[of t]
      by (auto simp: dclp_inv_def dclp_sets)
  next
    case (absent t)
    then show ?thesis using inv made[of t] same[of t]
      by (auto simp: dclp_inv_def dclp_sets)
  next
    case (call t)
    then show ?thesis using dclp_inv_move[OF inv, of D_Load t] by simp
  next
    case (fast t p)
    then show ?thesis using dclp_inv_move[OF inv, of "D_Done p" t] by simp
  next
    case (slow t)
    then show ?thesis using dclp_inv_move[OF inv, of "D_Lock L_Loop" t] by simp
  next
    case (wait t q q' l)
    then show ?thesis using dclp_inv_move[OF inv, of "D_Lock q'" t] spin.turn_waits[OF wait(3)] by simp
  next
    case (present t p)
    then show ?thesis using dclp_inv_move[OF inv, of "D_Unlock p" t] by simp
  next
    case (again t p)
    then show ?thesis using dclp_inv_move[OF inv, of D_Idle t] by simp
  qed
qed

lemma getInstance_reachable_inv: "getInstance_reachable s \<Longrightarrow> dclp_inv s"
proof (induction rule: getInstance_reachable.induct)
  case start
  then show ?case by (simp add: dclp_inv_def SpinLock_new_def unlock_def)
qed (rule getInstance_step_inv)

section \<open>Properties\<close>

text \<open>C20: Mutual exclusion of the spin lock. However the steps of the threads interleave, and whatever
  the mode and the spin count, at most one thread is between \<open>lock\<close> and \<open>unlock\<close>, and the flag is set
  exactly while there is one: a held lock is marked, and a lock nobody holds is free to be taken.\<close>

theorem spin_lock_excludes:
  assumes "lock_reachable l s"
  shows "(m_flag (the_lock s) \<longleftrightarrow> (\<exists>t. thread s t = Holding)) \<and>
    (\<forall>t u. thread s t = Holding \<and> thread s u = Holding \<longrightarrow> t = u)"
proof -
  have own: "owned (m_flag (the_lock s)) {t. thread s t = Holding}"
    using lock_reachable_inv[OF assms] by (simp add: lock_inv_def)
  show ?thesis
  proof (cases "m_flag (the_lock s)")
    case True
    with own obtain t where "{t. thread s t = Holding} = {t}" by (auto simp: owned_def)
    then have "thread s u = Holding \<longleftrightarrow> u = t" for u by blast
    then show ?thesis using True by simp
  qed (use own in \<open>auto simp: owned_def\<close>)
qed

theorem spin_lock_excludes_witness:
  "\<exists>s s'. lock_reachable SpinLock_new s \<and> thread s 1 = Holding \<and> thread s 2 \<noteq> Holding \<and> m_flag (the_lock s) \<and>
     lock_reachable SpinLock_new s' \<and> thread s' 1 = Outside \<and> \<not> m_flag (the_lock s')"
proof -
  let ?l = "unlock SpinLock_new" and ?f = "\<lambda>_ :: nat. Outside"
  have "lock_reachable SpinLock_new \<lparr>the_lock = ?l, thread = ?f(1 := Locking L_Loop)\<rparr>"
    using lock_reachable.step[OF lock_reachable.start lock_step.call, of SpinLock_new 1] by simp
  from lock_reachable.step[OF this lock_step.wait, of 1 L_Loop "L_Spin 0" ?l]
  have "lock_reachable SpinLock_new \<lparr>the_lock = ?l, thread = ?f(1 := Locking (L_Spin 0))\<rparr>"
    by (simp add: SpinLock_new_def unlock_def)
  from lock_reachable.step[OF this lock_step.acquire, of 1 "L_Spin 0" "snd (tryLock ?l)"]
  have r: "lock_reachable SpinLock_new \<lparr>the_lock = snd (tryLock ?l), thread = ?f(1 := Holding)\<rparr>"
    by (simp add: SpinLock_new_def unlock_def tryLock_def DEFAULT_SPIN_COUNT_def)
  let ?s = "\<lparr>the_lock = snd (tryLock ?l), thread = ?f(1 := Holding)\<rparr>"
  let ?s' = "\<lparr>the_lock = unlock (snd (tryLock ?l)), thread = ?f(1 := Outside)\<rparr>"
  have r': "lock_reachable SpinLock_new ?s'"
    using lock_reachable.step[OF r lock_step.release, of 1] by simp
  have t: "thread ?s 1 = Holding" "thread ?s' 1 = Outside" "\<And>t. thread ?s' t \<noteq> Holding" by simp_all
  have x: "m_flag (the_lock ?s)" using spin_lock_excludes[OF r] t(1) by blast
  have y: "\<not> m_flag (the_lock ?s')" using spin_lock_excludes[OF r'] t(3) by blast
  have "thread ?s 2 \<noteq> Holding" using spin_lock_excludes[OF r] t(1) by (metis one_eq_numeral_iff num.distinct(1))
  then show ?thesis using r r' t x y by (intro exI[of _ ?s] exI[of _ ?s'] conjI)
qed

text \<open>A free lock is acquired at once. A call of \<open>lock\<close> that is at any of its control points when
  the flag is clear, and that no other thread then interrupts, returns after at most three steps
  with the lock held, unless the lock is set to yield after no attempts.\<close>

theorem free_lock_is_taken:
  assumes "\<not> m_flag l" "m_yielding l \<longrightarrow> 0 < m_spinCount l"
  shows "lock_run 3 p l = (None, l\<lparr>m_flag := True\<rparr>)"
  using assms by (cases p) (auto simp: numeral_3_eq_3 tryLock_def word_neq_0_conv)

theorem free_lock_is_taken_witness:
  "lock_run 3 L_Loop SpinLock_new = (None, SpinLock_new\<lparr>m_flag := True\<rparr>)"
  by (rule free_lock_is_taken) (simp_all add: SpinLock_new_def unlock_def DEFAULT_SPIN_COUNT_def)

text \<open>C21: The double checked locking builds one instance. Whatever the interleaving of the threads that
  call \<open>getInstance\<close>, at most one instance is ever constructed, and every call that returns gives
  that instance.\<close>

theorem getInstance_unique:
  assumes "getInstance_reachable s" "caller s t = D_Done p"
  shows "constructed s = [p] \<and> (\<forall>u q. caller s u = D_Done q \<longrightarrow> q = p)"
proof -
  note inv = getInstance_reachable_inv[OF assms(1)]
  have "caller_ok (m_instance s) (constructed s) (caller s u)" for u using inv by (simp add: dclp_inv_def)
  then have inst: "m_instance s = Some q" if "caller s u = D_Done q" for u q by (metis that caller_ok.simps(4))
  have q: "q = p" if "caller s u = D_Done q" for u q using inst[OF assms(2)] inst[OF that] by simp
  have "m_instance s = Some p" using inst[OF assms(2)] .
  then show ?thesis using inv q by (auto simp: dclp_inv_def)
qed

theorem getInstance_unique_witness:
  "\<exists>s. getInstance_reachable s \<and> caller s 0 = D_Done 7 \<and> constructed s = [7]"
proof -
  let ?l = SpinLock_new and ?f = "\<lambda>_ :: nat. D_Idle"
  let ?h = "?l\<lparr>m_flag := True\<rparr>"
  have l: "lock_turn L_Loop ?l = (Some (L_Spin 0), ?l)" "lock_turn (L_Spin 0) ?l = (None, ?h)"
    by (simp_all add: SpinLock_new_def unlock_def tryLock_def DEFAULT_SPIN_COUNT_def)
  let ?s = "\<lambda>l i c pc. \<lparr>dclp_lock = l, m_instance = i, constructed = c, caller = ?f(0 := pc)\<rparr>"
  have 1: "getInstance_reachable (?s ?l None [] D_Load)"
    using getInstance_reachable.step[OF getInstance_reachable.start getInstance_step.call, of 0] by simp
  have 2: "getInstance_reachable (?s ?l None [] (D_Lock L_Loop))"
    using getInstance_reachable.step[OF 1 getInstance_step.slow, of 0] by simp
  have 3: "getInstance_reachable (?s ?l None [] (D_Lock (L_Spin 0)))"
    using getInstance_reachable.step[OF 2 getInstance_step.wait, of 0 L_Loop] l by simp
  have 4: "getInstance_reachable (?s ?h None [] D_Reload)"
    using getInstance_reachable.step[OF 3 getInstance_step.acquire, of 0 "L_Spin 0"] l by simp
  have 5: "getInstance_reachable (?s ?h None [] D_New)"
    using getInstance_reachable.step[OF 4 getInstance_step.absent, of 0] by simp
  have 6: "getInstance_reachable (?s ?h None [7] (D_Store 7))"
    using getInstance_reachable.step[OF 5 getInstance_step.new, of 0 7] by simp
  have 7: "getInstance_reachable (?s ?h (Some 7) [7] (D_Unlock 7))"
    using getInstance_reachable.step[OF 6 getInstance_step.store, of 0 7] by simp
  have 8: "getInstance_reachable (?s (unlock ?h) (Some 7) [7] (D_Done 7))"
    using getInstance_reachable.step[OF 7 getInstance_step.leave, of 0 7] by simp
  show ?thesis using 8 getInstance_unique[OF 8, of 0 7] by fastforce
qed

end
