(* ===== verification/Session_Sharing.thy ===== *)
theory Session_Sharing
  imports Spin_Lock
begin

text \<open>
  One session slot as the reactor thread and the outgoing message processor share it: the statements
  of \<open>FixServerReactor::onClientDisconnected\<close>, \<open>onClientConnected\<close>, \<open>addSession\<close>, \<open>removeSession\<close> and
  \<open>handleLogonMessage\<close> (\<open>source/fix/fix_server_reactor.cpp\<close>, \<open>fix_session.cpp\<close>) interleaved with those of
  \<open>OutgoingMessageProcessor::run\<close> (\<open>source/server/server_outgoing_message_processor.cpp\<close>). The session
  lock protects a session while its client leaves; it does not protect the slot when it is used again.
\<close>

section \<open>The slot\<close>

text \<open>What a thread can run into: a session object that was deleted, or one whose lock is still null.\<close>

datatype race_failure = Use_after_free | Null_lock

text \<open>
  The control points. The reactor is waiting for an event; writes the counterparty of the session in
  \<open>handleLogonMessage\<close>; locks, saves, removes, closes and unlocks in \<open>onClientDisconnected\<close>; has created
  a new session, stored it in the slot, and set the flag of the slot in \<open>addSession\<close>, before \<open>initialise\<close>.
\<close>

datatype reactor_pc =
    R_Idle
  | R_Logon nat
  | R_Locking nat lock_pc
  | R_Save nat
  | R_Remove nat
  | R_Close nat
  | R_Unlock nat
  | R_Created nat
  | R_Stored nat
  | R_Flagged nat

text \<open>The processor polls its queues; has a report for the slot and its session, whose lock it takes; builds and sends the report.\<close>

datatype processor_pc =
    P_Idle
  | P_Locking nat lock_pc
  | P_Report nat
  | P_Unlock nat
  | P_Failed race_failure

text \<open>\<open>heap\<close>: the session objects that are alive, by address, with what \<open>m_sessionLock\<close> points to.\<close>

record sharing =
  slot_flag :: bool
  slot_session :: nat
  heap :: "nat \<Rightarrow> SpinLock option option"
  reactor :: reactor_pc
  processor :: processor_pc

definition object_lock :: "sharing \<Rightarrow> nat \<Rightarrow> race_failure + SpinLock" where
  "object_lock s a = (case heap s a of None \<Rightarrow> Inl Use_after_free | Some None \<Rightarrow> Inl Null_lock | Some (Some l) \<Rightarrow> Inr l)"

fun processor_object :: "processor_pc \<Rightarrow> nat option" where
  "processor_object (P_Locking a p) = Some a"
| "processor_object (P_Report a) = Some a"
| "processor_object (P_Unlock a) = Some a"
| "processor_object _ = None"

inductive sharing_step :: "sharing \<Rightarrow> sharing \<Rightarrow> bool" where
  get_session: "processor s = P_Idle \<Longrightarrow> slot_flag s \<Longrightarrow>
    sharing_step s (s\<lparr>processor := P_Locking (slot_session s) L_Loop\<rparr>)"
| processor_waits: "processor s = P_Locking a p \<Longrightarrow> object_lock s a = Inr l \<Longrightarrow> lock_turn p l = (Some p', l') \<Longrightarrow>
    sharing_step s (s\<lparr>heap := (heap s)(a \<mapsto> Some l'), processor := P_Locking a p'\<rparr>)"
| processor_acquires: "processor s = P_Locking a p \<Longrightarrow> object_lock s a = Inr l \<Longrightarrow> lock_turn p l = (None, l') \<Longrightarrow>
    sharing_step s (s\<lparr>heap := (heap s)(a \<mapsto> Some l'), processor := P_Report a\<rparr>)"
| report: "processor s = P_Report a \<Longrightarrow> object_lock s a = Inr l \<Longrightarrow>
    sharing_step s (s\<lparr>processor := P_Unlock a\<rparr>)"
| processor_unlocks: "processor s = P_Unlock a \<Longrightarrow> object_lock s a = Inr l \<Longrightarrow>
    sharing_step s (s\<lparr>heap := (heap s)(a \<mapsto> Some (unlock l)), processor := P_Idle\<rparr>)"
| processor_fails: "processor_object (processor s) = Some a \<Longrightarrow> object_lock s a = Inl e \<Longrightarrow>
    sharing_step s (s\<lparr>processor := P_Failed e\<rparr>)"
| logon: "reactor s = R_Idle \<Longrightarrow> slot_flag s \<Longrightarrow> sharing_step s (s\<lparr>reactor := R_Logon (slot_session s)\<rparr>)"
| logon_done: "reactor s = R_Logon a \<Longrightarrow> sharing_step s (s\<lparr>reactor := R_Idle\<rparr>)"
| disconnect: "reactor s = R_Idle \<Longrightarrow> slot_flag s \<Longrightarrow>
    sharing_step s (s\<lparr>reactor := R_Locking (slot_session s) L_Loop\<rparr>)"
| reactor_waits: "reactor s = R_Locking a p \<Longrightarrow> object_lock s a = Inr l \<Longrightarrow> lock_turn p l = (Some p', l') \<Longrightarrow>
    sharing_step s (s\<lparr>heap := (heap s)(a \<mapsto> Some l'), reactor := R_Locking a p'\<rparr>)"
| reactor_acquires: "reactor s = R_Locking a p \<Longrightarrow> object_lock s a = Inr l \<Longrightarrow> lock_turn p l = (None, l') \<Longrightarrow>
    sharing_step s (s\<lparr>heap := (heap s)(a \<mapsto> Some l'), reactor := R_Save a\<rparr>)"
| save: "reactor s = R_Save a \<Longrightarrow> sharing_step s (s\<lparr>reactor := R_Remove a\<rparr>)"
| remove: "reactor s = R_Remove a \<Longrightarrow> sharing_step s (s\<lparr>slot_flag := False, reactor := R_Close a\<rparr>)"
| close_peer: "reactor s = R_Close a \<Longrightarrow> sharing_step s (s\<lparr>reactor := R_Unlock a\<rparr>)"
| reactor_unlocks: "reactor s = R_Unlock a \<Longrightarrow> object_lock s a = Inr l \<Longrightarrow>
    sharing_step s (s\<lparr>heap := (heap s)(a \<mapsto> Some (unlock l)), reactor := R_Idle\<rparr>)"
| create: "reactor s = R_Idle \<Longrightarrow> \<not> slot_flag s \<Longrightarrow> heap s b = None \<Longrightarrow>
    sharing_step s (s\<lparr>heap := (heap s)(b \<mapsto> None), reactor := R_Created b\<rparr>)"
| store: "reactor s = R_Created b \<Longrightarrow>
    sharing_step s (s\<lparr>heap := (heap s)(slot_session s := None), slot_session := b, reactor := R_Stored b\<rparr>)"
| flag: "reactor s = R_Stored b \<Longrightarrow> sharing_step s (s\<lparr>slot_flag := True, reactor := R_Flagged b\<rparr>)"
| initialise: "reactor s = R_Flagged b \<Longrightarrow>
    sharing_step s (s\<lparr>heap := (heap s)(b \<mapsto> Some SpinLock_new), reactor := R_Idle\<rparr>)"

text \<open>A client is connected at the start, its session at address \<open>a\<close>.\<close>

definition sharing_start :: "nat \<Rightarrow> sharing" where
  "sharing_start a = \<lparr>slot_flag = True, slot_session = a, heap = [a \<mapsto> Some SpinLock_new], reactor = R_Idle, processor = P_Idle\<rparr>"

inductive sharing_reachable :: "sharing \<Rightarrow> bool" where
  start: "sharing_reachable (sharing_start a)"
| step: "sharing_reachable s \<Longrightarrow> sharing_step s s' \<Longrightarrow> sharing_reachable s'"

text \<open>The runs in which the slot is not used again.\<close>

inductive one_client_reachable :: "sharing \<Rightarrow> bool" where
  one_start: "one_client_reachable (sharing_start a)"
| one_step: "one_client_reachable s \<Longrightarrow> sharing_step s s' \<Longrightarrow> (\<forall>b. reactor s' \<noteq> R_Created b) \<Longrightarrow> one_client_reachable s'"

section \<open>Who holds the session\<close>

fun reactor_holds :: "reactor_pc \<Rightarrow> bool" where
  "reactor_holds (R_Save a) = True"
| "reactor_holds (R_Remove a) = True"
| "reactor_holds (R_Close a) = True"
| "reactor_holds (R_Unlock a) = True"
| "reactor_holds _ = False"

fun processor_holds :: "processor_pc \<Rightarrow> bool" where
  "processor_holds (P_Report a) = True"
| "processor_holds (P_Unlock a) = True"
| "processor_holds _ = False"

text \<open>The two threads are numbered by \<open>True\<close> and \<open>False\<close>.\<close>

definition session_holders :: "sharing \<Rightarrow> bool set" where
  "session_holders s = {t. if t then reactor_holds (reactor s) else processor_holds (processor s)}"

fun reactor_object :: "reactor_pc \<Rightarrow> nat option" where
  "reactor_object R_Idle = None"
| "reactor_object (R_Logon a) = Some a"
| "reactor_object (R_Locking a p) = Some a"
| "reactor_object (R_Save a) = Some a"
| "reactor_object (R_Remove a) = Some a"
| "reactor_object (R_Close a) = Some a"
| "reactor_object (R_Unlock a) = Some a"
| "reactor_object (R_Created a) = Some a"
| "reactor_object (R_Stored a) = Some a"
| "reactor_object (R_Flagged a) = Some a"

fun connecting :: "reactor_pc \<Rightarrow> bool" where
  "connecting (R_Created a) = True"
| "connecting (R_Stored a) = True"
| "connecting (R_Flagged a) = True"
| "connecting _ = False"

definition one_client_inv :: "sharing \<Rightarrow> bool" where
  "one_client_inv s \<longleftrightarrow> (\<exists>l. heap s (slot_session s) = Some (Some l) \<and> owned (m_flag l) (session_holders s)) \<and>
     reactor_object (reactor s) \<in> {None, Some (slot_session s)} \<and> \<not> connecting (reactor s) \<and>
     processor_object (processor s) \<in> {None, Some (slot_session s)} \<and> (\<forall>e. processor s \<noteq> P_Failed e)"

section \<open>Lemmas\<close>

lemma owned_pair: "owned b {t. if t then A else B} \<longleftrightarrow> (b \<longleftrightarrow> A \<or> B) \<and> \<not> (A \<and> B)"
proof -
  have "{t. if t then A else B} = (if A then {True} else {}) \<union> (if B then {False} else {})" by auto
  then show ?thesis by (auto simp: owned_def)
qed

lemma object_lock_Inr: "object_lock s a = Inr l \<longleftrightarrow> heap s a = Some (Some l)"
  by (auto simp: object_lock_def split: option.splits)

lemmas inv_simps = one_client_inv_def session_holders_def owned_pair object_lock_Inr

lemma one_client_step:
  assumes st: "sharing_step s s'" and inv: "one_client_inv s" and one: "\<forall>b. reactor s' \<noteq> R_Created b"
  shows "one_client_inv s'"
proof -
  obtain l where l: "heap s (slot_session s) = Some (Some l)" using inv by (auto simp: inv_simps)
  show ?thesis using st
  proof cases
    case (processor_waits a p l2 p' l')
    with spin.turn_waits[OF processor_waits(4)] inv show ?thesis by (auto simp: inv_simps)
  next
    case (processor_acquires a p l2 l')
    with spin.turn_acquires[OF processor_acquires(4)] inv show ?thesis by (auto simp: inv_simps)
  next
    case (reactor_waits a p l2 p' l')
    with spin.turn_waits[OF reactor_waits(4)] inv show ?thesis by (auto simp: inv_simps)
  next
    case (reactor_acquires a p l2 l')
    with spin.turn_acquires[OF reactor_acquires(4)] inv show ?thesis by (auto simp: inv_simps)
  next
    case (create b)
    then show ?thesis using one by simp
  next
    case (processor_fails a e)
    then show ?thesis using inv l by (auto simp: inv_simps object_lock_def)
  qed (use inv in \<open>auto simp: inv_simps unlock_def\<close>)
qed

lemma one_client_reachable_inv: "one_client_reachable s \<Longrightarrow> one_client_inv s"
proof (induction rule: one_client_reachable.induct)
  case (one_start a)
  then show ?case by (simp add: inv_simps sharing_start_def SpinLock_new_def unlock_def)
qed (rule one_client_step)

section \<open>Sample runs\<close>

abbreviation (input) sharing_at :: "bool \<Rightarrow> nat \<Rightarrow> (nat \<Rightarrow> SpinLock option option) \<Rightarrow> reactor_pc \<Rightarrow> processor_pc \<Rightarrow> sharing" where
  "sharing_at f a h r p \<equiv> \<lparr>slot_flag = f, slot_session = a, heap = h, reactor = r, processor = p\<rparr>"

definition taken_lock :: SpinLock where
  "taken_lock = SpinLock_new\<lparr>m_flag := True\<rparr>"

lemma fresh_lock:
  "m_yielding SpinLock_new" "0 < m_spinCount SpinLock_new" "tryLock SpinLock_new = (True, taken_lock)"
  "unlock taken_lock = SpinLock_new"
  by (simp_all add: SpinLock_new_def unlock_def taken_lock_def tryLock_def DEFAULT_SPIN_COUNT_def)

lemma get_session_run: "sharing_reachable (sharing_at True 0 [0 \<mapsto> Some SpinLock_new] R_Idle (P_Locking 0 L_Loop))"
  using sharing_reachable.step[OF sharing_reachable.start sharing_step.get_session, of 0] by (simp add: sharing_start_def)

text \<open>The client of the slot leaves, whatever the processor is about to do.\<close>

lemma disconnect_run:
  assumes "sharing_reachable (sharing_at True 0 [0 \<mapsto> Some SpinLock_new] R_Idle p)"
  shows "sharing_reachable (sharing_at False 0 [0 \<mapsto> Some SpinLock_new] R_Idle p)"
proof -
  let ?h = "[0 \<mapsto> Some SpinLock_new]" and ?h' = "[0 \<mapsto> Some taken_lock]"
  have "sharing_reachable (sharing_at True 0 ?h (R_Locking 0 L_Loop) p)"
    using sharing_reachable.step[OF assms sharing_step.disconnect] by simp
  from sharing_reachable.step[OF this sharing_step.reactor_waits, of 0 L_Loop SpinLock_new "L_Spin 0" SpinLock_new]
  have "sharing_reachable (sharing_at True 0 ?h (R_Locking 0 (L_Spin 0)) p)"
    by (simp add: fresh_lock object_lock_Inr)
  from sharing_reachable.step[OF this sharing_step.reactor_acquires, of 0 "L_Spin 0" SpinLock_new taken_lock]
  have "sharing_reachable (sharing_at True 0 ?h' (R_Save 0) p)"
    by (simp add: fresh_lock object_lock_Inr)
  from sharing_reachable.step[OF this sharing_step.save, of 0]
  have "sharing_reachable (sharing_at True 0 ?h' (R_Remove 0) p)" by simp
  from sharing_reachable.step[OF this sharing_step.remove, of 0]
  have "sharing_reachable (sharing_at False 0 ?h' (R_Close 0) p)" by simp
  from sharing_reachable.step[OF this sharing_step.close_peer, of 0]
  have "sharing_reachable (sharing_at False 0 ?h' (R_Unlock 0) p)" by simp
  from sharing_reachable.step[OF this sharing_step.reactor_unlocks, of 0 taken_lock]
  show ?thesis by (simp add: fresh_lock object_lock_Inr)
qed

text \<open>The next client gets the slot: its session replaces the old one, which is deleted.\<close>

lemma reuse_run:
  assumes "sharing_reachable (sharing_at True 0 [0 \<mapsto> Some SpinLock_new] R_Idle p)"
  shows "sharing_reachable (sharing_at False 1 [1 \<mapsto> None] (R_Stored 1) p)"
proof -
  have "sharing_reachable (sharing_at False 0 [0 \<mapsto> Some SpinLock_new, 1 \<mapsto> None] (R_Created 1) p)"
    using sharing_reachable.step[OF disconnect_run[OF assms] sharing_step.create, of 1] by simp
  from sharing_reachable.step[OF this sharing_step.store, of 1]
  show ?thesis by (simp add: fun_upd_twist)
qed

section \<open>Properties\<close>

text \<open>C34: The session lock protects a session while its client leaves. However the disconnection of a
  client interleaves with the reports that the processor sends to it, as long as the slot is not used
  again the processor never touches a deleted session or a null lock; it and the disconnection are never
  both between locking and unlocking the session; and the flag of the lock is set exactly while one is.\<close>

theorem session_lock_protects:
  assumes "one_client_reachable s"
  shows "(\<forall>e. processor s \<noteq> P_Failed e) \<and> \<not> (reactor_holds (reactor s) \<and> processor_holds (processor s)) \<and>
    (\<exists>l. object_lock s (slot_session s) = Inr l \<and> (m_flag l \<longleftrightarrow> reactor_holds (reactor s) \<or> processor_holds (processor s)))"
  using one_client_reachable_inv[OF assms] by (auto simp: inv_simps)

theorem session_lock_protects_witness:
  "\<exists>s. one_client_reachable s \<and> processor s = P_Report 0 \<and> \<not> reactor_holds (reactor s) \<and>
     (\<exists>l. object_lock s (slot_session s) = Inr l \<and> m_flag l)"
proof -
  let ?h = "[0 \<mapsto> Some SpinLock_new]"
  have "one_client_reachable (sharing_at True 0 ?h R_Idle (P_Locking 0 L_Loop))"
    using one_client_reachable.one_step[OF one_client_reachable.one_start sharing_step.get_session, of 0] by (simp add: sharing_start_def)
  from one_client_reachable.one_step[OF this sharing_step.processor_waits, of 0 L_Loop SpinLock_new "L_Spin 0" SpinLock_new]
  have "one_client_reachable (sharing_at True 0 ?h R_Idle (P_Locking 0 (L_Spin 0)))"
    by (simp add: fresh_lock object_lock_Inr)
  from one_client_reachable.one_step[OF this sharing_step.processor_acquires, of 0 "L_Spin 0" SpinLock_new taken_lock]
  have r: "one_client_reachable (sharing_at True 0 [0 \<mapsto> Some taken_lock] R_Idle (P_Report 0))"
    by (simp add: fresh_lock object_lock_Inr)
  show ?thesis using r session_lock_protects[OF r] by (intro exI[of _ "sharing_at True 0 [0 \<mapsto> Some taken_lock] R_Idle (P_Report 0)"]) auto
qed

text \<open>C35: A slot that is used again is not protected. A report that has found its session before the client left
  can lock the session after the next client has replaced it: a deleted object. A report that finds the
  session of the next client before that is initialised locks a null pointer. And a logon, which takes no
  lock, writes the counterparty of the session while a report reads it.\<close>

theorem session_slot_races:
  "(\<exists>s. sharing_reachable s \<and> processor s = P_Failed Use_after_free) \<and>
   (\<exists>s. sharing_reachable s \<and> processor s = P_Failed Null_lock) \<and>
   (\<exists>s a. sharing_reachable s \<and> reactor s = R_Logon a \<and> processor s = P_Report a)"
proof (intro conjI)
  from reuse_run[OF get_session_run] sharing_step.processor_fails[of "sharing_at False 1 [1 \<mapsto> None] (R_Stored 1) (P_Locking 0 L_Loop)" 0 Use_after_free]
  show "\<exists>s. sharing_reachable s \<and> processor s = P_Failed Use_after_free"
    using sharing_reachable.step by (fastforce simp: object_lock_def)
next
  have "sharing_reachable (sharing_at True 0 [0 \<mapsto> Some SpinLock_new] R_Idle P_Idle)"
    using sharing_reachable.start[of 0] by (simp add: sharing_start_def)
  from sharing_reachable.step[OF reuse_run[OF this] sharing_step.flag, of 1]
  have "sharing_reachable (sharing_at True 1 [1 \<mapsto> None] (R_Flagged 1) P_Idle)" by simp
  from sharing_reachable.step[OF this sharing_step.get_session]
  have "sharing_reachable (sharing_at True 1 [1 \<mapsto> None] (R_Flagged 1) (P_Locking 1 L_Loop))" by simp
  from sharing_reachable.step[OF this sharing_step.processor_fails, of 1 Null_lock]
  show "\<exists>s. sharing_reachable s \<and> processor s = P_Failed Null_lock" by (fastforce simp: object_lock_def)
next
  from sharing_reachable.step[OF get_session_run sharing_step.processor_waits, of 0 L_Loop SpinLock_new "L_Spin 0" SpinLock_new]
  have "sharing_reachable (sharing_at True 0 [0 \<mapsto> Some SpinLock_new] R_Idle (P_Locking 0 (L_Spin 0)))"
    by (simp add: fresh_lock object_lock_Inr)
  from sharing_reachable.step[OF this sharing_step.processor_acquires, of 0 "L_Spin 0" SpinLock_new taken_lock]
  have "sharing_reachable (sharing_at True 0 [0 \<mapsto> Some taken_lock] R_Idle (P_Report 0))"
    by (simp add: fresh_lock object_lock_Inr)
  from sharing_reachable.step[OF this sharing_step.logon]
  show "\<exists>s a. sharing_reachable s \<and> reactor s = R_Logon a \<and> processor s = P_Report a" by fastforce
qed

end
