(* ===== verification/Observer.thy ===== *)
theory Observer
  imports Prelude
begin

text \<open>
  \<open>source/core/design_patterns/observer.hpp\<close>: an observable holds pointers to its observers, numbers
  here, and calls each of them with the text of an event. What an observer does is a parameter.
\<close>

type_synonym Observable = "nat list"

definition attach :: "nat \<Rightarrow> Observable \<Rightarrow> Observable" where
  "attach observer m_observers = m_observers @ [observer]"

definition notify :: "(nat \<Rightarrow> string \<Rightarrow> 's \<Rightarrow> 's result) \<Rightarrow> string \<Rightarrow> Observable \<Rightarrow> 's \<Rightarrow> 's result" where
  "notify onEvent eventMessage m_observers s = res_fold (\<lambda>observer. onEvent observer eventMessage) m_observers s"

text \<open>Observers are called in the order in which they were attached, each as often as it was; a failure of one
  keeps the event from those after it.\<close>

lemma notify_in_order:
  "notify (\<lambda>observer msg log. Inr (log @ [(observer, msg)])) msg obs log = Inr (log @ map (\<lambda>observer. (observer, msg)) obs)"
  by (induction obs arbitrary: log) (simp_all add: notify_def)

lemma notify_attach:
  "notify onEvent msg (attach observer obs) s = res_bind (notify onEvent msg obs s) (onEvent observer msg)"
  by (simp add: notify_def attach_def res_bind_def split: sum.split)

end
