(* ===== verification/Spsc_Interleaving.thy ===== *)
theory Spsc_Interleaving
  imports Ring_Buffer
begin

text \<open>
  One producer thread inside \<open>push\<close> and one consumer thread inside \<open>tryPop\<close>, interleaved at every
  access to shared memory (\<open>source/core/concurrency/ring_buffer_spsc_lockfree.hpp\<close>). Each counter
  has a single writer and is published with release and read with acquire ordering, so the accesses
  are interleaved in program order. The ghost fields record the values whose push was published and
  the values that \<open>tryPop\<close> has handed out.
\<close>

section \<open>Thread states\<close>

text \<open>
  The producer, with the value it pushes: before \<open>m_write.load()\<close>, before the test against
  \<open>m_read.load()\<close>, before the store into the buffer, before \<open>m_write.store()\<close>.
\<close>

datatype 'a producer = P_Idle | P_Load 'a | P_Test 'a cint | P_Store 'a cint | P_Publish 'a cint

text \<open>The consumer: before the test against \<open>m_write.load()\<close>, before the read of the buffer,
  before \<open>m_read.store()\<close>.\<close>

datatype 'a consumer = C_Idle | C_Test cint | C_Read cint | C_Advance cint 'a

record 'a spsc =
  ring :: "'a RingBuffer"
  prod :: "'a producer"
  cons :: "'a consumer"
  pushed :: "'a list"
  popped :: "'a list"

inductive producer_step :: "'a spsc \<Rightarrow> 'a spsc \<Rightarrow> bool" where
  call: "prod s = P_Idle \<Longrightarrow> producer_step s (s\<lparr>prod := P_Load v\<rparr>)"
| load_tail: "prod s = P_Load v \<Longrightarrow> producer_step s (s\<lparr>prod := P_Test v (m_write (ring s))\<rparr>)"
| has_room: "prod s = P_Test v t \<Longrightarrow>
    (scast (t - m_read (ring s)) :: csize) \<le> of_nat (m_capacity (ring s)) - 1 \<Longrightarrow>
    producer_step s (s\<lparr>prod := P_Store v t\<rparr>)"
| retry: "prod s = P_Test v t \<Longrightarrow>
    \<not> (scast (t - m_read (ring s)) :: csize) \<le> of_nat (m_capacity (ring s)) - 1 \<Longrightarrow>
    producer_step s (s\<lparr>prod := P_Load v\<rparr>)"
| store: "prod s = P_Store v t \<Longrightarrow>
    producer_step s (s\<lparr>ring := (ring s)\<lparr>m_buffer := (m_buffer (ring s))[slot (ring s) t := v]\<rparr>,
                       prod := P_Publish v t\<rparr>)"
| publish: "prod s = P_Publish v t \<Longrightarrow>
    producer_step s (s\<lparr>ring := (ring s)\<lparr>m_write := increment t\<rparr>, prod := P_Idle,
                       pushed := pushed s @ [v]\<rparr>)"

inductive consumer_step :: "'a spsc \<Rightarrow> 'a spsc \<Rightarrow> bool" where
  load_head: "cons s = C_Idle \<Longrightarrow> consumer_step s (s\<lparr>cons := C_Test (m_read (ring s))\<rparr>)"
| empty: "cons s = C_Test h \<Longrightarrow> h = m_write (ring s) \<Longrightarrow> consumer_step s (s\<lparr>cons := C_Idle\<rparr>)"
| non_empty: "cons s = C_Test h \<Longrightarrow> h \<noteq> m_write (ring s) \<Longrightarrow> consumer_step s (s\<lparr>cons := C_Read h\<rparr>)"
| read: "cons s = C_Read h \<Longrightarrow>
    consumer_step s (s\<lparr>cons := C_Advance h (m_buffer (ring s) ! slot (ring s) h)\<rparr>)"
| advance: "cons s = C_Advance h x \<Longrightarrow>
    consumer_step s (s\<lparr>ring := (ring s)\<lparr>m_read := increment h\<rparr>, cons := C_Idle,
                       popped := popped s @ [x]\<rparr>)"

inductive spsc_reachable :: "'a RingBuffer \<Rightarrow> 'a spsc \<Rightarrow> bool" for rb where
  start: "spsc_reachable rb \<lparr>ring = rb, prod = P_Idle, cons = C_Idle, pushed = [], popped = []\<rparr>"
| producer: "spsc_reachable rb s \<Longrightarrow> producer_step s s' \<Longrightarrow> spsc_reachable rb s'"
| consumer: "spsc_reachable rb s \<Longrightarrow> consumer_step s s' \<Longrightarrow> spsc_reachable rb s'"

section \<open>The invariant\<close>

fun producer_ok :: "'a RingBuffer \<Rightarrow> 'a producer \<Rightarrow> bool" where
  "producer_ok rb (P_Test v t) = (t = m_write rb)"
| "producer_ok rb (P_Store v t) = (t = m_write rb \<and> length (rb_list rb) < m_capacity rb)"
| "producer_ok rb (P_Publish v t) =
     (t = m_write rb \<and> length (rb_list rb) < m_capacity rb \<and> m_buffer rb ! slot rb t = v)"
| "producer_ok rb _ = True"

fun consumer_ok :: "'a RingBuffer \<Rightarrow> 'a consumer \<Rightarrow> bool" where
  "consumer_ok rb (C_Test h) = (h = m_read rb)"
| "consumer_ok rb (C_Read h) = (h = m_read rb \<and> rb_list rb \<noteq> [])"
| "consumer_ok rb (C_Advance h x) = (h = m_read rb \<and> (\<exists>xs. rb_list rb = x # xs))"
| "consumer_ok rb C_Idle = True"

definition spsc_inv :: "'a list \<Rightarrow> 'a spsc \<Rightarrow> bool" where
  "spsc_inv xs0 s \<longleftrightarrow> rb_inv (ring s) \<and> producer_ok (ring s) (prod s) \<and> consumer_ok (ring s) (cons s) \<and>
     xs0 @ pushed s = popped s @ rb_list (ring s)"

text \<open>The interference lemmas: what one thread does to the buffer keeps what the other relies on.\<close>

lemma consumer_ok_append:
  assumes "consumer_ok rb c" "m_read rb' = m_read rb" "rb_list rb' = rb_list rb @ ys"
  shows "consumer_ok rb' c"
  using assms by (cases c) auto

lemma producer_ok_advance:
  assumes "producer_ok rb p" "m_write rb' = m_write rb" "m_capacity rb' = m_capacity rb"
    "m_buffer rb' = m_buffer rb" "rb_list rb = x # rb_list rb'"
  shows "producer_ok rb' p"
  using assms by (cases p) (auto simp: slot_def)

lemma rb_list_head:
  assumes "rb_inv rb" "rb_list rb \<noteq> []"
  shows "hd (rb_list rb) = m_buffer rb ! slot rb (m_read rb)"
  using rb_advance(2)[OF assms(1)] assms(2) rb_list_Nil_iff[of rb] by simp

lemma spsc_inv_store:
  assumes inv: "spsc_inv xs0 s" and pc: "prod s = P_Store v t"
  shows "spsc_inv xs0 (s\<lparr>ring := (ring s)\<lparr>m_buffer := (m_buffer (ring s))[slot (ring s) t := v]\<rparr>,
                       prod := P_Publish v t\<rparr>)"
proof -
  let ?r = "(ring s)\<lparr>m_buffer := (m_buffer (ring s))[slot (ring s) t := v]\<rparr>"
  have rb: "rb_inv (ring s)" and t: "t = m_write (ring s)"
    and room: "length (rb_list (ring s)) < m_capacity (ring s)"
    using inv pc by (auto simp: spsc_inv_def)
  note st = rb_store[OF rb room, of v, folded t]
  have "consumer_ok ?r (cons s)"
    using consumer_ok_append[of "ring s" "cons s" ?r "[]"] inv st(2) by (simp add: spsc_inv_def)
  moreover have "m_write ?r = t" "m_capacity ?r = m_capacity (ring s)" by (simp_all add: t)
  ultimately show ?thesis using inv st room by (simp add: spsc_inv_def)
qed

lemma spsc_inv_publish:
  assumes inv: "spsc_inv xs0 s" and pc: "prod s = P_Publish v t"
  shows "spsc_inv xs0 (s\<lparr>ring := (ring s)\<lparr>m_write := increment t\<rparr>, prod := P_Idle, pushed := pushed s @ [v]\<rparr>)"
proof -
  let ?r = "(ring s)\<lparr>m_write := increment t\<rparr>"
  have rb: "rb_inv (ring s)" and t: "t = m_write (ring s)"
    and v: "m_buffer (ring s) ! slot (ring s) (m_write (ring s)) = v"
    and room: "length (rb_list (ring s)) < m_capacity (ring s)"
    using inv pc by (auto simp: spsc_inv_def)
  note pb = rb_publish[OF rb room, folded t]
  have "consumer_ok ?r (cons s)"
    using consumer_ok_append[of "ring s" "cons s" ?r "[v]"] inv pb(2) v t by (simp add: spsc_inv_def)
  then show ?thesis using inv pb v t by (simp add: spsc_inv_def)
qed

lemma spsc_inv_advance:
  assumes inv: "spsc_inv xs0 s" and pc: "cons s = C_Advance h x"
  shows "spsc_inv xs0 (s\<lparr>ring := (ring s)\<lparr>m_read := increment h\<rparr>, cons := C_Idle, popped := popped s @ [x]\<rparr>)"
proof -
  let ?r = "(ring s)\<lparr>m_read := increment h\<rparr>"
  have rb: "rb_inv (ring s)" and h: "h = m_read (ring s)" and x: "\<exists>xs. rb_list (ring s) = x # xs"
    using inv pc by (auto simp: spsc_inv_def)
  then have ne: "m_read (ring s) \<noteq> m_write (ring s)" using rb_list_Nil_iff[of "ring s"] by auto
  note ad = rb_advance[OF rb ne, folded h]
  have l: "rb_list (ring s) = x # rb_list ?r" using ad(2) x by auto
  then have "producer_ok ?r (prod s)"
    using producer_ok_advance[of "ring s" "prod s" ?r x] inv by (simp add: spsc_inv_def)
  then show ?thesis using inv ad(1) l by (simp add: spsc_inv_def)
qed

lemma producer_step_inv:
  assumes step: "producer_step s s'" and inv: "spsc_inv xs0 s"
  shows "spsc_inv xs0 s'"
  using step
proof cases
  case (has_room v t)
  have "t = m_write (ring s)" "rb_inv (ring s)" using inv has_room by (simp_all add: spsc_inv_def)
  then have "length (rb_list (ring s)) < m_capacity (ring s)"
    using has_room tryPush_test[of "ring s"] by simp
  then show ?thesis using has_room inv by (simp add: spsc_inv_def)
next
  case (store v t)
  then show ?thesis using spsc_inv_store[OF inv] by simp
next
  case (publish v t)
  then show ?thesis using spsc_inv_publish[OF inv] by simp
qed (use inv in \<open>simp_all add: spsc_inv_def\<close>)

lemma consumer_step_inv:
  assumes step: "consumer_step s s'" and inv: "spsc_inv xs0 s"
  shows "spsc_inv xs0 s'"
  using step
proof cases
  case (non_empty h)
  then show ?thesis using inv by (simp add: spsc_inv_def rb_list_Nil_iff)
next
  case (read h)
  then have "rb_list (ring s) \<noteq> []" "h = m_read (ring s)" "rb_inv (ring s)"
    using inv by (simp_all add: spsc_inv_def)
  then have "\<exists>xs. rb_list (ring s) = m_buffer (ring s) ! slot (ring s) h # xs"
    using rb_list_head[of "ring s"] by (cases "rb_list (ring s)") auto
  then show ?thesis using read inv by (simp add: spsc_inv_def)
next
  case (advance h x)
  then show ?thesis using spsc_inv_advance[OF inv] by simp
qed (use inv in \<open>simp_all add: spsc_inv_def\<close>)

lemma spsc_reachable_inv:
  "spsc_reachable rb s \<Longrightarrow> rb_inv rb \<Longrightarrow> spsc_inv (rb_list rb) s"
  by (induction rule: spsc_reachable.induct)
    (auto simp: spsc_inv_def[where s = "\<lparr>ring = _, prod = _, cons = _, pushed = _, popped = _\<rparr>"]
      intro: producer_step_inv consumer_step_inv)

section \<open>A sample run\<close>

text \<open>One value is published, a second one is about to be stored, the consumer is about to read.\<close>

definition sample_spsc :: "nat spsc" where
  "sample_spsc = \<lparr>ring = (RingBuffer_new 0 4)\<lparr>m_buffer := [7, 0, 0, 0], m_write := 1\<rparr>,
     prod = P_Store 8 1, cons = C_Read 0, pushed = [7], popped = []\<rparr>"

lemma sample_spsc_reachable: "spsc_reachable (RingBuffer_new 0 4) sample_spsc"
proof -
  let ?rb = "RingBuffer_new (0 :: nat) 4"
  let ?s = "\<lambda>r p c ps. \<lparr>ring = r, prod = p, cons = c, pushed = ps, popped = []\<rparr>"
  let ?rb1 = "?rb\<lparr>m_buffer := [7, 0, 0, 0]\<rparr>"
  have rb: "m_write ?rb = 0" "m_read ?rb = 0" "m_capacity ?rb = 4" "m_buffer ?rb = [0, 0, 0, 0]"
    by (simp_all add: RingBuffer_new_def numeral_eq_Suc)
  have "spsc_reachable ?rb (?s ?rb (P_Load 7) C_Idle [])"
    using spsc_reachable.producer[OF spsc_reachable.start producer_step.call[of "?s ?rb P_Idle C_Idle []" 7]] by simp
  from spsc_reachable.producer[OF this producer_step.load_tail[of _ 7]]
  have "spsc_reachable ?rb (?s ?rb (P_Test 7 0) C_Idle [])" by (simp add: rb)
  from spsc_reachable.producer[OF this producer_step.has_room[of _ 7 0]]
  have "spsc_reachable ?rb (?s ?rb (P_Store 7 0) C_Idle [])" by (simp add: rb)
  from spsc_reachable.producer[OF this producer_step.store[of _ 7 0]]
  have "spsc_reachable ?rb (?s ?rb1 (P_Publish 7 0) C_Idle [])" by (simp add: rb slot_int)
  from spsc_reachable.producer[OF this producer_step.publish[of _ 7 0]]
  have "spsc_reachable ?rb (?s (?rb1\<lparr>m_write := 1\<rparr>) P_Idle C_Idle [7])" by (simp add: increment_def)
  from spsc_reachable.producer[OF this producer_step.call[of _ 8]]
  have "spsc_reachable ?rb (?s (?rb1\<lparr>m_write := 1\<rparr>) (P_Load 8) C_Idle [7])" by simp
  from spsc_reachable.producer[OF this producer_step.load_tail[of _ 8]]
  have "spsc_reachable ?rb (?s (?rb1\<lparr>m_write := 1\<rparr>) (P_Test 8 1) C_Idle [7])" by simp
  from spsc_reachable.producer[OF this producer_step.has_room[of _ 8 1]]
  have "spsc_reachable ?rb (?s (?rb1\<lparr>m_write := 1\<rparr>) (P_Store 8 1) C_Idle [7])" by (simp add: rb)
  from spsc_reachable.consumer[OF this consumer_step.load_head]
  have "spsc_reachable ?rb (?s (?rb1\<lparr>m_write := 1\<rparr>) (P_Store 8 1) (C_Test 0) [7])" by (simp add: rb)
  from spsc_reachable.consumer[OF this consumer_step.non_empty[of _ 0]]
  show ?thesis by (simp add: sample_spsc_def)
qed

section \<open>Two producers\<close>

text \<open>
  In the multithreaded mode of the central order book the outgoing queue of a security has two
  producers: the reactor thread pushes the ACCEPTED report in \<open>addOrder\<close> while a matching worker
  pushes the reports of fills in \<open>taskNewOrder\<close> (\<open>source/order_matcher/central_order_book.cpp\<close>). The
  second producer's state is the second component; its steps are those of a producer.
\<close>

inductive duo_step :: "'a spsc \<times> 'a producer \<Rightarrow> 'a spsc \<times> 'a producer \<Rightarrow> bool" where
  first: "producer_step s s' \<Longrightarrow> duo_step (s, p) (s', p)"
| second: "producer_step (s\<lparr>prod := p\<rparr>) s' \<Longrightarrow> duo_step (s, p) (s'\<lparr>prod := prod s\<rparr>, prod s')"
| consumer: "consumer_step s s' \<Longrightarrow> duo_step (s, p) (s', p)"

inductive duo_reachable :: "'a RingBuffer \<Rightarrow> 'a spsc \<times> 'a producer \<Rightarrow> bool" for rb where
  start: "duo_reachable rb (\<lparr>ring = rb, prod = P_Idle, cons = C_Idle, pushed = [], popped = []\<rparr>, P_Idle)"
| step: "duo_reachable rb sp \<Longrightarrow> duo_step sp sp' \<Longrightarrow> duo_reachable rb sp'"

lemma duo_first: "duo_reachable rb (s, p) \<Longrightarrow> producer_step s s' \<Longrightarrow> duo_reachable rb (s', p)"
  by (blast intro: duo_reachable.step duo_step.first)

lemma duo_second:
  "duo_reachable rb (s, p) \<Longrightarrow> producer_step (s\<lparr>prod := p\<rparr>) s' \<Longrightarrow> duo_reachable rb (s'\<lparr>prod := prod s\<rparr>, prod s')"
  by (blast intro: duo_reachable.step duo_step.second)

section \<open>Properties\<close>

text \<open>C18: Whatever the interleaving of one producer and one consumer on a ring buffer whose capacity
  divides \<open>2 ^ 32\<close> (a power of two) and is at most \<open>2 ^ 30\<close>, the values handed out followed
  by the values still stored are exactly the values pushed, in order, and never more than the capacity
  are stored: nothing is lost, duplicated, reordered or read before it was written, also where the 32-bit counters wrap
  around. (For other capacities the wrap-around overwrites what is stored: \<open>ring_buffer_wrap_overwrites\<close>.)\<close>

theorem spsc_interleaving_fifo:
  assumes "spsc_reachable (RingBuffer_new d n) s" "0 < n" "n \<le> 2 ^ 30" "n dvd 2 ^ 32"
  shows "pushed s = popped s @ rb_list (ring s) \<and> length (rb_list (ring s)) \<le> m_capacity (ring s)"
proof -
  have "spsc_inv [] s"
    using spsc_reachable_inv[OF assms(1) rb_inv_new[OF assms(2-4)]] by simp
  then show ?thesis using ring_queue.bounded[of "ring s"] by (simp add: spsc_inv_def)
qed

theorem spsc_interleaving_fifo_witness:
  "spsc_reachable (RingBuffer_new 0 4) sample_spsc \<and> pushed sample_spsc = [7] \<and>
   pushed sample_spsc = popped sample_spsc @ rb_list (ring sample_spsc)"
  using spsc_interleaving_fifo[OF sample_spsc_reachable] sample_spsc_reachable by (simp add: sample_spsc_def)

text \<open>The two threads never touch the same slot at the same time: in every reachable state in
  which the producer is about to store into the buffer and the consumer is about to read from it,
  the two slots differ and both lie inside the buffer.\<close>

theorem spsc_race_free:
  assumes "spsc_reachable (RingBuffer_new d n) s" "0 < n" "n \<le> 2 ^ 30" "n dvd 2 ^ 32"
    and "prod s = P_Store v t" "cons s = C_Read h"
  shows "slot (ring s) t \<noteq> slot (ring s) h \<and>
         slot (ring s) t < length (m_buffer (ring s)) \<and> slot (ring s) h < length (m_buffer (ring s))"
proof -
  let ?r = "ring s"
  have inv: "rb_inv ?r" and t: "t = m_write ?r" and h: "h = m_read ?r"
    and room: "length (rb_list ?r) < m_capacity ?r" and ne: "rb_list ?r \<noteq> []"
    using spsc_reachable_inv[OF assms(1) rb_inv_new[OF assms(2-4)]] assms(5,6)
    by (simp_all add: spsc_inv_def)
  have "slot ?r (m_read ?r) \<noteq> slot ?r (m_write ?r)"
    using slot_free[OF inv, of 0] room ne length_rb_list[of ?r] by fastforce
  then show ?thesis using inv t h by (auto simp: slot_def rb_inv_def)
qed

theorem spsc_race_free_witness:
  "spsc_reachable (RingBuffer_new 0 4) sample_spsc \<and> prod sample_spsc = P_Store 8 1 \<and> cons sample_spsc = C_Read 0 \<and>
   slot (ring sample_spsc) 1 \<noteq> slot (ring sample_spsc) 0"
proof -
  have pc: "prod sample_spsc = P_Store 8 1" "cons sample_spsc = C_Read 0" by (simp_all add: sample_spsc_def)
  show ?thesis using spsc_race_free[OF sample_spsc_reachable _ _ _ pc] sample_spsc_reachable pc by simp
qed

text \<open>C39: A queue with two producers loses a message. Two threads that push at the same time can both
  return although only one of the two messages is stored: both read the same tail, store into the
  same slot and publish the same new tail. The capacity and the two values are any.\<close>

theorem two_producers_lose_message:
  assumes "0 < n"
  shows "\<exists>s. duo_reachable (RingBuffer_new d n) (s, P_Idle) \<and> prod s = P_Idle \<and> pushed s = [x, y] \<and> popped s = [] \<and>
    rb_list (ring s) = [y]"
proof -
  let ?rb = "RingBuffer_new d n"
  let ?s = "\<lambda>r p ps. \<lparr>ring = r, prod = p, cons = C_Idle, pushed = ps, popped = []\<rparr>"
  let ?rb2 = "?rb\<lparr>m_buffer := (m_buffer ?rb)[0 := y]\<rparr>"
  have rb: "m_write ?rb = 0" "m_read ?rb = 0" "m_capacity ?rb = n" by (simp_all add: RingBuffer_new_def)
  have sl: "slot (r :: 'a RingBuffer) 0 = 0" for r by (simp add: slot_def)
  have "duo_reachable ?rb (?s ?rb P_Idle [], P_Idle)" by (rule duo_reachable.start)
  from duo_first[OF this producer_step.call[of _ x]]
  have "duo_reachable ?rb (?s ?rb (P_Load x) [], P_Idle)" by simp
  from duo_first[OF this producer_step.load_tail[of _ x]]
  have "duo_reachable ?rb (?s ?rb (P_Test x 0) [], P_Idle)" by (simp add: rb)
  from duo_first[OF this producer_step.has_room[of _ x 0]]
  have "duo_reachable ?rb (?s ?rb (P_Store x 0) [], P_Idle)" by (simp add: rb)
  from duo_second[OF this producer_step.call[of _ y]]
  have "duo_reachable ?rb (?s ?rb (P_Store x 0) [], P_Load y)" by simp
  from duo_second[OF this producer_step.load_tail[of _ y]]
  have "duo_reachable ?rb (?s ?rb (P_Store x 0) [], P_Test y 0)" by (simp add: rb)
  from duo_second[OF this producer_step.has_room[of _ y 0]]
  have "duo_reachable ?rb (?s ?rb (P_Store x 0) [], P_Store y 0)" by (simp add: rb)
  from duo_first[OF this producer_step.store[of _ x 0]]
  have "duo_reachable ?rb (?s (?rb\<lparr>m_buffer := (m_buffer ?rb)[0 := x]\<rparr>) (P_Publish x 0) [], P_Store y 0)" by (simp add: sl)
  from duo_second[OF this producer_step.store[of _ y 0]]
  have "duo_reachable ?rb (?s ?rb2 (P_Publish x 0) [], P_Publish y 0)" by (simp add: sl)
  from duo_first[OF this producer_step.publish[of _ x 0]]
  have "duo_reachable ?rb (?s (?rb2\<lparr>m_write := 1\<rparr>) P_Idle [x], P_Publish y 0)" by (simp add: increment_def)
  from duo_second[OF this producer_step.publish[of _ y 0]]
  have r: "duo_reachable ?rb (?s (?rb2\<lparr>m_write := 1\<rparr>) P_Idle [x, y], P_Idle)" by (simp add: increment_def)
  have "length (m_buffer ?rb) = n" by (simp add: RingBuffer_new_def)
  then have "rb_list (?rb2\<lparr>m_write := 1\<rparr>) = [y]"
    using assms by (simp add: rb_list_def rb sl)
  with r show ?thesis by (intro exI[of _ "?s (?rb2\<lparr>m_write := 1\<rparr>) P_Idle [x, y]"]) simp
qed

theorem two_producers_lose_message_witness:
  "\<exists>s. duo_reachable (RingBuffer_new (0 :: nat) 4) (s, P_Idle) \<and> pushed s = [7, 8] \<and> rb_list (ring s) = [8]"
  using two_producers_lose_message[of 4 "0 :: nat" 7 8] by auto

end
