(* ===== verification/Shared_Memory.thy ===== *)
theory Shared_Memory
  imports File_Utility
begin

text \<open>
  \<open>core::VirtualMemory\<close>, \<open>core::SharedMemory\<close> and the rotating backend of the log
  (\<open>source/core/memory/virtual_memory.h\<close>, \<open>source/core/shared_memory.cpp\<close>,
  \<open>source/core/logger/log_entry.hpp\<close>, \<open>memory_mapped_file_backend.hpp\<close>, Linux build). The results of
  the system calls are arguments; the mapped bytes are part of the state, and with a shared mapping
  they are the contents of the file.
\<close>

section \<open>Sizes of mappings\<close>

text \<open>\<open>pageCount\<close> is an \<open>int\<close>; in the comparison and in the product it is converted to \<open>size_t\<close>.\<close>

definition adjustSizeToPageSize :: "csize \<Rightarrow> csize \<Rightarrow> csize" where
  "adjustSizeToPageSize pageSize maxSize =
     (if maxSize \<le> pageSize then pageSize
      else let pageCount = (ucast (maxSize div pageSize) :: cint);
               pageCount' = (if scast pageCount * pageSize < maxSize then pageCount + 1 else pageCount)
           in scast pageCount' * pageSize)"

lemma scast_of_small: "k < 2 ^ 31 \<Longrightarrow> (scast (of_nat k :: cint) :: csize) = of_nat k"
proof -
  assume k: "k < 2 ^ 31"
  have "sint (word_of_int (int k) :: cint) = int k" using k by (intro sint_word_of_int_32) simp_all
  then show ?thesis by (simp add: scast_eq)
qed

lemma adjustSizeToPageSize_eq:
  assumes "0 < unat pageSize" "unat maxSize + unat pageSize < 2 ^ 31"
  shows "unat (adjustSizeToPageSize pageSize maxSize) =
    (if unat maxSize \<le> unat pageSize then unat pageSize
     else (unat maxSize + unat pageSize - 1) div unat pageSize * unat pageSize)"
proof -
  define p n k where "p = unat pageSize" and "n = unat maxSize" and "k = n div p"
  have w: "pageSize = of_nat p" "maxSize = of_nat n" by (simp_all add: p_def n_def)
  have p: "0 < p" and np: "n + p < 2 ^ 31" using assms by (simp_all add: p_def n_def)
  have k: "k \<le> n" "k * p \<le> n" "n < (k + 1) * p" "(k + 1) * p \<le> n + p"
    using p by (simp_all add: k_def) (metis dividend_less_times_div mult.commute)
  have small: "k + 1 < 2 ^ 31" using k(4) np p by (metis le_less_trans mult_le_mono2 nat_mult_1_right One_nat_def Suc_leI order_trans)
  have "unat (maxSize div pageSize) = k" by (simp add: k_def n_def p_def unat_div)
  then have cnt: "(ucast (maxSize div pageSize) :: cint) = of_nat k" by (metis of_nat_unat)
  have mul: "unat (of_nat j * pageSize :: csize) = j * p" if "j * p < 2 ^ 64" for j
    using that by (simp add: w unat_of_nat flip: of_nat_mult)
  have "n + p < 2 ^ 64" using np by simp
  then have kp: "k * p < 2 ^ 64" "(k + 1) * p < 2 ^ 64" using k(2,4) by (meson le_add1 le_less_trans order_trans)+
  have c1: "scast (of_nat k + 1 :: cint) = (of_nat (k + 1) :: csize)"
    using scast_of_small[of "k + 1"] small by (simp add: add.commute)
  have less: "of_nat k * pageSize < maxSize \<longleftrightarrow> k * p < n"
    using mul[OF kp(1)] by (simp add: word_less_nat_alt n_def)
  show ?thesis
  proof (cases "n \<le> p")
    case True
    then show ?thesis by (simp add: adjustSizeToPageSize_def word_le_nat_alt n_def p_def)
  next
    case False
    have "(n + p - 1) div p = (if k * p < n then k + 1 else k)"
    proof (cases "k * p < n")
      case True
      then have "(k + 1) * p \<le> n + p - 1" "n + p - 1 < (k + 2) * p" using k p by (auto simp: algebra_simps)
      then show ?thesis using True by (intro div_nat_eqI) (auto simp: algebra_simps)
    next
      case False
      then have "n = k * p" using k(2) by simp
      then show ?thesis using p False by (intro div_nat_eqI) (auto simp: algebra_simps)
    qed
    moreover have "adjustSizeToPageSize pageSize maxSize = (if k * p < n then of_nat (k + 1) else of_nat k) * pageSize"
      using False small scast_of_small[of k] c1 less cnt
      by (auto simp: adjustSizeToPageSize_def word_le_nat_alt n_def p_def Let_def)
    ultimately show ?thesis using mul[OF kp(1)] mul[OF kp(2)] False by (simp add: n_def p_def)
  qed
qed

section \<open>Shared memory\<close>

text \<open>
  \<open>m_buffer\<close> holds the mapped bytes, \<open>None\<close> is the null pointer. \<open>mapped_name\<close> is the file a shared
  mapping belongs to; the descriptor of that file is among the descriptors the process has open.
\<close>

record SharedMemory =
  m_buffer :: "string option"
  m_size :: csize
  m_writtenSize :: csize
  m_readSize :: csize
  m_fileDescriptor :: int
  mapped_name :: "string option"

record disk =
  disk_files :: files
  disk_fds :: "int list"

text \<open>The results of the system calls of \<open>open\<close>: the page size, the descriptor or a negative number,
  and whether \<open>lseek\<close>, \<open>write\<close> and \<open>mmap\<close> succeed.\<close>

record mmap_env =
  env_page :: csize
  env_fd :: int
  env_lseek :: bool
  env_write :: bool
  env_mmap :: bool

definition SharedMemory_new :: SharedMemory where
  "SharedMemory_new = \<lparr>m_buffer = None, m_size = 0, m_writtenSize = 0, m_readSize = 0,
     m_fileDescriptor = 0, mapped_name = None\<rparr>"

text \<open>
  \<open>open\<close>. The file is truncated, extended to \<open>m_size + 1\<close> bytes and mapped. A failed \<open>mmap\<close> gives
  the pointer \<open>MAP_FAILED\<close>, which is not tested: the \<open>memset\<close> then writes through it, unless it has
  no byte to write. \<open>mmap\<close> fails for the size 0.
\<close>

definition SharedMemory_open ::
  "mmap_env \<Rightarrow> string \<Rightarrow> csize \<Rightarrow> bool \<Rightarrow> SharedMemory \<times> disk \<Rightarrow> (bool \<times> SharedMemory \<times> disk) result" where
  "SharedMemory_open env name maxSize ipc st =
     (let (mem, d) = st;
          sz = adjustSizeToPageSize (env_page env) maxSize;
          mem1 = mem\<lparr>m_size := sz, m_fileDescriptor := env_fd env\<rparr>
      in if env_fd env < 0 then Inr (False, mem1, d)
         else let d1 = d\<lparr>disk_files := (disk_files d)(c_str name \<mapsto> []), disk_fds := env_fd env # disk_fds d\<rparr>
              in if \<not> env_lseek env \<or> \<not> env_write env then Inr (False, mem1, d1)
                 else if sz = 0 then Inr (True, mem1\<lparr>m_buffer := Some [], mapped_name := None\<rparr>,
                                          d1\<lparr>disk_files := (disk_files d1)(c_str name \<mapsto> [CHR 0x00])\<rparr>)
                 else if \<not> env_mmap env then Inl Out_of_bounds
                 else let bytes = replicate (unat sz) (CHR 0x00)
                      in Inr (True, mem1\<lparr>m_buffer := Some bytes, mapped_name := (if ipc then Some (c_str name) else None)\<rparr>,
                              d1\<lparr>disk_files := (disk_files d1)(c_str name \<mapsto> bytes @ [CHR 0x00])\<rparr>))"

definition SharedMemory_isOpen :: "SharedMemory \<Rightarrow> bool" where
  "SharedMemory_isOpen mem = (m_buffer mem \<noteq> None)"

text \<open>\<open>write\<close>: bytes outside the mapping are not ours.\<close>

definition SharedMemory_write :: "string \<Rightarrow> csize \<Rightarrow> SharedMemory \<times> disk \<Rightarrow> (SharedMemory \<times> disk) result" where
  "SharedMemory_write bytes writeOffset st =
     (let (mem, d) = st; offset = unat writeOffset
      in case m_buffer mem of
           None \<Rightarrow> Inl Null_dereference
         | Some b \<Rightarrow>
             if length b < offset + length bytes then Inl Out_of_bounds
             else let b' = take offset b @ bytes @ drop (offset + length bytes) b
                  in Inr (mem\<lparr>m_buffer := Some b', m_writtenSize := m_writtenSize mem + of_nat (length bytes)\<rparr>,
                          case mapped_name mem of None \<Rightarrow> d
                          | Some name \<Rightarrow> d\<lparr>disk_files := (disk_files d)(name \<mapsto> b' @ [CHR 0x00])\<rparr>))"

definition SharedMemory_append :: "string \<Rightarrow> SharedMemory \<times> disk \<Rightarrow> (SharedMemory \<times> disk) result" where
  "SharedMemory_append bytes st =
     (if m_size (fst st) = 0 then Inl Division_by_zero
      else SharedMemory_write bytes (m_writtenSize (fst st) mod m_size (fst st)) st)"

definition SharedMemory_read :: "nat \<Rightarrow> csize \<Rightarrow> SharedMemory \<Rightarrow> (string \<times> SharedMemory) result" where
  "SharedMemory_read len readOffset mem =
     (case m_buffer mem of
        None \<Rightarrow> Inl Null_dereference
      | Some b \<Rightarrow>
          if length b < unat readOffset + len then Inl Out_of_bounds
          else Inr (take len (drop (unat readOffset) b), mem\<lparr>m_readSize := m_readSize mem + of_nat len\<rparr>))"

text \<open>The guard of \<open>close\<close> lets only the descriptor 0 be closed.\<close>

definition SharedMemory_close :: "SharedMemory \<times> disk \<Rightarrow> SharedMemory \<times> disk" where
  "SharedMemory_close st =
     (let (mem, d) = st
      in (mem\<lparr>m_size := 0, m_buffer := None, m_writtenSize := 0, m_readSize := 0, mapped_name := None\<rparr>,
          if m_buffer mem \<noteq> None \<and> m_fileDescriptor mem = 0
          then d\<lparr>disk_fds := removeAll (m_fileDescriptor mem) (disk_fds d)\<rparr> else d))"

section \<open>The rotating backend\<close>

record MemoryMappedFileBackend =
  m_rotationId :: cint
  m_rotationSize :: csize
  m_resourceName :: string
  m_originalResourceName :: string
  m_resourceExtension :: string
  m_logFile :: SharedMemory

definition MemoryMappedFileBackend_new :: MemoryMappedFileBackend where
  "MemoryMappedFileBackend_new = \<lparr>m_rotationId = 1, m_rotationSize = 0, m_resourceName = [],
     m_originalResourceName = [], m_resourceExtension = [], m_logFile = SharedMemory_new\<rparr>"

definition openMemoryMappedFile ::
  "mmap_env \<Rightarrow> MemoryMappedFileBackend \<times> disk \<Rightarrow> (MemoryMappedFileBackend \<times> disk) result" where
  "openMemoryMappedFile env st =
     (let (bk, d) = st
      in res_bind (SharedMemory_open env (m_resourceName bk) (m_rotationSize bk) True (m_logFile bk, d)) (\<lambda>(_, mem, d1).
         if \<not> SharedMemory_isOpen mem
         then res_bind (format (''Log file '' @ c_str (m_resourceName bk) @ '' can`t be opened'')) (\<lambda>message.
                Inl (Runtime_error message))
         else Inr (bk\<lparr>m_logFile := mem\<rparr>, d1)))"

definition closeMemoryMappedFile :: "MemoryMappedFileBackend \<times> disk \<Rightarrow> MemoryMappedFileBackend \<times> disk" where
  "closeMemoryMappedFile st =
     (let (bk, d) = st; (mem, d1) = SharedMemory_close (m_logFile bk, d) in (bk\<lparr>m_logFile := mem\<rparr>, d1))"

definition Backend_open ::
  "mmap_env \<Rightarrow> MemoryMappedFileBackend \<times> disk \<Rightarrow> (MemoryMappedFileBackend \<times> disk) result" where
  "Backend_open env st =
     (let (bk, d) = st
      in if m_resourceName bk = [] then Inl Assertion_failed
         else res_bind
                (if contains (m_resourceName bk) ''.''
                 then let resourceNameParts = split (m_resourceName bk) (CHR ''.'')
                      in res_bind (vec_at resourceNameParts 0) (\<lambda>name. res_bind (vec_at resourceNameParts 1) (\<lambda>extension.
                         Inr (bk\<lparr>m_originalResourceName := name, m_resourceExtension := extension\<rparr>)))
                 else Inr (bk\<lparr>m_originalResourceName := m_resourceName bk\<rparr>))
                (\<lambda>bk1. openMemoryMappedFile env (bk1, d)))"

definition Backend_rotate ::
  "mmap_env \<Rightarrow> MemoryMappedFileBackend \<times> disk \<Rightarrow> (MemoryMappedFileBackend \<times> disk) result" where
  "Backend_rotate env st =
     (let (bk, d) = st;
          rotationId = m_rotationId bk + 1;
          name = m_originalResourceName bk @ ''_'' @ to_string (uint rotationId);
          name' = (if 0 < length (m_resourceExtension bk) then name @ ''.'' @ m_resourceExtension bk else name)
      in openMemoryMappedFile env (closeMemoryMappedFile (bk\<lparr>m_rotationId := rotationId, m_resourceName := name'\<rparr>, d)))"

text \<open>\<open>process\<close>, with the text of the entry and its line end as the argument.\<close>

definition process_text ::
  "mmap_env \<Rightarrow> string \<Rightarrow> MemoryMappedFileBackend \<times> disk \<Rightarrow> (MemoryMappedFileBackend \<times> disk) result" where
  "process_text env entryAsString st =
     res_bind (if m_size (m_logFile (fst st)) \<le> m_writtenSize (m_logFile (fst st)) + of_nat (length entryAsString)
               then Backend_rotate env st else Inr st) (\<lambda>(bk, d).
     res_bind (SharedMemory_append entryAsString (m_logFile bk, d)) (\<lambda>(mem, d1).
     Inr (bk\<lparr>m_logFile := mem\<rparr>, d1)))"

section \<open>Lemmas\<close>

text \<open>
  The files of a log. The first has the configured name; after a rotation the name is the part
  before the first dot, the number of the file, and the part between the first two dots.
\<close>

definition log_base :: "string \<Rightarrow> string" where
  "log_base name = (if contains name ''.'' then split name (CHR ''.'') ! 0 else name)"

definition log_extension :: "string \<Rightarrow> string" where
  "log_extension name = (if contains name ''.'' then split name (CHR ''.'') ! 1 else [])"

definition log_file :: "string \<Rightarrow> nat \<Rightarrow> string" where
  "log_file name k =
     (if k \<le> 1 then name
      else log_base name @ ''_'' @ to_string (int k) @ (if log_extension name = [] then [] else ''.'' @ log_extension name))"

text \<open>The backend is at the file that its rotation number says, of the log with the configured name.\<close>

definition backend_named :: "string \<Rightarrow> MemoryMappedFileBackend \<Rightarrow> bool" where
  "backend_named name bk \<longleftrightarrow> m_originalResourceName bk = log_base name \<and> m_resourceExtension bk = log_extension name \<and>
     m_resourceName bk = log_file name (unat (m_rotationId bk))"

text \<open>
  An open log file: the mapping and the file hold \<open>t\<close>, followed by zeros up to the size of the
  mapping and one more byte in the file. (A mapping of no byte is no mapping of the file.)
\<close>

definition file_holds :: "string \<Rightarrow> MemoryMappedFileBackend \<times> disk \<Rightarrow> bool" where
  "file_holds t st \<longleftrightarrow> (let mem = m_logFile (fst st); name = c_str (m_resourceName (fst st)) in
     \<exists>k. m_buffer mem = Some (t @ replicate k NUL) \<and> unat (m_size mem) = length t + k \<and>
         unat (m_writtenSize mem) = length t \<and> unat (m_size mem) < 2 ^ 63 \<and>
         (m_size mem \<noteq> 0 \<longrightarrow> mapped_name mem = Some name) \<and>
         disk_files (snd st) name = Some (t @ replicate (Suc k) NUL))"

text \<open>\<open>mmap\<close> maps less than half of the address space.\<close>

definition mapping_fits :: "mmap_env \<Rightarrow> MemoryMappedFileBackend \<Rightarrow> bool" where
  "mapping_fits env bk \<longleftrightarrow>
     (env_mmap env \<longrightarrow> unat (adjustSizeToPageSize (env_page env) (m_rotationSize bk)) < 2 ^ 63)"

text \<open>The system calls succeed, a page is larger than any entry, and sizes fit into an \<open>int\<close>.\<close>

definition rotation_possible :: "mmap_env \<Rightarrow> MemoryMappedFileBackend \<Rightarrow> bool" where
  "rotation_possible env bk \<longleftrightarrow> 0 \<le> env_fd env \<and> env_lseek env \<and> env_write env \<and> env_mmap env \<and>
     MAX_BUFFER_SIZE < unat (env_page env) \<and> unat (m_rotationSize bk) + unat (env_page env) < 2 ^ 31"

lemma adjust_bounds:
  assumes "0 < unat page" "unat sz + unat page < 2 ^ 31"
  shows "unat page \<le> unat (adjustSizeToPageSize page sz)" "unat (adjustSizeToPageSize page sz) < 2 ^ 63"
    "unat sz \<le> unat (adjustSizeToPageSize page sz)"
proof -
  define p n where "p = unat page" and "n = unat sz"
  have p: "0 < p" and np: "n + p < 2 ^ 31" using assms by (simp_all add: p_def n_def)
  define q where "q = (n + p - 1) div p * p"
  have "q + (n + p - 1) mod p = n + p - 1" "(n + p - 1) mod p < p" using p by (simp_all add: q_def)
  then have "n \<le> q" "q < n + p" using p by linarith+
  moreover have "unat (adjustSizeToPageSize page sz) = (if n \<le> p then p else q)"
    using adjustSizeToPageSize_eq[OF assms] unfolding q_def p_def n_def .
  ultimately show "unat page \<le> unat (adjustSizeToPageSize page sz)" "unat (adjustSizeToPageSize page sz) < 2 ^ 63"
    "unat sz \<le> unat (adjustSizeToPageSize page sz)"
    using np by (simp_all flip: p_def n_def)
qed

lemma rotation_possible_fits: "rotation_possible env bk \<Longrightarrow> mapping_fits env bk"
  using adjust_bounds(2)[of "env_page env" "m_rotationSize bk"] by (simp add: rotation_possible_def mapping_fits_def)

text \<open>The names of the files of a log differ.\<close>

lemma log_base_prefix: "\<exists>rest. name = log_base name @ rest \<and> (rest = [] \<or> hd rest = CHR ''.'')"
proof (cases "contains name ''.''")
  case True
  then obtain p where "take 1 (drop p name) = ''.''" "p + 1 \<le> length name"
    using string_find_SomeD[of name "''.''"] by (auto simp: contains_def)
  then have "name \<noteq> []" by auto
  then have "log_base name = takeWhile (\<lambda>c. c \<noteq> CHR ''.'') name"
    using True by (subst log_base_def, subst split.simps) simp
  moreover have "dropWhile (\<lambda>c. c \<noteq> CHR ''.'') name = [] \<or> hd (dropWhile (\<lambda>c. c \<noteq> CHR ''.'') name) = CHR ''.''"
    by (metis (lifting) hd_dropWhile)
  ultimately show ?thesis using takeWhile_dropWhile_id[of "\<lambda>c. c \<noteq> CHR ''.''" name] by metis
qed (simp add: log_base_def)

lemma c_str_simps [simp]: "c_str [] = []" "c \<noteq> NUL \<Longrightarrow> c_str (c # s) = c # c_str s"
  by (simp_all add: c_str_def)

lemma digits_no_NUL: "NUL \<notin> set (show_nat n)"
  using show_nat_digits[of NUL n] by (auto simp: is_digit_def)

lemma log_file_distinct:
  assumes "NUL \<notin> set name" "1 \<le> j" "j < k"
  shows "c_str (log_file name j) \<noteq> c_str (log_file name k)"
proof -
  define suffix where "suffix = (if log_extension name = [] then [] else ''.'' @ log_extension name)"
  obtain rest where rest: "name = log_base name @ rest" "rest = [] \<or> hd rest = CHR ''.''"
    using log_base_prefix by blast
  then have base: "NUL \<notin> set (log_base name)" using assms(1) by (metis Un_iff set_append)
  have later: "c_str (log_file name i) = log_base name @ CHR ''_'' # show_nat i @ c_str suffix" if "1 < i" for i
    using that base digits_no_NUL[of i] by (simp add: log_file_def to_string_def suffix_def c_str_append)
  have stop: "case c_str suffix of [] \<Rightarrow> True | c # _ \<Rightarrow> \<not> is_digit c"
    by (auto simp: suffix_def c_str_def is_digit_def)
  show ?thesis
  proof (cases "j = 1")
    case True
    have "c_str rest = [] \<or> hd (c_str rest) = CHR ''.''" using rest(2) by (cases rest) (auto simp: c_str_def)
    moreover have "c_str (log_file name j) = log_base name @ c_str rest"
      using True base rest(1) c_str_append by (simp add: log_file_def) metis
    ultimately show ?thesis using later[of k] assms(3) True by auto
  next
    case False
    then have "1 < j" "1 < k" using assms by auto
    moreover have "takeWhile is_digit (show_nat i @ c_str suffix) = show_nat i" for i
      by (rule takeWhile_digits_stop[OF show_nat_digits stop])
    moreover have "show_nat j \<noteq> show_nat k" using digits_value_show_nat assms(3) by (metis nat_neq_iff)
    ultimately show ?thesis using later by (metis append_same_eq list.inject same_append_eq)
  qed
qed

text \<open>What a file that has been opened holds.\<close>

lemma openMemoryMappedFile_Inr:
  assumes "openMemoryMappedFile env (bk, d) = Inr (bk', d')" "m_buffer (m_logFile bk) = None"
    and "m_writtenSize (m_logFile bk) = 0" "mapping_fits env bk"
  shows "file_holds [] (bk', d') \<and> (\<exists>mem. bk' = bk\<lparr>m_logFile := mem\<rparr>) \<and>
    m_writtenSize (m_logFile bk') = 0 \<and>
    (\<forall>p. p \<noteq> c_str (m_resourceName bk) \<longrightarrow> disk_files d' p = disk_files d p)"
proof -
  define sz where "sz = adjustSizeToPageSize (env_page env) (m_rotationSize bk)"
  obtain r mem d1 where o: "SharedMemory_open env (m_resourceName bk) (m_rotationSize bk) True (m_logFile bk, d) = Inr (r, mem, d1)"
    and n: "m_buffer mem \<noteq> None" and bk: "bk' = bk\<lparr>m_logFile := mem\<rparr>" "d' = d1"
    using assms(1) by (auto simp: openMemoryMappedFile_def SharedMemory_isOpen_def format_def formatImplementation_def
        MAX_BUFFER_SIZE_def res_bind_Inr_iff split: if_splits)
  from o n assms(2) have c: "0 \<le> env_fd env" "env_lseek env" "env_write env" "sz = 0 \<or> env_mmap env"
    by (auto simp: SharedMemory_open_def Let_def sz_def split: if_splits)
  from o c have "m_writtenSize mem = 0" "m_size mem = sz" "\<forall>p. p \<noteq> c_str (m_resourceName bk) \<longrightarrow> disk_files d1 p = disk_files d p"
    using assms(3) by (auto simp: SharedMemory_open_def Let_def sz_def split: if_splits)
  moreover have "file_holds [] (bk', d')"
  proof (cases "sz = 0")
    case True
    then show ?thesis using o c bk assms(3)
      by (auto simp: SharedMemory_open_def Let_def file_holds_def simp flip: sz_def)
  next
    case False
    then have "unat sz < 2 ^ 63" using assms(4) c(4) by (simp add: mapping_fits_def sz_def)
    then show ?thesis using False o c bk assms(3)
      by (auto simp: SharedMemory_open_def Let_def file_holds_def simp flip: sz_def intro!: exI[of _ "unat sz"] replicate_append_same)
  qed
  ultimately show ?thesis using bk by auto
qed

lemma openMemoryMappedFile_succeeds:
  assumes "rotation_possible env bk"
  shows "\<exists>bk' d'. openMemoryMappedFile env (bk, d) = Inr (bk', d') \<and> MAX_BUFFER_SIZE < unat (m_size (m_logFile bk'))"
proof -
  have "0 < unat (env_page env)" using assms by (simp add: rotation_possible_def)
  then have big: "MAX_BUFFER_SIZE < unat (adjustSizeToPageSize (env_page env) (m_rotationSize bk))"
    using adjust_bounds(1)[of "env_page env" "m_rotationSize bk"] assms by (simp add: rotation_possible_def)
  then have "adjustSizeToPageSize (env_page env) (m_rotationSize bk) \<noteq> 0" by auto
  then show ?thesis using assms big
    by (simp add: openMemoryMappedFile_def SharedMemory_open_def SharedMemory_isOpen_def rotation_possible_def Let_def)
qed

text \<open>A rotation closes the file and opens the next one, empty.\<close>

definition next_file :: "MemoryMappedFileBackend \<Rightarrow> MemoryMappedFileBackend" where
  "next_file bk = bk\<lparr>m_rotationId := m_rotationId bk + 1,
     m_resourceName := m_originalResourceName bk @ ''_'' @ to_string (uint (m_rotationId bk + 1)) @
       (if m_resourceExtension bk = [] then [] else ''.'' @ m_resourceExtension bk),
     m_logFile := (m_logFile bk)\<lparr>m_size := 0, m_buffer := None, m_writtenSize := 0, m_readSize := 0, mapped_name := None\<rparr>\<rparr>"

lemma rotate_is_open:
  "\<exists>fds. Backend_rotate env (bk, d) = openMemoryMappedFile env (next_file bk, d\<lparr>disk_fds := fds\<rparr>)"
  by (intro exI[of _ "disk_fds (snd (SharedMemory_close (m_logFile bk, d)))"])
    (simp add: Backend_rotate_def next_file_def closeMemoryMappedFile_def SharedMemory_close_def Let_def)

lemma next_file_sels:
  "m_rotationId (next_file bk) = m_rotationId bk + 1" "m_rotationSize (next_file bk) = m_rotationSize bk"
  "m_buffer (m_logFile (next_file bk)) = None" "m_writtenSize (m_logFile (next_file bk)) = 0"
  "mapping_fits env (next_file bk) = mapping_fits env bk" "rotation_possible env (next_file bk) = rotation_possible env bk"
  by (simp_all add: next_file_def mapping_fits_def rotation_possible_def Let_def)

lemma next_file_named:
  assumes "backend_named name bk" "1 \<le> unat (m_rotationId bk)" "unat (m_rotationId bk) + 1 < 2 ^ 32"
  shows "backend_named name (next_file bk)" "unat (m_rotationId bk + 1) = unat (m_rotationId bk) + 1"
proof -
  show u: "unat (m_rotationId bk + 1) = unat (m_rotationId bk) + 1"
    using assms(3) by (simp add: unat_word_ariths)
  then have "uint (m_rotationId bk + 1) = int (unat (m_rotationId bk) + 1)" by (metis uint_nat)
  then show "backend_named name (next_file bk)"
    using assms(1,2) u by (simp add: backend_named_def next_file_def log_file_def)
qed

lemma open_size: "openMemoryMappedFile env (bk, d) = Inr (bk', d') \<Longrightarrow> m_rotationSize bk' = m_rotationSize bk"
  by (auto simp: openMemoryMappedFile_def res_bind_Inr_iff split: if_splits)

lemma process_text_size:
  assumes "process_text env text (bk, d) = Inr (bk', d')"
  shows "m_rotationSize bk' = m_rotationSize bk"
proof -
  obtain fds where "Backend_rotate env (bk, d) = openMemoryMappedFile env (next_file bk, d\<lparr>disk_fds := fds\<rparr>)"
    using rotate_is_open by blast
  with assms show ?thesis
    by (auto simp: process_text_def res_bind_Inr_iff next_file_sels dest: open_size split: if_splits)
qed

text \<open>Appending to an open file.\<close>

lemma append_in_room:
  assumes h: "file_holds t (bk, d)" and room: "length t + length text \<le> unat (m_size (m_logFile bk))" "text \<noteq> []"
  shows "\<exists>mem d'. SharedMemory_append text (m_logFile bk, d) = Inr (mem, d') \<and> file_holds (t @ text) (bk\<lparr>m_logFile := mem\<rparr>, d') \<and>
    (\<forall>p. p \<noteq> c_str (m_resourceName bk) \<longrightarrow> disk_files d' p = disk_files d p)"
proof -
  define n where "n = length text"
  obtain k where k: "m_buffer (m_logFile bk) = Some (t @ replicate k NUL)" "unat (m_size (m_logFile bk)) = length t + k"
      "unat (m_writtenSize (m_logFile bk)) = length t" "length t + k < 2 ^ 63"
      "m_size (m_logFile bk) \<noteq> 0 \<longrightarrow> mapped_name (m_logFile bk) = Some (c_str (m_resourceName bk))"
    using h by (auto simp: file_holds_def Let_def)
  have n: "n \<le> k" "0 < n" using room k(2) by (simp_all add: n_def)
  have "unat (m_writtenSize (m_logFile bk) mod m_size (m_logFile bk)) = length t"
    using k n by (simp add: unat_mod)
  moreover have "m_size (m_logFile bk) \<noteq> 0" using k(2) n by auto
  moreover have "unat (m_writtenSize (m_logFile bk) + of_nat n) = length t + n"
  proof -
    have "unat (of_nat n :: csize) = n" using n k(4) by (simp add: unat_of_nat)
    then show ?thesis using n k(3,4) by (subst unat_add_lem[THEN iffD1]) simp_all
  qed
  moreover have "drop n (replicate k NUL) = replicate (k - n) NUL" by simp
  ultimately show ?thesis using k n unfolding n_def[symmetric]
    by (auto simp: SharedMemory_append_def SharedMemory_write_def file_holds_def n_def Let_def replicate_append_same intro!: exI[of _ "k - length text"])
qed

text \<open>The test of \<open>process\<close>: does the entry leave a byte free?\<close>

lemma process_full:
  assumes "file_holds t (bk, d)" "length text \<le> MAX_BUFFER_SIZE"
  shows "m_size (m_logFile bk) \<le> m_writtenSize (m_logFile bk) + of_nat (length text) \<longleftrightarrow>
    unat (m_size (m_logFile bk)) \<le> length t + length text"
proof -
  have w: "unat (m_writtenSize (m_logFile bk)) = length t" "length t < 2 ^ 63"
    using assms(1) by (auto simp: file_holds_def Let_def)
  have "unat (of_nat (length text) :: csize) = length text"
    using assms(2) by (simp add: unat_of_nat MAX_BUFFER_SIZE_def)
  then have "unat (m_writtenSize (m_logFile bk) + of_nat (length text)) = length t + length text"
    using w assms(2) by (subst unat_add_lem[THEN iffD1]) (simp_all add: MAX_BUFFER_SIZE_def)
  then show ?thesis by (simp add: word_le_nat_alt)
qed

text \<open>
  Whatever the system calls answer: when \<open>process\<close> returns, the entry is behind the text of the file,
  or alone in the next file, and no other file has changed.
\<close>

lemma process_text_Inr:
  assumes pt: "process_text env text (bk, d) = Inr (bk', d')"
    and h: "file_holds t (bk, d)" and len: "length text \<le> MAX_BUFFER_SIZE" "text \<noteq> []" and fits: "mapping_fits env bk"
  shows "(\<exists>mem. bk' = (if length t + length text < unat (m_size (m_logFile bk)) then bk else next_file bk)\<lparr>m_logFile := mem\<rparr>) \<and>
    file_holds (if length t + length text < unat (m_size (m_logFile bk)) then t @ text else text) (bk', d') \<and>
    (\<forall>p. p \<noteq> c_str (m_resourceName bk') \<longrightarrow> disk_files d' p = disk_files d p)"
proof (cases "length t + length text < unat (m_size (m_logFile bk))")
  case True
  then obtain mem d1 where "SharedMemory_append text (m_logFile bk, d) = Inr (mem, d1)" "file_holds (t @ text) (bk\<lparr>m_logFile := mem\<rparr>, d1)"
    "\<forall>p. p \<noteq> c_str (m_resourceName bk) \<longrightarrow> disk_files d1 p = disk_files d p"
    using append_in_room[OF h _ len(2)] by auto
  with True pt process_full[OF h len(1)] show ?thesis by (auto simp: process_text_def)
next
  case False
  obtain fds where rot: "Backend_rotate env (bk, d) = openMemoryMappedFile env (next_file bk, d\<lparr>disk_fds := fds\<rparr>)"
    using rotate_is_open by blast
  obtain bk1 d1 mem where o: "openMemoryMappedFile env (next_file bk, d\<lparr>disk_fds := fds\<rparr>) = Inr (bk1, d1)"
      and ap: "SharedMemory_append text (m_logFile bk1, d1) = Inr (mem, d')" and bk': "bk' = bk1\<lparr>m_logFile := mem\<rparr>"
    using pt False process_full[OF h len(1)] rot by (auto simp: process_text_def res_bind_Inr_iff)
  from openMemoryMappedFile_Inr[OF o] fits have h1: "file_holds [] (bk1, d1)" and eff:
      "\<exists>mem. bk1 = (next_file bk)\<lparr>m_logFile := mem\<rparr>" "m_writtenSize (m_logFile bk1) = 0"
      "\<forall>p. p \<noteq> c_str (m_resourceName (next_file bk)) \<longrightarrow> disk_files d1 p = disk_files d p"
    by (simp_all add: next_file_sels)
  have nz: "m_size (m_logFile bk1) \<noteq> 0" using ap by (auto simp: SharedMemory_append_def)
  then have "length text \<le> unat (m_size (m_logFile bk1))"
    using ap nz h1 by (auto simp: SharedMemory_append_def SharedMemory_write_def eff(2) file_holds_def Let_def split: if_splits)
  with append_in_room[OF h1 _ len(2)] ap obtain "file_holds text (bk', d')"
    "\<forall>p. p \<noteq> c_str (m_resourceName bk1) \<longrightarrow> disk_files d' p = disk_files d1 p" using bk' by auto
  with False eff bk' show ?thesis by auto
qed

lemma process_text_succeeds:
  assumes "file_holds t (bk, d)" "length text \<le> MAX_BUFFER_SIZE" "text \<noteq> []" "rotation_possible env bk"
  shows "\<exists>bk' d'. process_text env text (bk, d) = Inr (bk', d')"
proof (cases "length t + length text < unat (m_size (m_logFile bk))")
  case True
  with append_in_room[OF assms(1), of "text"] assms(3) process_full[OF assms(1,2)] show ?thesis
    by (auto simp: process_text_def)
next
  case False
  obtain fds where rot: "Backend_rotate env (bk, d) = openMemoryMappedFile env (next_file bk, d\<lparr>disk_fds := fds\<rparr>)"
    using rotate_is_open by blast
  obtain bk1 d1 where o: "openMemoryMappedFile env (next_file bk, d\<lparr>disk_fds := fds\<rparr>) = Inr (bk1, d1)"
      "MAX_BUFFER_SIZE < unat (m_size (m_logFile bk1))"
    using openMemoryMappedFile_succeeds[of env "next_file bk" "d\<lparr>disk_fds := fds\<rparr>"] assms(4) by (auto simp: next_file_sels)
  then have "file_holds [] (bk1, d1)"
    using openMemoryMappedFile_Inr[OF o(1)] rotation_possible_fits[OF assms(4)] by (auto simp: next_file_sels)
  from append_in_room[OF this, of "text"] o assms(2,3) obtain mem d2 where
    "SharedMemory_append text (m_logFile bk1, d1) = Inr (mem, d2)" by auto
  with False process_full[OF assms(1,2)] rot o show ?thesis by (auto simp: process_text_def)
qed

text \<open>A log opened with its configured name starts with this file, empty.\<close>

lemma Backend_open_Inr:
  assumes "Backend_open env (bk, d) = Inr (bk', d')" "m_logFile bk = SharedMemory_new" "m_resourceExtension bk = []"
    "m_rotationId bk = 1" "mapping_fits env bk"
  shows "backend_named (m_resourceName bk) bk' \<and> m_rotationId bk' = 1 \<and> m_rotationSize bk' = m_rotationSize bk \<and>
    file_holds [] (bk', d')"
proof -
  define bk1 where "bk1 = bk\<lparr>m_originalResourceName := log_base (m_resourceName bk), m_resourceExtension := log_extension (m_resourceName bk)\<rparr>"
  have bk: "bk\<lparr>m_resourceExtension := []\<rparr> = bk" using assms(3) by (metis MemoryMappedFileBackend.surjective MemoryMappedFileBackend.update_convs(5))
  have o: "openMemoryMappedFile env (bk1, d) = Inr (bk', d')"
  proof (cases "contains (m_resourceName bk) ''.''")
    case True
    then show ?thesis using assms(1)
      by (auto simp: Backend_open_def log_base_def log_extension_def bk1_def Let_def vec_at_def res_bind_Inr_iff split: if_splits)
  next
    case False
    then show ?thesis using assms(1) bk
      by (cases bk) (auto simp: Backend_open_def log_base_def log_extension_def bk1_def split: if_splits)
  qed
  have "m_buffer (m_logFile bk1) = None" "m_writtenSize (m_logFile bk1) = 0" "mapping_fits env bk1"
    using assms(2,5) by (simp_all add: bk1_def SharedMemory_new_def mapping_fits_def)
  from openMemoryMappedFile_Inr[OF o this] show ?thesis
    using assms(4) by (auto simp: backend_named_def bk1_def log_file_def)
qed

lemma Backend_open_size: "Backend_open env (bk, d) = Inr (bk', d') \<Longrightarrow> m_rotationSize bk' = m_rotationSize bk"
  by (auto simp: Backend_open_def res_bind_Inr_iff Let_def dest: open_size split: if_splits)

section \<open>Properties\<close>

text \<open>C31: An entry of the log is written completely and into one file. With an open log file that holds
  a text, an entry that fits is appended to the text, in the same file. For an entry that does
  not fit the log goes on in the next file, whose name carries the next number and differs from the
  name of the full one: the new file holds the entry and nothing else, and the full file
  keeps its contents. No file but the current one changes, and what is behind the text of the
  current file is zeros. The entry has between 1 and 2048 bytes, as \<open>core::format\<close> makes it; the system calls of a
  rotation succeed and a page is larger than 2048 bytes; the configured name has no NUL byte.\<close>

theorem process_text_writes_entry:
  assumes "file_holds t (bk, d)" "backend_named name bk" "NUL \<notin> set name"
    "1 \<le> unat (m_rotationId bk)" "unat (m_rotationId bk) + 1 < 2 ^ 32"
    "text \<noteq> []" "length text \<le> MAX_BUFFER_SIZE" "rotation_possible env bk"
  shows "\<exists>bk' d'. process_text env text (bk, d) = Inr (bk', d') \<and> backend_named name bk' \<and>
    (if length t + length text < unat (m_size (m_logFile bk))
     then file_holds (t @ text) (bk', d') \<and> m_resourceName bk' = m_resourceName bk
     else file_holds text (bk', d') \<and> m_resourceName bk' = log_file name (unat (m_rotationId bk) + 1) \<and>
       c_str (m_resourceName bk') \<noteq> c_str (m_resourceName bk) \<and>
       disk_files d' (c_str (m_resourceName bk)) = disk_files d (c_str (m_resourceName bk))) \<and>
    (\<forall>p. p \<noteq> c_str (m_resourceName bk') \<longrightarrow> disk_files d' p = disk_files d p)"
proof -
  obtain bk' d' where p: "process_text env text (bk, d) = Inr (bk', d')"
    using process_text_succeeds[OF assms(1,7,6,8)] by blast
  note eff = process_text_Inr[OF p assms(1,7,6) rotation_possible_fits[OF assms(8)]]
  note nf = next_file_named[OF assms(2,4,5)]
  show ?thesis
  proof (cases "length t + length text < unat (m_size (m_logFile bk))")
    case True
    with p eff assms(2) show ?thesis by (auto simp: backend_named_def)
  next
    case False
    then obtain mem where bk': "bk' = (next_file bk)\<lparr>m_logFile := mem\<rparr>" using eff by auto
    then have named: "backend_named name bk'" using nf(1) by (simp add: backend_named_def)
    then have name': "m_resourceName bk' = log_file name (unat (m_rotationId bk) + 1)"
      using nf(2) by (simp add: backend_named_def bk' next_file_sels)
    have "m_resourceName bk = log_file name (unat (m_rotationId bk))" using assms(2) by (simp add: backend_named_def)
    then have "c_str (m_resourceName bk') \<noteq> c_str (m_resourceName bk)"
      using log_file_distinct[OF assms(3,4), of "unat (m_rotationId bk) + 1"] name' by auto
    with False p eff named name' show ?thesis by auto
  qed
qed

lemma replicate_2: "replicate 2 x = [x, x]" and replicate_3: "replicate (Suc 2) x = [x, x, x]"
  by (simp_all add: numeral_2_eq_2)

text \<open>A log file with four bytes, two of them used.\<close>

definition sample_backend :: "MemoryMappedFileBackend \<times> disk" where
  "sample_backend =
     (let b = [CHR ''x'', CHR ''y'', NUL, NUL]
      in (MemoryMappedFileBackend_new\<lparr>m_rotationSize := 4096, m_resourceName := ''log.txt'', m_originalResourceName := ''log'',
            m_resourceExtension := ''txt'', m_logFile := SharedMemory_new\<lparr>m_buffer := Some b, m_size := 4, m_writtenSize := 2,
              m_fileDescriptor := 5, mapped_name := Some ''log.txt''\<rparr>\<rparr>,
          \<lparr>disk_files = [''log.txt'' \<mapsto> b @ [NUL]], disk_fds = [5]\<rparr>))"

definition sample_mmap :: mmap_env where
  "sample_mmap = \<lparr>env_page = 4096, env_fd = 6, env_lseek = True, env_write = True, env_mmap = True\<rparr>"

lemma log_names: "log_base ''log.txt'' = ''log''" "log_extension ''log.txt'' = ''txt''"
  by (simp_all add: log_base_def log_extension_def contains_def split.simps)

theorem process_text_writes_entry_witness:
  "(\<exists>bk' d'. process_text sample_mmap ''abc'' sample_backend = Inr (bk', d') \<and> m_resourceName bk' = ''log_2.txt'' \<and>
     file_holds ''abc'' (bk', d') \<and> disk_files d' ''log.txt'' = Some [CHR ''x'', CHR ''y'', NUL, NUL, NUL]) \<and>
   (\<exists>bk' d'. process_text sample_mmap ''a'' sample_backend = Inr (bk', d') \<and> m_resourceName bk' = ''log.txt'' \<and>
     file_holds ''xya'' (bk', d'))"
proof -
  have h: "file_holds ''xy'' (fst sample_backend, snd sample_backend)"
    by (auto simp: file_holds_def sample_backend_def Let_def SharedMemory_new_def c_str_def replicate_2 replicate_3 intro!: exI[of _ 2])
  have n: "backend_named ''log.txt'' (fst sample_backend)" "NUL \<notin> set ''log.txt''" "1 \<le> unat (m_rotationId (fst sample_backend))"
    "unat (m_rotationId (fst sample_backend)) + 1 < 2 ^ 32" "rotation_possible sample_mmap (fst sample_backend)"
    by (simp_all add: backend_named_def sample_backend_def Let_def log_names log_file_def MemoryMappedFileBackend_new_def
        rotation_possible_def sample_mmap_def MAX_BUFFER_SIZE_def)
  have s: "unat (m_size (m_logFile (fst sample_backend))) = 4" "m_resourceName (fst sample_backend) = ''log.txt''"
    "unat (m_rotationId (fst sample_backend)) + 1 = 2"
    "disk_files (snd sample_backend) ''log.txt'' = Some [CHR ''x'', CHR ''y'', NUL, NUL, NUL]"
    by (simp_all add: sample_backend_def Let_def SharedMemory_new_def MemoryMappedFileBackend_new_def)
  have "log_file ''log.txt'' 2 = ''log_2.txt''"
    by (simp add: log_file_def log_names to_string_def show_nat.simps digit_char_def)
  then show ?thesis
    using process_text_writes_entry[OF h n(1-4), of "''abc''" sample_mmap]
      process_text_writes_entry[OF h n(1-4), of "''a''" sample_mmap] n(5) s
    by (auto simp: MAX_BUFFER_SIZE_def simp flip: numeral_2_eq_2)
qed

text \<open>
  \<open>close\<close> keeps the descriptor of its file open: only the descriptor 0 passes its test. Every
  rotation of the log leaves one behind.
\<close>

lemma close_keeps_descriptor:
  assumes "0 < m_fileDescriptor mem"
  shows "snd (SharedMemory_close (mem, d)) = d"
  using assms by (simp add: SharedMemory_close_def)

text \<open>
  The page count is an \<open>int\<close>: for the size that the setting \<open>-1\<close> gives, the product wraps around to
  no page at all, and the first entry divides by zero.
\<close>

lemma huge_size_is_no_page: "adjustSizeToPageSize 4096 (word_of_int (- 1)) = 0"
  by code_simp

lemma append_to_no_page: "m_size (fst st) = 0 \<Longrightarrow> SharedMemory_append text st = Inl Division_by_zero"
  by (simp add: SharedMemory_append_def)

end
