(* ===== verification/Queue_Mpsc.thy ===== *)
theory Queue_Mpsc
  imports Spin_Lock
begin

text \<open>
  \<open>core::QueueMPSC\<close> (\<open>source/core/concurrency/queue_mpsc.hpp\<close>): an unbounded linked queue with a
  dummy node, which many threads push to and one thread empties with \<open>flush\<close>. The nodes live in an
  explicit heap: \<open>flush\<close> hands out a chain of nodes that the caller walks after the lock is released,
  so that the correctness of the queue is about aliasing. First the operations as functions, then
  the interleaving of the single reads and writes of any number of producers and of the consumer.
\<close>

section \<open>Nodes and operations\<close>

record 'a QueueMPSCNode =
  m_data :: 'a
  m_next :: "nat option"

text \<open>
  Addresses from \<open>next_node\<close> on are not allocated yet. No node is freed before the queue itself is
  destroyed, so allocation never gives an address again.
\<close>

record 'a QueueMPSC =
  node_heap :: "nat \<Rightarrow> 'a QueueMPSCNode"
  next_node :: nat
  m_head :: nat
  m_tail :: nat
  m_mutex :: SpinLock

definition new_node :: "'a \<Rightarrow> 'a QueueMPSC \<Rightarrow> nat \<times> 'a QueueMPSC" where
  "new_node v q = (next_node q,
     q\<lparr>node_heap := (node_heap q)(next_node q := \<lparr>m_data = v, m_next = None\<rparr>), next_node := next_node q + 1\<rparr>)"

definition set_next :: "nat \<Rightarrow> nat option \<Rightarrow> 'a QueueMPSC \<Rightarrow> 'a QueueMPSC" where
  "set_next a p q = q\<lparr>node_heap := (node_heap q)(a := (node_heap q a)\<lparr>m_next := p\<rparr>)\<rparr>"

text \<open>The dummy node holds a default constructed element \<open>mem\<close>.\<close>

definition QueueMPSC_new :: "'a \<Rightarrow> 'a QueueMPSC" where
  "QueueMPSC_new mem = \<lparr>node_heap = \<lambda>_. \<lparr>m_data = mem, m_next = None\<rparr>, next_node = 1,
     m_head = 0, m_tail = 0, m_mutex = SpinLock_new\<rparr>"

text \<open>The three operations, each run by one thread alone.\<close>

definition QueueMPSC_push :: "'a \<Rightarrow> 'a QueueMPSC \<Rightarrow> 'a QueueMPSC" where
  "QueueMPSC_push data q =
     (let (newNode, q1) = new_node data q;
          q2 = set_next (m_tail q1) (Some newNode) q1
      in q2\<lparr>m_tail := newNode\<rparr>)"

definition QueueMPSC_isEmpty :: "'a QueueMPSC \<Rightarrow> bool" where
  "QueueMPSC_isEmpty q = (m_next (node_heap q (m_head q)) = None)"

definition QueueMPSC_flush :: "'a QueueMPSC \<Rightarrow> nat option \<times> 'a QueueMPSC" where
  "QueueMPSC_flush q =
     (if QueueMPSC_isEmpty q then (None, q)
      else let ret = m_next (node_heap q (m_head q))
           in (ret, (set_next (m_head q) None q)\<lparr>m_tail := m_head q\<rparr>))"

text \<open>What a loop \<open>while (node) { ... node = node->m_next; }\<close> sees; \<open>None\<close> when it does not end.\<close>

partial_function (option) read_chain :: "(nat \<Rightarrow> 'a QueueMPSCNode) \<Rightarrow> nat option \<Rightarrow> 'a list option" where
  "read_chain h p =
     (case p of None \<Rightarrow> Some []
      | Some a \<Rightarrow> Option.bind (read_chain h (m_next (h a))) (\<lambda>xs. Some (m_data (h a) # xs)))"

section \<open>Chains\<close>

fun linked :: "(nat \<Rightarrow> 'a QueueMPSCNode) \<Rightarrow> nat list \<Rightarrow> nat option \<Rightarrow> bool" where
  "linked h [] p \<longleftrightarrow> p = None"
| "linked h (a # as) p \<longleftrightarrow> p = Some a \<and> linked h as (m_next (h a))"

abbreviation chain_data :: "(nat \<Rightarrow> 'a QueueMPSCNode) \<Rightarrow> nat list \<Rightarrow> 'a list" where
  "chain_data h \<equiv> map (\<lambda>a. m_data (h a))"

lemma read_chain_linked: "linked h as p \<Longrightarrow> read_chain h p = Some (chain_data h as)"
  by (induction as arbitrary: p) (simp_all add: read_chain.simps)

lemma last_Cons_snoc: "last (x # xs @ [y]) = y"
  by simp

lemma linked_upd [simp]: "b \<notin> set as \<Longrightarrow> linked (h(b := n)) as p = linked h as p"
  by (induction as arbitrary: p) auto

text \<open>Appending a node: the last node of the chain, or the node the chain hangs off, is linked to it.\<close>

lemma linked_append:
  assumes "linked h as (m_next (h r))" "distinct (r # as)" "a \<notin> set (r # as)" "m_next (h a) = None"
    "h' = h(last (r # as) := (h (last (r # as)))\<lparr>m_next := Some a\<rparr>)"
  shows "linked h' (as @ [a]) (m_next (h' r))"
  using assms
proof (induction as arbitrary: r)
  case (Cons b as)
  then have "linked h' (as @ [a]) (m_next (h' b))" by simp
  moreover have "last (b # as) \<noteq> r" using Cons.prems(2) last_in_set[of "b # as"] by auto
  ultimately show ?case using Cons.prems(1,5) by (simp del: last.simps add: last_ConsR)
qed simp

section \<open>The operations on the list of pushed elements\<close>

text \<open>\<open>queue_of_chain as q\<close>: the nodes \<open>as\<close> wait in the queue.\<close>

definition queue_of_chain :: "nat list \<Rightarrow> 'a QueueMPSC \<Rightarrow> bool" where
  "queue_of_chain as q \<longleftrightarrow> linked (node_heap q) as (m_next (node_heap q (m_head q))) \<and>
     distinct (m_head q # as) \<and> (\<forall>a \<in> set (m_head q # as). a < next_node q) \<and> m_tail q = last (m_head q # as)"

definition mpsc_wf :: "'a QueueMPSC \<Rightarrow> bool" where
  "mpsc_wf q \<longleftrightarrow> (\<exists>as. queue_of_chain as q)"

text \<open>What the queue holds: the elements a walk from the dummy node would see.\<close>

definition waiting :: "'a QueueMPSC \<Rightarrow> 'a list" where
  "waiting q = the (read_chain (node_heap q) (m_next (node_heap q (m_head q))))"

lemma waiting_chain: "queue_of_chain as q \<Longrightarrow> waiting q = chain_data (node_heap q) as"
  unfolding waiting_def queue_of_chain_def using read_chain_linked by fastforce

lemma queue_of_chain_push:
  assumes "queue_of_chain as q"
  shows "queue_of_chain (as @ [next_node q]) (QueueMPSC_push v q)"
    "chain_data (node_heap (QueueMPSC_push v q)) (as @ [next_node q]) = chain_data (node_heap q) as @ [v]"
proof -
  let ?n = "next_node q" and ?l = "last (m_head q # as)"
  let ?h = "(node_heap q)(?n := \<lparr>m_data = v, m_next = None\<rparr>)"
  have new: "?n \<notin> set (m_head q # as)" and l: "m_tail q = ?l" and lin: "?l \<in> set (m_head q # as)"
    using assms last_in_set[of "m_head q # as"] by (auto simp: queue_of_chain_def simp del: last.simps)
  have "linked ?h as (m_next (?h (m_head q)))"
    using assms new by (auto simp: queue_of_chain_def)
  from linked_append[OF this, of ?n] assms new l lin
  show "queue_of_chain (as @ [?n]) (QueueMPSC_push v q)"
    unfolding queue_of_chain_def QueueMPSC_push_def new_node_def set_next_def Let_def
    by (auto simp del: last.simps simp: less_Suc_eq last_Cons_snoc)
  show "chain_data (node_heap (QueueMPSC_push v q)) (as @ [?n]) = chain_data (node_heap q) as @ [v]"
    using new lin l by (auto simp: QueueMPSC_push_def new_node_def set_next_def)
qed

lemma queue_of_chain_flush:
  assumes "queue_of_chain as q"
  shows "queue_of_chain [] (snd (QueueMPSC_flush q))"
    "linked (node_heap (snd (QueueMPSC_flush q))) as (fst (QueueMPSC_flush q))"
    "chain_data (node_heap (snd (QueueMPSC_flush q))) as = chain_data (node_heap q) as"
proof -
  have out: "m_head q \<notin> set as" using assms by (simp add: queue_of_chain_def)
  show "queue_of_chain [] (snd (QueueMPSC_flush q))"
    using assms by (cases as) (simp_all add: QueueMPSC_flush_def QueueMPSC_isEmpty_def queue_of_chain_def set_next_def)
  show "linked (node_heap (snd (QueueMPSC_flush q))) as (fst (QueueMPSC_flush q))"
    using assms out by (cases as) (simp_all add: QueueMPSC_flush_def QueueMPSC_isEmpty_def queue_of_chain_def set_next_def)
  show "chain_data (node_heap (snd (QueueMPSC_flush q))) as = chain_data (node_heap q) as"
    using out by (auto simp: QueueMPSC_flush_def set_next_def)
qed

section \<open>The interface of a message queue\<close>

text \<open>
  What the logger relies on: elements come out once, all at once, in the order they went in. The
  reading side sees the elements through a chain that it walks.
\<close>

locale message_queue =
  fixes create :: "'e \<Rightarrow> 'q"
    and put :: "'e \<Rightarrow> 'q \<Rightarrow> 'q"
    and take_all :: "'q \<Rightarrow> 'e list option \<times> 'q"
    and wf :: "'q \<Rightarrow> bool"
    and contents :: "'q \<Rightarrow> 'e list"
  assumes create: "wf (create e) \<and> contents (create e) = []"
    and put: "wf q \<Longrightarrow> wf (put e q) \<and> contents (put e q) = contents q @ [e]"
    and take_all: "wf q \<Longrightarrow> fst (take_all q) = Some (contents q) \<and> wf (snd (take_all q)) \<and> contents (snd (take_all q)) = []"
begin

lemma put_many: "wf q \<Longrightarrow> wf (fold put es q) \<and> contents (fold put es q) = contents q @ es"
  by (induction es arbitrary: q) (auto simp: put)

lemma take_put_many: "wf q \<Longrightarrow> fst (take_all (fold put es q)) = Some (contents q @ es)"
  using put_many[of q es] take_all[of "fold put es q"] by simp

end

definition drain :: "'a QueueMPSC \<Rightarrow> 'a list option \<times> 'a QueueMPSC" where
  "drain q = (let (p, q') = QueueMPSC_flush q in (read_chain (node_heap q') p, q'))"

interpretation mpsc: message_queue QueueMPSC_new QueueMPSC_push drain mpsc_wf waiting
proof
  fix e :: 'a and q :: "'a QueueMPSC"
  have "queue_of_chain [] (QueueMPSC_new e)" by (simp add: queue_of_chain_def QueueMPSC_new_def)
  then show "mpsc_wf (QueueMPSC_new e) \<and> waiting (QueueMPSC_new e) = []"
    using waiting_chain by (fastforce simp: mpsc_wf_def)
  assume "mpsc_wf q"
  then obtain as where c: "queue_of_chain as q" by (auto simp: mpsc_wf_def)
  show "mpsc_wf (QueueMPSC_push e q) \<and> waiting (QueueMPSC_push e q) = waiting q @ [e]"
    using queue_of_chain_push[OF c, of e] waiting_chain[OF c] waiting_chain[OF queue_of_chain_push(1)[OF c], of e]
    by (auto simp: mpsc_wf_def)
  show "fst (drain q) = Some (waiting q) \<and> mpsc_wf (snd (drain q)) \<and> waiting (snd (drain q)) = []"
    using queue_of_chain_flush[OF c] waiting_chain[OF c] waiting_chain[OF queue_of_chain_flush(1)[OF c]]
    by (auto simp: drain_def split_beta mpsc_wf_def dest: read_chain_linked)
qed

section \<open>The threads\<close>

text \<open>
  The control points of a call of \<open>push\<close> and of a call of \<open>flush\<close>. A thread at \<open>P_Lock\<close> or \<open>P_Link\<close>
  has a node that is not linked yet. \<open>F_Blocked\<close> is the wait for a notification inside
  \<open>m_noData.wait\<close>, which has released the lock.
\<close>

datatype 'a queue_pc =
    Q_Idle
  | P_New 'a
  | P_Lock lock_pc nat
  | P_Link nat
  | P_Tail nat
  | P_Unlock
  | F_Empty lock_pc
  | F_Test
  | F_Tested bool
  | F_Lock lock_pc
  | F_Wait
  | F_Blocked
  | F_Take
  | F_Clear "nat option"
  | F_Reset "nat option"
  | F_Unlock "nat option"
  | F_Return "nat option"

text \<open>
  The state of the threads and, for the statements, the history: the nodes \<open>live\<close> in the queue, the
  chains \<open>batches\<close> that \<open>flush\<close> has detached and the elements \<open>flushed\<close> they held at that moment,
  and all elements \<open>pushed\<close>, in the order of the linking writes.
\<close>

record 'a mpsc_state =
  queue :: "'a QueueMPSC"
  pc :: "nat \<Rightarrow> 'a queue_pc"
  live :: "nat list"
  batches :: "nat list list"
  flushed :: "'a list list"
  pushed :: "'a list"

text \<open>Thread 0 is the consumer; every thread may push.\<close>

inductive mpsc_step :: "'a mpsc_state \<Rightarrow> 'a mpsc_state \<Rightarrow> bool" where
  call_push: "pc s t = Q_Idle \<Longrightarrow> mpsc_step s (s\<lparr>pc := (pc s)(t := P_New v)\<rparr>)"
| new: "pc s t = P_New v \<Longrightarrow> new_node v (queue s) = (a, q) \<Longrightarrow>
    mpsc_step s (s\<lparr>queue := q, pc := (pc s)(t := P_Lock L_Loop a)\<rparr>)"
| push_wait: "pc s t = P_Lock p a \<Longrightarrow> lock_turn p (m_mutex (queue s)) = (Some p', l) \<Longrightarrow>
    mpsc_step s (s\<lparr>queue := (queue s)\<lparr>m_mutex := l\<rparr>, pc := (pc s)(t := P_Lock p' a)\<rparr>)"
| push_locked: "pc s t = P_Lock p a \<Longrightarrow> lock_turn p (m_mutex (queue s)) = (None, l) \<Longrightarrow>
    mpsc_step s (s\<lparr>queue := (queue s)\<lparr>m_mutex := l\<rparr>, pc := (pc s)(t := P_Link a)\<rparr>)"
| link: "pc s t = P_Link a \<Longrightarrow>
    mpsc_step s (s\<lparr>queue := set_next (m_tail (queue s)) (Some a) (queue s), pc := (pc s)(t := P_Tail a),
      live := live s @ [a], pushed := pushed s @ [m_data (node_heap (queue s) a)]\<rparr>)"
| tail: "pc s t = P_Tail a \<Longrightarrow>
    mpsc_step s (s\<lparr>queue := (queue s)\<lparr>m_tail := a\<rparr>, pc := (pc s)(t := P_Unlock)\<rparr>)"
| push_unlock: "pc s t = P_Unlock \<Longrightarrow>
    mpsc_step s (s\<lparr>queue := (queue s)\<lparr>m_mutex := unlock (m_mutex (queue s))\<rparr>, pc := (pc s)(t := Q_Idle)\<rparr>)"
| call_flush: "pc s 0 = Q_Idle \<Longrightarrow> mpsc_step s (s\<lparr>pc := (pc s)(0 := F_Empty L_Loop)\<rparr>)"
| empty_wait: "pc s t = F_Empty p \<Longrightarrow> lock_turn p (m_mutex (queue s)) = (Some p', l) \<Longrightarrow>
    mpsc_step s (s\<lparr>queue := (queue s)\<lparr>m_mutex := l\<rparr>, pc := (pc s)(t := F_Empty p')\<rparr>)"
| empty_locked: "pc s t = F_Empty p \<Longrightarrow> lock_turn p (m_mutex (queue s)) = (None, l) \<Longrightarrow>
    mpsc_step s (s\<lparr>queue := (queue s)\<lparr>m_mutex := l\<rparr>, pc := (pc s)(t := F_Test)\<rparr>)"
| test: "pc s t = F_Test \<Longrightarrow>
    mpsc_step s (s\<lparr>pc := (pc s)(t := F_Tested (QueueMPSC_isEmpty (queue s)))\<rparr>)"
| empty_unlock: "pc s t = F_Tested b \<Longrightarrow>
    mpsc_step s (s\<lparr>queue := (queue s)\<lparr>m_mutex := unlock (m_mutex (queue s))\<rparr>,
      pc := (pc s)(t := if b then F_Return None else F_Lock L_Loop)\<rparr>)"
| flush_wait: "pc s t = F_Lock p \<Longrightarrow> lock_turn p (m_mutex (queue s)) = (Some p', l) \<Longrightarrow>
    mpsc_step s (s\<lparr>queue := (queue s)\<lparr>m_mutex := l\<rparr>, pc := (pc s)(t := F_Lock p')\<rparr>)"
| flush_locked: "pc s t = F_Lock p \<Longrightarrow> lock_turn p (m_mutex (queue s)) = (None, l) \<Longrightarrow>
    mpsc_step s (s\<lparr>queue := (queue s)\<lparr>m_mutex := l\<rparr>, pc := (pc s)(t := F_Wait)\<rparr>)"
| ready: "pc s t = F_Wait \<Longrightarrow> \<not> QueueMPSC_isEmpty (queue s) \<Longrightarrow>
    mpsc_step s (s\<lparr>pc := (pc s)(t := F_Take)\<rparr>)"
| block: "pc s t = F_Wait \<Longrightarrow> QueueMPSC_isEmpty (queue s) \<Longrightarrow>
    mpsc_step s (s\<lparr>queue := (queue s)\<lparr>m_mutex := unlock (m_mutex (queue s))\<rparr>, pc := (pc s)(t := F_Blocked)\<rparr>)"
| wake: "pc s t = F_Blocked \<Longrightarrow> mpsc_step s (s\<lparr>pc := (pc s)(t := F_Lock L_Loop)\<rparr>)"
| take: "pc s t = F_Take \<Longrightarrow>
    mpsc_step s (s\<lparr>pc := (pc s)(t := F_Clear (m_next (node_heap (queue s) (m_head (queue s)))))\<rparr>)"
| clear: "pc s t = F_Clear r \<Longrightarrow>
    mpsc_step s (s\<lparr>queue := set_next (m_head (queue s)) None (queue s), pc := (pc s)(t := F_Reset r),
      live := [], batches := batches s @ [live s],
      flushed := flushed s @ [chain_data (node_heap (queue s)) (live s)]\<rparr>)"
| reset: "pc s t = F_Reset r \<Longrightarrow>
    mpsc_step s (s\<lparr>queue := (queue s)\<lparr>m_tail := m_head (queue s)\<rparr>, pc := (pc s)(t := F_Unlock r)\<rparr>)"
| flush_unlock: "pc s t = F_Unlock r \<Longrightarrow>
    mpsc_step s (s\<lparr>queue := (queue s)\<lparr>m_mutex := unlock (m_mutex (queue s))\<rparr>, pc := (pc s)(t := F_Return r)\<rparr>)"
| return: "pc s t = F_Return r \<Longrightarrow> mpsc_step s (s\<lparr>pc := (pc s)(t := Q_Idle)\<rparr>)"

inductive mpsc_reachable :: "'a mpsc_state \<Rightarrow> bool" where
  start: "mpsc_reachable \<lparr>queue = QueueMPSC_new e, pc = \<lambda>_. Q_Idle, live = [], batches = [], flushed = [], pushed = []\<rparr>"
| step: "mpsc_reachable s \<Longrightarrow> mpsc_step s s' \<Longrightarrow> mpsc_reachable s'"

section \<open>The invariant of the interleaving\<close>

text \<open>The points at which a thread holds the lock.\<close>

fun critical :: "'a queue_pc \<Rightarrow> bool" where
  "critical (P_Link _) = True" | "critical (P_Tail _) = True" | "critical P_Unlock = True"
| "critical F_Test = True" | "critical (F_Tested _) = True" | "critical F_Wait = True"
| "critical F_Take = True" | "critical (F_Clear _) = True" | "critical (F_Reset _) = True"
| "critical (F_Unlock _) = True" | "critical _ = False"

text \<open>The node that only this thread can reach.\<close>

fun own_node :: "'a queue_pc \<Rightarrow> nat option" where
  "own_node (P_Lock _ a) = Some a" | "own_node (P_Link a) = Some a" | "own_node _ = None"

text \<open>The points at which \<open>m_tail\<close> does not yet point to the last node.\<close>

fun tail_late :: "'a queue_pc \<Rightarrow> bool" where
  "tail_late (P_Tail _) = True" | "tail_late (F_Reset _) = True" | "tail_late _ = False"

fun flushing :: "'a queue_pc \<Rightarrow> bool" where
  "flushing Q_Idle = False" | "flushing (P_New _) = False" | "flushing (P_Lock _ _) = False"
| "flushing (P_Link _) = False" | "flushing (P_Tail _) = False" | "flushing P_Unlock = False"
| "flushing _ = True"

text \<open>What a thread knows: the chain \<open>as\<close> of the queue and the chains \<open>bs\<close> that were detached.\<close>

definition last_batch :: "nat list list \<Rightarrow> nat option" where
  "last_batch bs = (if bs = [] then None else Some (hd (last bs)))"

fun pc_ok :: "nat list \<Rightarrow> nat list list \<Rightarrow> 'a queue_pc \<Rightarrow> bool" where
  "pc_ok as bs (P_Tail a) \<longleftrightarrow> as \<noteq> [] \<and> last as = a"
| "pc_ok as bs (F_Tested b) \<longleftrightarrow> (\<not> b \<longrightarrow> as \<noteq> [])"
| "pc_ok as bs (F_Lock _) \<longleftrightarrow> as \<noteq> []"
| "pc_ok as bs F_Wait \<longleftrightarrow> as \<noteq> []"
| "pc_ok as bs F_Blocked \<longleftrightarrow> False"
| "pc_ok as bs F_Take \<longleftrightarrow> as \<noteq> []"
| "pc_ok as bs (F_Clear r) \<longleftrightarrow> as \<noteq> [] \<and> r = Some (hd as)"
| "pc_ok as bs (F_Reset r) \<longleftrightarrow> as = [] \<and> bs \<noteq> [] \<and> r = last_batch bs"
| "pc_ok as bs (F_Unlock r) \<longleftrightarrow> bs \<noteq> [] \<and> r = last_batch bs"
| "pc_ok as bs (F_Return r) \<longleftrightarrow> r = None \<or> bs \<noteq> [] \<and> r = last_batch bs"
| "pc_ok as bs _ \<longleftrightarrow> True"

text \<open>The nodes in use: the detached chains, the dummy node and the chain of the queue.\<close>

definition shared_nodes :: "'a mpsc_state \<Rightarrow> nat list" where
  "shared_nodes s = concat (batches s) @ m_head (queue s) # live s"

definition threads_ok :: "'a mpsc_state \<Rightarrow> bool" where
  "threads_ok s \<longleftrightarrow> owned (m_flag (m_mutex (queue s))) {t. critical (pc s t)} \<and>
     (\<forall>t. flushing (pc s t) \<longrightarrow> t = 0) \<and> (\<forall>t. pc_ok (live s) (batches s) (pc s t))"

definition nodes_ok :: "'a mpsc_state \<Rightarrow> bool" where
  "nodes_ok s \<longleftrightarrow> distinct (shared_nodes s) \<and> (\<forall>a \<in> set (shared_nodes s). a < next_node (queue s)) \<and>
     (\<forall>t a. own_node (pc s t) = Some a \<longrightarrow>
        a < next_node (queue s) \<and> a \<notin> set (shared_nodes s) \<and> m_next (node_heap (queue s) a) = None) \<and>
     (\<forall>t u a. own_node (pc s t) = Some a \<and> own_node (pc s u) = Some a \<longrightarrow> t = u)"

definition chains_ok :: "'a mpsc_state \<Rightarrow> bool" where
  "chains_ok s \<longleftrightarrow> linked (node_heap (queue s)) (live s) (m_next (node_heap (queue s) (m_head (queue s)))) \<and>
     (\<forall>b \<in> set (batches s). b \<noteq> [] \<and> linked (node_heap (queue s)) b (Some (hd b))) \<and>
     ((\<forall>t. \<not> tail_late (pc s t)) \<longrightarrow> m_tail (queue s) = last (m_head (queue s) # live s)) \<and>
     flushed s = map (chain_data (node_heap (queue s))) (batches s) \<and>
     pushed s = concat (flushed s) @ chain_data (node_heap (queue s)) (live s)"

definition mpsc_inv :: "'a mpsc_state \<Rightarrow> bool" where
  "mpsc_inv s \<longleftrightarrow> threads_ok s \<and> nodes_ok s \<and> chains_ok s"

lemma tail_late_critical: "tail_late c \<Longrightarrow> critical c"
  by (cases c) auto

lemma others_not_critical:
  assumes "threads_ok s" "critical (pc s t)" "u \<noteq> t"
  shows "\<not> critical (pc s u)"
  using spin.owned_unique[of "m_mutex (queue s)" "{t. critical (pc s t)}" t u] assms
  by (auto simp: threads_ok_def)

lemma pc_ok_outside:
  "\<not> critical c \<Longrightarrow> \<not> flushing c \<Longrightarrow> pc_ok as bs c" and
  pc_ok_grow: "\<not> critical c \<Longrightarrow> pc_ok as bs c \<Longrightarrow> pc_ok (as @ [a]) bs c"
  by (cases c; simp)+

text \<open>The lock part of a step, by what it does to the holder set.\<close>

lemma critical_move: "critical v = critical (pc s t) \<Longrightarrow> {u. critical (((pc s)(t := v)) u)} = {u. critical (pc s u)}"
  by auto

lemma mpsc_inv_move:
  assumes inv: "mpsc_inv s"
    and own: "owned (m_flag l) {u. critical (((pc s)(t := v)) u)}"
    and v: "flushing v \<longrightarrow> t = 0" "pc_ok (live s) (batches s) v" "own_node v \<in> {None, own_node (pc s t)}"
      "\<not> tail_late (pc s t)"
  shows "mpsc_inv (s\<lparr>queue := (queue s)\<lparr>m_mutex := l\<rparr>, pc := (pc s)(t := v)\<rparr>)"
proof -
  define c where "c = (pc s)(t := v)"
  have c: "c u = (if u = t then v else pc s u)" for u by (simp add: c_def)
  have "\<forall>u. flushing (c u) \<longrightarrow> u = 0" "\<forall>u. pc_ok (live s) (batches s) (c u)"
    using inv v by (auto simp: mpsc_inv_def threads_ok_def c)
  moreover have "\<forall>u a. own_node (c u) = Some a \<longrightarrow> own_node (pc s u) = Some a" using v(3) by (auto simp: c)
  moreover have "(\<forall>u. \<not> tail_late (c u)) \<longrightarrow> (\<forall>u. \<not> tail_late (pc s u))" using v(4) by (metis c)
  ultimately show ?thesis
    using inv own unfolding mpsc_inv_def threads_ok_def nodes_ok_def chains_ok_def shared_nodes_def
    by (simp flip: c_def) (metis (no_types, lifting))
qed

text \<open>The four uses of it: a step that leaves the lock alone, waits for it, gets it or gives it back.\<close>

lemma mpsc_inv_pure:
  assumes "mpsc_inv s" "critical v = critical (pc s t)"
    and "flushing v \<longrightarrow> t = 0" "pc_ok (live s) (batches s) v" "own_node v \<in> {None, own_node (pc s t)}" "\<not> tail_late (pc s t)"
  shows "mpsc_inv (s\<lparr>pc := (pc s)(t := v)\<rparr>)"
  using mpsc_inv_move[of s "m_mutex (queue s)" t v] critical_move[OF assms(2)] assms
  by (simp add: mpsc_inv_def threads_ok_def del: fun_upd_apply)

lemma mpsc_inv_wait:
  assumes "mpsc_inv s" "lock_turn p (m_mutex (queue s)) = (Some p', l)" "critical v = critical (pc s t)"
    and "flushing v \<longrightarrow> t = 0" "pc_ok (live s) (batches s) v" "own_node v \<in> {None, own_node (pc s t)}" "\<not> tail_late (pc s t)"
  shows "mpsc_inv (s\<lparr>queue := (queue s)\<lparr>m_mutex := l\<rparr>, pc := (pc s)(t := v)\<rparr>)"
  using mpsc_inv_pure[OF assms(1,3-)] spin.turn_waits[OF assms(2)] by simp

lemma mpsc_inv_locked:
  assumes inv: "mpsc_inv s" and lk: "lock_turn p (m_mutex (queue s)) = (None, l)" and cr: "critical v"
    and v: "flushing v \<longrightarrow> t = 0" "pc_ok (live s) (batches s) v" "own_node v \<in> {None, own_node (pc s t)}" "\<not> tail_late (pc s t)"
  shows "mpsc_inv (s\<lparr>queue := (queue s)\<lparr>m_mutex := l\<rparr>, pc := (pc s)(t := v)\<rparr>)"
proof (rule mpsc_inv_move[OF inv _ v])
  have "owned (m_flag (m_mutex (queue s))) {u. critical (pc s u)}" using inv by (simp add: mpsc_inv_def threads_ok_def)
  from spin.owned_acquire[OF this lk, of t] cr show "owned (m_flag l) {u. critical (((pc s)(t := v)) u)}"
    unfolding holders_upd[of critical] by simp
qed

lemma mpsc_inv_unlock:
  assumes inv: "mpsc_inv s" and cr: "critical (pc s t)" "\<not> critical v"
    and v: "flushing v \<longrightarrow> t = 0" "pc_ok (live s) (batches s) v" "own_node v \<in> {None, own_node (pc s t)}" "\<not> tail_late (pc s t)"
  shows "mpsc_inv (s\<lparr>queue := (queue s)\<lparr>m_mutex := unlock (m_mutex (queue s))\<rparr>, pc := (pc s)(t := v)\<rparr>)"
proof (rule mpsc_inv_move[OF inv _ v])
  have "owned (m_flag (m_mutex (queue s))) {u. critical (pc s u)}" using inv by (simp add: mpsc_inv_def threads_ok_def)
  from spin.owned_release[OF this, of t] cr show "owned (m_flag (unlock (m_mutex (queue s)))) {u. critical (((pc s)(t := v)) u)}"
    unfolding holders_upd[of critical] by (simp add: unlock_def)
qed

text \<open>The steps that write to the nodes or to \<open>m_tail\<close>.\<close>

lemma mpsc_inv_set_tail:
  assumes inv: "mpsc_inv s" and t: "tail_late (pc s t)" "critical v" "\<not> tail_late v" "own_node v = None"
    and v: "flushing v \<longrightarrow> t = 0" "pc_ok (live s) (batches s) v" "a = last (m_head (queue s) # live s)"
  shows "mpsc_inv (s\<lparr>queue := (queue s)\<lparr>m_tail := a\<rparr>, pc := (pc s)(t := v)\<rparr>)"
proof -
  define c where "c = (pc s)(t := v)"
  have c: "c u = (if u = t then v else pc s u)" for u by (simp add: c_def)
  have crit: "{u. critical (c u)} = {u. critical (pc s u)}" using t tail_late_critical by (auto simp: c)
  have "\<forall>u. flushing (c u) \<longrightarrow> u = 0" "\<forall>u. pc_ok (live s) (batches s) (c u)"
    using inv v by (auto simp: mpsc_inv_def threads_ok_def c)
  moreover have "\<forall>u a. own_node (c u) = Some a \<longrightarrow> own_node (pc s u) = Some a" using t(4) by (auto simp: c)
  ultimately show ?thesis
    using inv crit v(3) unfolding mpsc_inv_def threads_ok_def nodes_ok_def chains_ok_def shared_nodes_def
    by (simp flip: c_def) (metis (no_types, lifting))
qed

lemma mpsc_inv_new:
  assumes inv: "mpsc_inv s" and t: "pc s t = P_New v" and new: "new_node v (queue s) = (a, q)"
  shows "mpsc_inv (s\<lparr>queue := q, pc := (pc s)(t := P_Lock L_Loop a)\<rparr>)"
proof -
  let ?n = "next_node (queue s)" and ?s = "s\<lparr>queue := q, pc := (pc s)(t := P_Lock L_Loop a)\<rparr>"
  have q: "a = ?n" "q = (queue s)\<lparr>node_heap := (node_heap (queue s))(?n := \<lparr>m_data = v, m_next = None\<rparr>), next_node := ?n + 1\<rparr>"
    using new by (auto simp: new_node_def)
  have bound: "\<forall>b \<in> set (shared_nodes s). b < ?n" using inv by (simp add: mpsc_inv_def nodes_ok_def)
  then have out: "?n \<notin> set (live s)" "?n \<noteq> m_head (queue s)" "\<forall>b \<in> set (batches s). ?n \<notin> set b"
    by (auto simp: shared_nodes_def)
  have sh: "shared_nodes ?s = shared_nodes s" by (simp add: shared_nodes_def q)
  have "threads_ok ?s"
    using inv critical_move[of "P_Lock L_Loop a" s t] t
    by (simp add: mpsc_inv_def threads_ok_def q)
  moreover have "nodes_ok ?s"
    using inv bound unfolding mpsc_inv_def nodes_ok_def sh by (auto simp: q intro: less_SucI)
  moreover have "chains_ok ?s"
  proof -
    have "\<not> tail_late (pc s t)" using t by simp
    then have late: "(\<forall>u. \<not> tail_late (pc ?s u)) \<longleftrightarrow> (\<forall>u. \<not> tail_late (pc s u))" by simp metis
    show ?thesis using inv out unfolding mpsc_inv_def chains_ok_def late by (auto simp: q)
  qed
  ultimately show ?thesis by (simp add: mpsc_inv_def)
qed

lemma mpsc_inv_link:
  assumes inv: "mpsc_inv s" and t: "pc s t = P_Link a"
  shows "mpsc_inv (s\<lparr>queue := set_next (m_tail (queue s)) (Some a) (queue s), pc := (pc s)(t := P_Tail a),
      live := live s @ [a], pushed := pushed s @ [m_data (node_heap (queue s) a)]\<rparr>)" (is "mpsc_inv ?s")
proof -
  let ?q = "queue s" and ?as = "live s" and ?h = "node_heap (queue s)" and ?h' = "node_heap (queue ?s)"
  have th: "threads_ok s" and nd: "nodes_ok s" and ch: "chains_ok s" using inv by (simp_all add: mpsc_inv_def)
  have "critical (pc s t)" using t by simp
  note others = others_not_critical[OF th this]
  have "\<not> tail_late (pc s u)" for u using others[of u] tail_late_critical[of "pc s u"] t by (cases "u = t") auto
  then have l: "m_tail ?q = last (m_head ?q # ?as)" using ch by (simp add: chains_ok_def)
  have a: "a < next_node ?q" "a \<notin> set (shared_nodes s)" "m_next (?h a) = None"
    using nd t unfolding nodes_ok_def by (metis own_node.simps(2))+
  have dist: "distinct (shared_nodes s)" using nd by (simp add: nodes_ok_def)
  have tl: "m_tail ?q \<in> set (m_head ?q # ?as)" unfolding l by (rule last_in_set) simp
  have data: "chain_data ?h' bs = chain_data ?h bs" for bs by (auto simp: set_next_def)
  have h': "?h' = ?h(last (m_head ?q # ?as) := (?h (last (m_head ?q # ?as)))\<lparr>m_next := Some a\<rparr>)"
    by (simp add: set_next_def l del: last.simps)
  have "threads_ok ?s"
    using th others t critical_move[of "P_Tail a" s t]
    by (auto simp: threads_ok_def set_next_def intro: pc_ok_grow)
  moreover have "nodes_ok ?s"
  proof -
    have sh: "shared_nodes ?s = shared_nodes s @ [a]" by (simp add: shared_nodes_def set_next_def)
    have other: "own_node (pc s u) \<noteq> Some a" if "u \<noteq> t" for u
      using nd t that unfolding nodes_ok_def by (metis own_node.simps(2))
    have "b \<noteq> m_tail ?q" if "own_node (pc s u) = Some b" for u b
      using nd that tl unfolding nodes_ok_def shared_nodes_def by auto
    then show ?thesis using nd a other unfolding nodes_ok_def sh by (auto simp: set_next_def)
  qed
  moreover have "chains_ok ?s"
  proof -
    have "linked ?h' (?as @ [a]) (m_next (?h' (m_head ?q)))"
      by (rule linked_append[where h = ?h]) (use ch a dist h' in \<open>auto simp: chains_ok_def shared_nodes_def\<close>)
    moreover have "linked ?h' b (Some (hd b))" if "b \<in> set (batches s)" for b
    proof -
      have "m_tail ?q \<notin> set b" using tl dist that by (auto simp: shared_nodes_def)
      then show ?thesis using ch that by (simp add: chains_ok_def set_next_def)
    qed
    ultimately show ?thesis using ch data by (auto simp: chains_ok_def set_next_def)
  qed
  ultimately show ?thesis by (simp add: mpsc_inv_def)
qed

lemma mpsc_inv_clear:
  assumes inv: "mpsc_inv s" and t: "pc s t = F_Clear r"
  shows "mpsc_inv (s\<lparr>queue := set_next (m_head (queue s)) None (queue s), pc := (pc s)(t := F_Reset r),
      live := [], batches := batches s @ [live s],
      flushed := flushed s @ [chain_data (node_heap (queue s)) (live s)]\<rparr>)" (is "mpsc_inv ?s")
proof -
  let ?q = "queue s" and ?as = "live s" and ?h = "node_heap (queue s)" and ?h' = "node_heap (queue ?s)"
  have th: "threads_ok s" and nd: "nodes_ok s" and ch: "chains_ok s" using inv by (simp_all add: mpsc_inv_def)
  have "critical (pc s t)" using t by simp
  note others = others_not_critical[OF th this]
  have dist: "distinct (shared_nodes s)" using nd by (simp add: nodes_ok_def)
  have r: "?as \<noteq> []" "r = Some (hd ?as)" using th t unfolding threads_ok_def by (metis pc_ok.simps(7))+
  have t0: "t = 0" using th t unfolding threads_ok_def by (metis flushing.simps(14))
  have data: "chain_data ?h' bs = chain_data ?h bs" for bs by (auto simp: set_next_def)
  have "threads_ok ?s"
    using th others t t0 r critical_move[of "F_Reset r" s t]
    by (auto simp: threads_ok_def set_next_def last_batch_def intro!: pc_ok_outside)
  moreover have "nodes_ok ?s"
  proof -
    have sh: "set (shared_nodes ?s) = set (shared_nodes s)" "distinct (shared_nodes ?s)"
      using dist by (auto simp: shared_nodes_def set_next_def)
    have "m_next (?h' b) = None" if "m_next (?h b) = None" for b using that by (simp add: set_next_def)
    moreover have "own_node (pc ?s u) = Some b \<Longrightarrow> own_node (pc s u) = Some b" for u b by (simp split: if_splits)
    moreover have "next_node (queue ?s) = next_node ?q" by (simp add: set_next_def)
    ultimately show ?thesis using nd sh(2) unfolding nodes_ok_def sh(1) by (metis (no_types, lifting))
  qed
  moreover have "chains_ok ?s"
  proof -
    have "m_head ?q \<notin> set ?as" "\<forall>b \<in> set (batches s). m_head ?q \<notin> set b" using dist by (auto simp: shared_nodes_def)
    moreover have "linked ?h ?as (Some (hd ?as))" using ch r(1) by (cases ?as) (auto simp: chains_ok_def)
    ultimately show ?thesis using ch r(1) data by (auto simp: chains_ok_def set_next_def)
  qed
  ultimately show ?thesis by (simp add: mpsc_inv_def)
qed

lemma mpsc_step_inv:
  assumes st: "mpsc_step s s'" and inv: "mpsc_inv s"
  shows "mpsc_inv s'"
proof -
  have ok: "pc_ok (live s) (batches s) (pc s t)" "flushing (pc s t) \<Longrightarrow> t = 0" for t
    using inv by (auto simp: mpsc_inv_def threads_ok_def)
  have chain: "linked (node_heap (queue s)) (live s) (m_next (node_heap (queue s) (m_head (queue s))))"
    using inv by (simp add: mpsc_inv_def chains_ok_def)
  then have empty: "QueueMPSC_isEmpty (queue s) \<longleftrightarrow> live s = []"
    by (cases "live s") (simp_all add: QueueMPSC_isEmpty_def)
  show ?thesis using st
  proof cases
    case (new t v a q)
    then show ?thesis using mpsc_inv_new[OF inv] by simp
  next
    case (link t a)
    then show ?thesis using mpsc_inv_link[OF inv] by simp
  next
    case (clear t r)
    then show ?thesis using mpsc_inv_clear[OF inv] by simp
  next
    case (tail t a)
    then show ?thesis using mpsc_inv_set_tail[OF inv, of t P_Unlock a] ok[of t] by simp
  next
    case (reset t r)
    then show ?thesis using mpsc_inv_set_tail[OF inv, of t "F_Unlock r" "m_head (queue s)"] ok[of t] by simp
  next
    case (push_wait t p a p' l)
    then show ?thesis using mpsc_inv_wait[OF inv push_wait(3), of "P_Lock p' a" t] by simp
  next
    case (empty_wait t p p' l)
    then show ?thesis using mpsc_inv_wait[OF inv empty_wait(3), of "F_Empty p'" t] ok[of t] by simp
  next
    case (flush_wait t p p' l)
    then show ?thesis using mpsc_inv_wait[OF inv flush_wait(3), of "F_Lock p'" t] ok[of t] by simp
  next
    case (push_locked t p a l)
    then show ?thesis using mpsc_inv_locked[OF inv push_locked(3), of "P_Link a" t] by simp
  next
    case (empty_locked t p l)
    then show ?thesis using mpsc_inv_locked[OF inv empty_locked(3), of F_Test t] ok[of t] by simp
  next
    case (flush_locked t p l)
    then show ?thesis using mpsc_inv_locked[OF inv flush_locked(3), of F_Wait t] ok[of t] by simp
  next
    case (push_unlock t)
    then show ?thesis using mpsc_inv_unlock[OF inv, of t Q_Idle] by simp
  next
    case (empty_unlock t b)
    then show ?thesis using mpsc_inv_unlock[OF inv, of t "if b then F_Return None else F_Lock L_Loop"] ok[of t] by simp
  next
    case (flush_unlock t r)
    then show ?thesis using mpsc_inv_unlock[OF inv, of t "F_Return r"] ok[of t] by simp
  next
    case (block t)
    then show ?thesis using ok[of t] empty by simp
  next
    case (wake t)
    then show ?thesis using ok[of t] by simp
  next
    case (take t)
    have "m_next (node_heap (queue s) (m_head (queue s))) = Some (hd (live s))"
      using chain take ok[of t] by (cases "live s") simp_all
    with take show ?thesis using mpsc_inv_pure[OF inv, of "F_Clear (Some (hd (live s)))" t] ok[of t] by simp
  next
    case (call_push t v)
    then show ?thesis using mpsc_inv_pure[OF inv, of "P_New v" t] by simp
  next
    case call_flush
    then show ?thesis using mpsc_inv_pure[OF inv, of "F_Empty L_Loop" 0] by simp
  next
    case (test t)
    then show ?thesis using mpsc_inv_pure[OF inv, of "F_Tested (QueueMPSC_isEmpty (queue s))" t] ok[of t] empty by simp
  next
    case (ready t)
    then show ?thesis using mpsc_inv_pure[OF inv, of F_Take t] ok[of t] by simp
  next
    case (return t r)
    then show ?thesis using mpsc_inv_pure[OF inv, of Q_Idle t] by simp
  qed
qed

lemma mpsc_reachable_inv: "mpsc_reachable s \<Longrightarrow> mpsc_inv s"
proof (induction rule: mpsc_reachable.induct)
  case (start e)
  then show ?case
    by (simp add: mpsc_inv_def threads_ok_def nodes_ok_def chains_ok_def shared_nodes_def QueueMPSC_new_def
        SpinLock_new_def unlock_def)
qed (rule mpsc_step_inv)

section \<open>The operations as runs of one thread\<close>

text \<open>
  A thread that runs one operation without interruption does what the functions of the first
  section say: the functions and the steps describe the same code.
\<close>

lemma new_lock_turns:
  "lock_turn L_Loop SpinLock_new = (Some (L_Spin 0), SpinLock_new)"
  "lock_turn (L_Spin 0) SpinLock_new = (None, SpinLock_new\<lparr>m_flag := True\<rparr>)"
  "unlock (SpinLock_new\<lparr>m_flag := True\<rparr>) = SpinLock_new"
  by (simp_all add: SpinLock_new_def unlock_def tryLock_def DEFAULT_SPIN_COUNT_def)

lemma mutex_same: "m_mutex q = l \<Longrightarrow> q\<lparr>m_mutex := l\<rparr> = q"
  by (cases q) simp

lemma push_run:
  assumes "mpsc_reachable s" "pc s t = Q_Idle" "m_mutex (queue s) = SpinLock_new"
  shows "mpsc_reachable (s\<lparr>queue := QueueMPSC_push v (queue s), live := live s @ [next_node (queue s)],
    pushed := pushed s @ [v]\<rparr>)"
proof -
  obtain a q where n: "new_node v (queue s) = (a, q)" by fastforce
  have q: "a = next_node (queue s)" "m_mutex q = SpinLock_new" "m_tail q = m_tail (queue s)"
    "m_data (node_heap q a) = v" using n assms(3) by (auto simp: new_node_def)
  note same = mutex_same[OF q(2)]
  have 1: "mpsc_reachable (s\<lparr>pc := (pc s)(t := P_New v)\<rparr>)"
    using mpsc_reachable.step[OF assms(1) mpsc_step.call_push] assms(2) by blast
  have 2: "mpsc_reachable (s\<lparr>queue := q, pc := (pc s)(t := P_Lock L_Loop a)\<rparr>)"
    using mpsc_reachable.step[OF 1 mpsc_step.new, of t v a q] n by simp
  have 3: "mpsc_reachable (s\<lparr>queue := q, pc := (pc s)(t := P_Lock (L_Spin 0) a)\<rparr>)"
    using mpsc_reachable.step[OF 2 mpsc_step.push_wait, of t L_Loop a] new_lock_turns(1) q(2) same by simp
  have 4: "mpsc_reachable (s\<lparr>queue := q\<lparr>m_mutex := SpinLock_new\<lparr>m_flag := True\<rparr>\<rparr>, pc := (pc s)(t := P_Link a)\<rparr>)"
    using mpsc_reachable.step[OF 3 mpsc_step.push_locked, of t "L_Spin 0" a] new_lock_turns(2) q(2) by simp
  show ?thesis
    using mpsc_reachable.step[OF mpsc_reachable.step[OF mpsc_reachable.step[OF 4 mpsc_step.link, of t a] mpsc_step.tail, of t a]
        mpsc_step.push_unlock, of t] assms(2,3) n q new_lock_turns(3)
    by (cases s) (simp add: QueueMPSC_push_def set_next_def fun_upd_idem mutex_same)
qed

lemma flush_run:
  assumes r: "mpsc_reachable s" and i: "pc s 0 = Q_Idle" and m: "m_mutex (queue s) = SpinLock_new" and w: "waiting (queue s) \<noteq> []"
  shows "mpsc_reachable (s\<lparr>queue := snd (QueueMPSC_flush (queue s)), pc := (pc s)(0 := F_Return (fst (QueueMPSC_flush (queue s)))),
    live := [], batches := batches s @ [live s], flushed := flushed s @ [waiting (queue s)]\<rparr>)"
proof -
  let ?q = "queue s" and ?l = "SpinLock_new\<lparr>m_flag := True\<rparr>"
  note same = mutex_same[OF m]
  note inv = mpsc_reachable_inv[OF r]
  have wl: "waiting ?q = chain_data (node_heap ?q) (live s)"
    using inv read_chain_linked[of "node_heap ?q" "live s"] by (simp add: waiting_def mpsc_inv_def chains_ok_def)
  with w have e: "\<not> QueueMPSC_isEmpty ?q"
    using inv by (cases "live s") (auto simp: mpsc_inv_def chains_ok_def QueueMPSC_isEmpty_def)
  have 1: "mpsc_reachable (s\<lparr>pc := (pc s)(0 := F_Empty L_Loop)\<rparr>)"
    using mpsc_reachable.step[OF r mpsc_step.call_flush] i by blast
  have 2: "mpsc_reachable (s\<lparr>pc := (pc s)(0 := F_Empty (L_Spin 0))\<rparr>)"
    using mpsc_reachable.step[OF 1 mpsc_step.empty_wait, of 0 L_Loop] new_lock_turns(1) m same by simp
  have 3: "mpsc_reachable (s\<lparr>queue := ?q\<lparr>m_mutex := ?l\<rparr>, pc := (pc s)(0 := F_Test)\<rparr>)"
    using mpsc_reachable.step[OF 2 mpsc_step.empty_locked, of 0 "L_Spin 0"] new_lock_turns(2) m by simp
  have 4: "mpsc_reachable (s\<lparr>pc := (pc s)(0 := F_Lock L_Loop)\<rparr>)"
    using mpsc_reachable.step[OF mpsc_reachable.step[OF 3 mpsc_step.test, of 0] mpsc_step.empty_unlock, of 0 False] e same new_lock_turns(3)
    by (simp add: QueueMPSC_isEmpty_def)
  have 5: "mpsc_reachable (s\<lparr>pc := (pc s)(0 := F_Lock (L_Spin 0))\<rparr>)"
    using mpsc_reachable.step[OF 4 mpsc_step.flush_wait, of 0 L_Loop] new_lock_turns(1) m same by simp
  have 6: "mpsc_reachable (s\<lparr>queue := ?q\<lparr>m_mutex := ?l\<rparr>, pc := (pc s)(0 := F_Wait)\<rparr>)"
    using mpsc_reachable.step[OF 5 mpsc_step.flush_locked, of 0 "L_Spin 0"] new_lock_turns(2) m by simp
  have 7: "mpsc_reachable (s\<lparr>queue := ?q\<lparr>m_mutex := ?l\<rparr>, pc := (pc s)(0 := F_Clear (m_next (node_heap ?q (m_head ?q))))\<rparr>)"
    using mpsc_reachable.step[OF mpsc_reachable.step[OF 6 mpsc_step.ready, of 0] mpsc_step.take, of 0] e
    by (simp add: QueueMPSC_isEmpty_def)
  let ?r = "m_next (node_heap ?q (m_head ?q))"
  note 8 = mpsc_reachable.step[OF 7 mpsc_step.clear[where t = 0 and r = ?r]]
  note 9 = mpsc_reachable.step[OF 8 mpsc_step.reset[where t = 0 and r = ?r]]
  show ?thesis
    using mpsc_reachable.step[OF 9 mpsc_step.flush_unlock[where t = 0 and r = ?r]] e wl m new_lock_turns(3)
    by (cases s) (simp add: QueueMPSC_flush_def set_next_def mutex_same)
qed

section \<open>Properties\<close>

text \<open>C19: The queue of the logger neither loses, repeats nor reorders an element, for any interleaving of
  any number of producers and the one consumer. The elements pushed so far, in the order in which
  the producers linked them, are those of the chains that \<open>flush\<close> has detached, in order, followed by
  those still waiting; every detached chain, walked at any later time, gives exactly the elements it
  was detached with; and the pointer that \<open>flush\<close> returns is null or the start of the last one.\<close>

theorem mpsc_queue_is_fifo:
  assumes "mpsc_reachable s"
  shows "pushed s = concat (flushed s) @ waiting (queue s) \<and> length (batches s) = length (flushed s) \<and>
    (\<forall>i < length (flushed s). read_chain (node_heap (queue s)) (Some (hd (batches s ! i))) = Some (flushed s ! i)) \<and>
    (\<forall>r. pc s 0 = F_Return r \<longrightarrow> r = None \<or> batches s \<noteq> [] \<and> r = Some (hd (last (batches s))))"
proof -
  let ?h = "node_heap (queue s)"
  have inv: "mpsc_inv s" by (rule mpsc_reachable_inv[OF assms])
  then have ch: "chains_ok s" and "\<forall>t. pc_ok (live s) (batches s) (pc s t)"
    by (simp_all add: mpsc_inv_def threads_ok_def)
  then have ret: "r = None \<or> batches s \<noteq> [] \<and> r = Some (hd (last (batches s)))" if "pc s 0 = F_Return r" for r
    using that by (metis pc_ok.simps(10) last_batch_def)
  have "waiting (queue s) = chain_data ?h (live s)"
    using ch read_chain_linked[of ?h "live s"] by (simp add: waiting_def chains_ok_def)
  moreover have "read_chain ?h (Some (hd b)) = Some (chain_data ?h b)" if "b \<in> set (batches s)" for b
    using ch that by (auto simp: chains_ok_def intro: read_chain_linked)
  ultimately show ?thesis using ch ret by (simp add: chains_ok_def)
qed

text \<open>One push by thread 1 and one flush.\<close>

definition sample_queue_run :: "string mpsc_state" where
  "sample_queue_run =
     (let q = QueueMPSC_push ''a'' (QueueMPSC_new [])
      in \<lparr>queue = snd (QueueMPSC_flush q), pc = (\<lambda>_. Q_Idle)(0 := F_Return (Some 1)), live = [],
          batches = [[1]], flushed = [[''a'']], pushed = [''a'']\<rparr>)"

lemma sample_queue_run_reachable: "mpsc_reachable sample_queue_run"
proof -
  have p: "mpsc_reachable \<lparr>queue = QueueMPSC_push ''a'' (QueueMPSC_new []), pc = \<lambda>_. Q_Idle, live = [1], batches = [],
      flushed = [], pushed = [''a'']\<rparr>"
    using push_run[OF mpsc_reachable.start[of "[]"], of 1 "''a''"] by (simp add: QueueMPSC_new_def)
  have w: "waiting (QueueMPSC_push ''a'' (QueueMPSC_new [])) = [''a'']"
    using mpsc.put[of "QueueMPSC_new ([] :: string)" "''a''"] mpsc.create[of "[] :: string"] by simp
  have "m_mutex (QueueMPSC_push ''a'' (QueueMPSC_new [])) = SpinLock_new"
    "fst (QueueMPSC_flush (QueueMPSC_push ''a'' (QueueMPSC_new []))) = Some 1"
    by (simp_all add: QueueMPSC_push_def QueueMPSC_new_def new_node_def set_next_def QueueMPSC_flush_def QueueMPSC_isEmpty_def)
  with flush_run[OF p] w show ?thesis by (simp add: sample_queue_run_def Let_def)
qed

theorem mpsc_queue_is_fifo_witness:
  "mpsc_reachable sample_queue_run \<and> pc sample_queue_run 0 = F_Return (Some 1) \<and>
   read_chain (node_heap (queue sample_queue_run)) (Some 1) = Some [''a''] \<and> waiting (queue sample_queue_run) = []"
  using mpsc_queue_is_fifo[OF sample_queue_run_reachable] sample_queue_run_reachable
  by (simp add: sample_queue_run_def Let_def)

text \<open>\<open>flush\<close> never waits for a notification. With one consumer, what \<open>isEmpty\<close> has seen is still
  there when the lock is taken again, so that the predicate of \<open>m_noData.wait\<close> holds at once.\<close>

theorem flush_never_blocks:
  assumes "mpsc_reachable s"
  shows "pc s t \<noteq> F_Blocked \<and> (pc s t = F_Wait \<longrightarrow> \<not> QueueMPSC_isEmpty (queue s))"
proof -
  have inv: "mpsc_inv s" by (rule mpsc_reachable_inv[OF assms])
  then have ok: "pc_ok (live s) (batches s) (pc s t)" by (simp add: mpsc_inv_def threads_ok_def)
  have "linked (node_heap (queue s)) (live s) (m_next (node_heap (queue s) (m_head (queue s))))"
    using inv by (simp add: mpsc_inv_def chains_ok_def)
  then show ?thesis using ok by (cases "live s") (auto simp: QueueMPSC_isEmpty_def)
qed

theorem flush_never_blocks_witness: "mpsc_reachable sample_queue_run \<and> pc sample_queue_run 0 \<noteq> F_Blocked"
  using flush_never_blocks[OF sample_queue_run_reachable] sample_queue_run_reachable by simp

end
