(* ===== verification/Logger.thy ===== *)
theory Logger
  imports Shared_Memory Queue_Mpsc Threads Server_Configuration
begin

text \<open>
  \<open>core::Logger\<close> (\<open>source/core/logger/logger.h\<close>, \<open>logger.cpp\<close>, \<open>log_entry.hpp\<close>): log lines from any thread
  go to the queue of \<open>Queue_Mpsc\<close>, and the thread of the logger writes them to the rotating file of
  \<open>Shared_Memory\<close> and to the console. The operations of the queue are used as the atomic functions
  that the interleaving of \<open>Queue_Mpsc\<close> justifies; here the turns of the logger thread interleave
  with the calls of \<open>log\<close> and with the request to finish.
\<close>

section \<open>Entries\<close>

record LogEntry =
  entry_logLevel :: LogLevel
  entry_sender :: string
  entry_message :: string

text \<open>What the insertion operator writes.\<close>

definition LogEntry_text :: "clock \<Rightarrow> LogEntry \<Rightarrow> string result" where
  "LogEntry_text now entry =
     format (c_str (getUtcDatetime now MICROSECONDS) @ '' : '' @ logLevelToString (entry_logLevel entry) @ '' , '' @
             c_str (entry_sender entry) @ '' , '' @ c_str (entry_message entry))"

definition Backend_process ::
  "mmap_env \<Rightarrow> clock \<Rightarrow> LogEntry \<Rightarrow> MemoryMappedFileBackend \<times> disk \<Rightarrow> (MemoryMappedFileBackend \<times> disk) result" where
  "Backend_process env now entry st =
     res_bind (LogEntry_text now entry) (\<lambda>text. process_text env (text @ [CHR 0x0A]) st)"

section \<open>The logger\<close>

text \<open>The numbers of the enumeration.\<close>

primrec LogLevel_value :: "LogLevel \<Rightarrow> int" where
  "LogLevel_value LEVEL_FATAL = 0"
| "LogLevel_value LEVEL_ERROR = 1"
| "LogLevel_value LEVEL_WARNING = 2"
| "LogLevel_value LEVEL_INFO = 3"
| "LogLevel_value LEVEL_DEBUG = 4"

record Logger = Actor +
  m_logBuffer :: "LogEntry QueueMPSC option"
  m_backendEnabled :: bool
  logger_copyToStdout :: bool
  m_backend :: MemoryMappedFileBackend
  m_writePeriodInMicroseconds :: csize
  logger_logLevel :: int

definition Logger_new :: Logger where
  "Logger_new = Actor.extend (Actor_new ''LoggerThread'')
     \<lparr>m_logBuffer = None, m_backendEnabled = False, logger_copyToStdout = False,
      m_backend = MemoryMappedFileBackend_new, m_writePeriodInMicroseconds = 1000 * 1000, logger_logLevel = 0\<rparr>"

text \<open>\<open>mem\<close> is the entry a default constructor leaves in the dummy node.\<close>

definition Logger_initialise :: "LogEntry \<Rightarrow> LoggerArguments \<Rightarrow> Logger \<Rightarrow> Logger" where
  "Logger_initialise mem configuration lg =
     (let lg1 = lg\<lparr>m_writePeriodInMicroseconds := m_writePeriodInMilliSeconds configuration * 1000,
                   m_logBuffer := Some (QueueMPSC_new mem),
                   logger_logLevel := LogLevel_value (m_logLevel configuration)\<rparr>;
          lg2 = (if 0 < length (m_memoryMappedFileName configuration)
                 then lg1\<lparr>m_backendEnabled := True,
                          m_backend := (m_backend lg1)\<lparr>m_resourceName := m_memoryMappedFileName configuration,
                                                       m_rotationSize := m_rotationSizeInBytes configuration\<rparr>\<rparr>
                 else lg1)
      in lg2\<lparr>logger_copyToStdout := m_copyToStdout configuration\<rparr>)"

definition pushLogToLogBuffer :: "LogEntry \<Rightarrow> Logger \<Rightarrow> Logger result" where
  "pushLogToLogBuffer entry lg =
     (case m_logBuffer lg of
        None \<Rightarrow> Inl Null_dereference
      | Some q \<Rightarrow> Inr (lg\<lparr>m_logBuffer := Some (QueueMPSC_push entry q)\<rparr>))"

definition Logger_log :: "LogLevel \<Rightarrow> string \<Rightarrow> string \<Rightarrow> Logger \<Rightarrow> Logger result" where
  "Logger_log level sender message lg =
     (if LogLevel_value level \<le> logger_logLevel lg
      then pushLogToLogBuffer \<lparr>entry_logLevel = level, entry_sender = sender, entry_message = message\<rparr> lg
      else Inr lg)"

section \<open>The thread of the logger\<close>

text \<open>
  The control points of \<open>run\<close>: before opening the backend, before \<open>flush\<close>, in the loop over the
  flushed entries, before the test of \<open>isFinishing\<close>, and at the end, with the failure that ended it.
\<close>

datatype run_pc = R_Start | R_Flush | R_Write "LogEntry list" | R_Check | R_Ended "cpp_error option"

text \<open>
  \<open>accepted\<close> and \<open>written\<close> record, for the statements, the entries that \<open>log\<close> has queued and those
  the thread has written.
\<close>

record logger_state =
  logger :: Logger
  run_at :: run_pc
  log_disk :: disk
  log_stdout :: "string list"
  accepted :: "LogEntry list"
  written :: "LogEntry list"

definition write_entry :: "mmap_env \<Rightarrow> clock \<Rightarrow> LogEntry \<Rightarrow> logger_state \<Rightarrow> logger_state result" where
  "write_entry env now entry s =
     res_bind (if m_backendEnabled (logger s)
               then res_bind (Backend_process env now entry (m_backend (logger s), log_disk s)) (\<lambda>(bk, d).
                      Inr (s\<lparr>logger := (logger s)\<lparr>m_backend := bk\<rparr>, log_disk := d\<rparr>))
               else Inr s) (\<lambda>s1.
       Inr (if logger_copyToStdout (logger s1) then s1\<lparr>log_stdout := log_stdout s1 @ [entry_message entry]\<rparr> else s1))"

primrec run_turn :: "run_pc \<Rightarrow> mmap_env \<Rightarrow> clock \<Rightarrow> logger_state \<Rightarrow> logger_state" where
  "run_turn R_Start env now s =
     (let lg = logger s
      in if \<not> m_backendEnabled lg \<and> \<not> logger_copyToStdout lg then s\<lparr>run_at := R_Ended None\<rparr>
         else if m_backendEnabled lg
         then (case Backend_open env (m_backend lg, log_disk s) of
                 Inl e \<Rightarrow> s\<lparr>run_at := R_Ended (Some e)\<rparr>
               | Inr (bk, d) \<Rightarrow> s\<lparr>logger := lg\<lparr>m_backend := bk\<rparr>, log_disk := d, run_at := R_Flush\<rparr>)
         else s\<lparr>run_at := R_Flush\<rparr>)"
| "run_turn R_Flush env now s =
     (case m_logBuffer (logger s) of
        None \<Rightarrow> s\<lparr>run_at := R_Ended (Some Null_dereference)\<rparr>
      | Some q \<Rightarrow> (case drain q of
            (None, _) \<Rightarrow> s\<lparr>run_at := R_Ended (Some Not_terminating)\<rparr>
          | (Some entries, q') \<Rightarrow> s\<lparr>logger := (logger s)\<lparr>m_logBuffer := Some q'\<rparr>, run_at := R_Write entries\<rparr>))"
| "run_turn (R_Write entries) env now s =
     (case entries of
        [] \<Rightarrow> s\<lparr>run_at := R_Check\<rparr>
      | entry # rest \<Rightarrow> (case write_entry env now entry s of
            Inl e \<Rightarrow> s\<lparr>run_at := R_Ended (Some e)\<rparr>
          | Inr s' \<Rightarrow> s'\<lparr>run_at := R_Write rest, written := written s' @ [entry]\<rparr>))"
| "run_turn R_Check env now s =
     (if m_isFinishing (logger s)
      then let (bk, d) = (if m_backendEnabled (logger s)
                          then closeMemoryMappedFile (m_backend (logger s), log_disk s)
                          else (m_backend (logger s), log_disk s))
           in s\<lparr>logger := (logger s)\<lparr>m_backend := bk\<rparr>, log_disk := d, run_at := R_Ended None\<rparr>
      else s\<lparr>run_at := R_Flush\<rparr>)"
| "run_turn (R_Ended e) env now s = s"

text \<open>
  One turn of the thread, a call of \<open>log\<close> by another thread, or the request to finish. The clock and the
  answers of the system are any at each turn; a mapping that succeeds has less than half of the address space.
\<close>

inductive logger_step :: "logger_state \<Rightarrow> logger_state \<Rightarrow> bool" where
  turn: "(m_backendEnabled (logger s) \<longrightarrow> mapping_fits env (m_backend (logger s))) \<Longrightarrow>
    logger_step s (run_turn (run_at s) env now s)"
| log: "Logger_log level sender message (logger s) = Inr lg \<Longrightarrow>
    logger_step s (s\<lparr>logger := lg, accepted := accepted s @
      (if LogLevel_value level \<le> logger_logLevel (logger s)
       then [\<lparr>entry_logLevel = level, entry_sender = sender, entry_message = message\<rparr>] else [])\<rparr>)"
| finish: "logger_step s (s\<lparr>logger := sendFinishSignal (logger s)\<rparr>)"

definition logger_start :: "LogEntry \<Rightarrow> LoggerArguments \<Rightarrow> disk \<Rightarrow> logger_state" where
  "logger_start mem conf d = \<lparr>logger = Logger_initialise mem conf Logger_new, run_at = R_Start, log_disk = d,
     log_stdout = [], accepted = [], written = []\<rparr>"

inductive logger_reachable :: "LoggerArguments \<Rightarrow> logger_state \<Rightarrow> bool" for conf where
  start: "logger_reachable conf (logger_start mem conf d)"
| step: "logger_reachable conf s \<Longrightarrow> logger_step s s' \<Longrightarrow> logger_reachable conf s'"

section \<open>The invariant\<close>

text \<open>The entries the thread has taken from the queue and not written.\<close>

primrec in_hand :: "run_pc \<Rightarrow> LogEntry list" where
  "in_hand R_Start = []" | "in_hand R_Flush = []" | "in_hand (R_Write entries) = entries"
| "in_hand R_Check = []" | "in_hand (R_Ended e) = []"

definition logger_inv :: "LoggerArguments \<Rightarrow> logger_state \<Rightarrow> bool" where
  "logger_inv conf s \<longleftrightarrow> (\<exists>q lost. m_logBuffer (logger s) = Some q \<and> mpsc_wf q \<and>
       accepted s = written s @ in_hand (run_at s) @ lost @ waiting q \<and>
       (lost \<noteq> [] \<longrightarrow> (\<exists>e. run_at s = R_Ended (Some e)))) \<and>
     logger_copyToStdout (logger s) = m_copyToStdout conf \<and> logger_logLevel (logger s) = LogLevel_value (m_logLevel conf) \<and>
     (\<forall>e \<in> set (accepted s). LogLevel_value (entry_logLevel e) \<le> LogLevel_value (m_logLevel conf)) \<and>
     log_stdout s = (if m_copyToStdout conf then map entry_message (written s) else [])"

text \<open>
  The contents of the log files: \<open>line_of\<close> relates an entry to the line that the insertion operator
  makes of it at some time, and \<open>log_holds name d fs\<close> says that the \<open>i\<close>-th file of the log has the lines
  \<open>fs ! i\<close> and zeros behind them.
\<close>

definition line_of :: "LogEntry \<Rightarrow> string \<Rightarrow> bool" where
  "line_of entry line \<longleftrightarrow> (\<exists>now text. LogEntry_text now entry = Inr text \<and> line = text @ [CHR 0x0A])"

definition log_holds :: "string \<Rightarrow> disk \<Rightarrow> string list list \<Rightarrow> bool" where
  "log_holds name d fs \<longleftrightarrow> distinct (map (\<lambda>i. c_str (log_file name (Suc i))) [0..<length fs]) \<and>
     (\<forall>i < length fs. \<exists>k. disk_files d (c_str (log_file name (Suc i))) = Some (concat (fs ! i) @ replicate k NUL))"

lemma log_holds_Nil [simp]: "log_holds name d []"
  by (simp add: log_holds_def)

lemma log_holds_put:
  assumes "log_holds name d (fs @ ls)" "NUL \<notin> set name"
    and other: "\<forall>p. p \<noteq> c_str (log_file name (Suc (length fs))) \<longrightarrow> disk_files d' p = disk_files d p"
    and new: "disk_files d' (c_str (log_file name (Suc (length fs)))) = Some (concat l @ replicate k NUL)"
  shows "log_holds name d' (fs @ [l])"
proof -
  have ne: "c_str (log_file name (Suc i)) \<noteq> c_str (log_file name (Suc (length fs)))" if "i < length fs" for i
    using log_file_distinct[OF assms(2), of "Suc i" "Suc (length fs)"] that by simp
  have "distinct (map (\<lambda>i. c_str (log_file name (Suc i))) [0..<length fs])"
    using assms(1) by (auto simp: log_holds_def distinct_map inj_on_def)
  then have "distinct (map (\<lambda>i. c_str (log_file name (Suc i))) [0..<length (fs @ [l])])"
    using ne by fastforce
  moreover have "\<exists>k. disk_files d' (c_str (log_file name (Suc i))) = Some (concat ((fs @ [l]) ! i) @ replicate k NUL)"
    if i: "i < length (fs @ [l])" for i
  proof (cases "i < length fs")
    case True
    then have "\<exists>k. disk_files d (c_str (log_file name (Suc i))) = Some (concat ((fs @ ls) ! i) @ replicate k NUL)"
      using assms(1) unfolding log_holds_def by (metis length_append trans_less_add1)
    then show ?thesis using other ne[OF True] True by (simp add: nth_append)
  next
    case False
    then have "i = length fs" using i by simp
    then show ?thesis using new by auto
  qed
  ultimately show ?thesis unfolding log_holds_def by blast
qed

text \<open>
  The files of a logger with a file name and what its backend knows of them. The bound on the number
  of entries bounds the number of the current file.
\<close>

definition backend_at :: "string \<Rightarrow> logger_state \<Rightarrow> string list list \<Rightarrow> bool" where
  "backend_at name s fs \<longleftrightarrow> (case run_at s of
       R_Start \<Rightarrow> fs = [] \<and> (\<exists>sz. m_backend (logger s) = MemoryMappedFileBackend_new\<lparr>m_resourceName := name, m_rotationSize := sz\<rparr>)
     | R_Ended e \<Rightarrow> True
     | _ \<Rightarrow> fs \<noteq> [] \<and> unat (m_rotationId (m_backend (logger s))) = length fs \<and> length fs \<le> Suc (length (written s)) \<and>
         backend_named name (m_backend (logger s)) \<and> file_holds (concat (last fs)) (m_backend (logger s), log_disk s))"

definition files_inv :: "LoggerArguments \<Rightarrow> logger_state \<Rightarrow> bool" where
  "files_inv conf s \<longleftrightarrow> (let name = m_memoryMappedFileName conf in
     m_backendEnabled (logger s) = (name \<noteq> []) \<and>
     (name \<noteq> [] \<longrightarrow> m_rotationSize (m_backend (logger s)) = m_rotationSizeInBytes conf) \<and>
     (name \<noteq> [] \<and> NUL \<notin> set name \<and> length (written s) < 2 ^ 31 \<longrightarrow>
        (\<exists>fs. log_holds name (log_disk s) fs \<and> list_all2 line_of (written s) (concat fs) \<and> backend_at name s fs)))"

lemma write_entry_effect:
  assumes "write_entry env now entry s = Inr s'"
  shows "m_logBuffer (logger s') = m_logBuffer (logger s) \<and> logger_copyToStdout (logger s') = logger_copyToStdout (logger s) \<and>
    logger_logLevel (logger s') = logger_logLevel (logger s) \<and> accepted s' = accepted s \<and> written s' = written s \<and>
    log_stdout s' = log_stdout s @ (if logger_copyToStdout (logger s) then [entry_message entry] else [])"
proof -
  from assms obtain s1 where s1: "(if m_backendEnabled (logger s)
      then res_bind (Backend_process env now entry (m_backend (logger s), log_disk s)) (\<lambda>(bk, d).
             Inr (s\<lparr>logger := (logger s)\<lparr>m_backend := bk\<rparr>, log_disk := d\<rparr>))
      else Inr s) = Inr s1"
    and s': "s' = (if logger_copyToStdout (logger s1) then s1\<lparr>log_stdout := log_stdout s1 @ [entry_message entry]\<rparr> else s1)"
    unfolding write_entry_def res_bind_Inr_iff sum.inject by (elim exE conjE) (rule that, assumption, erule sym)
  from s1 have "m_logBuffer (logger s1) = m_logBuffer (logger s) \<and> logger_copyToStdout (logger s1) = logger_copyToStdout (logger s) \<and>
      logger_logLevel (logger s1) = logger_logLevel (logger s) \<and> accepted s1 = accepted s \<and> written s1 = written s \<and>
      log_stdout s1 = log_stdout s"
    by (auto split: if_splits)
  then show ?thesis unfolding s' by simp
qed

lemma logger_inv_turn:
  assumes "logger_inv conf s"
  shows "logger_inv conf (run_turn (run_at s) env now s)"
proof -
  obtain q lost where q: "m_logBuffer (logger s) = Some q" "mpsc_wf q"
      "accepted s = written s @ in_hand (run_at s) @ lost @ waiting q"
      "lost \<noteq> [] \<longrightarrow> (\<exists>e. run_at s = R_Ended (Some e))"
    using assms by (auto simp: logger_inv_def)
  show ?thesis
  proof (cases "run_at s")
    case R_Start
    with assms show ?thesis by (auto simp: logger_inv_def Let_def split: sum.splits)
  next
    case R_Flush
    then have a: "accepted s = written s @ waiting q" using q by simp
    obtain q' where d: "drain q = (Some (waiting q), q')" "mpsc_wf q'" "waiting q' = []"
      using mpsc.take_all[OF q(2)] by (cases "drain q") auto
    from R_Flush assms q(1) d a show ?thesis by (auto simp: logger_inv_def)
  next
    case (R_Write entries)
    show ?thesis
    proof (cases entries)
      case Nil
      with R_Write assms show ?thesis by (auto simp: logger_inv_def)
    next
      case (Cons entry rest)
      then have a: "accepted s = written s @ (entry # rest) @ waiting q" using q R_Write by auto
      show ?thesis
      proof (cases "write_entry env now entry s")
        case (Inl e)
        with R_Write Cons assms q(1,2) a show ?thesis
          by (auto simp: logger_inv_def intro!: exI[of _ "entry # rest"])
      next
        case (Inr s')
        with R_Write Cons assms q(1,2) a write_entry_effect[OF Inr] show ?thesis
          by (auto simp: logger_inv_def)
      qed
    qed
  next
    case R_Check
    with assms show ?thesis by (auto simp: logger_inv_def split_beta)
  qed (use assms in auto)
qed

lemma logger_step_inv:
  assumes "logger_step s s'" "logger_inv conf s"
  shows "logger_inv conf s'"
  using assms
proof cases
  case (turn env now)
  then show ?thesis using logger_inv_turn[OF assms(2)] by simp
next
  case (log level sender message lg)
  then show ?thesis using assms(2)
    by (fastforce simp: logger_inv_def Logger_log_def pushLogToLogBuffer_def mpsc.put split: if_splits)
next
  case finish
  then show ?thesis using assms(2) by (auto simp: logger_inv_def sendFinishSignal_def)
qed

lemma logger_reachable_inv: "logger_reachable conf s \<Longrightarrow> logger_inv conf s"
proof (induction rule: logger_reachable.induct)
  case (start mem d)
  then show ?case using mpsc.create[of mem]
    by (simp add: logger_inv_def logger_start_def Logger_initialise_def Let_def Logger_new_def Actor.defs)
qed (rule logger_step_inv)

text \<open>The log files.\<close>

lemma write_entry_backend:
  assumes "write_entry env now entry s = Inr s'" "m_backendEnabled (logger s)"
  obtains ltext where "LogEntry_text now entry = Inr ltext" "m_backendEnabled (logger s')"
    "process_text env (ltext @ [CHR 0x0A]) (m_backend (logger s), log_disk s) = Inr (m_backend (logger s'), log_disk s')"
proof (cases "Backend_process env now entry (m_backend (logger s), log_disk s)")
  case (Inl e)
  then show ?thesis using assms by (simp add: write_entry_def)
next
  case (Inr r)
  obtain bk d where r: "Backend_process env now entry (m_backend (logger s), log_disk s) = Inr (bk, d)"
    using Inr by (cases r) auto
  then obtain ltext where lt: "LogEntry_text now entry = Inr ltext"
      "process_text env (ltext @ [CHR 0x0A]) (m_backend (logger s), log_disk s) = Inr (bk, d)"
    by (auto simp: Backend_process_def res_bind_Inr_iff)
  have "m_backend (logger s') = bk" "log_disk s' = d" "m_backendEnabled (logger s')"
    using assms r by (auto simp: write_entry_def)
  then show ?thesis using that lt by simp
qed

lemma format_length: "\<exists>text. format t = Inr text \<and> Suc (length text) \<le> MAX_BUFFER_SIZE"
proof -
  have "length (c_str (take (MAX_BUFFER_SIZE - 1) t)) \<le> MAX_BUFFER_SIZE - 1"
    using length_takeWhile_le[of _ "take (MAX_BUFFER_SIZE - 1) t"] by (fastforce simp: c_str_def intro: order_trans)
  then show ?thesis by (simp add: format_def formatImplementation_def Let_def MAX_BUFFER_SIZE_def)
qed

lemma LogEntry_text_length: "\<exists>text. LogEntry_text now entry = Inr text \<and> length (text @ [CHR 0x0A]) \<le> MAX_BUFFER_SIZE"
  unfolding LogEntry_text_def using format_length by simp

lemma files_inv_write:
  assumes pc: "run_at s = R_Write (entry # rest)" and inv: "files_inv conf s"
    and fits: "m_backendEnabled (logger s) \<longrightarrow> mapping_fits env (m_backend (logger s))"
    and w: "write_entry env now entry s = Inr s'"
  shows "files_inv conf (s'\<lparr>run_at := R_Write rest, written := written s' @ [entry]\<rparr>)"
proof (cases "m_backendEnabled (logger s)")
  case False
  then have "m_memoryMappedFileName conf = []" using inv by (simp add: files_inv_def Let_def)
  moreover have "\<not> m_backendEnabled (logger s')"
    using w False by (cases "logger_copyToStdout (logger s)") (auto simp: write_entry_def)
  ultimately show ?thesis by (simp add: files_inv_def)
next
  case True
  define name bk where "name = m_memoryMappedFileName conf" and "bk = m_backend (logger s)"
  obtain ltext where lt: "LogEntry_text now entry = Inr ltext" "m_backendEnabled (logger s')"
      "process_text env (ltext @ [CHR 0x0A]) (bk, log_disk s) = Inr (m_backend (logger s'), log_disk s')"
    using write_entry_backend[OF w True] unfolding bk_def by blast
  have ne: "name \<noteq> []" and sz: "m_rotationSize bk = m_rotationSizeInBytes conf"
    using inv True by (simp_all add: files_inv_def Let_def name_def bk_def)
  define line where "line = ltext @ [CHR 0x0A]"
  have lo: "line_of entry line" "line \<noteq> []" "length line \<le> MAX_BUFFER_SIZE"
    using lt(1) LogEntry_text_length[of now entry] by (auto simp: line_of_def line_def)
  have wr: "written s' = written s" using write_entry_effect[OF w] by simp
  let ?t = "s'\<lparr>run_at := R_Write rest, written := written s' @ [entry]\<rparr>"
  have sz': "m_rotationSize (m_backend (logger s')) = m_rotationSizeInBytes conf" using process_text_size[OF lt(3)] sz by simp
  have "\<exists>fs'. log_holds name (log_disk s') fs' \<and> list_all2 line_of (written s @ [entry]) (concat fs') \<and> backend_at name ?t fs'"
    if nn: "NUL \<notin> set name" and len: "length (written s) + 1 < 2 ^ 31"
  proof -
    obtain fs where fs: "log_holds name (log_disk s) fs" "list_all2 line_of (written s) (concat fs)" "fs \<noteq> []"
        "unat (m_rotationId bk) = length fs" "length fs \<le> Suc (length (written s))" "backend_named name bk"
        "file_holds (concat (last fs)) (bk, log_disk s)"
      using inv nn len ne pc by (auto simp: files_inv_def Let_def backend_at_def name_def bk_def)
    define gs where "gs = butlast fs"
    have gs: "fs = gs @ [last fs]" using fs(3) by (simp add: gs_def)
    then have lgs: "length fs = Suc (length gs)" by (metis length_append_singleton)
    have cgs: "concat fs = concat gs @ last fs" using arg_cong[OF gs, of concat] by simp
    let ?C = "length (concat (last fs)) + length line < unat (m_size (m_logFile bk))"
    from fits True have "mapping_fits env bk" by (simp add: bk_def)
    from process_text_Inr[OF lt(3)[folded line_def] fs(7) lo(3,2) this] obtain mem where
      bk': "m_backend (logger s') = (if ?C then bk else next_file bk)\<lparr>m_logFile := mem\<rparr>" and
      holds: "file_holds (if ?C then concat (last fs) @ line else line) (m_backend (logger s'), log_disk s')" and
      other: "\<forall>p. p \<noteq> c_str (m_resourceName (m_backend (logger s'))) \<longrightarrow> disk_files (log_disk s') p = disk_files (log_disk s) p"
      by blast
    have id: "1 \<le> unat (m_rotationId bk)" "unat (m_rotationId bk) + 1 < 2 ^ 32"
    proof -
      have "1 \<le> length fs" using fs(3) by (cases fs) simp_all
      then show "1 \<le> unat (m_rotationId bk)" "unat (m_rotationId bk) + 1 < 2 ^ 32" using fs(4,5) len by simp_all
    qed
    note nf = next_file_named[OF fs(6) id]
    define fs' where "fs' = (if ?C then gs @ [last fs @ [line]] else fs @ [[line]])"
    have n: "backend_named name (m_backend (logger s'))" "unat (m_rotationId (m_backend (logger s'))) = length fs'"
      using nf fs(4,6) lgs by (auto simp: backend_named_def bk' next_file_sels fs'_def)
    then have rn: "m_resourceName (m_backend (logger s')) = log_file name (length fs')" by (simp add: backend_named_def)
    have "concat (last fs') = (if ?C then concat (last fs) @ line else line)" by (simp add: fs'_def)
    then have held: "file_holds (concat (last fs')) (m_backend (logger s'), log_disk s')" using holds by simp
    obtain k where k: "disk_files (log_disk s') (c_str (log_file name (length fs'))) =
        Some (concat (last fs') @ replicate k NUL)"
      using held by (auto simp: file_holds_def Let_def rn simp del: replicate_Suc)
    have "log_holds name (log_disk s') fs'"
    proof (cases ?C)
      case True
      then have "fs' = gs @ [last fs @ [line]]" by (simp add: fs'_def)
      with log_holds_put[of name "log_disk s" gs "[last fs]" "log_disk s'" "last fs @ [line]" k]
        fs(1)[unfolded gs[symmetric]] nn other k rn gs show ?thesis by simp
    next
      case False
      then have "fs' = fs @ [[line]]" by (simp add: fs'_def)
      with log_holds_put[of name "log_disk s" fs "[]" "log_disk s'" "[line]" k] fs(1) nn other k rn show ?thesis by simp
    qed
    moreover have "concat fs' = concat fs @ [line]"
      using cgs by (simp add: fs'_def)
    then have "list_all2 line_of (written s @ [entry]) (concat fs')" using fs(2) lo(1) by (simp add: list_all2_appendI)
    moreover have "length fs' \<le> Suc (Suc (length (written s)))" using fs(5) lgs by (simp add: fs'_def)
    then have "backend_at name ?t fs'"
      using n held wr fs'_def by (auto simp: backend_at_def)
    ultimately show ?thesis by blast
  qed
  then show ?thesis using lt(2) ne sz' wr by (simp add: files_inv_def Let_def name_def)
qed

lemma files_inv_turn:
  assumes inv: "files_inv conf s" and fits: "m_backendEnabled (logger s) \<longrightarrow> mapping_fits env (m_backend (logger s))"
  shows "files_inv conf (run_turn (run_at s) env now s)"
proof (cases "run_at s")
  case R_Start
  define name bk where "name = m_memoryMappedFileName conf" and "bk = m_backend (logger s)"
  show ?thesis
  proof (cases "m_backendEnabled (logger s)")
    case False
    then show ?thesis using R_Start inv by (simp add: files_inv_def Let_def)
  next
    case True
    then have ne: "name \<noteq> []" and sz: "m_rotationSize bk = m_rotationSizeInBytes conf"
      using inv by (simp_all add: files_inv_def Let_def name_def bk_def)
    show ?thesis
    proof (cases "Backend_open env (bk, log_disk s)")
      case (Inl e)
      then have t: "run_turn (run_at s) env now s = s\<lparr>run_at := R_Ended (Some e)\<rparr>"
        using R_Start True by (simp add: bk_def Let_def)
      show ?thesis unfolding t using R_Start inv
        by (auto simp: files_inv_def backend_at_def Let_def intro!: exI[of _ "[]"])
    next
      case (Inr r)
      obtain bk' d' where o: "Backend_open env (bk, log_disk s) = Inr (bk', d')" using Inr by (cases r) auto
      have "\<exists>fs. log_holds name d' fs \<and> list_all2 line_of (written s) (concat fs) \<and>
          backend_at name (s\<lparr>logger := (logger s)\<lparr>m_backend := bk'\<rparr>, log_disk := d', run_at := R_Flush\<rparr>) fs"
        if nn: "NUL \<notin> set name" and len: "length (written s) < 2 ^ 31"
      proof -
        obtain n where b: "bk = MemoryMappedFileBackend_new\<lparr>m_resourceName := name, m_rotationSize := n\<rparr>" "written s = []"
          using inv nn len ne R_Start by (auto simp: files_inv_def Let_def backend_at_def name_def bk_def)
        from Backend_open_Inr[OF o] fits True b have eff: "backend_named name bk'" "m_rotationId bk' = 1" "file_holds [] (bk', d')"
          by (simp_all add: MemoryMappedFileBackend_new_def bk_def)
        then have "c_str (m_resourceName bk') = c_str (log_file name 1)" by (simp add: backend_named_def)
        then have "log_holds name d' [[]]"
          using eff(3) by (auto simp: log_holds_def file_holds_def Let_def simp flip: replicate_Suc)
        then show ?thesis using eff b(2) by (intro exI[of _ "[[]]"]) (simp add: backend_at_def)
      qed
      moreover have "m_rotationSize bk' = m_rotationSizeInBytes conf" using Backend_open_size[OF o] sz by simp
      ultimately show ?thesis using R_Start True o ne by (simp add: files_inv_def Let_def name_def bk_def)
    qed
  qed
next
  case R_Flush
  then show ?thesis using inv
    by (auto simp: files_inv_def backend_at_def Let_def split: option.splits prod.splits)
next
  case (R_Write entries)
  show ?thesis
  proof (cases entries)
    case Nil
    then show ?thesis using R_Write inv by (auto simp: files_inv_def backend_at_def Let_def)
  next
    case (Cons entry rest)
    show ?thesis
    proof (cases "write_entry env now entry s")
      case (Inl e)
      then show ?thesis using R_Write Cons inv by (auto simp: files_inv_def backend_at_def Let_def)
    next
      case (Inr s')
      then show ?thesis using R_Write Cons files_inv_write[OF _ inv fits Inr] by simp
    qed
  qed
next
  case R_Check
  have "disk_files (snd (closeMemoryMappedFile (bk, d))) = disk_files d" "m_rotationSize (fst (closeMemoryMappedFile (bk, d))) = m_rotationSize bk"
    for bk d by (simp_all add: closeMemoryMappedFile_def SharedMemory_close_def Let_def)
  then show ?thesis using R_Check inv
    by (auto simp: files_inv_def backend_at_def log_holds_def Let_def split_beta)
qed (use inv in simp)

lemma files_inv_cong:
  assumes "m_backend (logger s') = m_backend (logger s)" "m_backendEnabled (logger s') = m_backendEnabled (logger s)"
    "log_disk s' = log_disk s" "written s' = written s" "run_at s' = run_at s"
  shows "files_inv conf s' = files_inv conf s"
  unfolding files_inv_def backend_at_def assms by (rule refl)

lemma files_inv_reachable: "logger_reachable conf s \<Longrightarrow> files_inv conf s"
proof (induction rule: logger_reachable.induct)
  case (start mem d)
  then show ?case
    by (auto simp: files_inv_def logger_start_def Logger_initialise_def Logger_new_def Let_def backend_at_def Actor.defs)
next
  case (step s s')
  from step(2) show ?case
  proof cases
    case (turn env now)
    then show ?thesis using files_inv_turn[OF step(3)] by simp
  next
    case (log level sender message lg)
    then have "m_backend lg = m_backend (logger s) \<and> m_backendEnabled lg = m_backendEnabled (logger s)"
      by (auto simp: Logger_log_def pushLogToLogBuffer_def split: if_splits option.splits)
    then show ?thesis using step(3) log(1) files_inv_cong[of s' s] by simp
  next
    case finish
    then show ?thesis using step(3) files_inv_cong[of s' s] by (simp add: sendFinishSignal_def)
  qed
qed

section \<open>Turns of the thread alone\<close>

text \<open>\<open>n\<close> turns while no other thread runs; \<open>now\<close> gives the clock of the turns, counted from the last.\<close>

fun run_turns :: "mmap_env \<Rightarrow> (nat \<Rightarrow> clock) \<Rightarrow> nat \<Rightarrow> logger_state \<Rightarrow> logger_state" where
  "run_turns env now 0 s = s"
| "run_turns env now (Suc n) s = run_turns env now n (run_turn (run_at s) env (now n) s)"

text \<open>Writing cannot fail: the console alone, or an open log file and a system that lets it rotate.\<close>

definition writing_ok :: "mmap_env \<Rightarrow> logger_state \<Rightarrow> bool" where
  "writing_ok env s \<longleftrightarrow> (m_backendEnabled (logger s) \<longrightarrow>
     (\<exists>t. file_holds t (m_backend (logger s), log_disk s)) \<and> rotation_possible env (m_backend (logger s)))"

lemma write_entry_ok:
  assumes "writing_ok env s"
  shows "\<exists>s'. write_entry env now entry s = Inr s' \<and> writing_ok env s' \<and> m_isFinishing (logger s') = m_isFinishing (logger s)"
proof (cases "m_backendEnabled (logger s)")
  case False
  then show ?thesis by (simp add: write_entry_def writing_ok_def)
next
  case True
  obtain ltext where lt: "LogEntry_text now entry = Inr ltext" "length (ltext @ [CHR 0x0A]) \<le> MAX_BUFFER_SIZE"
    using LogEntry_text_length by blast
  obtain t where t: "file_holds t (m_backend (logger s), log_disk s)" "rotation_possible env (m_backend (logger s))"
    using assms True by (auto simp: writing_ok_def)
  from process_text_succeeds[OF t(1) lt(2) _ t(2)] obtain bk d where
    p: "process_text env (ltext @ [CHR 0x0A]) (m_backend (logger s), log_disk s) = Inr (bk, d)" by auto
  from process_text_Inr[OF p t(1) lt(2) _ rotation_possible_fits[OF t(2)]] have "\<exists>t'. file_holds t' (bk, d)" by blast
  moreover have "rotation_possible env bk" using process_text_size[OF p] t(2) by (simp add: rotation_possible_def)
  ultimately show ?thesis using True lt(1) p
    by (simp add: write_entry_def Backend_process_def writing_ok_def)
qed

text \<open>The entries in the hand of the thread are written in as many turns.\<close>

lemma run_turns_write:
  assumes "run_at s = R_Write entries" "writing_ok env s"
  shows "\<exists>s'. run_turns env now (length entries + n) s = run_turns env now n s' \<and> run_at s' = R_Write [] \<and> writing_ok env s' \<and>
    written s' = written s @ entries \<and> accepted s' = accepted s \<and> m_logBuffer (logger s') = m_logBuffer (logger s) \<and>
    m_isFinishing (logger s') = m_isFinishing (logger s)"
  using assms
proof (induction entries arbitrary: s)
  case (Cons entry rest)
  obtain s1 where w: "write_entry env (now (length rest + n)) entry s = Inr s1" "writing_ok env s1"
      "m_isFinishing (logger s1) = m_isFinishing (logger s)"
    using write_entry_ok[OF Cons.prems(2)] by blast
  let ?s = "s1\<lparr>run_at := R_Write rest, written := written s1 @ [entry]\<rparr>"
  have "run_turns env now (length (entry # rest) + n) s = run_turns env now (length rest + n) ?s"
    using Cons.prems(1) w(1) by simp
  moreover have "run_at ?s = R_Write rest" "writing_ok env ?s" using w(2) by (simp_all add: writing_ok_def)
  note Cons.IH[OF this]
  ultimately show ?case using write_entry_effect[OF w(1)] w(3) by auto
qed auto

lemma run_turns_flush:
  assumes "run_at s = R_Flush" "writing_ok env s" "m_logBuffer (logger s) = Some q" "mpsc_wf q"
  shows "\<exists>s'. run_turns env now (Suc (length (waiting q))) s = s' \<and> written s' = written s @ waiting q \<and> accepted s' = accepted s"
proof -
  obtain q' where d: "drain q = (Some (waiting q), q')" using mpsc.take_all[OF assms(4)] by (cases "drain q") auto
  let ?s = "s\<lparr>logger := (logger s)\<lparr>m_logBuffer := Some q'\<rparr>, run_at := R_Write (waiting q)\<rparr>"
  have "run_turns env now (Suc (length (waiting q))) s = run_turns env now (length (waiting q) + 0) ?s"
    using assms(1,3) d by simp
  moreover have w: "run_at ?s = R_Write (waiting q)" "writing_ok env ?s" using assms(2) by (simp_all add: writing_ok_def)
  ultimately show ?thesis using run_turns_write[OF w, of now 0] by auto
qed

lemma run_turns_check:
  assumes "run_at s = R_Check" "\<not> m_isFinishing (logger s)" "writing_ok env s" "m_logBuffer (logger s) = Some q" "mpsc_wf q"
  shows "\<exists>s'. run_turns env now (Suc (Suc (length (waiting q)))) s = s' \<and> written s' = written s @ waiting q \<and> accepted s' = accepted s"
proof -
  have "run_turns env now (Suc (Suc (length (waiting q)))) s = run_turns env now (Suc (length (waiting q))) (s\<lparr>run_at := R_Flush\<rparr>)"
    using assms(1,2) by simp
  then show ?thesis using run_turns_flush[of "s\<lparr>run_at := R_Flush\<rparr>" env q now] assms(3-) by (simp add: writing_ok_def)
qed

lemma turns_write_all:
  assumes "logger_reachable conf s" "run_at s \<noteq> R_Start" "\<forall>e. run_at s \<noteq> R_Ended e" "\<not> m_isFinishing (logger s)"
    and ok: "writing_ok env s"
  shows "\<exists>n. written (run_turns env now n s) = accepted s \<and> accepted (run_turns env now n s) = accepted s"
proof -
  obtain q where q: "m_logBuffer (logger s) = Some q" "mpsc_wf q" "accepted s = written s @ in_hand (run_at s) @ waiting q"
    using logger_reachable_inv[OF assms(1)] assms(3) by (auto simp: logger_inv_def)
  show ?thesis
  proof (cases "run_at s")
    case R_Flush
    then show ?thesis using run_turns_flush[OF R_Flush ok q(1,2), of now] q(3)
      by (intro exI[of _ "Suc (length (waiting q))"]) (simp del: run_turns.simps)
  next
    case R_Check
    then show ?thesis using run_turns_check[OF R_Check assms(4) ok q(1,2), of now] q(3)
      by (intro exI[of _ "Suc (Suc (length (waiting q)))"]) (simp del: run_turns.simps)
  next
    case (R_Write entries)
    let ?n = "Suc (Suc (length (waiting q)))"
    obtain s' where s': "run_turns env now (length entries + Suc ?n) s = run_turns env now (Suc ?n) s'" "run_at s' = R_Write []"
        "writing_ok env s'" "written s' = written s @ entries" "accepted s' = accepted s"
        "m_logBuffer (logger s') = Some q" "\<not> m_isFinishing (logger s')"
      using run_turns_write[OF R_Write ok, of now "Suc ?n"] q(1) assms(4) by auto
    have "run_turns env now (Suc ?n) s' = run_turns env now ?n (s'\<lparr>run_at := R_Check\<rparr>)" using s'(2) by simp
    then have "written (run_turns env now (length entries + Suc ?n) s) = accepted s \<and>
        accepted (run_turns env now (length entries + Suc ?n) s) = accepted s"
      using run_turns_check[of "s'\<lparr>run_at := R_Check\<rparr>" env q now] s' q(2,3) R_Write by (simp add: writing_ok_def)
    then show ?thesis by blast
  qed (use assms(2,3) in auto)
qed

text \<open>The system calls of a rotation depend on the configured size only.\<close>

lemma rotation_possible_conf:
  assumes "logger_reachable conf s" "m_memoryMappedFileName conf \<noteq> []"
  shows "rotation_possible env (m_backend (logger s)) \<longleftrightarrow>
    rotation_possible env (MemoryMappedFileBackend_new\<lparr>m_rotationSize := m_rotationSizeInBytes conf\<rparr>)"
  using files_inv_reachable[OF assms(1)] assms(2) by (simp add: files_inv_def Let_def rotation_possible_def)

lemma run_turns_reachable:
  assumes "logger_reachable conf s" "m_memoryMappedFileName conf \<noteq> [] \<longrightarrow> rotation_possible env (m_backend (logger s))"
  shows "logger_reachable conf (run_turns env now n s)"
  using assms
proof (induction n arbitrary: s)
  case (Suc n)
  have "m_backendEnabled (logger s) \<longrightarrow> mapping_fits env (m_backend (logger s))"
    using files_inv_reachable[OF Suc.prems(1)] Suc.prems(2) rotation_possible_fits by (auto simp: files_inv_def Let_def)
  from logger_reachable.step[OF Suc.prems(1) logger_step.turn[OF this, of "now n"]]
  have r: "logger_reachable conf (run_turn (run_at s) env (now n) s)" .
  show ?case
    using Suc.IH[OF r] Suc.prems rotation_possible_conf[OF r] rotation_possible_conf[OF Suc.prems(1)] by simp
qed simp

section \<open>Properties\<close>

text \<open>C29: The logger writes what passes the configured level, once and in the order of the calls of
  \<open>log\<close>. At any moment the accepted entries are those written, those in the hand of the thread and
  those in the queue, in this order, unless writing has failed. The written ones are what the outside sees: the console,
  when it is enabled, has shown exactly their messages; and the log files, when a file is
  configured, read in the order of their numbers, hold exactly one line for each of them, in this order, each
  line whole in one file, and behind the lines of a file nothing but zeros. (The configured name has
  no NUL byte, and fewer than 2^31 entries have been written, so that the numbers of the files do not come round.)\<close>

theorem logger_writes_in_order:
  assumes "logger_reachable conf s" "NUL \<notin> set (m_memoryMappedFileName conf)" "length (written s) < 2 ^ 31"
  shows "(\<exists>rest. accepted s = written s @ rest) \<and>
    (\<forall>e \<in> set (accepted s). LogLevel_value (entry_logLevel e) \<le> LogLevel_value (m_logLevel conf)) \<and>
    log_stdout s = (if m_copyToStdout conf then map entry_message (written s) else []) \<and>
    (m_memoryMappedFileName conf \<noteq> [] \<longrightarrow>
       (\<exists>fs. log_holds (m_memoryMappedFileName conf) (log_disk s) fs \<and> list_all2 line_of (written s) (concat fs))) \<and>
    ((\<exists>e. run_at s = R_Ended (Some e)) \<or>
     (\<exists>q. m_logBuffer (logger s) = Some q \<and> accepted s = written s @ in_hand (run_at s) @ waiting q))"
proof (intro conjI)
  note inv = logger_reachable_inv[OF assms(1), unfolded logger_inv_def]
  show "\<exists>rest. accepted s = written s @ rest"
    "\<forall>e \<in> set (accepted s). LogLevel_value (entry_logLevel e) \<le> LogLevel_value (m_logLevel conf)"
    "log_stdout s = (if m_copyToStdout conf then map entry_message (written s) else [])"
    "(\<exists>e. run_at s = R_Ended (Some e)) \<or>
     (\<exists>q. m_logBuffer (logger s) = Some q \<and> accepted s = written s @ in_hand (run_at s) @ waiting q)"
    using inv by auto
  show "m_memoryMappedFileName conf \<noteq> [] \<longrightarrow>
       (\<exists>fs. log_holds (m_memoryMappedFileName conf) (log_disk s) fs \<and> list_all2 line_of (written s) (concat fs))"
    using files_inv_reachable[OF assms(1)] assms(2,3) unfolding files_inv_def Let_def by blast
qed

text \<open>C30: The logger catches up. From every reachable state in which its thread is in its loop, has not
  been asked to finish and, if it has a log file, finds the system calls of a rotation succeed,
  finitely many turns of the thread write every entry that has been accepted: the console, when
  enabled, has shown all their messages, and the log files, when configured, hold exactly one
  line for each of them, in order. (The configured name has no NUL byte, and fewer than 2^31 entries have been accepted.)\<close>

theorem logger_catches_up:
  assumes "logger_reachable conf s" "run_at s \<noteq> R_Start" "\<forall>e. run_at s \<noteq> R_Ended e" "\<not> m_isFinishing (logger s)"
    and "NUL \<notin> set (m_memoryMappedFileName conf)" "length (accepted s) < 2 ^ 31"
    and "m_memoryMappedFileName conf \<noteq> [] \<longrightarrow> rotation_possible env (m_backend (logger s))"
  shows "\<exists>n s'. s' = run_turns env now n s \<and> accepted s' = accepted s \<and> written s' = accepted s \<and>
    log_stdout s' = (if m_copyToStdout conf then map entry_message (accepted s) else []) \<and>
    (m_memoryMappedFileName conf \<noteq> [] \<longrightarrow>
       (\<exists>fs. log_holds (m_memoryMappedFileName conf) (log_disk s') fs \<and> list_all2 line_of (accepted s) (concat fs)))"
proof -
  have len: "length (written s) < 2 ^ 31"
    using logger_reachable_inv[OF assms(1)] assms(6) by (auto simp: logger_inv_def)
  have ok: "writing_ok env s"
    using files_inv_reachable[OF assms(1)] assms(2,3,5,7) len
    by (cases "run_at s") (auto simp: writing_ok_def files_inv_def backend_at_def Let_def)
  obtain n where n: "written (run_turns env now n s) = accepted s" "accepted (run_turns env now n s) = accepted s"
    using turns_write_all[OF assms(1-4) ok] by blast
  have "logger_reachable conf (run_turns env now n s)"
    using assms(1,7) by (rule run_turns_reachable)
  note inv = logger_reachable_inv[OF this, unfolded logger_inv_def] files_inv_reachable[OF this, unfolded files_inv_def Let_def]
  have "log_stdout (run_turns env now n s) = (if m_copyToStdout conf then map entry_message (accepted s) else [])"
    using inv(1) n(1) by simp
  moreover have "m_memoryMappedFileName conf \<noteq> [] \<longrightarrow>
       (\<exists>fs. log_holds (m_memoryMappedFileName conf) (log_disk (run_turns env now n s)) fs \<and>
          list_all2 line_of (accepted s) (concat fs))"
    using inv(2) n(1) assms(5,6) by auto
  ultimately show ?thesis using n by blast
qed

text \<open>A logger that writes to the console only, and the last line of the program.\<close>

definition sample_logger_conf :: LoggerArguments where
  "sample_logger_conf = LoggerArguments_new\<lparr>m_logLevel := LEVEL_INFO, m_copyToStdout := True\<rparr>"

definition last_line :: LogEntry where
  "last_line = \<lparr>entry_logLevel = LEVEL_INFO, entry_sender = ''Main thread'', entry_message = ''Ending''\<rparr>"

definition empty_entry :: LogEntry where
  "empty_entry = \<lparr>entry_logLevel = LEVEL_FATAL, entry_sender = [], entry_message = []\<rparr>"

text \<open>Two turns: the thread starts and finds the queue empty.\<close>

definition sample_idle :: logger_state where
  "sample_idle = (logger_start empty_entry sample_logger_conf \<lparr>disk_files = Map.empty, disk_fds = []\<rparr>)\<lparr>run_at := R_Check\<rparr>"

lemma drain_new: "drain (QueueMPSC_new e) = (Some [], QueueMPSC_new e)"
  by (simp add: drain_def QueueMPSC_flush_def QueueMPSC_isEmpty_def QueueMPSC_new_def read_chain.simps)

lemmas sample_logger_defs = logger_start_def Logger_initialise_def sample_logger_conf_def LoggerArguments_new_def
  Logger_new_def Actor.defs Let_def

lemma sample_idle_reachable: "logger_reachable sample_logger_conf sample_idle"
proof -
  let ?s = "logger_start empty_entry sample_logger_conf \<lparr>disk_files = Map.empty, disk_fds = []\<rparr>"
  let ?now = "\<lparr>clock_text = [], clock_seconds = 0, clock_microseconds = 0\<rparr>"
  have st: "logger_reachable sample_logger_conf (?s\<lparr>run_at := pc\<rparr>) \<Longrightarrow>
      logger_reachable sample_logger_conf (run_turn pc sample_mmap ?now (?s\<lparr>run_at := pc\<rparr>))" for pc
    using logger_reachable.step[OF _ logger_step.turn[of "?s\<lparr>run_at := pc\<rparr>" sample_mmap ?now]]
    by (simp add: sample_logger_defs)
  have 1: "logger_reachable sample_logger_conf (?s\<lparr>run_at := R_Flush\<rparr>)"
    using st[of R_Start] logger_reachable.start[of sample_logger_conf empty_entry "\<lparr>disk_files = Map.empty, disk_fds = []\<rparr>"]
    by (simp add: sample_logger_defs)
  have 2: "logger_reachable sample_logger_conf (?s\<lparr>run_at := R_Write []\<rparr>)"
    using st[OF 1] by (simp add: sample_logger_defs drain_new)
  show ?thesis using st[OF 2] by (simp add: sample_idle_def)
qed

lemma log_last_line:
  "\<exists>lg q. Logger_log LEVEL_INFO ''Main thread'' ''Ending'' (logger sample_idle) = Inr lg \<and> m_logBuffer lg = Some q \<and>
     waiting q = [last_line] \<and> logger_copyToStdout lg \<and> \<not> m_backendEnabled lg \<and> \<not> m_isFinishing lg"
  using mpsc.put[of "QueueMPSC_new empty_entry" last_line] mpsc.create[of empty_entry]
  by (simp add: sample_idle_def sample_logger_defs Logger_log_def pushLogToLogBuffer_def last_line_def Actor_new_def Thread_new_def Thread.defs)

lemma logged_last_line:
  "\<exists>lg q. logger_reachable sample_logger_conf (sample_idle\<lparr>logger := lg, accepted := [last_line]\<rparr>) \<and>
     m_logBuffer lg = Some q \<and> waiting q = [last_line] \<and> logger_copyToStdout lg \<and> \<not> m_backendEnabled lg \<and> \<not> m_isFinishing lg"
proof -
  obtain lg q where lg: "Logger_log LEVEL_INFO ''Main thread'' ''Ending'' (logger sample_idle) = Inr lg"
      "m_logBuffer lg = Some q" "waiting q = [last_line]" "logger_copyToStdout lg" "\<not> m_backendEnabled lg"
      "\<not> m_isFinishing lg"
    using log_last_line by blast
  have "LogLevel_value LEVEL_INFO \<le> logger_logLevel (logger sample_idle)" "accepted sample_idle = []"
    by (simp_all add: sample_idle_def sample_logger_defs)
  then have "logger_reachable sample_logger_conf (sample_idle\<lparr>logger := lg, accepted := [last_line]\<rparr>)"
    using logger_reachable.step[OF sample_idle_reachable logger_step.log[OF lg(1)]] by (simp add: last_line_def)
  with lg show ?thesis by blast
qed

text \<open>A logger with a file and the console, at the start of its loop, with one entry to write.\<close>

definition sample_file_conf :: LoggerArguments where
  "sample_file_conf = LoggerArguments_new\<lparr>m_logLevel := LEVEL_INFO, m_copyToStdout := True,
     m_memoryMappedFileName := ''log.txt'', m_rotationSizeInBytes := 4096\<rparr>"

lemma sample_open:
  "\<exists>bk d. Backend_open sample_mmap (m_backend (Logger_initialise empty_entry sample_file_conf Logger_new), d0) = Inr (bk, d)"
proof -
  have "rotation_possible sample_mmap (MemoryMappedFileBackend_new\<lparr>m_resourceName := ''log.txt'', m_rotationSize := 4096,
      m_originalResourceName := ''log'', m_resourceExtension := ''txt''\<rparr>)"
    by (simp add: rotation_possible_def sample_mmap_def MAX_BUFFER_SIZE_def)
  from openMemoryMappedFile_succeeds[OF this, of d0] show ?thesis
    by (auto simp: Backend_open_def Logger_initialise_def sample_file_conf_def LoggerArguments_new_def Logger_new_def Actor.defs
        contains_def split.simps Let_def)
qed

lemma sample_file_logger:
  "\<exists>s. logger_reachable sample_file_conf s \<and> run_at s = R_Flush \<and> \<not> m_isFinishing (logger s) \<and> accepted s = [last_line] \<and>
     rotation_possible sample_mmap (m_backend (logger s))"
proof -
  let ?d = "\<lparr>disk_files = Map.empty, disk_fds = []\<rparr>" and ?now = "\<lparr>clock_text = [], clock_seconds = 0, clock_microseconds = 0\<rparr>"
  define lg s0 where "lg = Logger_initialise empty_entry sample_file_conf Logger_new" and "s0 = logger_start empty_entry sample_file_conf ?d"
  have lg: "m_backendEnabled lg" "logger_logLevel lg = 3" "m_logBuffer lg = Some (QueueMPSC_new empty_entry)"
      "\<not> m_isFinishing lg" "m_rotationSize (m_backend lg) = 4096"
    by (simp_all add: lg_def Logger_initialise_def sample_file_conf_def LoggerArguments_new_def Logger_new_def Actor.defs
        Actor_new_def Thread_new_def Thread.defs Let_def)
  have s0: "logger s0 = lg" "run_at s0 = R_Start" "accepted s0 = []" "log_disk s0 = ?d"
    by (simp_all add: s0_def logger_start_def lg_def)
  obtain bk d where o: "Backend_open sample_mmap (m_backend lg, ?d) = Inr (bk, d)" using sample_open unfolding lg_def by blast
  have rp: "rotation_possible sample_mmap (m_backend lg)"
    by (simp add: rotation_possible_def sample_mmap_def MAX_BUFFER_SIZE_def lg)
  define s1 where "s1 = s0\<lparr>logger := lg\<lparr>m_backend := bk\<rparr>, log_disk := d, run_at := R_Flush\<rparr>"
  have "m_backendEnabled (logger s0) \<longrightarrow> mapping_fits sample_mmap (m_backend (logger s0))"
    using rotation_possible_fits[OF rp] by (simp add: s0)
  from logger_reachable.step[OF _ logger_step.turn[OF this, of ?now], of sample_file_conf]
  have r1: "logger_reachable sample_file_conf s1"
    using logger_reachable.start[of sample_file_conf empty_entry ?d] o lg(1) by (simp add: s0 s1_def flip: s0_def)
  have "logger s1 = lg\<lparr>m_backend := bk\<rparr>" by (simp add: s1_def)
  then have "Logger_log LEVEL_INFO ''Main thread'' ''Ending'' (logger s1) =
      Inr (lg\<lparr>m_backend := bk, m_logBuffer := Some (QueueMPSC_push last_line (QueueMPSC_new empty_entry))\<rparr>)"
    using lg by (simp add: Logger_log_def pushLogToLogBuffer_def last_line_def)
  from logger_reachable.step[OF r1 logger_step.log[OF this]] lg
  have r2: "logger_reachable sample_file_conf (s1\<lparr>logger := lg\<lparr>m_backend := bk, m_logBuffer :=
      Some (QueueMPSC_push last_line (QueueMPSC_new empty_entry))\<rparr>, accepted := [last_line]\<rparr>)"
    by (simp add: s1_def s0 last_line_def)
  have "m_rotationSize bk = 4096" using Backend_open_size[OF o] lg(5) by simp
  then have "rotation_possible sample_mmap bk" using rp lg(5) by (simp add: rotation_possible_def)
  then show ?thesis using r2 lg(4)
    by (intro exI[of _ "s1\<lparr>logger := lg\<lparr>m_backend := bk, m_logBuffer :=
      Some (QueueMPSC_push last_line (QueueMPSC_new empty_entry))\<rparr>, accepted := [last_line]\<rparr>"]) (simp add: s1_def)
qed

lemma sample_file_name: "m_memoryMappedFileName sample_file_conf = ''log.txt''" "m_copyToStdout sample_file_conf"
  by (simp_all add: sample_file_conf_def)

theorem logger_writes_in_order_witness:
  "\<exists>s fs. logger_reachable sample_file_conf s \<and> written s = [last_line] \<and> log_stdout s = [''Ending''] \<and>
     log_holds ''log.txt'' (log_disk s) fs \<and> list_all2 line_of [last_line] (concat fs)"
proof -
  let ?now = "\<lambda>_. \<lparr>clock_text = [], clock_seconds = 0, clock_microseconds = 0\<rparr>"
  obtain s where s: "logger_reachable sample_file_conf s" "run_at s = R_Flush" "\<not> m_isFinishing (logger s)"
      "accepted s = [last_line]" "rotation_possible sample_mmap (m_backend (logger s))"
    using sample_file_logger by blast
  obtain rest where "[last_line] = written s @ rest" using logger_reachable_inv[OF s(1)] s(4) unfolding logger_inv_def by metis
  from arg_cong[OF this, of length] have "length (written s) < 2 ^ 31" by simp
  then have "writing_ok sample_mmap s"
    using files_inv_reachable[OF s(1)] s(2,5) by (auto simp: writing_ok_def files_inv_def backend_at_def sample_file_name Let_def)
  with turns_write_all[OF s(1), of sample_mmap ?now] s obtain n where n: "written (run_turns sample_mmap ?now n s) = [last_line]"
    by auto
  have r: "logger_reachable sample_file_conf (run_turns sample_mmap ?now n s)"
    by (rule run_turns_reachable[OF s(1)]) (use s(5) in simp)
  from logger_writes_in_order[OF r] n r show ?thesis
    by (intro exI[of _ "run_turns sample_mmap ?now n s"]) (auto simp: sample_file_name last_line_def)
qed

theorem logger_catches_up_witness:
  "\<exists>s n fs. logger_reachable sample_file_conf s \<and> accepted s = [last_line] \<and>
     log_stdout (run_turns sample_mmap (\<lambda>_. \<lparr>clock_text = [], clock_seconds = 0, clock_microseconds = 0\<rparr>) n s) = [''Ending''] \<and>
     log_holds ''log.txt''
       (log_disk (run_turns sample_mmap (\<lambda>_. \<lparr>clock_text = [], clock_seconds = 0, clock_microseconds = 0\<rparr>) n s)) fs \<and>
     list_all2 line_of [last_line] (concat fs)"
proof -
  obtain s where s: "logger_reachable sample_file_conf s" "run_at s = R_Flush" "\<not> m_isFinishing (logger s)"
      "accepted s = [last_line]" "rotation_possible sample_mmap (m_backend (logger s))"
    using sample_file_logger by blast
  with logger_catches_up[OF s(1), of sample_mmap "\<lambda>_. \<lparr>clock_text = [], clock_seconds = 0, clock_microseconds = 0\<rparr>"]
  show ?thesis by (auto simp: sample_file_name last_line_def)
qed

text \<open>The last lines of the log can be lost. A thread that has just found the queue empty tests
  \<open>isFinishing\<close> without flushing again: the line that \<open>main\<close> logs before it calls \<open>shutdown\<close> is
  accepted, the thread ends in good order, and the line stays in the queue.\<close>

theorem logger_loses_last_line:
  "\<exists>s q. logger_reachable sample_logger_conf s \<and> run_at s = R_Ended None \<and> m_isFinishing (logger s) \<and>
     accepted s = [last_line] \<and> written s = [] \<and> log_stdout s = [] \<and>
     m_logBuffer (logger s) = Some q \<and> waiting q = [last_line] \<and>
     (\<forall>env now. run_turn (run_at s) env now s = s)"
proof -
  let ?now = "\<lparr>clock_text = [], clock_seconds = 0, clock_microseconds = 0\<rparr>"
  obtain lg q where 1: "logger_reachable sample_logger_conf (sample_idle\<lparr>logger := lg, accepted := [last_line]\<rparr>)"
    and lg: "m_logBuffer lg = Some q" "waiting q = [last_line]" "logger_copyToStdout lg" "\<not> m_backendEnabled lg"
    using logged_last_line by blast
  have idle: "written sample_idle = []" "log_stdout sample_idle = []" "run_at sample_idle = R_Check"
    by (simp_all add: sample_idle_def logger_start_def)
  let ?s1 = "sample_idle\<lparr>logger := lg, accepted := [last_line]\<rparr>"
  have 2: "logger_reachable sample_logger_conf (?s1\<lparr>logger := sendFinishSignal lg\<rparr>)"
    using logger_reachable.step[OF 1 logger_step.finish] by simp
  let ?s3 = "run_turn R_Check sample_mmap ?now (?s1\<lparr>logger := sendFinishSignal lg\<rparr>)"
  have 3: "logger_reachable sample_logger_conf ?s3"
    using logger_reachable.step[OF 2 logger_step.turn[of _ sample_mmap ?now]] idle(3) lg(4)
    by (simp add: sendFinishSignal_def)
  show ?thesis
    by (rule exI[of _ ?s3], rule exI[of _ q]) (use 3 lg idle in \<open>simp add: sendFinishSignal_def\<close>)
qed

end
