(* ===== verification/Single_Instance.thy ===== *)
theory Single_Instance
  imports Prelude
begin

text \<open>
  \<open>core::SingleInstance\<close> (\<open>source/core/single_instance.cpp\<close>, Linux build), the lock file that lets one
  exchange run at a time, as the interleaving of the system calls of any number of processes. A
  path names an inode or nothing; the write lock of \<open>fcntl\<close> belongs to the inode, and the system
  releases it when its process ends.
\<close>

section \<open>Processes and the lock file\<close>

text \<open>
  A process has not started, has opened the file, has been told that it is alone, has been told
  that it is not, has destroyed its \<open>SingleInstance\<close> at the end of \<open>main\<close>, or is gone.
\<close>

datatype instance_pc =
    I_Idle
  | I_Opened nat
  | I_Running nat
  | I_Refused
  | I_Unlinked nat
  | I_Ended

record instance_state =
  lock_file :: "nat option"
  next_inode :: nat
  lock_owner :: "nat \<Rightarrow> nat option"
  process :: "nat \<Rightarrow> instance_pc"

text \<open>
  \<open>open_file\<close> and \<open>open_fails\<close> are the call of \<open>open\<close> with \<open>O_CREAT\<close>, \<open>lock_taken\<close> and
  \<open>lock_refused\<close> the two results of \<open>fcntl\<close> and so the results \<open>true\<close> and \<open>false\<close> of the operator.
  \<open>destroy\<close> is the destructor with its \<open>unlink\<close>; \<open>abort\<close> is an end through \<open>exit\<close> in \<open>onError\<close>,
  which runs no destructor.
\<close>

inductive instance_step :: "instance_state \<Rightarrow> instance_state \<Rightarrow> bool" where
  open_file: "process s p = I_Idle \<Longrightarrow> lock_file s = Some i \<Longrightarrow>
    instance_step s (s\<lparr>process := (process s)(p := I_Opened i)\<rparr>)"
| create_file: "process s p = I_Idle \<Longrightarrow> lock_file s = None \<Longrightarrow>
    instance_step s (s\<lparr>lock_file := Some (next_inode s), next_inode := next_inode s + 1,
      process := (process s)(p := I_Opened (next_inode s))\<rparr>)"
| open_fails: "process s p = I_Idle \<Longrightarrow> instance_step s (s\<lparr>process := (process s)(p := I_Refused)\<rparr>)"
| lock_taken: "process s p = I_Opened i \<Longrightarrow> lock_owner s i = None \<Longrightarrow>
    instance_step s (s\<lparr>lock_owner := (lock_owner s)(i \<mapsto> p), process := (process s)(p := I_Running i)\<rparr>)"
| lock_refused: "process s p = I_Opened i \<Longrightarrow> lock_owner s i = Some q \<Longrightarrow>
    instance_step s (s\<lparr>process := (process s)(p := I_Refused)\<rparr>)"
| destroy: "process s p = I_Running i \<Longrightarrow>
    instance_step s (s\<lparr>lock_file := None, process := (process s)(p := I_Unlinked i)\<rparr>)"
| end_main: "process s p = I_Unlinked i \<Longrightarrow>
    instance_step s (s\<lparr>lock_owner := (lock_owner s)(i := None), process := (process s)(p := I_Ended)\<rparr>)"
| abort: "process s p = I_Running i \<Longrightarrow>
    instance_step s (s\<lparr>lock_owner := (lock_owner s)(i := None), process := (process s)(p := I_Ended)\<rparr>)"

definition instance_start :: instance_state where
  "instance_start = \<lparr>lock_file = None, next_inode = 0, lock_owner = \<lambda>_. None, process = \<lambda>_. I_Idle\<rparr>"

inductive instance_reachable :: "instance_state \<Rightarrow> bool" where
  start: "instance_reachable instance_start"
| step: "instance_reachable s \<Longrightarrow> instance_step s s' \<Longrightarrow> instance_reachable s'"

section \<open>The invariant\<close>

text \<open>The inode whose lock a process holds.\<close>

fun holds_inode :: "instance_pc \<Rightarrow> nat option" where
  "holds_inode (I_Running i) = Some i"
| "holds_inode (I_Unlinked i) = Some i"
| "holds_inode _ = None"

text \<open>
  Every lock has the owner that believes to hold it; while the file has never been unlinked, all
  processes have opened the same inode.
\<close>

definition owners_ok :: "instance_state \<Rightarrow> bool" where
  "owners_ok s \<longleftrightarrow> (\<forall>p i. holds_inode (process s p) = Some i \<longrightarrow> lock_owner s i = Some p)"

definition one_inode :: "instance_state \<Rightarrow> bool" where
  "one_inode s \<longleftrightarrow> (\<forall>p i. process s p \<in> {I_Opened i, I_Running i} \<longrightarrow> lock_file s = Some i)"

lemma owners_ok_step:
  assumes st: "instance_step s s'" and ok: "owners_ok s"
  shows "owners_ok s'"
proof -
  have owner: "lock_owner s i = Some p" if "holds_inode (process s p) = Some i" for p i
    using ok that by (simp add: owners_ok_def)
  have uniq: "u = p" if "holds_inode (process s p) = Some i" "holds_inode (process s u) = Some i" for p u i
    using owner[OF that(1)] owner[OF that(2)] by simp
  show ?thesis using st
  proof cases
    case (lock_taken p i)
    then show ?thesis using owner by (auto simp: owners_ok_def)
  next
    case (end_main p i)
    then show ?thesis using owner uniq[of p i] by (auto simp: owners_ok_def)
  next
    case (abort p i)
    then show ?thesis using owner uniq[of p i] by (auto simp: owners_ok_def)
  next
    case (destroy p i)
    then show ?thesis using owner[of p i] owner by (auto simp: owners_ok_def)
  qed (use owner in \<open>auto simp: owners_ok_def\<close>)
qed

lemma owners_ok_reachable: "instance_reachable s \<Longrightarrow> owners_ok s"
proof (induction rule: instance_reachable.induct)
  case start
  then show ?case by (simp add: owners_ok_def instance_start_def)
qed (rule owners_ok_step)

text \<open>A run in which no process gets to the destructor.\<close>

inductive quiet_reachable :: "instance_state \<Rightarrow> bool" where
  quiet_start: "quiet_reachable instance_start"
| quiet_step: "quiet_reachable s \<Longrightarrow> instance_step s s' \<Longrightarrow> (\<forall>p i. process s' p \<noteq> I_Unlinked i) \<Longrightarrow> quiet_reachable s'"

lemma one_inode_step:
  assumes st: "instance_step s s'" and ok: "one_inode s" and quiet: "\<forall>p i. process s' p \<noteq> I_Unlinked i"
  shows "one_inode s'"
proof -
  have cur: "lock_file s = Some i" if "process s p = I_Opened i \<or> process s p = I_Running i" for p i
    using ok that by (auto simp: one_inode_def)
  show ?thesis using st
  proof cases
    case (destroy p i)
    then show ?thesis using quiet by (metis fun_upd_same instance_state.select_convs(4) instance_state.simps(9) instance_state.surjective)
  qed (use cur in \<open>force simp: one_inode_def\<close>)+
qed

lemma quiet_reachable_inv: "quiet_reachable s \<Longrightarrow> instance_reachable s \<and> one_inode s"
proof (induction rule: quiet_reachable.induct)
  case quiet_start
  then show ?case using instance_reachable.start by (simp add: one_inode_def) (simp add: instance_start_def)
next
  case (quiet_step s s')
  then show ?case using one_inode_step[of s s'] instance_reachable.step[of s s'] by simp
qed

section \<open>Properties\<close>

text \<open>C32: One exchange at a time, as long as none has gone through its destructor. Whatever the
  interleaving of the system calls of any number of processes that start, are refused or end through
  \<open>onError\<close>, at most one process is told that it is alone.\<close>

theorem single_instance_excludes:
  assumes "quiet_reachable s" "process s p = I_Running i" "process s q = I_Running j"
  shows "p = q"
proof -
  have "owners_ok s" "one_inode s" using quiet_reachable_inv[OF assms(1)] owners_ok_reachable by blast+
  moreover from this have "lock_file s = Some i" "lock_file s = Some j"
    using assms(2,3) unfolding one_inode_def by blast+
  then have "j = i" by simp
  ultimately have "lock_owner s i = Some p" "lock_owner s i = Some q" using assms(2,3) by (auto simp: owners_ok_def)
  then show ?thesis by simp
qed

text \<open>The states of a run are written by their four components.\<close>

abbreviation processes :: "nat option \<Rightarrow> nat \<Rightarrow> (nat \<Rightarrow> nat option) \<Rightarrow> (nat \<Rightarrow> instance_pc) \<Rightarrow> instance_state" where
  "processes f n own pcs \<equiv> \<lparr>lock_file = f, next_inode = n, lock_owner = own, process = pcs\<rparr>"

lemma quiet_first:
  "quiet_reachable (processes (Some 0) 1 (\<lambda>_. None) ((\<lambda>_. I_Idle)(1 := I_Opened 0)))"
  "quiet_reachable (processes (Some 0) 1 (\<lambda>_. None) ((\<lambda>_. I_Idle)(1 := I_Opened 0, 2 := I_Opened 0)))"
  "quiet_reachable (processes (Some 0) 1 [0 \<mapsto> 1] ((\<lambda>_. I_Idle)(1 := I_Running 0, 2 := I_Opened 0)))"
proof -
  show 1: "quiet_reachable (processes (Some 0) 1 (\<lambda>_. None) ((\<lambda>_. I_Idle)(1 := I_Opened 0)))"
    using quiet_step[OF quiet_start instance_step.create_file, of 1] by (simp add: instance_start_def)
  show 2: "quiet_reachable (processes (Some 0) 1 (\<lambda>_. None) ((\<lambda>_. I_Idle)(1 := I_Opened 0, 2 := I_Opened 0)))"
    using quiet_step[OF 1 instance_step.open_file, of 2 0] by simp
  show "quiet_reachable (processes (Some 0) 1 [0 \<mapsto> 1] ((\<lambda>_. I_Idle)(1 := I_Running 0, 2 := I_Opened 0)))"
    using quiet_step[OF 2 instance_step.lock_taken, of 1 0] by (simp add: fun_upd_twist)
qed

theorem single_instance_excludes_witness:
  "\<exists>s. quiet_reachable s \<and> process s 1 = I_Running 0 \<and> process s 2 = I_Opened 0 \<and> (\<forall>q j. process s q = I_Running j \<longrightarrow> q = 1)"
proof (rule exI, intro conjI allI impI)
  show "quiet_reachable (processes (Some 0) 1 [0 \<mapsto> 1] ((\<lambda>_. I_Idle)(1 := I_Running 0, 2 := I_Opened 0)))"
    by (rule quiet_first(3))
  fix q j
  assume "process (processes (Some 0) 1 [0 \<mapsto> 1] ((\<lambda>_. I_Idle)(1 := I_Running 0, 2 := I_Opened 0))) q = I_Running j"
  from single_instance_excludes[OF quiet_first(3) this, of 1 0] show "q = 1" by simp
qed simp_all

text \<open>The destructor breaks the protection. It unlinks the lock file by its path while its process
  still holds the lock: a second process that has opened the file before gets the lock of the
  unlinked inode, a third one creates the file again and gets the lock of the new inode, and both are
  told that they are alone.\<close>

theorem unlink_lets_two_run:
  "\<exists>s. instance_reachable s \<and> process s 2 = I_Running 0 \<and> process s 3 = I_Running 1"
proof -
  let ?f = "\<lambda>_ :: nat. I_Idle"
  have 3: "instance_reachable (processes (Some 0) 1 [0 \<mapsto> 1] (?f(1 := I_Running 0, 2 := I_Opened 0)))"
    using quiet_reachable_inv[OF quiet_first(3)] by blast
  have 4: "instance_reachable (processes None 1 [0 \<mapsto> 1] (?f(1 := I_Unlinked 0, 2 := I_Opened 0)))"
    using instance_reachable.step[OF 3 instance_step.destroy, of 1 0] by (simp add: fun_upd_twist)
  have 5: "instance_reachable (processes None 1 (\<lambda>_. None) (?f(1 := I_Ended, 2 := I_Opened 0)))"
    using instance_reachable.step[OF 4 instance_step.end_main, of 1 0] by (simp add: fun_upd_twist)
  have 6: "instance_reachable (processes None 1 [0 \<mapsto> 2] (?f(1 := I_Ended, 2 := I_Running 0)))"
    using instance_reachable.step[OF 5 instance_step.lock_taken, of 2 0] by simp
  have 7: "instance_reachable (processes (Some 1) 2 [0 \<mapsto> 2] (?f(1 := I_Ended, 2 := I_Running 0, 3 := I_Opened 1)))"
    using instance_reachable.step[OF 6 instance_step.create_file, of 3] by (simp add: numeral_2_eq_2)
  have "instance_reachable (processes (Some 1) 2 [0 \<mapsto> 2, 1 \<mapsto> 3] (?f(1 := I_Ended, 2 := I_Running 0, 3 := I_Running 1)))"
    using instance_reachable.step[OF 7 instance_step.lock_taken, of 3 1] by simp
  then show ?thesis by (intro exI conjI, assumption) simp_all
qed

end
