(* ===== verification/Tcp_Server_Threads.thy ===== *)
theory Tcp_Server_Threads
  imports Network_Io
begin

text \<open>
  The parts of \<open>source/core/network\<close> that the Linux build of the exchange does not use: the
  listener on \<open>select\<close> (\<open>io_listener_select.cpp\<close>, the listener of the Windows build) and the server
  with one thread per client (\<open>tcp_server_thread_per_client.h\<close>, \<open>.cpp\<close>, without a user).
\<close>

section \<open>The select listener\<close>

definition FD_SETSIZE :: nat where
  "FD_SETSIZE = 1024"

text \<open>\<open>fd_set\<close> is an array of \<open>FD_SETSIZE\<close> bits; a descriptor outside of it is not checked.\<close>

record IOListenerSelect =
  m_timeout_seconds :: clong
  m_timeout_microseconds :: clong
  m_clientsReadSet :: "bool list"

definition Select_reset :: "IOListenerSelect \<Rightarrow> IOListenerSelect" where
  "Select_reset l = l\<lparr>m_clientsReadSet := replicate FD_SETSIZE False\<rparr>"

definition Select_setTimeout :: "clong \<Rightarrow> IOListenerSelect \<Rightarrow> IOListenerSelect" where
  "Select_setTimeout microSeconds l =
     l\<lparr>m_timeout_seconds := word_of_int (sgn (sint microSeconds) * (\<bar>sint microSeconds\<bar> div 1000000)),
       m_timeout_microseconds := 0\<rparr>"

definition IOListenerSelect_new :: "IOListenerSelect \<Rightarrow> IOListenerSelect" where
  "IOListenerSelect_new mem = Select_setTimeout 50000 (Select_reset mem)"

definition set_read_bit :: "int \<Rightarrow> bool \<Rightarrow> IOListenerSelect \<Rightarrow> IOListenerSelect result" where
  "set_read_bit fd b l =
     (if 0 \<le> fd \<and> nat fd < length (m_clientsReadSet l)
      then Inr (l\<lparr>m_clientsReadSet := (m_clientsReadSet l)[nat fd := b]\<rparr>) else Inl Out_of_bounds)"

definition setFileDescriptor :: "int \<Rightarrow> IOListenerSelect \<Rightarrow> IOListenerSelect result" where
  "setFileDescriptor fd l = set_read_bit fd True l"

definition clearFileDescriptor :: "int \<Rightarrow> IOListenerSelect \<Rightarrow> IOListenerSelect result" where
  "clearFileDescriptor fd l = set_read_bit fd False l"

definition isFileDescriptorReady :: "int \<Rightarrow> IOListenerSelect \<Rightarrow> bool result" where
  "isFileDescriptorReady fd l = (if 0 \<le> fd then vec_at (m_clientsReadSet l) (nat fd) else Inl Out_of_bounds)"

text \<open>
  \<open>eventReady\<close>: \<open>select\<close> looks at the descriptors up to the given one and leaves in the set those
  that are readable; on failure the set is unchanged. \<open>readable\<close> is what the system reports.
\<close>

definition eventReady :: "int \<Rightarrow> (int \<Rightarrow> bool) option \<Rightarrow> IOListenerSelect \<Rightarrow> int \<times> IOListenerSelect" where
  "eventReady maxSocketDescriptor readable l =
     (case readable of
        None \<Rightarrow> (- 1, l)
      | Some r \<Rightarrow>
          let ready = map (\<lambda>i. m_clientsReadSet l ! i \<and> int i \<le> maxSocketDescriptor \<and> r (int i)) [0..<length (m_clientsReadSet l)]
          in (int (length (filter id ready)), l\<lparr>m_clientsReadSet := ready\<rparr>))"

text \<open>
  \<open>setTimeout\<close> drops the microseconds, so the 50 ms of the constructor are no timeout at all and
  \<open>eventReady\<close> polls.
\<close>

lemma select_timeout_dropped:
  "m_timeout_seconds (IOListenerSelect_new mem) = 0" "m_timeout_microseconds (IOListenerSelect_new mem) = 0"
proof -
  have "sint (50000 :: clong) = 50000" by code_simp
  then show "m_timeout_seconds (IOListenerSelect_new mem) = 0" "m_timeout_microseconds (IOListenerSelect_new mem) = 0"
    by (simp_all add: IOListenerSelect_new_def Select_setTimeout_def)
qed

text \<open>A watched descriptor is reported ready exactly when it is readable and in the range of the call.\<close>

lemma select_reports_readable:
  assumes "setFileDescriptor fd l = Inr l1" "eventReady maxFd (Some r) l1 = (n, l2)"
  shows "isFileDescriptorReady fd l2 = Inr (fd \<le> maxFd \<and> r fd)"
  using assms by (auto simp: setFileDescriptor_def set_read_bit_def eventReady_def isFileDescriptorReady_def vec_at_def Let_def
      split: if_splits)

section \<open>One thread per client\<close>

text \<open>\<open>None\<close> among the threads is a pointer that has been moved from.\<close>

record TCPServerThreadPerClient = TCPServer +
  m_acceptorThread :: "Thread option"
  m_clientThreads :: "Thread option list"

text \<open>
  \<open>start\<close>: \<open>created\<close> is the id of the new thread. \<open>onClientConnected\<close> moves the pointer to the new
  thread into the list of threads and then uses the moved pointer.
\<close>

definition ThreadPerClient_start ::
  "int \<Rightarrow> int \<Rightarrow> nat option \<Rightarrow> TCPServerThreadPerClient \<Rightarrow> (bool \<times> TCPServerThreadPerClient) result" where
  "ThreadPerClient_start bindResult listenResult created srv =
     (let (started, srv1) = TCPServer_start bindResult listenResult srv
      in if \<not> started then Inr (False, srv1)
         else res_bind (Thread_start created (Thread_new ''TCP_ACCEPTOR'')) (\<lambda>thread.
              Inr (True, srv1\<lparr>m_acceptorThread := Some thread\<rparr>)))"

definition ThreadPerClient_onClientConnected ::
  "nat option \<Rightarrow> nat \<Rightarrow> TCPServerThreadPerClient \<Rightarrow> TCPServerThreadPerClient result" where
  "ThreadPerClient_onClientConnected created peerIndex srv =
     (let clientHandlerThread = Some (Thread_new ''TCP_WORKER'');
          srv1 = srv\<lparr>m_clientThreads := m_clientThreads srv @ [clientHandlerThread]\<rparr>;
          clientHandlerThread = None
      in case clientHandlerThread of
           None \<Rightarrow> Inl Null_dereference
         | Some thread \<Rightarrow> res_bind (Thread_start created thread) (\<lambda>thread'.
             Inr (srv1\<lparr>m_clientThreads := (m_clientThreads srv1)[length (m_clientThreads srv) := Some thread']\<rparr>)))"

definition ThreadPerClient_onClientDisconnected :: "nat \<Rightarrow> TCPServerThreadPerClient \<Rightarrow> TCPServerThreadPerClient result" where
  "ThreadPerClient_onClientDisconnected peerIndex srv = removePeer peerIndex srv"

text \<open>One iteration of \<open>acceptThread\<close>; \<open>None\<close> when the loop is left.\<close>

definition acceptThread_turn ::
  "int option \<Rightarrow> nat option \<Rightarrow> TCPServerThreadPerClient \<Rightarrow> TCPServerThreadPerClient option result" where
  "acceptThread_turn peerSocketDesc created srv =
     (if m_isStopping srv then Inr None
      else res_bind (acceptNewConnection (ThreadPerClient_onClientConnected created) peerSocketDesc srv) (\<lambda>srv'. Inr (Some srv')))"

definition ThreadPerClient_stop :: "TCPServerThreadPerClient \<Rightarrow> TCPServerThreadPerClient result" where
  "ThreadPerClient_stop srv =
     (let srv1 = TCPServer_stop srv
      in case m_acceptorThread srv1 of
           None \<Rightarrow> Inl Null_dereference
         | Some acceptor \<Rightarrow>
             if None \<in> set (m_clientThreads srv1) then Inl Null_dereference
             else Inr (srv1\<lparr>m_acceptorThread := Some (Thread_join acceptor),
                            m_clientThreads := map (map_option Thread_join) (m_clientThreads srv1)\<rparr>))"

text \<open>The first client ends the server: the moved-from pointer is dereferenced on every connection.\<close>

lemma first_client_crashes:
  assumes "\<not> m_isStopping srv" "m_state (m_socket srv) = LISTENING"
  shows "acceptThread_turn (Some fd) created srv = Inl Null_dereference"
  using assms by (simp add: acceptThread_turn_def acceptNewConnection_def Socket_accept_def ThreadPerClient_onClientConnected_def
      split_beta Let_def)

end
