(* ===== verification/Memory.thy ===== *)
theory Memory
  imports Prelude
begin

text \<open>
  Alignment and aligned allocation (\<open>source/core/memory/cpu_memory.h\<close>,
  \<open>heap_memory_cache_aligned_allocators.hpp\<close>, 64 bit build with GCC). The allocator of the system is
  an argument: for an alignment and a size it gives the address of a block, or nothing.
\<close>

definition CACHE_LINE_SIZE :: csize where
  "CACHE_LINE_SIZE = 64"

definition getCPUWordSize :: csize where
  "getCPUWordSize = 8"

text \<open>The loop of \<open>alignToTargetCPUWordSize\<close> for \<open>size_t\<close>; its counter may wrap around to 0.\<close>

definition align_distance :: "csize \<Rightarrow> nat" where
  "align_distance n = (8 - unat n mod 8) mod 8"

lemma round_up_step: "a mod 8 \<noteq> 0 \<Longrightarrow> Suc ((8 - Suc a mod 8) mod 8) = (8 - a mod 8) mod 8" for a :: nat
  using mod_less_divisor[of 8 a] by (auto simp: mod_Suc)

lemma round_up_eq: "a + (8 - a mod 8) mod 8 = (a + 7) div 8 * 8" for a :: nat
proof -
  define q r where "q = a div 8" and "r = a mod 8"
  have a: "a = q * 8 + r" and r: "r < 8" by (simp_all add: q_def r_def)
  have "(a + 7) div 8 = q + (r + 7) div 8" unfolding a by (simp add: add.assoc div_mult_self3)
  moreover have "(r + 7) div 8 = (if r = 0 then 0 else 1)" using r by auto
  moreover have "a mod 8 = r" by (simp add: r_def)
  ultimately show ?thesis using r a by auto
qed

lemma align_distance_step:
  assumes "n mod getCPUWordSize \<noteq> 0"
  shows "Suc (align_distance (n + 1)) = align_distance n"
proof -
  have m: "unat (n mod getCPUWordSize) = unat n mod 8" by (simp add: getCPUWordSize_def unat_mod)
  have r: "unat n mod 8 \<noteq> 0"
  proof
    assume "unat n mod 8 = 0"
    with m have "n mod getCPUWordSize = 0" by (simp add: unat_eq_zero)
    with assms show False by simp
  qed
  have "unat (n + 1) mod 8 = (unat n + 1) mod 2 ^ 64 mod 8" by (simp add: unat_word_ariths)
  also have "\<dots> = (unat n + 1) mod 8" by (rule mod_mod_cancel) simp
  finally show ?thesis using round_up_step[OF r] unfolding align_distance_def by simp
qed

function alignToTargetCPUWordSize :: "csize \<Rightarrow> csize" where
  "alignToTargetCPUWordSize alignedNumber =
     (if alignedNumber mod getCPUWordSize \<noteq> 0 then alignToTargetCPUWordSize (alignedNumber + 1) else alignedNumber)"
  by pat_completeness auto

termination
  by (relation "measure align_distance") (auto dest: align_distance_step)

declare alignToTargetCPUWordSize.simps [simp del]

unbundle bit_operations_syntax

definition IS_POWER_OF_TWO :: "csize \<Rightarrow> bool" where
  "IS_POWER_OF_TWO n = (if n \<noteq> 0 \<and> n AND (n - 1) = 0 then True else False)"

definition alignedMalloc :: "(csize \<Rightarrow> csize \<Rightarrow> csize option) \<Rightarrow> csize \<Rightarrow> csize \<Rightarrow> csize result" where
  "alignedMalloc posix_memalign sz alignment =
     (case posix_memalign alignment sz of None \<Rightarrow> Inl Std_bad_alloc | Some ptr \<Rightarrow> Inr ptr)"

text \<open>\<open>std::numeric_limits<int>::max() / sizeof(value_type)\<close>.\<close>

definition AlignedAllocator_max_size :: "csize \<Rightarrow> csize" where
  "AlignedAllocator_max_size sizeof_T = 0x7FFFFFFF div sizeof_T"

text \<open>\<open>allocate\<close>: the null pointer for no elements.\<close>

definition AlignedAllocator_allocate ::
  "(csize \<Rightarrow> csize \<Rightarrow> csize option) \<Rightarrow> csize \<Rightarrow> csize \<Rightarrow> csize \<Rightarrow> csize option result" where
  "AlignedAllocator_allocate posix_memalign sizeof_T alignment n =
     (if n = 0 then Inr None
      else if AlignedAllocator_max_size sizeof_T < n then Inl Std_length_error
      else res_bind (alignedMalloc posix_memalign (n * sizeof_T) alignment) (\<lambda>pv. Inr (Some pv)))"

section \<open>Lemmas\<close>

text \<open>The loop rounds up to the next multiple of eight, unless it wraps around to 0.\<close>

lemma alignToTargetCPUWordSize_distance:
  "alignToTargetCPUWordSize n = n + of_nat (align_distance n)"
proof (induction n rule: alignToTargetCPUWordSize.induct)
  case (1 n)
  show ?case
  proof (cases "n mod getCPUWordSize = 0")
    case True
    then have "unat (n mod getCPUWordSize) = 0" by simp
    then have "unat n mod 8 = 0" by (simp add: getCPUWordSize_def unat_mod)
    with True show ?thesis by (simp add: alignToTargetCPUWordSize.simps align_distance_def)
  next
    case False
    from 1[OF False] False show ?thesis
      by (simp add: alignToTargetCPUWordSize.simps flip: align_distance_step[OF False])
  qed
qed

lemma and_pred_nat: "0 < x \<Longrightarrow> x AND (x - 1) = 0 \<longleftrightarrow> (\<exists>k. x = 2 ^ k)" for x :: nat
proof (induction x rule: less_induct)
  case (less x)
  show ?case
  proof (cases "even x")
    case True
    then obtain y where x: "x = 2 * y" by (elim evenE)
    then have y: "0 < y" "y < x" using less.prems by auto
    have "(x - 1) div 2 = y - 1" "odd (x - 1)" using x y by presburger+
    then have "x AND (x - 1) = 2 * (y AND (y - 1))" using x by (subst and_rec) simp
    then have "x AND (x - 1) = 0 \<longleftrightarrow> (\<exists>k. y = 2 ^ k)" using less.IH[OF y(2,1)] by simp
    also have "\<dots> \<longleftrightarrow> (\<exists>k. x = 2 ^ k)"
    proof
      assume "\<exists>k. x = 2 ^ k"
      then obtain k where k: "x = 2 ^ k" by blast
      then have "k \<noteq> 0" using True by (metis even_power odd_one power_0)
      then show "\<exists>k. y = 2 ^ k" using k x by (cases k) auto
    qed (use x in \<open>metis power_Suc\<close>)
    finally show ?thesis .
  next
    case False
    then obtain y where x: "x = 2 * y + 1" by (elim oddE)
    then have "x AND (x - 1) = 2 * y" by (subst and_rec) simp
    moreover have "(\<exists>k. x = 2 ^ k) \<longleftrightarrow> x = 1" using False by (auto intro: exI[of _ 0])
    ultimately show ?thesis using x by auto
  qed
qed

section \<open>Properties\<close>

text \<open>Alignment to the word size. The loop ends for every size, also where its counter wraps around,
  and rounds up to the next multiple of eight modulo the range of the type.\<close>

theorem alignToTargetCPUWordSize_rounds_up:
  "unat (alignToTargetCPUWordSize n) = (unat n + 7) div 8 * 8 mod 2 ^ 64"
proof -
  have d: "unat n + align_distance n = (unat n + 7) div 8 * 8" unfolding align_distance_def by (rule round_up_eq)
  have "unat (alignToTargetCPUWordSize n) = (unat n + align_distance n) mod 2 ^ 64"
    by (simp add: alignToTargetCPUWordSize_distance unat_word_ariths unat_of_nat mod_simps)
  then show ?thesis by (simp add: d)
qed

text \<open>The test for a power of two, which guards every alignment, is exact on all 64 bit values.\<close>

theorem IS_POWER_OF_TWO_exact: "IS_POWER_OF_TWO n \<longleftrightarrow> (\<exists>k < 64. n = 2 ^ k)"
proof (cases "n = 0")
  case True
  have "(2 :: csize) ^ k \<noteq> 0" if "k < 64" for k using that by (simp add: exp_eq_zero_iff)
  with True show ?thesis by (auto simp: IS_POWER_OF_TWO_def)
next
  case False
  then have n: "0 < unat n" "unat (n - 1) = unat n - 1" by (simp_all add: unat_gt_0 unat_minus_one)
  have "IS_POWER_OF_TWO n \<longleftrightarrow> unat (n AND (n - 1)) = 0" using False by (simp add: IS_POWER_OF_TWO_def unat_eq_zero)
  also have "\<dots> \<longleftrightarrow> unat n AND (unat n - 1) = 0" by (simp add: unsigned_and_eq n(2))
  also have "\<dots> \<longleftrightarrow> (\<exists>k. unat n = 2 ^ k)" by (rule and_pred_nat[OF n(1)])
  also have "\<dots> \<longleftrightarrow> (\<exists>k < 64. n = 2 ^ k)"
  proof
    assume "\<exists>k. unat n = 2 ^ k"
    then obtain k where k: "unat n = 2 ^ k" by blast
    have "unat n < 2 ^ 64" using unsigned_less[of n, where 'a = nat] by simp
    then have "(2 :: nat) ^ k < 2 ^ 64" using k by simp
    then have "k < 64" by (rule power_less_imp_less_exp[rotated]) simp
    moreover have "n = 2 ^ k" using k by (metis of_nat_numeral of_nat_power of_nat_unat ucast_id)
    ultimately show "\<exists>k < 64. n = 2 ^ k" by blast
  next
    assume "\<exists>k < 64. n = 2 ^ k"
    then obtain k where "k < 64" "n = 2 ^ k" by blast
    then have "n = of_nat (2 ^ k)" "(2 :: nat) ^ k < 2 ^ 64" by (simp, intro power_strict_increasing) simp_all
    then have "unat n = 2 ^ k" by (simp only: unat_of_nat) simp
    then show "\<exists>k. unat n = 2 ^ k" by blast
  qed
  finally show ?thesis .
qed

text \<open>The allocator asks for what its caller needs. A block of at least one element that is returned is
  one the system gave for the exact product of the count and the element size: the product does not
  wrap around, because the count is tested against the largest \<open>int\<close> first.\<close>

theorem allocate_does_not_overflow:
  assumes "AlignedAllocator_allocate posix_memalign sizeof_T alignment n = Inr (Some p)" "sizeof_T \<noteq> 0"
  shows "posix_memalign alignment (n * sizeof_T) = Some p \<and> unat (n * sizeof_T) = unat n * unat sizeof_T \<and>
    unat n * unat sizeof_T < 2 ^ 31"
proof -
  have n: "n \<le> 0x7FFFFFFF div sizeof_T" and p: "posix_memalign alignment (n * sizeof_T) = Some p"
    using assms(1) by (auto simp: AlignedAllocator_allocate_def AlignedAllocator_max_size_def alignedMalloc_def not_less
        split: if_splits option.splits)
  have "unat n \<le> 0x7FFFFFFF div unat sizeof_T" using n by (simp add: word_le_nat_alt unat_div)
  then have "unat n * unat sizeof_T \<le> 0x7FFFFFFF div unat sizeof_T * unat sizeof_T" by (rule mult_le_mono1)
  also have "\<dots> \<le> 0x7FFFFFFF" by (rule div_times_less_eq_dividend)
  finally have m: "unat n * unat sizeof_T \<le> 0x7FFFFFFF" .
  then have "unat (n * sizeof_T) = unat n * unat sizeof_T" by (simp add: unat_word_ariths)
  with p m show ?thesis by simp
qed

theorem allocate_does_not_overflow_witness:
  "AlignedAllocator_allocate (\<lambda>_ _. Some 0x1000) 24 CACHE_LINE_SIZE 10 = Inr (Some 0x1000) \<and> unat (10 * 24 :: csize) = 240"
proof -
  have a: "AlignedAllocator_allocate (\<lambda>_ _. Some 0x1000) 24 CACHE_LINE_SIZE 10 = Inr (Some 0x1000)"
    by (simp add: AlignedAllocator_allocate_def AlignedAllocator_max_size_def alignedMalloc_def)
  from allocate_does_not_overflow[OF a] a show ?thesis by simp
qed

end
