(* ===== verification/Spec2Isabelle.thy ===== *)
theory Spec2Isabelle
  imports Server_Ownership Server_Run Session_Sharing Observer Spsc_Interleaving Logger Single_Instance Tcp_Server_Threads Memory
begin

text \<open>
  A verification of liteExchange, a matching engine in C++ that takes orders over the FIX protocol
  or from a file (\<open>source/\<close>; the unit tests and the vendored test framework are not part of it).

  \<^bold>\<open>The program.\<close> A reactor thread (\<open>core/network/tcp_server_reactor.cpp\<close>) accepts clients and
  reads their bytes. \<open>fix/\<close> turns bytes into messages, keeps one session per client with its sequence
  numbers, validates messages and answers the administrative ones. Order messages go to
  \<open>server/server_fix.cpp\<close>, which converts them and hands them to the central order book
  (\<open>order_matcher/\<close>). The book of a security is matched on the calling thread, or on the worker
  thread of the security when matching is multithreaded. Reports are pushed into one queue per
  security; the outgoing message processor (\<open>server/server_outgoing_message_processor.cpp\<close>) takes
  them out and sends execution reports to the session that owns the order, or appends them to a
  file in offline mode. \<open>main.cpp\<close> reads the configuration, builds a server and supervises threads.

  \<^bold>\<open>Conventions of the model\<close> (\<open>Prelude\<close>). \<open>int\<close>, \<open>long\<close> and \<open>size_t\<close> are words where arithmetic
  on them can wrap and \<open>int\<close> or \<open>nat\<close> where it cannot; \<open>double\<close> is IEEE binary64 (\<open>Ieee_Double\<close>).
  Everything that can fail returns \<open>cpp_error + 'a\<close>: exceptions, failed assertions, accesses out of
  bounds, null dereferences, and \<open>Spinning\<close> or \<open>Not_terminating\<close> for a call that does not return.
  \<open>is_exception\<close> separates what a handler can catch. What the program gets from outside is a
  parameter: the clock, the results of \<open>recv\<close> and \<open>send\<close>, \<open>errno\<close>, epoll events, files, the number of
  cores, the iteration order of hash tables (any permutation, \<open>is_iteration\<close>) and the contents of
  uninitialised storage (arguments called \<open>mem\<close>). The calls that write log lines are left out of the
  components; what becomes of a log line is modelled with the logger.

  \<^bold>\<open>Theories and the code they model.\<close>
  \<^item> \<open>Cpp_String\<close>, \<open>File_Utility\<close>, \<open>Unordered_Map\<close>: \<open>core/string_utility.h\<close>, \<open>core/file_utility.h\<close>,
    \<open>core/datetime_utility.h\<close> and what is used of the standard library.
  \<^item> \<open>Process_Services\<close>: \<open>core/self_process.h\<close>, \<open>console_utility.h\<close>, \<open>callstack.h\<close>, \<open>pretty_exception.h\<close>,
    \<open>trace.h\<close>, \<open>stopwatch.cpp\<close> and what \<open>main\<close> does with them first; \<open>Observer\<close>:
    \<open>core/design_patterns/observer.hpp\<close>.
  \<^item> \<open>Orders\<close>, \<open>Order_Book\<close>, \<open>Security_Manager\<close>, \<open>Central_Order_Book\<close>: \<open>order_matcher/\<close>. The ladders
    are lists of (price, order) pairs in the order of the multimap. \<open>Order_Book\<close> proves that the
    matching loop returns, leaves an uncrossed book in price and time priority, trades fairly,
    conserves volume and never overfills; \<open>Central_Order_Book\<close> lifts this to every state the engine
    reaches, in both threading modes, and states what each request is answered with.
  \<^item> \<open>Ring_Buffer\<close>, \<open>Spsc_Interleaving\<close>: \<open>core/concurrency/ring_buffer_spsc_lockfree.hpp\<close>, first as a
    refinement of a bounded queue (locale \<open>bounded_queue\<close>), then with its atomic accesses interleaved;
    with a second producer a message can be lost.
  \<^item> \<open>Threads\<close>, \<open>Thread_Pool\<close>: \<open>core/concurrency/thread.cpp\<close>, \<open>actor.h\<close>, \<open>thread_priority.h\<close>,
    \<open>thread_pool.cpp\<close>, \<open>task.h\<close>: names, starts, pinning and joins, ids and cores, wait strategies, with the results of
    the system calls as arguments, and the queues of the workers.
  \<^item> \<open>Spin_Lock\<close>: \<open>core/concurrency/spinlock.hpp\<close> and \<open>core/design_patterns/singleton_dclp.hpp\<close> as
    interleavings of any number of threads. The locale \<open>mutex\<close> is what clients rely on; it gives mutual
    exclusion and the uniqueness of the singleton.
  \<^item> \<open>Queue_Mpsc\<close>: \<open>core/concurrency/queue_mpsc.hpp\<close>, as operations on linked nodes (locale
    \<open>message_queue\<close>) and as an interleaving of producers with the consumer: batches are cut from one
    sequence, in order.
  \<^item> \<open>Shared_Memory\<close>, \<open>Logger\<close>: \<open>core/shared_memory.cpp\<close>, \<open>core/memory/virtual_memory.h\<close>, \<open>core/logger/\<close>.
    Entries are written once, in order and within the mapped file, and a full file is closed and the next one,
    under a new name, begun; the theorems say which lines each log file holds and what the console shows. The
    thread catches up while it runs, and can miss the last lines when it is asked to finish.
  \<^item> \<open>Memory\<close>: \<open>core/memory/cpu_memory.h\<close>, \<open>heap_memory_cache_aligned_allocators.hpp\<close>.
  \<^item> \<open>Single_Instance\<close>: \<open>core/single_instance.cpp\<close> as an interleaving of processes.
  \<^item> \<open>Fix_Constants\<close>, \<open>Fix_Message\<close>, \<open>Fix_Parser\<close>, \<open>Fix_Receive_Cache\<close>, \<open>Fix_Sequence_Store\<close>,
    \<open>Fix_Session\<close>, \<open>Fix_Server_Reactor\<close>: \<open>fix/\<close>. Printing and parsing are inverse, the framer
    recovers the messages of a byte stream, sequence numbers survive a reconnect, and validation
    lets through exactly the messages it should. \<open>Fix_Versions\<close> shows that the version of a message is
    known wherever it comes from.
  \<^item> \<open>Session_Sharing\<close>: a slot of the sessions as the reactor thread and the message processor share it,
    statement by statement: the lock protects a session while its client leaves, not a slot that is
    used again.
  \<^item> \<open>Tcp_Server\<close>: \<open>core/network/socket.cpp\<close>, \<open>tcp_server.cpp\<close>, \<open>tcp_server_reactor.cpp\<close>, the Linux
    build. The slots of peers and of sessions are two interpretations of the locale \<open>slot_table\<close>.
  \<^item> \<open>Network_Io\<close>, \<open>Tcp_Server_Threads\<close>: the rest of \<open>core/network/\<close>: socket options and modes, sending and
    receiving, the epoll listener, start and stop of the server, and the two parts the Linux build
    does not use. \<open>reactor_poll_is_round\<close> shows that the loop over the listener is the round over a
    list of events with which \<open>Tcp_Server\<close> models the reactor. \<open>Socket_Address\<close>: \<open>core/network/address.h\<close>, name
    resolution and byte order; an address arrives as it was sent, and an unknown one listens everywhere.
  \<^item> \<open>Fix_Message_Converter\<close>, \<open>Outgoing_Message_Processor\<close>, \<open>Server\<close>: \<open>server/\<close> and \<open>main.cpp\<close>. \<open>Server\<close>
    puts the parts together: \<open>server_reachable\<close> are the states of the running FIX server, and an
    order is followed from the bytes that bring it to the bytes of the report that acknowledges it.
    \<open>Server_Run\<close> is \<open>ServerFix::run\<close> from start to stop, and the way an exception of the reactor thread takes
    through the supervision and the destructor of the console to the handlers of \<open>main\<close>.
  \<^item> \<open>Order_Ownership\<close>, \<open>Server_Ownership\<close>: every order and report that a reachable server holds belongs to
    a slot of the sessions and to a known security, so the message processor can always do its work;
    but slots are reused, and a report can reach the next client of its slot.
  \<^item> \<open>Configuration\<close>, \<open>Server_Configuration\<close>: \<open>core/configuration.cpp\<close>, \<open>server/server_configuration.h\<close>,
    \<open>server/server_constants.h\<close> and the arguments of the logger. An ini file, with its comments, blank
    lines and padding, reads back as the entries that were written.

  \<^bold>\<open>Concurrency.\<close> Inside the ring buffer, the spin lock, the singleton and the queue of the logger every
  access to shared memory is a step, and memory is sequentially consistent. One level up a step
  is a whole call: an event of the reactor thread, a turn of a worker, a poll of the processor. This
  is exact for the book of a security and the task queues, which are used by one thread or as
  single-producer queues. For sessions it holds while a client is connected or leaves
  (\<open>session_lock_protects\<close>), not when its slot is given to the next client or it logs on again while a
  report is being sent (\<open>session_slot_races\<close>); for the outgoing queues in the multithreaded mode it
  holds only while the two producers do not overlap, which nothing in the code ensures
  (\<open>two_producers_lose_message\<close>).

  \<^bold>\<open>Bounds.\<close> Theorems about the engine hold up to the 2^31st order, where the order number would
  wrap around, and for queue capacities that are powers of two up to 2^30. There is no fuel: loops
  are structural or have a termination proof, and the matching loop is a partial function that is
  proved to return.

  \<^bold>\<open>Not modelled.\<close> Factory and visitor of \<open>core/design_patterns/\<close>, which are interfaces without code,
  and \<open>pool.hpp\<close>, which cannot be compiled; deleted members, macros of the compiler (\<open>core/compiler/\<close>)
  and \<open>make_unique\<close>, which have no behaviour at run time. The Windows branches are left out, but for the
  listener on \<open>select\<close>. The unit tests use a vendored framework and are not part of the program.
\<close>

end
